(* ===== verification/Prelude.thy ===== *)
theory Prelude
  imports Main "HOL-Library.Word" "HOL-Library.Code_Target_Numeral" "HOL-Library.AList" "HOL-Library.Product_Lexorder"
begin

text \<open>
  Shared vocabulary of the anony-mail development: the names of the model's types, Rust's
  \<open>Result\<close>, integer casts, and the generic list lemmas that the components share.

  \<^item> A HOL \<open>char\<close> is one byte, so both \<open>String\<close>/\<open>&str\<close> (UTF-8 bytes) and \<open>Vec<u8>\<close> are
    lists of \<open>char\<close>; \<open>length\<close> is Rust's \<open>len()\<close>.
  \<^item> \<open>DateTime<Utc>\<close> and \<open>Instant\<close> are integers counting nanoseconds, \<open>chrono::Duration\<close>
    and \<open>std::time::Duration\<close> are differences of those; \<open>seconds n\<close> builds one.
  \<^item> \<open>Uuid\<close> is its 128-bit big-endian value, ordered as \<open>Uuid\<close>'s \<open>Ord\<close> orders it.
  \<^item> \<open>usize\<close> lengths are \<open>nat\<close>; \<open>u32\<close>, \<open>u64\<close> are words; \<open>i32\<close>, \<open>i64\<close> are \<open>int\<close>, with
    every \<open>as\<close> cast written out.
\<close>

named_theorems store_simps \<open>effects of store operations on the views\<close>
named_theorems str_simps \<open>equations for the modelled string library\<close>
named_theorems smtp_simps \<open>effects of the SMTP session operations\<close>
named_theorems api_simps \<open>unfolding of request gates and handlers\<close>

type_synonym bytes = string
type_synonym uuid = "128 word"
type_synonym datetime = int
type_synonym duration = int
type_synonym instant = int
type_synonym u32 = "32 word"
type_synonym u64 = "64 word"

datatype ('a, 'e) result = Ok 'a | Err 'e

fun map_ok :: "('a \<Rightarrow> 'b) \<Rightarrow> ('a, 'e) result \<Rightarrow> ('b, 'e) result" where
  "map_ok f (Ok x) = Ok (f x)"
| "map_ok f (Err e) = Err e"

fun map_err :: "('e \<Rightarrow> 'f) \<Rightarrow> ('a, 'e) result \<Rightarrow> ('a, 'f) result" where
  "map_err f (Ok x) = Ok x"
| "map_err f (Err e) = Err (f e)"

definition ok_or :: "'e \<Rightarrow> 'a option \<Rightarrow> ('a, 'e) result" where
  "ok_or e x = (case x of Some v \<Rightarrow> Ok v | None \<Rightarrow> Err e)"

definition seconds :: "int \<Rightarrow> duration" where
  "seconds n = n * 1000000000"

text \<open>Casts: \<open>n as i32\<close> from a length, \<open>x as i64\<close> from a \<open>u64\<close>, \<open>u64::saturating_add\<close>,
  \<open>usize::saturating_add\<close> (64-bit target).\<close>

definition as_i32 :: "nat \<Rightarrow> int" where
  "as_i32 n = sint (word_of_nat n :: 32 word)"

definition as_i64 :: "u64 \<Rightarrow> int" where
  "as_i64 w = sint w"

definition i32_max :: nat where
  "i32_max = 2147483647"

definition u64_max :: nat where
  "u64_max = 18446744073709551615"

definition saturating_add_u64 :: "nat \<Rightarrow> nat \<Rightarrow> nat" where
  "saturating_add_u64 a b = min (a + b) u64_max"

definition saturating_add_usize :: "nat \<Rightarrow> nat \<Rightarrow> nat" where
  "saturating_add_usize a b = min (a + b) u64_max"

text \<open>\<open>iter_mut().find(p)\<close> followed by an update of the element found.\<close>

fun update_first :: "('a \<Rightarrow> bool) \<Rightarrow> ('a \<Rightarrow> 'a) \<Rightarrow> 'a list \<Rightarrow> 'a list" where
  "update_first P f [] = []"
| "update_first P f (x # xs) = (if P x then f x # xs else x # update_first P f xs)"

subsection \<open>Generic lemmas\<close>

lemma map_ok_eq_Ok [simp]: "map_ok f r = Ok y \<longleftrightarrow> (\<exists>x. r = Ok x \<and> y = f x)"
  by (cases r) auto

lemma map_err_eq_Ok [simp]: "map_err f r = Ok y \<longleftrightarrow> r = Ok y"
  by (cases r) auto

lemma map_err_eq_Err [simp]: "map_err f r = Err y \<longleftrightarrow> (\<exists>e. r = Err e \<and> y = f e)"
  by (cases r) auto

lemma ok_or_eq [simp]:
  "ok_or e x = Ok y \<longleftrightarrow> x = Some y"
  "ok_or e x = Err z \<longleftrightarrow> x = None \<and> z = e"
  by (auto simp: ok_or_def split: option.splits)

lemma as_i32_id: "n \<le> i32_max \<Longrightarrow> as_i32 n = int n"
  by (simp add: as_i32_def i32_max_def signed_take_bit_int_eq_self sint_sbintrunc' word_of_nat_eq_iff
      signed_of_nat)

lemma saturating_add_u64_exact: "a + b \<le> u64_max \<Longrightarrow> saturating_add_u64 a b = a + b"
  by (simp add: saturating_add_u64_def)

lemma find_eq_Some_iff:
  assumes "distinct (map f xs)"
  shows "find (\<lambda>x. P x \<and> f x = k) xs = Some y \<longleftrightarrow> y \<in> set xs \<and> P y \<and> f y = k"
  using assms by (induction xs) (auto simp: image_iff)

lemma find_None_filter: "find P xs = None \<longleftrightarrow> filter P xs = []"
  by (induction xs) auto

lemma length_filter_neq_iff: "length (filter P xs) \<noteq> length xs \<longleftrightarrow> (\<exists>x\<in>set xs. \<not> P x)"
  by (metis filter_id_conv filter_True length_filter_less less_irrefl)

lemma length_filter_le_filter:
  assumes "\<And>x. x \<in> set xs \<Longrightarrow> P x \<Longrightarrow> Q x"
  shows "length (filter P xs) \<le> length (filter Q xs)"
  using assms by (induction xs) (auto simp: le_SucI)

lemma filter_map_distinct: "distinct (map f xs) \<Longrightarrow> distinct (map f (filter P xs))"
  by (rule distinct_map_filter)

lemma find_filter_unique:
  assumes "\<And>x y. x \<in> set xs \<Longrightarrow> y \<in> set xs \<Longrightarrow> R x \<Longrightarrow> R y \<Longrightarrow> x = y"
  shows "find R (filter P xs) =
    (case find R xs of None \<Rightarrow> None | Some x \<Rightarrow> if P x then Some x else None)"
  using assms
proof (induction xs)
  case (Cons x xs)
  have "find R (filter P xs) = None" if "R x" "\<not> P x"
    using Cons.prems that unfolding find_None_iff by fastforce
  with Cons show ?case by auto
qed simp

lemma find_append_single:
  "find R (xs @ [y]) = (case find R xs of None \<Rightarrow> if R y then Some y else None | Some x \<Rightarrow> Some x)"
  by (induction xs) auto

lemma find_SomeD: "find P xs = Some x \<Longrightarrow> x \<in> set xs \<and> P x"
  by (metis find_Some_iff nth_mem)

lemma find_unique_eq_Some:
  assumes "\<And>x y. x \<in> set xs \<Longrightarrow> y \<in> set xs \<Longrightarrow> R x \<Longrightarrow> R y \<Longrightarrow> x = y"
  shows "find R xs = Some x \<longleftrightarrow> x \<in> set xs \<and> R x"
  using assms by (induction xs) auto

lemma distinct_mapD: "distinct (map f xs) \<Longrightarrow> x \<in> set xs \<Longrightarrow> y \<in> set xs \<Longrightarrow> f x = f y \<Longrightarrow> x = y"
  by (auto simp: distinct_map inj_on_def)

lemma update_first_map:
  assumes "distinct xs" "\<And>x y. x \<in> set xs \<Longrightarrow> y \<in> set xs \<Longrightarrow> P x \<Longrightarrow> P y \<Longrightarrow> x = y"
  shows "update_first P f xs = map (\<lambda>x. if P x then f x else x) xs"
  using assms
proof (induction xs)
  case (Cons x xs)
  have "map (\<lambda>y. if P y then f y else y) xs = xs" if "P x"
    using Cons.prems that by (intro map_idI) auto
  with Cons show ?case by auto
qed simp

lemma find_map_preserving:
  "(\<And>x. R (f x) \<longleftrightarrow> R x) \<Longrightarrow> find R (map f xs) = map_option f (find R xs)"
  by (induction xs) auto

lemma map_update_first:
  "(\<And>x. P x \<Longrightarrow> k (f x) = k x) \<Longrightarrow> map k (update_first P f xs) = map k xs"
  by (induction xs) auto

lemma set_update_first: "y \<in> set (update_first P f xs) \<Longrightarrow> y \<in> set xs \<or> (\<exists>x\<in>set xs. P x \<and> y = f x)"
  by (induction xs) (auto split: if_splits)

end
