(* ===== verification/Model.thy ===== *)
theory Model
  imports Prelude
begin

text \<open>
  The data of \<open>src/model.rs\<close> and of \<open>src/store/mod.rs\<close>: mailboxes, messages as parsed and as
  stored, attachments, push subscriptions, custom-domain claims and attested devices, the
  per-mailbox quotas and the typed store errors. Field names carry a prefix per struct
  (\<open>mb_\<close> for \<open>Mailbox\<close>, \<open>sm_\<close> for \<open>StoredMessage\<close>, and so on).
\<close>

record mailbox =
  mb_address :: string
  mb_domain :: string
  mb_created_at :: datetime
  mb_expires_at :: datetime
  mb_owner_token_hash :: "string option"
  mb_creator_device_hash :: "string option"

record message_summary =
  su_id :: uuid
  su_mail_from :: string
  su_subject :: "string option"
  su_received_at :: datetime
  su_has_attachments :: bool
  su_seen :: bool

record attachment_meta =
  am_id :: uuid
  am_filename :: "string option"
  am_content_type :: string
  am_size :: int

record stored_message =
  sm_id :: uuid
  sm_mailbox_address :: string
  sm_mail_from :: string
  sm_subject :: "string option"
  sm_message_date :: "datetime option"
  sm_text_body :: "string option"
  sm_html_body :: "string option"
  sm_raw_size :: int
  sm_received_at :: datetime
  sm_seen :: bool
  sm_attachments :: "attachment_meta list"

record attachment =
  at_filename :: "string option"
  at_content_type :: string
  at_content :: bytes

record new_attachment =
  na_filename :: "string option"
  na_content_type :: string
  na_content :: bytes

record new_message =
  nm_mail_from :: string
  nm_subject :: "string option"
  nm_message_date :: "datetime option"
  nm_text_body :: "string option"
  nm_html_body :: "string option"
  nm_raw_size :: int
  nm_raw_content :: "bytes option"
  nm_attachments :: "new_attachment list"

datatype subscription_kind = WebPush | Apns

fun kind_as_str :: "subscription_kind \<Rightarrow> string" where
  "kind_as_str WebPush = ''webpush''"
| "kind_as_str Apns = ''apns''"

definition kind_from_str :: "string \<Rightarrow> (subscription_kind, string) result" where
  "kind_from_str s =
     (if s = ''webpush'' then Ok WebPush
      else if s = ''apns'' then Ok Apns
      else Err (''unknown subscription kind: '' @ s))"

datatype custom_domain_status = Pending | Verified | Failed

fun status_as_str :: "custom_domain_status \<Rightarrow> string" where
  "status_as_str Pending = ''pending''"
| "status_as_str Verified = ''verified''"
| "status_as_str Failed = ''failed''"

definition status_from_str :: "string \<Rightarrow> (custom_domain_status, string) result" where
  "status_from_str s =
     (if s = ''pending'' then Ok Pending
      else if s = ''verified'' then Ok Verified
      else if s = ''failed'' then Ok Failed
      else Err (''unknown custom domain status: '' @ s))"

record custom_domain =
  cd_domain :: string
  cd_status :: custom_domain_status
  cd_claim_token_hash :: string
  cd_txt_token :: string
  cd_created_at :: datetime
  cd_verified_at :: "datetime option"
  cd_last_checked_at :: "datetime option"

record attested_device =
  ad_key_id :: string
  ad_public_key :: bytes
  ad_counter :: int
  ad_created_at :: datetime
  ad_last_seen_at :: datetime

record push_subscription =
  ps_id :: uuid
  ps_mailbox_address :: string
  ps_kind :: subscription_kind
  ps_endpoint :: string
  ps_p256dh :: string
  ps_auth :: string
  ps_created_at :: datetime

text \<open>\<open>src/store/mod.rs\<close>: the two typed markers a store raises, and any other backend error.\<close>

datatype store_error =
    UniqueViolation string
  | SubscriptionLimit u32
  | ForeignKeyViolation string
  | BackendError string

record mailbox_quotas =
  q_max_messages :: u32
  q_max_bytes :: u64

definition UNLIMITED :: mailbox_quotas where
  "UNLIMITED = \<lparr>q_max_messages = 0, q_max_bytes = 0\<rparr>"

definition is_unique_violation :: "store_error \<Rightarrow> bool" where
  "is_unique_violation e \<longleftrightarrow> (case e of UniqueViolation _ \<Rightarrow> True | _ \<Rightarrow> False)"

lemma is_unique_violation_simps [simp]:
  "is_unique_violation (UniqueViolation s)"
  "\<not> is_unique_violation (SubscriptionLimit n)"
  "\<not> is_unique_violation (ForeignKeyViolation s)"
  "\<not> is_unique_violation (BackendError s)"
  by (simp_all add: is_unique_violation_def)

lemma kind_from_str_as_str: "kind_from_str (kind_as_str k) = Ok k"
  by (cases k) (simp_all add: kind_from_str_def)

lemma kind_from_str_Ok_iff: "kind_from_str s = Ok k \<longleftrightarrow> s = kind_as_str k"
  by (cases k) (auto simp: kind_from_str_def split: if_splits)

lemma status_from_str_as_str: "status_from_str (status_as_str k) = Ok k"
  by (cases k) (simp_all add: status_from_str_def)

lemma status_from_str_Ok_iff: "status_from_str s = Ok k \<longleftrightarrow> s = status_as_str k"
  by (cases k) (auto simp: status_from_str_def split: if_splits)

end
