(* ===== verification/Quota.thy ===== *)
theory Quota
  imports Model "HOL-Library.Multiset"
begin

text \<open>
  The drop-oldest quota of \<open>save_message\<close> (\<open>enforce_quotas\<close> in \<open>src/store/memory.rs\<close>): the row
  order, the two drop loops, and the declarative meaning of the quota (\<open>quota_keeps\<close>: how many
  messages are newer than this one, and how many bytes the newer ones and this one hold), which
  mentions neither sorting nor loops. \<open>quota_drops_iff\<close> says that the loops compute it.
\<close>

type_synonym quota_row = "datetime \<times> uuid \<times> nat"

definition row_id :: "quota_row \<Rightarrow> uuid" where
  "row_id r = fst (snd r)"

definition row_size :: "quota_row \<Rightarrow> nat" where
  "row_size r = snd (snd r)"

text \<open>Newest first: descending \<open>(received_at, id)\<close>, as an ascending key.\<close>

definition row_key :: "quota_row \<Rightarrow> int \<times> int" where
  "row_key r = (- fst r, - uint (row_id r))"

definition newest_first :: "quota_row list \<Rightarrow> quota_row list" where
  "newest_first rows = sort_key row_key rows"

definition count_drops :: "u32 \<Rightarrow> quota_row list \<Rightarrow> uuid list" where
  "count_drops max_messages rows =
     (if max_messages > 0 then map row_id (drop (unat max_messages) rows) else [])"

fun byte_drops :: "nat \<Rightarrow> uuid \<Rightarrow> nat \<Rightarrow> quota_row list \<Rightarrow> uuid list" where
  "byte_drops max_bytes new_id running [] = []"
| "byte_drops max_bytes new_id running (r # rows) =
     (let running' = saturating_add_u64 running (row_size r) in
      if running' > max_bytes \<and> row_id r \<noteq> new_id
      then row_id r # byte_drops max_bytes new_id running' rows
      else byte_drops max_bytes new_id running' rows)"

definition quota_drops :: "mailbox_quotas \<Rightarrow> uuid \<Rightarrow> quota_row list \<Rightarrow> uuid list" where
  "quota_drops quotas new_id rows =
     (let sorted_rows = newest_first rows in
      count_drops (q_max_messages quotas) sorted_rows @
      (if q_max_bytes quotas > 0
       then byte_drops (unat (q_max_bytes quotas)) new_id 0 sorted_rows else []))"

subsection \<open>The meaning of the quota\<close>

definition newer_count :: "quota_row list \<Rightarrow> quota_row \<Rightarrow> nat" where
  "newer_count rows r = length (filter (\<lambda>r'. row_key r' < row_key r) rows)"

definition bytes_down_to :: "quota_row list \<Rightarrow> quota_row \<Rightarrow> nat" where
  "bytes_down_to rows r = sum_list (map row_size (filter (\<lambda>r'. row_key r' \<le> row_key r) rows))"

definition quota_keeps :: "mailbox_quotas \<Rightarrow> uuid \<Rightarrow> quota_row list \<Rightarrow> quota_row \<Rightarrow> bool" where
  "quota_keeps quotas new_id rows r \<longleftrightarrow>
     (q_max_messages quotas = 0 \<or> newer_count rows r < unat (q_max_messages quotas)) \<and>
     (q_max_bytes quotas = 0 \<or> row_id r = new_id \<or>
      min (bytes_down_to rows r) u64_max \<le> unat (q_max_bytes quotas))"

subsection \<open>Sorted rows\<close>

lemma row_key_inj: "row_key r = row_key r' \<Longrightarrow> row_id r = row_id r'"
  by (simp add: row_key_def word_uint_eq_iff)

lemma distinct_row_keys: "distinct (map row_id rows) \<Longrightarrow> distinct (map row_key rows)"
  by (induction rows) (auto simp: image_iff dest: row_key_inj)

lemma sorted_wrt_less_sort_key:
  fixes k :: "'a \<Rightarrow> 'b::linorder"
  assumes "distinct (map k xs)"
  shows "sorted_wrt (\<lambda>x y. k x < k y) (sort_key k xs)"
proof -
  have "distinct (map k (sort_key k xs))"
    using assms by (metis distinct_map distinct_sort set_sort)
  then have "sorted_wrt (<) (map k (sort_key k xs))"
    using sorted_sort_key [of k xs] by (simp add: strict_sorted_iff)
  then show ?thesis by (simp add: sorted_wrt_map)
qed

lemma sorted_wrt_nth_iff:
  fixes k :: "'a \<Rightarrow> 'b::linorder"
  assumes "sorted_wrt (\<lambda>x y. k x < k y) xs" "i < length xs" "j < length xs"
  shows "k (xs ! i) < k (xs ! j) \<longleftrightarrow> i < j"
  using assms by (metis not_less_iff_gr_or_eq sorted_wrt_nth_less)

lemma filter_less_sorted:
  fixes k :: "'a \<Rightarrow> 'b::linorder"
  assumes s: "sorted_wrt (\<lambda>x y. k x < k y) xs" and i: "i < length xs"
  shows "filter (\<lambda>y. k y < k (xs ! i)) xs = take i xs"
proof -
  have "filter (\<lambda>y. k y < k (xs ! i)) (take i xs) = take i xs"
    using sorted_wrt_nth_less [OF s] i by (auto simp: in_set_conv_nth intro!: filter_True)
  moreover have "filter (\<lambda>y. k y < k (xs ! i)) (drop i xs) = []"
    using sorted_wrt_nth_iff [OF s] i by (auto simp: in_set_conv_nth filter_empty_conv)
  ultimately show ?thesis by (metis append_Nil2 append_take_drop_id filter_append)
qed

lemma filter_le_sorted:
  fixes k :: "'a \<Rightarrow> 'b::linorder"
  assumes s: "sorted_wrt (\<lambda>x y. k x < k y) xs" and i: "i < length xs"
  shows "filter (\<lambda>y. k y \<le> k (xs ! i)) xs = take (Suc i) xs"
proof -
  have le_iff: "k (xs ! j) \<le> k (xs ! i) \<longleftrightarrow> j \<le> i" if "j < length xs" for j
    using sorted_wrt_nth_iff [OF s i that] by (simp add: not_less [symmetric])
  have "filter (\<lambda>y. k y \<le> k (xs ! i)) (take (Suc i) xs) = take (Suc i) xs"
    using i by (auto simp: in_set_conv_nth le_iff intro!: filter_True)
  moreover have "filter (\<lambda>y. k y \<le> k (xs ! i)) (drop (Suc i) xs) = []"
    using le_iff i by (auto simp: in_set_conv_nth filter_empty_conv)
  ultimately show ?thesis by (metis append_Nil2 append_take_drop_id filter_append)
qed

lemma mset_newest_first [simp]: "mset (newest_first rows) = mset rows"
  by (simp add: newest_first_def)

lemma set_newest_first [simp]: "set (newest_first rows) = set rows"
  by (simp add: newest_first_def)

lemma length_newest_first [simp]: "length (newest_first rows) = length rows"
  by (simp add: newest_first_def)

lemma newer_count_newest_first: "newer_count (newest_first rows) r = newer_count rows r"
  unfolding newer_count_def by (metis mset_filter mset_newest_first size_mset)

lemma bytes_down_to_newest_first: "bytes_down_to (newest_first rows) r = bytes_down_to rows r"
proof -
  have "mset (map row_size (filter P (newest_first rows))) = mset (map row_size (filter P rows))" for P
    by (simp add: mset_filter)
  then show ?thesis unfolding bytes_down_to_def by (metis sum_mset_sum_list)
qed

lemma sorted_newest_first:
  "distinct (map row_id rows) \<Longrightarrow> sorted_wrt (\<lambda>x y. row_key x < row_key y) (newest_first rows)"
  unfolding newest_first_def by (intro sorted_wrt_less_sort_key distinct_row_keys)

subsection \<open>The loops compute the meaning\<close>

lemma byte_drops_iff:
  assumes "running \<le> u64_max"
  shows "x \<in> set (byte_drops cap new_id running rows) \<longleftrightarrow>
     (\<exists>i < length rows. row_id (rows ! i) = x \<and> x \<noteq> new_id \<and>
        min (running + sum_list (map row_size (take (Suc i) rows))) u64_max > cap)"
  using assms
proof (induction rows arbitrary: running)
  case (Cons r rows)
  let ?run = "saturating_add_u64 running (row_size r)"
  let ?P = "\<lambda>n i rs. row_id (rs ! i) = x \<and> x \<noteq> new_id \<and>
        min (n + sum_list (map row_size (take (Suc i) rs))) u64_max > cap"
  have run: "?run \<le> u64_max" by (simp add: saturating_add_u64_def)
  have sat: "min (?run + n) u64_max = min (running + row_size r + n) u64_max" for n
    by (auto simp: saturating_add_u64_def min_def)
  have step: "(\<exists>i < length rows. ?P ?run i rows) \<longleftrightarrow>
      (\<exists>i < length rows. ?P running (Suc i) (r # rows))"
    by (simp add: sat add.assoc)
  have first: "(?run > cap \<and> row_id r \<noteq> new_id \<and> x = row_id r) \<longleftrightarrow> ?P running 0 (r # rows)"
    by (auto simp: saturating_add_u64_def)
  have "x \<in> set (byte_drops cap new_id running (r # rows)) \<longleftrightarrow>
      (?run > cap \<and> row_id r \<noteq> new_id \<and> x = row_id r) \<or>
      x \<in> set (byte_drops cap new_id ?run rows)"
    by (auto simp: Let_def)
  also have "\<dots> \<longleftrightarrow> ?P running 0 (r # rows) \<or> (\<exists>i < length rows. ?P running (Suc i) (r # rows))"
    by (simp only: first Cons.IH [OF run] step)
  also have "\<dots> \<longleftrightarrow> (\<exists>i < length (r # rows). ?P running i (r # rows))"
    by (auto simp: less_Suc_eq_0_disj)
  finally show ?case .
qed simp

lemma count_drops_iff:
  "x \<in> set (count_drops mm rows) \<longleftrightarrow>
     mm > 0 \<and> (\<exists>i < length rows. row_id (rows ! i) = x \<and> unat mm \<le> i)"
proof (cases "mm > 0")
  case True
  have "x \<in> set (map row_id (drop n rows)) \<longleftrightarrow>
      (\<exists>i < length rows. row_id (rows ! i) = x \<and> n \<le> i)" for n
  proof -
    have "(\<exists>j < length rows - n. row_id (rows ! (n + j)) = x) \<longleftrightarrow>
        (\<exists>i < length rows. row_id (rows ! i) = x \<and> n \<le> i)"
      by (metis add.commute le_add1 le_add_diff_inverse less_diff_conv)
    moreover have "x \<in> set (drop n (map row_id rows)) \<longleftrightarrow>
        (\<exists>j < length rows - n. row_id (rows ! (n + j)) = x)"
      by (auto simp: in_set_conv_nth)
    ultimately show ?thesis by (simp add: drop_map)
  qed
  with True show ?thesis by (simp add: count_drops_def)
next
  case False
  then show ?thesis by (simp add: count_drops_def)
qed

theorem quota_drops_iff:
  assumes d: "distinct (map row_id rows)" and r: "r \<in> set rows"
  shows "row_id r \<in> set (quota_drops quotas new_id rows) \<longleftrightarrow> \<not> quota_keeps quotas new_id rows r"
proof -
  let ?xs = "newest_first rows"
  have s: "sorted_wrt (\<lambda>x y. row_key x < row_key y) ?xs" by (rule sorted_newest_first [OF d])
  have dx: "distinct (map row_id ?xs)"
    using d by (metis distinct_map mset_newest_first mset_eq_setD mset_map mset_eq_imp_distinct_iff)
  from r obtain i where i: "i < length ?xs" "?xs ! i = r" by (metis in_set_conv_nth set_newest_first)
  have uniq: "(\<exists>j < length ?xs. row_id (?xs ! j) = row_id r \<and> Q j) \<longleftrightarrow> Q i" for Q
  proof
    assume "\<exists>j < length ?xs. row_id (?xs ! j) = row_id r \<and> Q j"
    then obtain j where j: "j < length ?xs" "map row_id ?xs ! j = map row_id ?xs ! i" "Q j"
      using i by auto
    then have "j = i" using dx i(1) by (metis length_map nth_eq_iff_index_eq)
    with j show "Q i" by simp
  qed (use i in auto)
  have nc: "newer_count rows r = i"
    using filter_less_sorted [OF s i(1)] i
    by (simp add: newer_count_newest_first [of rows r, symmetric]) (simp add: newer_count_def)
  have bd: "bytes_down_to rows r = sum_list (map row_size (take (Suc i) ?xs))"
    using filter_le_sorted [OF s i(1)] i
    by (simp add: bytes_down_to_newest_first [of rows r, symmetric]) (simp add: bytes_down_to_def)
  have cd: "row_id r \<in> set (count_drops (q_max_messages quotas) ?xs) \<longleftrightarrow>
      q_max_messages quotas \<noteq> 0 \<and> unat (q_max_messages quotas) \<le> i"
    by (auto simp only: count_drops_iff uniq word_gt_0)
  have bb: "row_id r \<in> set (byte_drops (unat (q_max_bytes quotas)) new_id 0 ?xs) \<longleftrightarrow>
      row_id r \<noteq> new_id \<and> min (bytes_down_to rows r) u64_max > unat (q_max_bytes quotas)"
    by (simp only: byte_drops_iff [of 0, OF le0] uniq bd add_0)
  show ?thesis
    by (auto simp: quota_drops_def quota_keeps_def Let_def cd bb nc word_gt_0 not_less not_le)
qed

subsection \<open>What the quota guarantees\<close>

lemma filter_nth_take:
  assumes "\<And>i. i < length xs \<Longrightarrow> P (xs ! i) \<longleftrightarrow> i < n"
  shows "filter P xs = take n xs"
proof -
  have "filter P (take n xs) = take n xs"
    using assms by (auto simp: in_set_conv_nth intro!: filter_True)
  moreover have "filter P (drop n xs) = []"
    using assms by (auto simp: in_set_conv_nth filter_empty_conv)
  ultimately show ?thesis by (metis append_Nil2 append_take_drop_id filter_append)
qed

lemma newer_count_nth:
  assumes "distinct (map row_id rows)" "i < length rows"
  shows "newer_count rows (newest_first rows ! i) = i"
  using filter_less_sorted [OF sorted_newest_first [OF assms(1)], of i] assms(2)
  by (simp add: newer_count_newest_first [of rows, symmetric]) (simp add: newer_count_def)

lemma quota_kept_count:
  assumes d: "distinct (map row_id rows)" and m: "q_max_messages quotas \<noteq> 0"
  shows "length (filter (quota_keeps quotas new_id rows) rows) \<le> unat (q_max_messages quotas)"
proof -
  let ?n = "unat (q_max_messages quotas)" and ?K = "quota_keeps quotas new_id rows"
  have "length (filter ?K rows) = length (filter ?K (newest_first rows))"
    by (metis mset_filter mset_newest_first size_mset)
  also have "\<dots> \<le> length (filter (\<lambda>r. newer_count rows r < ?n) (newest_first rows))"
    using m by (intro length_filter_le_filter) (auto simp: quota_keeps_def)
  also have "filter (\<lambda>r. newer_count rows r < ?n) (newest_first rows) = take ?n (newest_first rows)"
    using newer_count_nth [OF d] by (intro filter_nth_take) simp
  finally show ?thesis by simp
qed

lemma sum_list_filter_le:
  fixes f :: "'a \<Rightarrow> nat"
  assumes "\<And>x. x \<in> set xs \<Longrightarrow> P x \<Longrightarrow> Q x"
  shows "sum_list (map f (filter P xs)) \<le> sum_list (map f (filter Q xs))"
  using assms by (induction xs) (auto simp: trans_le_add2)

lemma quota_kept_bytes:
  assumes m: "q_max_bytes quotas \<noteq> 0"
  shows "min (sum_list (map row_size
            (filter (\<lambda>r. quota_keeps quotas new_id rows r \<and> row_id r \<noteq> new_id) rows))) u64_max
         \<le> unat (q_max_bytes quotas)"
proof -
  let ?K = "\<lambda>r. quota_keeps quotas new_id rows r \<and> row_id r \<noteq> new_id"
  show ?thesis
  proof (cases "filter ?K rows")
    case Nil
    then show ?thesis by simp
  next
    case (Cons a as)
    let ?S = "set (filter ?K rows)"
    have fin: "finite (row_key ` ?S)" "row_key ` ?S \<noteq> {}" using Cons by auto
    then obtain r where r: "r \<in> ?S" "row_key r = Max (row_key ` ?S)"
      by (metis (no_types, lifting) Max_in imageE)
    have le: "row_key r' \<le> row_key r" if "r' \<in> set rows" "?K r'" for r'
      unfolding r(2) by (rule Max_ge [OF fin(1)]) (use that in auto)
    have "sum_list (map row_size (filter ?K rows)) \<le> bytes_down_to rows r"
      unfolding bytes_down_to_def by (rule sum_list_filter_le) (rule le)
    moreover have "min (bytes_down_to rows r) u64_max \<le> unat (q_max_bytes quotas)"
      using r(1) m by (auto simp: quota_keeps_def)
    ultimately show ?thesis by linarith
  qed
qed

lemma quota_keeps_newest:
  assumes "\<And>r'. r' \<in> set rows \<Longrightarrow> \<not> row_key r' < row_key r" and "row_id r = new_id"
  shows "quota_keeps quotas new_id rows r"
proof -
  have "newer_count rows r = 0" using assms(1) by (auto simp: newer_count_def filter_empty_conv)
  then show ?thesis
    using assms(2) by (auto simp: quota_keeps_def unat_gt_0)
qed

lemma newer_count_mono:
  "row_key r \<le> row_key r' \<Longrightarrow> newer_count rows r \<le> newer_count rows r'"
  unfolding newer_count_def
  by (intro length_filter_le_filter) (auto intro: less_le_trans)

lemma bytes_down_to_mono:
  "row_key r \<le> row_key r' \<Longrightarrow> bytes_down_to rows r \<le> bytes_down_to rows r'"
  unfolding bytes_down_to_def by (rule sum_list_filter_le) (auto intro: order_trans)

lemma quota_drops_oldest:
  assumes "\<not> quota_keeps quotas new_id rows r" "row_key r \<le> row_key r'" "row_id r' \<noteq> new_id"
  shows "\<not> quota_keeps quotas new_id rows r'"
  using assms newer_count_mono [OF assms(2), of rows] bytes_down_to_mono [OF assms(2), of rows]
  by (auto simp: quota_keeps_def min_le_iff_disj)

lemma quota_kept_total:
  assumes m: "q_max_bytes quotas \<noteq> 0" "unat (q_max_bytes quotas) < u64_max"
    and r: "r \<in> set rows" "quota_keeps quotas new_id rows r" "row_id r \<noteq> new_id"
    and new: "\<And>r'. r' \<in> set rows \<Longrightarrow> row_id r' = new_id \<Longrightarrow> row_key r' \<le> row_key r"
  shows "sum_list (map row_size (filter (quota_keeps quotas new_id rows) rows)) \<le> unat (q_max_bytes quotas)"
proof -
  let ?K = "quota_keeps quotas new_id rows"
  let ?S = "{r \<in> set rows. ?K r \<and> row_id r \<noteq> new_id}"
  have "finite (row_key ` ?S)" by simp
  moreover have "row_key ` ?S \<noteq> {}" using r by blast
  ultimately have fin: "finite (row_key ` ?S)" "row_key ` ?S \<noteq> {}" by blast+
  then obtain x where x: "x \<in> ?S" "row_key x = Max (row_key ` ?S)"
    by (metis (no_types, lifting) Max_in imageE)
  have le: "row_key r' \<le> row_key x" if r': "r' \<in> set rows" "?K r'" for r'
  proof (cases "row_id r' = new_id")
    case True
    have "row_key r \<le> row_key x" unfolding x(2) by (rule Max_ge [OF fin(1)]) (use r in auto)
    with new [OF r'(1) True] show ?thesis by (rule order_trans)
  next
    case False
    then show ?thesis unfolding x(2) by (intro Max_ge [OF fin(1)]) (use r' in auto)
  qed
  have "sum_list (map row_size (filter ?K rows)) \<le> bytes_down_to rows x"
    unfolding bytes_down_to_def by (rule sum_list_filter_le) (rule le)
  moreover have "min (bytes_down_to rows x) u64_max \<le> unat (q_max_bytes quotas)"
    using x(1) m(1) by (auto simp: quota_keeps_def)
  ultimately show ?thesis using m(2) by linarith
qed

end
