(* ===== verification/Store_Trait.thy ===== *)
theory Store_Trait
  imports Quota
begin

text \<open>
  \<open>trait Store\<close> of \<open>src/store/mod.rs\<close>. A \<open>dyn Store\<close> is a record of its methods (\<open>store_ops\<close>) over
  a backend state \<open>'s\<close>; the SMTP session and the HTTP handlers take such a record, as the code
  takes \<open>Arc<dyn Store>\<close>. What the trait's documentation promises is stated on an abstract view of
  the stored data (\<open>sview\<close>: finite maps keyed as the tables are), one \<open>spec_\<close> function or predicate
  per method. A backend is correct when it refines them: that is the locale \<open>store_contract\<close> of
  theory \<open>Store_Contract\<close>.
\<close>

subsection \<open>The method table\<close>

record 's store_ops =
  st_create_mailbox :: "datetime \<Rightarrow> string \<Rightarrow> string \<Rightarrow> datetime \<Rightarrow> string option \<Rightarrow> string option
     \<Rightarrow> 's \<Rightarrow> (mailbox, store_error) result \<times> 's"
  st_get_mailbox :: "string \<Rightarrow> 's \<Rightarrow> (mailbox option, store_error) result"
  st_mailbox_is_active :: "string \<Rightarrow> datetime \<Rightarrow> 's \<Rightarrow> (bool, store_error) result"
  st_extend_mailbox :: "string \<Rightarrow> datetime \<Rightarrow> 's \<Rightarrow> (mailbox option, store_error) result \<times> 's"
  st_delete_mailbox :: "string \<Rightarrow> 's \<Rightarrow> (bool, store_error) result \<times> 's"
  st_rotate_owner_token :: "string \<Rightarrow> string \<Rightarrow> 's \<Rightarrow> (bool, store_error) result \<times> 's"
  st_save_message :: "datetime \<Rightarrow> uuid \<Rightarrow> (nat \<Rightarrow> uuid) \<Rightarrow> string \<Rightarrow> new_message \<Rightarrow> 's
     \<Rightarrow> (stored_message, store_error) result \<times> 's"
  st_list_messages :: "string \<Rightarrow> u32 \<Rightarrow> uuid option \<Rightarrow> 's \<Rightarrow> (message_summary list, store_error) result"
  st_get_message :: "string \<Rightarrow> uuid \<Rightarrow> 's \<Rightarrow> (stored_message option, store_error) result"
  st_get_raw_message :: "string \<Rightarrow> uuid \<Rightarrow> 's \<Rightarrow> (bytes option, store_error) result"
  st_get_attachment :: "string \<Rightarrow> uuid \<Rightarrow> uuid \<Rightarrow> 's \<Rightarrow> (attachment option, store_error) result"
  st_delete_message :: "string \<Rightarrow> uuid \<Rightarrow> 's \<Rightarrow> (bool, store_error) result \<times> 's"
  st_mark_seen :: "string \<Rightarrow> uuid \<Rightarrow> 's \<Rightarrow> (bool, store_error) result \<times> 's"
  st_delete_all_messages :: "string \<Rightarrow> 's \<Rightarrow> (nat, store_error) result \<times> 's"
  st_purge_expired :: "datetime \<Rightarrow> 's \<Rightarrow> (nat, store_error) result \<times> 's"
  st_add_subscription :: "datetime \<Rightarrow> uuid \<Rightarrow> string \<Rightarrow> subscription_kind \<Rightarrow> string \<Rightarrow> string \<Rightarrow> string
     \<Rightarrow> u32 \<Rightarrow> 's \<Rightarrow> (push_subscription, store_error) result \<times> 's"
  st_list_subscriptions :: "string \<Rightarrow> 's \<Rightarrow> (push_subscription list, store_error) result"
  st_delete_subscription :: "string \<Rightarrow> string \<Rightarrow> 's \<Rightarrow> (bool, store_error) result \<times> 's"
  st_create_custom_domain :: "datetime \<Rightarrow> string \<Rightarrow> string \<Rightarrow> string \<Rightarrow> 's
     \<Rightarrow> (custom_domain, store_error) result \<times> 's"
  st_get_custom_domain :: "string \<Rightarrow> 's \<Rightarrow> (custom_domain option, store_error) result"
  st_delete_custom_domain :: "string \<Rightarrow> 's \<Rightarrow> (bool, store_error) result \<times> 's"
  st_custom_domain_is_verified :: "string \<Rightarrow> 's \<Rightarrow> (bool, store_error) result"
  st_record_custom_domain_check :: "string \<Rightarrow> custom_domain_status \<Rightarrow> datetime option \<Rightarrow> datetime \<Rightarrow> 's
     \<Rightarrow> (bool, store_error) result \<times> 's"
  st_list_custom_domains_to_recheck :: "datetime \<Rightarrow> 's \<Rightarrow> (custom_domain list, store_error) result"
  st_upsert_attested_device :: "string \<Rightarrow> bytes \<Rightarrow> datetime \<Rightarrow> 's
     \<Rightarrow> (attested_device, store_error) result \<times> 's"
  st_get_attested_device :: "string \<Rightarrow> 's \<Rightarrow> (attested_device option, store_error) result"
  st_advance_attested_device_counter :: "string \<Rightarrow> int \<Rightarrow> datetime \<Rightarrow> 's
     \<Rightarrow> (bool, store_error) result \<times> 's"
  st_prune_attested_devices :: "datetime \<Rightarrow> 's \<Rightarrow> (nat, store_error) result \<times> 's"
  st_count_active_mailboxes_by_device :: "string \<Rightarrow> datetime \<Rightarrow> 's \<Rightarrow> (nat, store_error) result"
  st_run_maintenance :: "'s \<Rightarrow> (unit, store_error) result \<times> 's"
  st_ping :: "'s \<Rightarrow> (unit, store_error) result"

text \<open>\<open>run_maintenance\<close> and \<open>ping\<close> are the trait's default methods.\<close>

definition default_run_maintenance :: "'s \<Rightarrow> (unit, store_error) result \<times> 's" where
  "default_run_maintenance s = (Ok (), s)"

definition default_ping :: "'s \<Rightarrow> (unit, store_error) result" where
  "default_ping s = Ok ()"

subsection \<open>Rows built by \<open>save_message\<close>\<close>

definition store_attachments ::
  "(nat \<Rightarrow> uuid) \<Rightarrow> new_attachment list \<Rightarrow> attachment_meta list \<times> (uuid \<times> bytes) list" where
  "store_attachments aids atts =
     (map (\<lambda>(i, a). \<lparr>am_id = aids i, am_filename = na_filename a,
              am_content_type = na_content_type a, am_size = as_i32 (length (na_content a))\<rparr>)
        (enumerate 0 atts),
      map (\<lambda>(i, a). (aids i, na_content a)) (enumerate 0 atts))"

definition stored_of_new ::
  "datetime \<Rightarrow> uuid \<Rightarrow> (nat \<Rightarrow> uuid) \<Rightarrow> string \<Rightarrow> new_message \<Rightarrow> stored_message" where
  "stored_of_new now mid aids address message =
     \<lparr>sm_id = mid, sm_mailbox_address = address, sm_mail_from = nm_mail_from message,
      sm_subject = nm_subject message, sm_message_date = nm_message_date message,
      sm_text_body = nm_text_body message, sm_html_body = nm_html_body message,
      sm_raw_size = nm_raw_size message, sm_received_at = now, sm_seen = False,
      sm_attachments = fst (store_attachments aids (nm_attachments message))\<rparr>"

definition summary_of :: "stored_message \<Rightarrow> message_summary" where
  "summary_of m = \<lparr>su_id = sm_id m, su_mail_from = sm_mail_from m, su_subject = sm_subject m,
     su_received_at = sm_received_at m, su_has_attachments = (sm_attachments m \<noteq> []),
     su_seen = sm_seen m\<rparr>"

definition summary_key :: "message_summary \<Rightarrow> int \<times> int" where
  "summary_key m = (- su_received_at m, - uint (su_id m))"

definition message_row :: "stored_message \<Rightarrow> quota_row" where
  "message_row m = (sm_received_at m, sm_id m, nat (max (sm_raw_size m) 0))"

subsection \<open>The abstract view\<close>

text \<open>A stored message with its attachment metadata in the order of the attachment ids (the
  backends return them in different orders), the attachment contents by id, and the retained raw
  bytes.\<close>

record ventry =
  ve_message :: stored_message
  ve_content :: "uuid \<Rightarrow> bytes option"
  ve_raw :: "bytes option"

record sview =
  v_mailbox :: "string \<Rightarrow> mailbox option"
  v_entry :: "string \<Rightarrow> uuid \<Rightarrow> ventry option"
  v_sub :: "string \<Rightarrow> string \<Rightarrow> push_subscription option"
  v_domain :: "string \<Rightarrow> custom_domain option"
  v_device :: "string \<Rightarrow> attested_device option"

definition canon_message :: "stored_message \<Rightarrow> stored_message" where
  "canon_message m = m\<lparr>sm_attachments := sort_key am_id (sm_attachments m)\<rparr>"

text \<open>Error texts differ between backends; only the class of an error is promised.\<close>

fun err_class :: "store_error \<Rightarrow> store_error" where
  "err_class (UniqueViolation _) = UniqueViolation []"
| "err_class (SubscriptionLimit n) = SubscriptionLimit n"
| "err_class (ForeignKeyViolation _) = ForeignKeyViolation []"
| "err_class (BackendError _) = BackendError []"

abbreviation err_of :: "('a, store_error) result \<Rightarrow> ('a, store_error) result" where
  "err_of r \<equiv> map_err err_class r"

subsection \<open>What the methods promise\<close>

definition spec_create_mailbox ::
  "datetime \<Rightarrow> string \<Rightarrow> string \<Rightarrow> datetime \<Rightarrow> string option \<Rightarrow> string option \<Rightarrow> sview
   \<Rightarrow> (mailbox, store_error) result \<times> sview" where
  "spec_create_mailbox now a d ex ow dv v =
     (if v_mailbox v a \<noteq> None then (Err (UniqueViolation []), v)
      else let mb = \<lparr>mb_address = a, mb_domain = d, mb_created_at = now, mb_expires_at = ex,
                     mb_owner_token_hash = ow, mb_creator_device_hash = dv\<rparr>
           in (Ok mb, v\<lparr>v_mailbox := (v_mailbox v)(a \<mapsto> mb)\<rparr>))"

definition spec_is_active :: "string \<Rightarrow> datetime \<Rightarrow> sview \<Rightarrow> bool" where
  "spec_is_active a now v \<longleftrightarrow>
     (case v_mailbox v a of None \<Rightarrow> False | Some m \<Rightarrow> mb_expires_at m > now)"

definition spec_extend_mailbox ::
  "string \<Rightarrow> datetime \<Rightarrow> sview \<Rightarrow> (mailbox option, store_error) result \<times> sview" where
  "spec_extend_mailbox a ex v =
     (case v_mailbox v a of
        None \<Rightarrow> (Ok None, v)
      | Some mb \<Rightarrow> (Ok (Some (mb\<lparr>mb_expires_at := ex\<rparr>)),
          v\<lparr>v_mailbox := (v_mailbox v)(a \<mapsto> mb\<lparr>mb_expires_at := ex\<rparr>)\<rparr>))"

definition forget_mailboxes :: "string set \<Rightarrow> sview \<Rightarrow> sview" where
  "forget_mailboxes A v = v\<lparr>
     v_mailbox := (\<lambda>a. if a \<in> A then None else v_mailbox v a),
     v_entry := (\<lambda>a. if a \<in> A then (\<lambda>_. None) else v_entry v a),
     v_sub := (\<lambda>a. if a \<in> A then (\<lambda>_. None) else v_sub v a)\<rparr>"

definition spec_delete_mailbox :: "string \<Rightarrow> sview \<Rightarrow> (bool, store_error) result \<times> sview" where
  "spec_delete_mailbox a v = (Ok (v_mailbox v a \<noteq> None), forget_mailboxes {a} v)"

definition spec_rotate_owner_token ::
  "string \<Rightarrow> string \<Rightarrow> sview \<Rightarrow> (bool, store_error) result \<times> sview" where
  "spec_rotate_owner_token a h v =
     (case v_mailbox v a of
        None \<Rightarrow> (Ok False, v)
      | Some mb \<Rightarrow> (Ok True,
          v\<lparr>v_mailbox := (v_mailbox v)(a \<mapsto> mb\<lparr>mb_owner_token_hash := Some h\<rparr>)\<rparr>))"

definition expired_mailboxes :: "datetime \<Rightarrow> sview \<Rightarrow> string set" where
  "expired_mailboxes now v = {a. \<exists>m. v_mailbox v a = Some m \<and> mb_expires_at m \<le> now}"

definition spec_purge_expired :: "datetime \<Rightarrow> sview \<Rightarrow> (nat, store_error) result \<times> sview" where
  "spec_purge_expired now v =
     (Ok (card (expired_mailboxes now v)), forget_mailboxes (expired_mailboxes now v) v)"

definition device_mailboxes :: "string \<Rightarrow> datetime \<Rightarrow> sview \<Rightarrow> string set" where
  "device_mailboxes h now v = {a. \<exists>m. v_mailbox v a = Some m \<and>
     mb_creator_device_hash m = Some h \<and> mb_expires_at m > now}"

definition fresh_ids :: "uuid \<Rightarrow> (nat \<Rightarrow> uuid) \<Rightarrow> new_message \<Rightarrow> sview \<Rightarrow> bool" where
  "fresh_ids mid aids m v \<longleftrightarrow>
     (\<forall>a. v_entry v a mid = None) \<and> inj_on aids {..<length (nm_attachments m)} \<and>
     (\<forall>a i e. v_entry v a i = Some e \<longrightarrow>
        (\<forall>j < length (nm_attachments m). ve_content e (aids j) = None))"

definition new_ventry :: "datetime \<Rightarrow> uuid \<Rightarrow> (nat \<Rightarrow> uuid) \<Rightarrow> string \<Rightarrow> new_message \<Rightarrow> ventry" where
  "new_ventry now mid aids a m =
     \<lparr>ve_message = canon_message (stored_of_new now mid aids a m),
      ve_content = map_of (snd (store_attachments aids (nm_attachments m))),
      ve_raw = nm_raw_content m\<rparr>"

definition rows_of_entries :: "(uuid \<Rightarrow> ventry option) \<Rightarrow> quota_row list \<Rightarrow> bool" where
  "rows_of_entries ents rows \<longleftrightarrow> distinct (map row_id rows) \<and>
     set rows = (\<lambda>e. message_row (ve_message e)) ` ran ents"

definition keep_entries ::
  "mailbox_quotas \<Rightarrow> uuid \<Rightarrow> quota_row list \<Rightarrow> (uuid \<Rightarrow> ventry option) \<Rightarrow> uuid \<Rightarrow> ventry option" where
  "keep_entries q mid rows ents i =
     (case ents i of None \<Rightarrow> None
      | Some e \<Rightarrow> if quota_keeps q mid rows (message_row (ve_message e)) then Some e else None)"

definition spec_save_message ::
  "mailbox_quotas \<Rightarrow> datetime \<Rightarrow> uuid \<Rightarrow> (nat \<Rightarrow> uuid) \<Rightarrow> string \<Rightarrow> new_message \<Rightarrow> sview \<Rightarrow> sview \<Rightarrow> bool" where
  "spec_save_message q now mid aids a m v v' \<longleftrightarrow>
     (let ents = (v_entry v a)(mid \<mapsto> new_ventry now mid aids a m) in
      \<exists>rows. rows_of_entries ents rows \<and>
        v' = v\<lparr>v_entry := (v_entry v)(a := keep_entries q mid rows ents)\<rparr>)"

definition newer_than :: "uuid option \<Rightarrow> (uuid \<Rightarrow> ventry option) \<Rightarrow> stored_message \<Rightarrow> bool" where
  "newer_than since ents m =
     (case Option.bind since ents of None \<Rightarrow> True
      | Some e \<Rightarrow> summary_key (summary_of m) < summary_key (summary_of (ve_message e)))"

definition spec_list_messages ::
  "string \<Rightarrow> u32 \<Rightarrow> uuid option \<Rightarrow> sview \<Rightarrow> message_summary list \<Rightarrow> bool" where
  "spec_list_messages a limit since v out \<longleftrightarrow>
     (\<exists>full. sorted_wrt (\<lambda>x y. summary_key x < summary_key y) full \<and>
        set full = {summary_of (ve_message e) | e. e \<in> ran (v_entry v a) \<and>
                      newer_than since (v_entry v a) (ve_message e)} \<and>
        out = (if limit = 0 then full else take (unat limit) full))"

definition spec_get_attachment :: "string \<Rightarrow> uuid \<Rightarrow> uuid \<Rightarrow> sview \<Rightarrow> attachment option" where
  "spec_get_attachment a i j v =
     (case v_entry v a i of None \<Rightarrow> None
      | Some e \<Rightarrow>
        (case find (\<lambda>m. am_id m = j) (sm_attachments (ve_message e)) of None \<Rightarrow> None
         | Some meta \<Rightarrow> map_option (\<lambda>c. \<lparr>at_filename = am_filename meta,
             at_content_type = am_content_type meta, at_content = c\<rparr>) (ve_content e j)))"

definition spec_delete_message ::
  "string \<Rightarrow> uuid \<Rightarrow> sview \<Rightarrow> (bool, store_error) result \<times> sview" where
  "spec_delete_message a i v =
     (Ok (v_entry v a i \<noteq> None),
      v\<lparr>v_entry := (v_entry v)(a := (v_entry v a)(i := None))\<rparr>)"

definition mark_entry :: "ventry \<Rightarrow> ventry" where
  "mark_entry e = e\<lparr>ve_message := (ve_message e)\<lparr>sm_seen := True\<rparr>\<rparr>"

definition spec_mark_seen :: "string \<Rightarrow> uuid \<Rightarrow> sview \<Rightarrow> (bool, store_error) result \<times> sview" where
  "spec_mark_seen a i v =
     (Ok (v_entry v a i \<noteq> None),
      v\<lparr>v_entry := (v_entry v)(a := (v_entry v a)(i := map_option mark_entry (v_entry v a i)))\<rparr>)"

definition spec_delete_all_messages :: "string \<Rightarrow> sview \<Rightarrow> (nat, store_error) result \<times> sview" where
  "spec_delete_all_messages a v =
     (Ok (card (dom (v_entry v a))), v\<lparr>v_entry := (v_entry v)(a := (\<lambda>_. None))\<rparr>)"

definition spec_add_subscription ::
  "datetime \<Rightarrow> uuid \<Rightarrow> string \<Rightarrow> subscription_kind \<Rightarrow> string \<Rightarrow> string \<Rightarrow> string \<Rightarrow> u32 \<Rightarrow> sview
   \<Rightarrow> (push_subscription, store_error) result \<times> sview" where
  "spec_add_subscription now sid a k ep p au cap v =
     (case v_sub v a ep of
        Some old \<Rightarrow> let sub = old\<lparr>ps_kind := k, ps_p256dh := p, ps_auth := au\<rparr>
          in (Ok sub, v\<lparr>v_sub := (v_sub v)(a := (v_sub v a)(ep \<mapsto> sub))\<rparr>)
      | None \<Rightarrow>
          if cap > 0 \<and> card (dom (v_sub v a)) \<ge> unat cap then (Err (SubscriptionLimit cap), v)
          else let sub = \<lparr>ps_id = sid, ps_mailbox_address = a, ps_kind = k, ps_endpoint = ep,
                          ps_p256dh = p, ps_auth = au, ps_created_at = now\<rparr>
               in (Ok sub, v\<lparr>v_sub := (v_sub v)(a := (v_sub v a)(ep \<mapsto> sub))\<rparr>))"

definition spec_delete_subscription ::
  "string \<Rightarrow> string \<Rightarrow> sview \<Rightarrow> (bool, store_error) result \<times> sview" where
  "spec_delete_subscription a ep v =
     (Ok (v_sub v a ep \<noteq> None), v\<lparr>v_sub := (v_sub v)(a := (v_sub v a)(ep := None))\<rparr>)"

definition spec_create_custom_domain ::
  "datetime \<Rightarrow> string \<Rightarrow> string \<Rightarrow> string \<Rightarrow> sview \<Rightarrow> (custom_domain, store_error) result \<times> sview" where
  "spec_create_custom_domain now d h t v =
     (if v_domain v d \<noteq> None then (Err (UniqueViolation []), v)
      else let r = \<lparr>cd_domain = d, cd_status = Pending, cd_claim_token_hash = h, cd_txt_token = t,
                    cd_created_at = now, cd_verified_at = None, cd_last_checked_at = None\<rparr>
           in (Ok r, v\<lparr>v_domain := (v_domain v)(d \<mapsto> r)\<rparr>))"

definition spec_delete_custom_domain :: "string \<Rightarrow> sview \<Rightarrow> (bool, store_error) result \<times> sview" where
  "spec_delete_custom_domain d v =
     (Ok (v_domain v d \<noteq> None), v\<lparr>v_domain := (v_domain v)(d := None)\<rparr>)"

definition spec_is_verified :: "string \<Rightarrow> sview \<Rightarrow> bool" where
  "spec_is_verified d v \<longleftrightarrow>
     (case v_domain v d of None \<Rightarrow> False | Some c \<Rightarrow> cd_status c = Verified)"

definition spec_record_custom_domain_check ::
  "string \<Rightarrow> custom_domain_status \<Rightarrow> datetime option \<Rightarrow> datetime \<Rightarrow> sview
   \<Rightarrow> (bool, store_error) result \<times> sview" where
  "spec_record_custom_domain_check d st va ca v =
     (case v_domain v d of
        None \<Rightarrow> (Ok False, v)
      | Some c \<Rightarrow> (Ok True, v\<lparr>v_domain := (v_domain v)(d \<mapsto>
          c\<lparr>cd_status := st, cd_verified_at := va, cd_last_checked_at := Some ca\<rparr>)\<rparr>))"

definition due_for_recheck :: "datetime \<Rightarrow> custom_domain \<Rightarrow> bool" where
  "due_for_recheck cutoff d \<longleftrightarrow> cd_status d \<noteq> Pending \<and>
     (case cd_last_checked_at d of None \<Rightarrow> True | Some t \<Rightarrow> t \<le> cutoff)"

definition spec_upsert_attested_device ::
  "string \<Rightarrow> bytes \<Rightarrow> datetime \<Rightarrow> sview \<Rightarrow> (attested_device, store_error) result \<times> sview" where
  "spec_upsert_attested_device k pk now v =
     (let d = (case v_device v k of
            Some d \<Rightarrow> d\<lparr>ad_last_seen_at := now\<rparr>
          | None \<Rightarrow> \<lparr>ad_key_id = k, ad_public_key = pk, ad_counter = 0, ad_created_at = now,
                     ad_last_seen_at = now\<rparr>)
      in (Ok d, v\<lparr>v_device := (v_device v)(k \<mapsto> d)\<rparr>))"

definition spec_advance_attested_device_counter ::
  "string \<Rightarrow> int \<Rightarrow> datetime \<Rightarrow> sview \<Rightarrow> (bool, store_error) result \<times> sview" where
  "spec_advance_attested_device_counter k c seen v =
     (case v_device v k of
        None \<Rightarrow> (Ok False, v)
      | Some d \<Rightarrow> if c > ad_counter d
          then (Ok True, v\<lparr>v_device := (v_device v)(k \<mapsto>
                  d\<lparr>ad_counter := c, ad_last_seen_at := seen\<rparr>)\<rparr>)
          else (Ok False, v))"

definition idle_devices :: "datetime \<Rightarrow> sview \<Rightarrow> string set" where
  "idle_devices t v = {k. \<exists>d. v_device v k = Some d \<and> ad_last_seen_at d < t}"

definition spec_prune_attested_devices :: "datetime \<Rightarrow> sview \<Rightarrow> (nat, store_error) result \<times> sview" where
  "spec_prune_attested_devices t v =
     (Ok (card (idle_devices t v)),
      v\<lparr>v_device := (\<lambda>k. if k \<in> idle_devices t v then None else v_device v k)\<rparr>)"

lemma summary_key_message_row:
  "summary_key (summary_of m) = row_key (message_row m)"
  by (simp add: summary_key_def summary_of_def row_key_def message_row_def row_id_def)

subsection \<open>Facts the backends share\<close>

lemma sview_eqI:
  fixes v w :: sview
  assumes "v_mailbox v = v_mailbox w" "\<And>a i. v_entry v a i = v_entry w a i"
    "\<And>a ep. v_sub v a ep = v_sub w a ep" "v_domain v = v_domain w" "v_device v = v_device w"
  shows "v = w"
  using assms by (intro sview.equality) (auto simp: fun_eq_iff)

lemma row_id_message_row [simp]: "row_id (message_row m) = sm_id m"
  by (simp add: row_id_def message_row_def)

lemma quota_keeps_unlimited [simp]: "quota_keeps UNLIMITED mid rows r"
  by (simp add: quota_keeps_def UNLIMITED_def)

lemma message_row_canon [simp]: "message_row (canon_message m) = message_row m"
  by (simp add: canon_message_def message_row_def)

lemma sort_key_eq_Nil: "sort_key f xs = [] \<longleftrightarrow> xs = []"
  by (metis length_0_conv length_sort)

lemma summary_of_canon [simp]: "summary_of (canon_message m) = summary_of m"
  by (simp add: canon_message_def summary_of_def sort_key_eq_Nil)

lemma canon_message_keys [simp]:
  "sm_id (canon_message m) = sm_id m" "sm_mailbox_address (canon_message m) = sm_mailbox_address m"
  by (simp_all add: canon_message_def)

lemma store_attachments_ids:
  "map am_id (fst (store_attachments aids atts)) = map aids [0..<length atts]"
  "map fst (snd (store_attachments aids atts)) = map aids [0..<length atts]"
proof -
  have "map (\<lambda>p. aids (fst p)) (enumerate 0 atts) = map aids (map fst (enumerate 0 atts))"
    by (simp only: map_map comp_def)
  also have "\<dots> = map aids [0..<length atts]" by (simp only: map_fst_enumerate add_0)
  finally have "map (\<lambda>p. aids (fst p)) (enumerate 0 atts) = map aids [0..<length atts]" .
  then show "map am_id (fst (store_attachments aids atts)) = map aids [0..<length atts]"
    "map fst (snd (store_attachments aids atts)) = map aids [0..<length atts]"
    by (simp_all add: store_attachments_def comp_def case_prod_beta)
qed

lemma summary_key_less:
  "summary_key (summary_of m) < summary_key (summary_of m') \<longleftrightarrow>
   sm_received_at m > sm_received_at m' \<or> sm_received_at m = sm_received_at m' \<and> sm_id m > sm_id m'"
  by (auto simp: summary_key_def summary_of_def less_prod_def' word_less_def)

lemma find_sort_key:
  assumes "distinct (map f xs)"
  shows "find (\<lambda>x. f x = k) (sort_key f xs) = find (\<lambda>x. f x = k) xs"
proof -
  have "find (\<lambda>x. f x = k) (sort_key f xs) = Some y \<longleftrightarrow> find (\<lambda>x. f x = k) xs = Some y" for y
    using distinct_mapD [OF assms]
    by (subst (1 2) find_unique_eq_Some) auto
  then show ?thesis by (metis option.exhaust)
qed

lemma find_map_of: "find (\<lambda>p. fst p = k) xs = map_option (Pair k) (map_of xs k)"
  by (induction xs) auto

end
