(* ===== verification/Hash_Map.thy ===== *)
theory Hash_Map
  imports Prelude
begin

text \<open>
  \<open>std::collections::HashMap\<close> as the program uses it. A map is an association list without
  duplicate keys (\<open>hm_invar\<close>): the list order stands for one iteration order of the hash table,
  and no property of the development depends on which one it is. The interface is the locale
  \<open>hash_map\<close>; its laws are discharged for the association lists by the interpretation \<open>hm\<close>, and
  the size bounds that the in-memory tables rely on are proved once inside the locale.
\<close>

type_synonym ('k, 'v) hmap = "('k \<times> 'v) list"

definition hm_empty :: "('k, 'v) hmap" where
  "hm_empty = []"

definition hm_get :: "('k, 'v) hmap \<Rightarrow> 'k \<Rightarrow> 'v option" where
  "hm_get m k = map_of m k"

definition hm_contains_key :: "('k, 'v) hmap \<Rightarrow> 'k \<Rightarrow> bool" where
  "hm_contains_key m k \<longleftrightarrow> map_of m k \<noteq> None"

definition hm_insert :: "'k \<Rightarrow> 'v \<Rightarrow> ('k, 'v) hmap \<Rightarrow> ('k, 'v) hmap" where
  "hm_insert k v m = AList.update k v m"

definition hm_remove :: "'k \<Rightarrow> ('k, 'v) hmap \<Rightarrow> ('k, 'v) hmap" where
  "hm_remove k m = AList.delete k m"

definition hm_retain :: "('k \<Rightarrow> 'v \<Rightarrow> bool) \<Rightarrow> ('k, 'v) hmap \<Rightarrow> ('k, 'v) hmap" where
  "hm_retain P m = filter (\<lambda>(k, v). P k v) m"

definition hm_keys :: "('k, 'v) hmap \<Rightarrow> 'k list" where
  "hm_keys m = map fst m"

definition hm_values :: "('k, 'v) hmap \<Rightarrow> 'v list" where
  "hm_values m = map snd m"

definition hm_len :: "('k, 'v) hmap \<Rightarrow> nat" where
  "hm_len m = length m"

definition hm_invar :: "('k, 'v) hmap \<Rightarrow> bool" where
  "hm_invar m \<longleftrightarrow> distinct (map fst m)"

locale hash_map =
  fixes empty :: "'m"
    and get :: "'m \<Rightarrow> 'k \<Rightarrow> 'v option"
    and insert :: "'k \<Rightarrow> 'v \<Rightarrow> 'm \<Rightarrow> 'm"
    and remove :: "'k \<Rightarrow> 'm \<Rightarrow> 'm"
    and retain :: "('k \<Rightarrow> 'v \<Rightarrow> bool) \<Rightarrow> 'm \<Rightarrow> 'm"
    and keys :: "'m \<Rightarrow> 'k list"
    and len :: "'m \<Rightarrow> nat"
    and invar :: "'m \<Rightarrow> bool"
  assumes get_empty: "get empty k = None"
    and get_insert: "invar m \<Longrightarrow> get (insert k v m) k' = (if k' = k then Some v else get m k')"
    and get_remove: "invar m \<Longrightarrow> get (remove k m) k' = (if k' = k then None else get m k')"
    and get_retain: "invar m \<Longrightarrow> get (retain P m) k =
      (case get m k of None \<Rightarrow> None | Some v \<Rightarrow> if P k v then Some v else None)"
    and keys_dom: "invar m \<Longrightarrow> set (keys m) = dom (get m)"
    and keys_distinct: "invar m \<Longrightarrow> distinct (keys m)"
    and len_keys: "len m = length (keys m)"
    and invar_empty: "invar empty"
    and invar_insert: "invar m \<Longrightarrow> invar (insert k v m)"
    and invar_remove: "invar m \<Longrightarrow> invar (remove k m)"
    and invar_retain: "invar m \<Longrightarrow> invar (retain P m)"
begin

lemma len_card: "invar m \<Longrightarrow> len m = card (dom (get m))"
  by (metis distinct_card keys_distinct keys_dom len_keys)

lemma finite_dom: "invar m \<Longrightarrow> finite (dom (get m))"
  by (metis List.finite_set keys_dom)

lemma dom_insert: "invar m \<Longrightarrow> dom (get (insert k v m)) = Set.insert k (dom (get m))"
  by (auto simp: dom_def get_insert)

lemma dom_retain: "invar m \<Longrightarrow> dom (get (retain P m)) \<subseteq> dom (get m)"
  by (auto simp: dom_def get_retain split: option.splits if_splits)

lemma len_insert: "invar m \<Longrightarrow>
    len (insert k v m) = (if get m k = None then Suc (len m) else len m)"
  by (auto simp: len_card invar_insert dom_insert card_insert_if finite_dom domIff)

lemma len_insert_le: "invar m \<Longrightarrow> len (insert k v m) \<le> Suc (len m)"
  by (simp add: len_insert)

lemma len_retain_le: "invar m \<Longrightarrow> len (retain P m) \<le> len m"
  by (simp add: len_card invar_retain dom_retain card_mono finite_dom)

lemma len_remove_le: "invar m \<Longrightarrow> len (remove k m) \<le> len m"
  by (auto simp: len_card invar_remove finite_dom get_remove intro!: card_mono split: if_splits)

end

lemma map_of_filter_distinct:
  "distinct (map fst m) \<Longrightarrow>
   map_of (filter (\<lambda>(k, v). P k v) m) k =
     (case map_of m k of None \<Rightarrow> None | Some v \<Rightarrow> if P k v then Some v else None)"
proof (induction m)
  case (Cons p m)
  obtain a b where p: "p = (a, b)" by (cases p)
  show ?case
  proof (cases "a = k")
    case True
    with Cons.prems p have "map_of m k = None" by (auto simp: map_of_eq_None_iff)
    with Cons p True show ?thesis by auto
  next
    case False
    with Cons p show ?thesis by auto
  qed
qed simp

interpretation hm: hash_map hm_empty hm_get hm_insert hm_remove hm_retain hm_keys hm_len hm_invar
proof (unfold_locales, goal_cases)
  case (1 k)
  show ?case by (simp add: hm_get_def hm_empty_def)
next
  case (2 m k v k')
  then show ?case by (simp add: hm_get_def hm_insert_def update_conv')
next
  case (3 m k k')
  then show ?case by (simp add: hm_get_def hm_remove_def delete_conv')
next
  case (4 m P k)
  then show ?case by (simp add: hm_get_def hm_retain_def hm_invar_def map_of_filter_distinct)
next
  case (5 m)
  then show ?case by (simp add: hm_keys_def hm_get_def[abs_def] dom_map_of_conv_image_fst)
next
  case (6 m)
  then show ?case by (simp add: hm_keys_def hm_invar_def)
next
  case (7 m)
  show ?case by (simp add: hm_keys_def hm_len_def)
next
  case 8
  show ?case by (simp add: hm_invar_def hm_empty_def)
next
  case (9 m k v)
  then show ?case by (simp add: hm_invar_def hm_insert_def distinct_update)
next
  case (10 m k)
  then show ?case by (simp add: hm_invar_def hm_remove_def distinct_delete)
next
  case (11 m P)
  then show ?case by (simp add: hm_invar_def hm_retain_def distinct_map_filter)
qed

lemmas hm_laws [store_simps] = hm.get_empty hm.get_insert hm.get_remove hm.get_retain
lemmas hm_invars [simp] = hm.invar_empty hm.invar_insert hm.invar_remove hm.invar_retain

lemma hm_contains_key_get: "hm_contains_key m k \<longleftrightarrow> hm_get m k \<noteq> None"
  by (simp add: hm_contains_key_def hm_get_def)

lemma hm_values_ran: "hm_invar m \<Longrightarrow> set (hm_values m) = ran (hm_get m)"
  by (simp add: hm_values_def hm_invar_def hm_get_def[abs_def] ran_distinct)

lemma hm_count_values:
  assumes "hm_invar m"
  shows "length (filter P (hm_values m)) = card {k. \<exists>v. hm_get m k = Some v \<and> P v}"
proof -
  have "{k. \<exists>v. hm_get m k = Some v \<and> P v} = fst ` set (filter (\<lambda>p. P (snd p)) m)"
    using assms by (force simp: hm_get_def hm_invar_def)
  moreover have "distinct (map fst (filter (\<lambda>p. P (snd p)) m))"
    using assms by (simp add: hm_invar_def distinct_map_filter)
  ultimately show ?thesis
    using distinct_card [of "map fst (filter (\<lambda>p. P (snd p)) m)"]
    by (simp add: hm_values_def filter_map comp_def)
qed

lemma hm_get_fold_remove:
  "hm_invar m \<Longrightarrow> hm_invar (fold hm_remove ks m) \<and>
     hm_get (fold hm_remove ks m) k = (if k \<in> set ks then None else hm_get m k)"
  by (induction ks arbitrary: m) (auto simp: hm_laws)

lemma hm_retain_count:
  assumes "hm_invar m"
  shows "hm_len m - hm_len (hm_retain P m) = card {k. \<exists>v. hm_get m k = Some v \<and> \<not> P k v}"
proof -
  have "dom (hm_get (hm_retain P m)) = dom (hm_get m) - {k. \<exists>v. hm_get m k = Some v \<and> \<not> P k v}"
    using assms by (auto simp: dom_def hm_laws split: option.splits if_splits)
  moreover have "{k. \<exists>v. hm_get m k = Some v \<and> \<not> P k v} \<subseteq> dom (hm_get m)" by auto
  ultimately show ?thesis
    using assms hm.finite_dom [OF assms]
    by (simp add: hm.len_card card_Diff_subset finite_subset card_mono)
qed

lemma hm_values_distinct: "hm_invar m \<Longrightarrow> (\<And>k v. hm_get m k = Some v \<Longrightarrow> f v = k) \<Longrightarrow>
    map f (hm_values m) = hm_keys m"
  unfolding hm_values_def hm_keys_def hm_invar_def hm_get_def by auto

end
