(* ===== verification/Memory_Store.thy ===== *)
theory Memory_Store
  imports Store_Trait Hash_Map
begin

text \<open>
  \<open>src/store/memory.rs\<close>: the in-memory \<open>Store\<close>. Every method takes the mutex for its whole
  access to \<open>Inner\<close>, so a method is one atomic function from the state to its result and the next
  state. \<open>Utc::now()\<close> and \<open>Uuid::new_v4()\<close> are inputs: a method that reads the clock takes
  \<open>now\<close>, one that draws identifiers takes them as arguments (\<open>aids i\<close> is the identifier drawn for
  the \<open>i\<close>-th attachment).
\<close>

record mem_entry =
  en_message :: stored_message
  en_contents :: "(uuid \<times> bytes) list"
  en_raw :: "bytes option"

record inner =
  mailboxes :: "(string, mailbox) hmap"
  messages :: "mem_entry list"
  subscriptions :: "push_subscription list"
  custom_domains :: "(string, custom_domain) hmap"
  attested_devices :: "(string, attested_device) hmap"

definition inner_default :: inner where
  "inner_default = \<lparr>mailboxes = hm_empty, messages = [], subscriptions = [],
     custom_domains = hm_empty, attested_devices = hm_empty\<rparr>"

abbreviation en_id :: "mem_entry \<Rightarrow> uuid" where
  "en_id e \<equiv> sm_id (en_message e)"

abbreviation en_address :: "mem_entry \<Rightarrow> string" where
  "en_address e \<equiv> sm_mailbox_address (en_message e)"

definition enforce_quotas :: "inner \<Rightarrow> string \<Rightarrow> uuid \<Rightarrow> mailbox_quotas \<Rightarrow> inner" where
  "enforce_quotas s address new_id quotas =
     (if quotas = UNLIMITED then s
      else let rows = map (\<lambda>e. message_row (en_message e)) (filter (\<lambda>e. en_address e = address) (messages s));
               drop_ids = quota_drops quotas new_id rows
           in if drop_ids \<noteq> []
              then s\<lparr>messages := filter (\<lambda>e. en_id e \<notin> set drop_ids) (messages s)\<rparr>
              else s)"

subsection \<open>Mailboxes\<close>

definition mem_create_mailbox ::
  "datetime \<Rightarrow> string \<Rightarrow> string \<Rightarrow> datetime \<Rightarrow> string option \<Rightarrow> string option \<Rightarrow> inner
   \<Rightarrow> (mailbox, store_error) result \<times> inner" where
  "mem_create_mailbox now address domain expires_at owner_token_hash creator_device_hash s =
     (if hm_contains_key (mailboxes s) address
      then (Err (UniqueViolation (''mailbox already exists: '' @ address)), s)
      else let mailbox = \<lparr>mb_address = address, mb_domain = domain, mb_created_at = now,
                 mb_expires_at = expires_at, mb_owner_token_hash = owner_token_hash,
                 mb_creator_device_hash = creator_device_hash\<rparr>
           in (Ok mailbox, s\<lparr>mailboxes := hm_insert address mailbox (mailboxes s)\<rparr>))"

definition mem_get_mailbox :: "string \<Rightarrow> inner \<Rightarrow> (mailbox option, store_error) result" where
  "mem_get_mailbox address s = Ok (hm_get (mailboxes s) address)"

definition mem_mailbox_is_active :: "string \<Rightarrow> datetime \<Rightarrow> inner \<Rightarrow> (bool, store_error) result" where
  "mem_mailbox_is_active address now s =
     Ok (case hm_get (mailboxes s) address of None \<Rightarrow> False | Some m \<Rightarrow> mb_expires_at m > now)"

definition mem_extend_mailbox ::
  "string \<Rightarrow> datetime \<Rightarrow> inner \<Rightarrow> (mailbox option, store_error) result \<times> inner" where
  "mem_extend_mailbox address new_expires_at s =
     (case hm_get (mailboxes s) address of
        Some mb \<Rightarrow> let mb' = mb\<lparr>mb_expires_at := new_expires_at\<rparr>
                   in (Ok (Some mb'), s\<lparr>mailboxes := hm_insert address mb' (mailboxes s)\<rparr>)
      | None \<Rightarrow> (Ok None, s))"

definition mem_delete_mailbox :: "string \<Rightarrow> inner \<Rightarrow> (bool, store_error) result \<times> inner" where
  "mem_delete_mailbox address s =
     (Ok (hm_get (mailboxes s) address \<noteq> None),
      s\<lparr>mailboxes := hm_remove address (mailboxes s),
        messages := filter (\<lambda>e. en_address e \<noteq> address) (messages s),
        subscriptions := filter (\<lambda>p. ps_mailbox_address p \<noteq> address) (subscriptions s)\<rparr>)"

definition mem_rotate_owner_token ::
  "string \<Rightarrow> string \<Rightarrow> inner \<Rightarrow> (bool, store_error) result \<times> inner" where
  "mem_rotate_owner_token address new_hash s =
     (case hm_get (mailboxes s) address of
        Some mb \<Rightarrow> (Ok True, s\<lparr>mailboxes :=
            hm_insert address (mb\<lparr>mb_owner_token_hash := Some new_hash\<rparr>) (mailboxes s)\<rparr>)
      | None \<Rightarrow> (Ok False, s))"

definition mem_purge_expired :: "datetime \<Rightarrow> inner \<Rightarrow> (nat, store_error) result \<times> inner" where
  "mem_purge_expired now s =
     (let expired = map mb_address (filter (\<lambda>m. mb_expires_at m \<le> now) (hm_values (mailboxes s)))
      in (Ok (length expired),
          s\<lparr>mailboxes := fold hm_remove expired (mailboxes s),
            messages := filter (\<lambda>e. en_address e \<notin> set expired) (messages s),
            subscriptions :=
              filter (\<lambda>p. ps_mailbox_address p \<notin> set expired) (subscriptions s)\<rparr>))"

definition mem_count_active_mailboxes_by_device ::
  "string \<Rightarrow> datetime \<Rightarrow> inner \<Rightarrow> (nat, store_error) result" where
  "mem_count_active_mailboxes_by_device creator_device_hash now s =
     Ok (length (filter (\<lambda>m. mb_creator_device_hash m = Some creator_device_hash
                             \<and> mb_expires_at m > now) (hm_values (mailboxes s))))"

subsection \<open>Messages\<close>

definition mem_save_message ::
  "mailbox_quotas \<Rightarrow> datetime \<Rightarrow> uuid \<Rightarrow> (nat \<Rightarrow> uuid) \<Rightarrow> string \<Rightarrow> new_message \<Rightarrow> inner
   \<Rightarrow> (stored_message, store_error) result \<times> inner" where
  "mem_save_message quotas now mid aids address message s =
     (let stored = stored_of_new now mid aids address message;
          entry = \<lparr>en_message = stored,
                   en_contents = snd (store_attachments aids (nm_attachments message)),
                   en_raw = nm_raw_content message\<rparr>;
          s' = s\<lparr>messages := messages s @ [entry]\<rparr>
      in (Ok stored, enforce_quotas s' address mid quotas))"

definition find_entry :: "string \<Rightarrow> uuid \<Rightarrow> inner \<Rightarrow> mem_entry option" where
  "find_entry address mid s = find (\<lambda>e. en_address e = address \<and> en_id e = mid) (messages s)"

definition mem_list_messages ::
  "string \<Rightarrow> u32 \<Rightarrow> uuid option \<Rightarrow> inner \<Rightarrow> (message_summary list, store_error) result" where
  "mem_list_messages address limit since s =
     (let anchor = Option.bind since (\<lambda>mid. map_option
              (\<lambda>e. (sm_received_at (en_message e), en_id e)) (find_entry address mid s));
          newer = (\<lambda>e. case anchor of None \<Rightarrow> True
              | Some (ts, mid) \<Rightarrow> sm_received_at (en_message e) > ts \<or>
                  (sm_received_at (en_message e) = ts \<and> en_id e > mid));
          summaries = map (\<lambda>e. summary_of (en_message e))
              (filter newer (filter (\<lambda>e. en_address e = address) (messages s)));
          sorted_summaries = sort_key summary_key summaries
      in Ok (if limit > 0 then take (unat limit) sorted_summaries else sorted_summaries))"

definition mem_get_message ::
  "string \<Rightarrow> uuid \<Rightarrow> inner \<Rightarrow> (stored_message option, store_error) result" where
  "mem_get_message address mid s = Ok (map_option en_message (find_entry address mid s))"

definition mem_get_raw_message ::
  "string \<Rightarrow> uuid \<Rightarrow> inner \<Rightarrow> (bytes option, store_error) result" where
  "mem_get_raw_message address mid s = Ok (Option.bind (find_entry address mid s) en_raw)"

definition mem_get_attachment ::
  "string \<Rightarrow> uuid \<Rightarrow> uuid \<Rightarrow> inner \<Rightarrow> (attachment option, store_error) result" where
  "mem_get_attachment address message_id attachment_id s =
     (case find_entry address message_id s of
        None \<Rightarrow> Ok None
      | Some entry \<Rightarrow>
          (case find (\<lambda>a. am_id a = attachment_id) (sm_attachments (en_message entry)) of
             None \<Rightarrow> Ok None
           | Some meta \<Rightarrow>
               (case find (\<lambda>p. fst p = attachment_id) (en_contents entry) of
                  None \<Rightarrow> Ok None
                | Some (_, content) \<Rightarrow> Ok (Some \<lparr>at_filename = am_filename meta,
                    at_content_type = am_content_type meta, at_content = content\<rparr>))))"

definition mem_delete_message ::
  "string \<Rightarrow> uuid \<Rightarrow> inner \<Rightarrow> (bool, store_error) result \<times> inner" where
  "mem_delete_message address mid s =
     (let kept = filter (\<lambda>e. \<not> (en_address e = address \<and> en_id e = mid)) (messages s)
      in (Ok (length kept \<noteq> length (messages s)), s\<lparr>messages := kept\<rparr>))"

definition mem_mark_seen ::
  "string \<Rightarrow> uuid \<Rightarrow> inner \<Rightarrow> (bool, store_error) result \<times> inner" where
  "mem_mark_seen address mid s =
     (case find_entry address mid s of
        Some _ \<Rightarrow> (Ok True, s\<lparr>messages :=
            update_first (\<lambda>e. en_address e = address \<and> en_id e = mid)
              (\<lambda>e. e\<lparr>en_message := (en_message e)\<lparr>sm_seen := True\<rparr>\<rparr>) (messages s)\<rparr>)
      | None \<Rightarrow> (Ok False, s))"

definition mem_delete_all_messages :: "string \<Rightarrow> inner \<Rightarrow> (nat, store_error) result \<times> inner" where
  "mem_delete_all_messages address s =
     (let kept = filter (\<lambda>e. en_address e \<noteq> address) (messages s)
      in (Ok (length (messages s) - length kept), s\<lparr>messages := kept\<rparr>))"

subsection \<open>Push subscriptions\<close>

definition mem_add_subscription ::
  "datetime \<Rightarrow> uuid \<Rightarrow> string \<Rightarrow> subscription_kind \<Rightarrow> string \<Rightarrow> string \<Rightarrow> string \<Rightarrow> u32 \<Rightarrow> inner
   \<Rightarrow> (push_subscription, store_error) result \<times> inner" where
  "mem_add_subscription now sid address kind endpoint p256dh auth max_per_mailbox s =
     (let same = (\<lambda>p. ps_mailbox_address p = address \<and> ps_endpoint p = endpoint);
          refresh = (\<lambda>p. p\<lparr>ps_kind := kind, ps_p256dh := p256dh, ps_auth := auth\<rparr>)
      in case find same (subscriptions s) of
        Some existing \<Rightarrow>
          (Ok (refresh existing), s\<lparr>subscriptions := update_first same refresh (subscriptions s)\<rparr>)
      | None \<Rightarrow>
          let count = length (filter (\<lambda>p. ps_mailbox_address p = address) (subscriptions s))
          in if max_per_mailbox > 0 \<and> count \<ge> unat max_per_mailbox
             then (Err (SubscriptionLimit max_per_mailbox), s)
             else let sub = \<lparr>ps_id = sid, ps_mailbox_address = address, ps_kind = kind,
                        ps_endpoint = endpoint, ps_p256dh = p256dh, ps_auth = auth,
                        ps_created_at = now\<rparr>
                  in (Ok sub, s\<lparr>subscriptions := subscriptions s @ [sub]\<rparr>))"

definition mem_list_subscriptions ::
  "string \<Rightarrow> inner \<Rightarrow> (push_subscription list, store_error) result" where
  "mem_list_subscriptions address s =
     Ok (filter (\<lambda>p. ps_mailbox_address p = address) (subscriptions s))"

definition mem_delete_subscription ::
  "string \<Rightarrow> string \<Rightarrow> inner \<Rightarrow> (bool, store_error) result \<times> inner" where
  "mem_delete_subscription address endpoint s =
     (let kept = filter (\<lambda>p. \<not> (ps_mailbox_address p = address \<and> ps_endpoint p = endpoint))
                   (subscriptions s)
      in (Ok (length kept \<noteq> length (subscriptions s)), s\<lparr>subscriptions := kept\<rparr>))"

subsection \<open>Custom domains\<close>

definition mem_create_custom_domain ::
  "datetime \<Rightarrow> string \<Rightarrow> string \<Rightarrow> string \<Rightarrow> inner \<Rightarrow> (custom_domain, store_error) result \<times> inner" where
  "mem_create_custom_domain now domain claim_token_hash txt_token s =
     (if hm_contains_key (custom_domains s) domain
      then (Err (UniqueViolation (''domain already claimed: '' @ domain)), s)
      else let record = \<lparr>cd_domain = domain, cd_status = Pending,
                 cd_claim_token_hash = claim_token_hash, cd_txt_token = txt_token,
                 cd_created_at = now, cd_verified_at = None, cd_last_checked_at = None\<rparr>
           in (Ok record, s\<lparr>custom_domains := hm_insert domain record (custom_domains s)\<rparr>))"

definition mem_get_custom_domain :: "string \<Rightarrow> inner \<Rightarrow> (custom_domain option, store_error) result" where
  "mem_get_custom_domain domain s = Ok (hm_get (custom_domains s) domain)"

definition mem_delete_custom_domain :: "string \<Rightarrow> inner \<Rightarrow> (bool, store_error) result \<times> inner" where
  "mem_delete_custom_domain domain s =
     (Ok (hm_get (custom_domains s) domain \<noteq> None),
      s\<lparr>custom_domains := hm_remove domain (custom_domains s)\<rparr>)"

definition mem_custom_domain_is_verified :: "string \<Rightarrow> inner \<Rightarrow> (bool, store_error) result" where
  "mem_custom_domain_is_verified domain s =
     Ok (case hm_get (custom_domains s) domain of None \<Rightarrow> False | Some d \<Rightarrow> cd_status d = Verified)"

definition mem_record_custom_domain_check ::
  "string \<Rightarrow> custom_domain_status \<Rightarrow> datetime option \<Rightarrow> datetime \<Rightarrow> inner
   \<Rightarrow> (bool, store_error) result \<times> inner" where
  "mem_record_custom_domain_check domain status verified_at checked_at s =
     (case hm_get (custom_domains s) domain of
        Some d \<Rightarrow> (Ok True, s\<lparr>custom_domains := hm_insert domain
            (d\<lparr>cd_status := status, cd_verified_at := verified_at,
               cd_last_checked_at := Some checked_at\<rparr>) (custom_domains s)\<rparr>)
      | None \<Rightarrow> (Ok False, s))"

definition mem_list_custom_domains_to_recheck ::
  "datetime \<Rightarrow> inner \<Rightarrow> (custom_domain list, store_error) result" where
  "mem_list_custom_domains_to_recheck cutoff s =
     Ok (filter (\<lambda>d. cd_status d \<in> {Verified, Failed} \<and>
            (case cd_last_checked_at d of None \<Rightarrow> True | Some t \<Rightarrow> t \<le> cutoff))
          (hm_values (custom_domains s)))"

subsection \<open>Attested devices\<close>

definition mem_upsert_attested_device ::
  "string \<Rightarrow> bytes \<Rightarrow> datetime \<Rightarrow> inner \<Rightarrow> (attested_device, store_error) result \<times> inner" where
  "mem_upsert_attested_device key_id public_key now s =
     (let device = (case hm_get (attested_devices s) key_id of
            Some d \<Rightarrow> d\<lparr>ad_last_seen_at := now\<rparr>
          | None \<Rightarrow> \<lparr>ad_key_id = key_id, ad_public_key = public_key, ad_counter = 0,
                     ad_created_at = now, ad_last_seen_at = now\<rparr>)
      in (Ok device, s\<lparr>attested_devices := hm_insert key_id device (attested_devices s)\<rparr>))"

definition mem_get_attested_device ::
  "string \<Rightarrow> inner \<Rightarrow> (attested_device option, store_error) result" where
  "mem_get_attested_device key_id s = Ok (hm_get (attested_devices s) key_id)"

definition mem_advance_attested_device_counter ::
  "string \<Rightarrow> int \<Rightarrow> datetime \<Rightarrow> inner \<Rightarrow> (bool, store_error) result \<times> inner" where
  "mem_advance_attested_device_counter key_id counter seen_at s =
     (case hm_get (attested_devices s) key_id of
        Some d \<Rightarrow>
          if counter > ad_counter d
          then (Ok True, s\<lparr>attested_devices := hm_insert key_id
                 (d\<lparr>ad_counter := counter, ad_last_seen_at := seen_at\<rparr>) (attested_devices s)\<rparr>)
          else (Ok False, s)
      | None \<Rightarrow> (Ok False, s))"

definition mem_prune_attested_devices :: "datetime \<Rightarrow> inner \<Rightarrow> (nat, store_error) result \<times> inner" where
  "mem_prune_attested_devices idle_before s =
     (let kept = hm_retain (\<lambda>_ d. ad_last_seen_at d \<ge> idle_before) (attested_devices s)
      in (Ok (hm_len (attested_devices s) - hm_len kept), s\<lparr>attested_devices := kept\<rparr>))"

subsection \<open>The method table of \<open>MemoryStore\<close>\<close>

definition memory_ops :: "mailbox_quotas \<Rightarrow> inner store_ops" where
  "memory_ops quotas = \<lparr>
     st_create_mailbox = mem_create_mailbox,
     st_get_mailbox = mem_get_mailbox,
     st_mailbox_is_active = mem_mailbox_is_active,
     st_extend_mailbox = mem_extend_mailbox,
     st_delete_mailbox = mem_delete_mailbox,
     st_rotate_owner_token = mem_rotate_owner_token,
     st_save_message = mem_save_message quotas,
     st_list_messages = mem_list_messages,
     st_get_message = mem_get_message,
     st_get_raw_message = mem_get_raw_message,
     st_get_attachment = mem_get_attachment,
     st_delete_message = mem_delete_message,
     st_mark_seen = mem_mark_seen,
     st_delete_all_messages = mem_delete_all_messages,
     st_purge_expired = mem_purge_expired,
     st_add_subscription = mem_add_subscription,
     st_list_subscriptions = mem_list_subscriptions,
     st_delete_subscription = mem_delete_subscription,
     st_create_custom_domain = mem_create_custom_domain,
     st_get_custom_domain = mem_get_custom_domain,
     st_delete_custom_domain = mem_delete_custom_domain,
     st_custom_domain_is_verified = mem_custom_domain_is_verified,
     st_record_custom_domain_check = mem_record_custom_domain_check,
     st_list_custom_domains_to_recheck = mem_list_custom_domains_to_recheck,
     st_upsert_attested_device = mem_upsert_attested_device,
     st_get_attested_device = mem_get_attested_device,
     st_advance_attested_device_counter = mem_advance_attested_device_counter,
     st_prune_attested_devices = mem_prune_attested_devices,
     st_count_active_mailboxes_by_device = mem_count_active_mailboxes_by_device,
     st_run_maintenance = default_run_maintenance,
     st_ping = default_ping\<rparr>"

end
