(* ===== verification/Store_Contract.thy ===== *)
theory Store_Contract
  imports Store_Trait
begin

text \<open>
  The contract between a storage backend and its clients, as a locale. \<open>sinv\<close> is the backend's own
  invariant and \<open>view\<close> its abstraction; every method keeps the invariant and does on the view what
  its specification says. A backend that is not \<open>reliable\<close> (a database that can be unreachable)
  may instead fail with a backend error, which then leaves the view as it was. A reliable backend may
  do so only when it is given a timestamp outside the domain \<open>T\<close> that it supports, or a message with a
  negative size. A message or a
  subscription for an address without a mailbox may be refused (the SQL backends have a foreign key)
  or stored (the in-memory backend has none), and a subscription may be refused when \<open>sub_refusable\<close>
  says so. Lemmas proved in the locale hold for every backend
  that meets the contract.
\<close>

definition backend_failed :: "('a, store_error) result \<Rightarrow> bool" where
  "backend_failed r \<longleftrightarrow> (\<exists>t. r = Err (BackendError t))"

definition read_refines :: "bool \<Rightarrow> ('a, store_error) result \<Rightarrow> 'a \<Rightarrow> bool" where
  "read_refines reliable r x \<longleftrightarrow> r = Ok x \<or> (\<not> reliable \<and> backend_failed r)"

definition op_refines ::
  "bool \<Rightarrow> ('s \<Rightarrow> bool) \<Rightarrow> ('s \<Rightarrow> sview) \<Rightarrow> 's \<Rightarrow> ('a, store_error) result \<times> 's
   \<Rightarrow> ('a, store_error) result \<times> sview \<Rightarrow> bool" where
  "op_refines reliable sinv view s res spec \<longleftrightarrow>
     sinv (snd res) \<and>
     ((err_of (fst res), view (snd res)) = spec \<or>
      (\<not> reliable \<and> backend_failed (fst res) \<and> view (snd res) = view s))"

lemma op_refinesI:
  "sinv s' \<Longrightarrow> (err_of r, view s') = spec \<Longrightarrow> op_refines reliable sinv view s (r, s') spec"
  by (simp add: op_refines_def)

lemma op_refines_Ok:
  assumes "op_refines reliable sinv view s (Ok x, s') spec"
  shows "fst spec = Ok x \<and> view s' = snd spec" "sinv s'"
  using assms by (auto simp: op_refines_def backend_failed_def)

lemma op_refines_Err:
  assumes "op_refines reliable sinv view s (Err e, s') (r, v)"
  shows "sinv s'" "r = Err (err_class e) \<and> view s' = v \<or> view s' = view s"
  using assms by (auto simp: op_refines_def)

lemma op_refines_reliable:
  "op_refines True sinv view s (r, s') (r', v) \<longleftrightarrow> sinv s' \<and> err_of r = r' \<and> view s' = v"
  by (auto simp: op_refines_def)

lemma op_refines_view:
  "op_refines reliable sinv view s res spec \<Longrightarrow>
     sinv (snd res) \<and> (view (snd res) = snd spec \<or> view (snd res) = view s)"
  by (auto simp: op_refines_def)

lemma op_refines_exact:
  "op_refines reliable sinv view s res spec \<Longrightarrow> reliable \<Longrightarrow> sinv (snd res) \<and> view (snd res) = snd spec"
  unfolding op_refines_def by (metis snd_conv)

text \<open>What a backend may be asked to store: timestamps its columns can hold, and a message size that is
  not negative.\<close>

definition opt_in :: "(datetime \<Rightarrow> bool) \<Rightarrow> datetime option \<Rightarrow> bool" where
  "opt_in T x = (case x of None \<Rightarrow> True | Some t \<Rightarrow> T t)"

definition message_in :: "(datetime \<Rightarrow> bool) \<Rightarrow> new_message \<Rightarrow> bool" where
  "message_in T m \<longleftrightarrow> opt_in T (nm_message_date m) \<and> nm_raw_size m \<ge> 0"

lemma opt_in_iff: "opt_in T x \<longleftrightarrow> (\<forall>t. x = Some t \<longrightarrow> T t)"
  by (simp add: opt_in_def split: option.split)

text \<open>When a subscription may be refused although the endpoint is known or the cap leaves room: there
  is no such mailbox, the mailbox holds \<open>cap\<close> other subscriptions (the trait's wording), or the drawn
  identifier is taken.\<close>

definition sub_refusable :: "uuid \<Rightarrow> string \<Rightarrow> string \<Rightarrow> u32 \<Rightarrow> sview \<Rightarrow> bool" where
  "sub_refusable sid a ep cap v \<longleftrightarrow> v_mailbox v a = None \<or>
     (cap > 0 \<and> card (dom (v_sub v a) - {ep}) \<ge> unat cap) \<or>
     (\<exists>b ep' sub. v_sub v b ep' = Some sub \<and> ps_id sub = sid)"

locale store_contract =
  fixes ops :: "'s store_ops"
    and quotas :: mailbox_quotas
    and sinv :: "'s \<Rightarrow> bool"
    and view :: "'s \<Rightarrow> sview"
    and reliable :: bool
    and T :: "datetime \<Rightarrow> bool"
  assumes create_mailbox: "sinv s \<Longrightarrow> op_refines (reliable \<and> T now \<and> T ex) sinv view s
      (st_create_mailbox ops now a d ex ow dv s) (spec_create_mailbox now a d ex ow dv (view s))"
    and get_mailbox: "sinv s \<Longrightarrow> read_refines reliable (st_get_mailbox ops a s) (v_mailbox (view s) a)"
    and mailbox_is_active: "sinv s \<Longrightarrow>
      read_refines (reliable \<and> T now) (st_mailbox_is_active ops a now s) (spec_is_active a now (view s))"
    and extend_mailbox: "sinv s \<Longrightarrow> op_refines (reliable \<and> T ex) sinv view s
      (st_extend_mailbox ops a ex s) (spec_extend_mailbox a ex (view s))"
    and delete_mailbox: "sinv s \<Longrightarrow> op_refines reliable sinv view s
      (st_delete_mailbox ops a s) (spec_delete_mailbox a (view s))"
    and rotate_owner_token: "sinv s \<Longrightarrow> op_refines reliable sinv view s
      (st_rotate_owner_token ops a h s) (spec_rotate_owner_token a h (view s))"
    and save_message: "sinv s \<Longrightarrow> fresh_ids mid aids m (view s) \<Longrightarrow>
      st_save_message ops now mid aids a m s = (r, s') \<Longrightarrow>
      sinv s' \<and> (r = Ok (stored_of_new now mid aids a m) \<and>
                spec_save_message quotas now mid aids a m (view s) (view s') \<or>
                (\<exists>e. r = Err e) \<and> view s' = view s \<and> (reliable \<and> T now \<and> message_in T m \<longrightarrow> v_mailbox (view s) a = None))"
    and list_messages: "sinv s \<Longrightarrow>
      (\<exists>out. st_list_messages ops a limit since s = Ok out \<and>
             spec_list_messages a limit since (view s) out) \<or>
      \<not> reliable \<and> backend_failed (st_list_messages ops a limit since s)"
    and get_message: "sinv s \<Longrightarrow>
      read_refines reliable (map_ok (map_option canon_message) (st_get_message ops a i s))
        (map_option ve_message (v_entry (view s) a i))"
    and get_raw_message: "sinv s \<Longrightarrow>
      read_refines reliable (st_get_raw_message ops a i s) (Option.bind (v_entry (view s) a i) ve_raw)"
    and get_attachment: "sinv s \<Longrightarrow>
      read_refines reliable (st_get_attachment ops a i j s) (spec_get_attachment a i j (view s))"
    and delete_message: "sinv s \<Longrightarrow> op_refines reliable sinv view s
      (st_delete_message ops a i s) (spec_delete_message a i (view s))"
    and mark_seen: "sinv s \<Longrightarrow> op_refines reliable sinv view s
      (st_mark_seen ops a i s) (spec_mark_seen a i (view s))"
    and delete_all_messages: "sinv s \<Longrightarrow> op_refines reliable sinv view s
      (st_delete_all_messages ops a s) (spec_delete_all_messages a (view s))"
    and purge_expired: "sinv s \<Longrightarrow> op_refines (reliable \<and> T now) sinv view s
      (st_purge_expired ops now s) (spec_purge_expired now (view s))"
    and add_subscription: "sinv s \<Longrightarrow> st_add_subscription ops now sid a kd ep p au cap s = (rs, s') \<Longrightarrow>
      op_refines (reliable \<and> T now) sinv view s (rs, s') (spec_add_subscription now sid a kd ep p au cap (view s)) \<or>
      sinv s' \<and> (\<exists>e. rs = Err e) \<and> view s' = view s \<and> sub_refusable sid a ep cap (view s)"
    and list_subscriptions: "sinv s \<Longrightarrow>
      (\<exists>out. st_list_subscriptions ops a s = Ok out \<and> distinct out \<and> set out = ran (v_sub (view s) a)) \<or>
      \<not> reliable \<and> backend_failed (st_list_subscriptions ops a s)"
    and delete_subscription: "sinv s \<Longrightarrow> op_refines reliable sinv view s
      (st_delete_subscription ops a ep s) (spec_delete_subscription a ep (view s))"
    and create_custom_domain: "sinv s \<Longrightarrow> op_refines (reliable \<and> T now) sinv view s
      (st_create_custom_domain ops now d h tok s) (spec_create_custom_domain now d h tok (view s))"
    and get_custom_domain: "sinv s \<Longrightarrow>
      read_refines reliable (st_get_custom_domain ops d s) (v_domain (view s) d)"
    and delete_custom_domain: "sinv s \<Longrightarrow> op_refines reliable sinv view s
      (st_delete_custom_domain ops d s) (spec_delete_custom_domain d (view s))"
    and custom_domain_is_verified: "sinv s \<Longrightarrow>
      read_refines reliable (st_custom_domain_is_verified ops d s) (spec_is_verified d (view s))"
    and record_custom_domain_check: "sinv s \<Longrightarrow> op_refines (reliable \<and> opt_in T va \<and> T ca) sinv view s
      (st_record_custom_domain_check ops d stat va ca s)
      (spec_record_custom_domain_check d stat va ca (view s))"
    and list_custom_domains_to_recheck: "sinv s \<Longrightarrow>
      (\<exists>out. st_list_custom_domains_to_recheck ops cutoff s = Ok out \<and> distinct out \<and>
             set out = {c \<in> ran (v_domain (view s)). due_for_recheck cutoff c}) \<or>
      \<not> (reliable \<and> T cutoff) \<and> backend_failed (st_list_custom_domains_to_recheck ops cutoff s)"
    and upsert_attested_device: "sinv s \<Longrightarrow> op_refines (reliable \<and> T now) sinv view s
      (st_upsert_attested_device ops k pk now s) (spec_upsert_attested_device k pk now (view s))"
    and get_attested_device: "sinv s \<Longrightarrow>
      read_refines reliable (st_get_attested_device ops k s) (v_device (view s) k)"
    and advance_attested_device_counter: "sinv s \<Longrightarrow> op_refines (reliable \<and> T now) sinv view s
      (st_advance_attested_device_counter ops k cnt now s)
      (spec_advance_attested_device_counter k cnt now (view s))"
    and prune_attested_devices: "sinv s \<Longrightarrow> op_refines (reliable \<and> T now) sinv view s
      (st_prune_attested_devices ops now s) (spec_prune_attested_devices now (view s))"
    and count_active_mailboxes_by_device: "sinv s \<Longrightarrow>
      read_refines (reliable \<and> T now) (st_count_active_mailboxes_by_device ops h now s)
        (card (device_mailboxes h now (view s)))"
    and run_maintenance: "sinv s \<Longrightarrow> sinv (snd (st_run_maintenance ops s)) \<and>
      view (snd (st_run_maintenance ops s)) = view s"
    and view_keys: "sinv s \<Longrightarrow> v_mailbox (view s) a = Some mb \<Longrightarrow> mb_address mb = a"
    and domain_keys: "sinv s \<Longrightarrow> v_domain (view s) d = Some c \<Longrightarrow> cd_domain c = d"
    and entry_keys: "sinv s \<Longrightarrow> v_entry (view s) a i = Some e \<Longrightarrow>
      sm_id (ve_message e) = i \<and> sm_mailbox_address (ve_message e) = a"
    and sub_keys: "sinv s \<Longrightarrow> v_sub (view s) a ep = Some sub \<Longrightarrow>
      ps_mailbox_address sub = a \<and> ps_endpoint sub = ep"
begin

lemma get_mailbox_Ok: "sinv s \<Longrightarrow> st_get_mailbox ops a s = Ok m \<Longrightarrow> v_mailbox (view s) a = m"
  using get_mailbox [of s a] by (auto simp: read_refines_def backend_failed_def)

lemma mailbox_is_active_Ok:
  "sinv s \<Longrightarrow> st_mailbox_is_active ops a now s = Ok b \<Longrightarrow> b \<longleftrightarrow> spec_is_active a now (view s)"
  using mailbox_is_active [where s = s and a = a and now = now] by (auto simp: read_refines_def backend_failed_def)

lemma custom_domain_is_verified_Ok:
  "sinv s \<Longrightarrow> st_custom_domain_is_verified ops d s = Ok b \<Longrightarrow> b \<longleftrightarrow> spec_is_verified d (view s)"
  using custom_domain_is_verified [of s d] by (auto simp: read_refines_def backend_failed_def)

lemma get_custom_domain_Ok:
  "sinv s \<Longrightarrow> st_get_custom_domain ops d s = Ok c \<Longrightarrow> v_domain (view s) d = c"
  using get_custom_domain [of s d] by (auto simp: read_refines_def backend_failed_def)

lemma get_attested_device_Ok:
  "sinv s \<Longrightarrow> st_get_attested_device ops k s = Ok d \<Longrightarrow> v_device (view s) k = d"
  using get_attested_device [of s k] by (auto simp: read_refines_def backend_failed_def)

lemma count_active_Ok:
  "sinv s \<Longrightarrow> st_count_active_mailboxes_by_device ops h now s = Ok n \<Longrightarrow>
   n = card (device_mailboxes h now (view s))"
  using count_active_mailboxes_by_device [where s = s and h = h and now = now] by (auto simp: read_refines_def backend_failed_def)

text \<open>Creating a mailbox either adds exactly that mailbox or changes nothing, and a unique violation
  means that the address is taken.\<close>

lemma create_mailbox_outcome:
  assumes "sinv s" "st_create_mailbox ops now a d ex ow dv s = (r, s')"
  shows "sinv s'"
    "r = Ok m \<Longrightarrow> v_mailbox (view s) a = None \<and> m = \<lparr>mb_address = a, mb_domain = d, mb_created_at = now,
       mb_expires_at = ex, mb_owner_token_hash = ow, mb_creator_device_hash = dv\<rparr> \<and>
       view s' = (view s)\<lparr>v_mailbox := (v_mailbox (view s))(a \<mapsto> m)\<rparr>"
    "r = Err e \<Longrightarrow> view s' = view s \<and> (is_unique_violation e \<longrightarrow> v_mailbox (view s) a \<noteq> None)"
  using create_mailbox [where now = now and a = a and d = d and ex = ex and ow = ow and dv = dv, OF assms(1), unfolded assms(2)]
  by (auto simp: op_refines_def spec_create_mailbox_def Let_def backend_failed_def split: if_splits)

text \<open>A mailbox that was just created is active until its expiry and has no mail.\<close>

lemma created_is_active:
  assumes "sinv s" "st_create_mailbox ops now a d ex ow dv s = (Ok m, s')" "t < ex"
  shows "spec_is_active a t (view s')" "v_entry (view s') = v_entry (view s)" "mb_address m = a"
  using op_refines_Ok(1) [OF create_mailbox [where now = now and a = a and d = d and ex = ex and ow = ow and dv = dv, OF assms(1), unfolded assms(2)]] assms(3)
  by (auto simp: spec_create_mailbox_def spec_is_active_def Let_def split: if_splits)

end

end
