(* ===== verification/Memory_Store_Correct.thy ===== *)
theory Memory_Store_Correct
  imports Memory_Store Store_Contract
begin

text \<open>
  Correctness of the in-memory store: its invariant \<open>mem_inv\<close> (the maps are keyed by the records'
  own keys, message identifiers and subscription endpoints are unique), the view it
  gives of the stored data (\<open>mem_view\<close>), one refinement lemma per method and, from them, the
  interpretation \<open>mem\<close> of the store contract on the methods of \<open>MemoryStore\<close>.
\<close>

definition entry_ok :: "mem_entry \<Rightarrow> bool" where
  "entry_ok e \<longleftrightarrow> distinct (map am_id (sm_attachments (en_message e))) \<and>
     map fst (en_contents e) = map am_id (sm_attachments (en_message e))"

definition sub_key :: "push_subscription \<Rightarrow> string \<times> string" where
  "sub_key p = (ps_mailbox_address p, ps_endpoint p)"

definition mem_inv :: "inner \<Rightarrow> bool" where
  "mem_inv s \<longleftrightarrow>
     hm_invar (mailboxes s) \<and> hm_invar (custom_domains s) \<and> hm_invar (attested_devices s) \<and>
     (\<forall>a m. hm_get (mailboxes s) a = Some m \<longrightarrow> mb_address m = a) \<and>
     (\<forall>d c. hm_get (custom_domains s) d = Some c \<longrightarrow> cd_domain c = d) \<and>
     distinct (map en_id (messages s)) \<and> (\<forall>e\<in>set (messages s). entry_ok e) \<and>
     distinct (map sub_key (subscriptions s))"

definition entry_view :: "mem_entry \<Rightarrow> ventry" where
  "entry_view e = \<lparr>ve_message = canon_message (en_message e), ve_content = map_of (en_contents e),
     ve_raw = en_raw e\<rparr>"

definition find_sub :: "string \<Rightarrow> string \<Rightarrow> push_subscription list \<Rightarrow> push_subscription option" where
  "find_sub a ep ps = find (\<lambda>p. ps_mailbox_address p = a \<and> ps_endpoint p = ep) ps"

definition mem_view :: "inner \<Rightarrow> sview" where
  "mem_view s = \<lparr>v_mailbox = hm_get (mailboxes s),
     v_entry = (\<lambda>a i. map_option entry_view (find_entry a i s)),
     v_sub = (\<lambda>a ep. find_sub a ep (subscriptions s)),
     v_domain = hm_get (custom_domains s), v_device = hm_get (attested_devices s)\<rparr>"

lemma mem_view_simps [simp]:
  "v_mailbox (mem_view s) = hm_get (mailboxes s)"
  "v_entry (mem_view s) a i = map_option entry_view (find_entry a i s)"
  "v_sub (mem_view s) a ep = find_sub a ep (subscriptions s)"
  "v_domain (mem_view s) = hm_get (custom_domains s)"
  "v_device (mem_view s) = hm_get (attested_devices s)"
  by (simp_all add: mem_view_def)

lemma ve_message_entry_view [simp]: "ve_message (entry_view e) = canon_message (en_message e)"
  by (simp add: entry_view_def)

lemma mem_inv_default: "mem_inv inner_default"
  by (simp add: mem_inv_def inner_default_def hm_laws)

lemma mem_inv_keys:
  assumes "mem_inv s"
  shows "hm_invar (mailboxes s)" "hm_invar (custom_domains s)" "hm_invar (attested_devices s)"
    "hm_get (mailboxes s) a = Some m \<Longrightarrow> mb_address m = a"
    "hm_get (custom_domains s) d = Some c \<Longrightarrow> cd_domain c = d"
    "distinct (map en_id (messages s))" "distinct (map sub_key (subscriptions s))"
  using assms by (auto simp: mem_inv_def)

subsection \<open>Looking up entries and subscriptions\<close>

lemma find_entry_Some:
  assumes "mem_inv s"
  shows "find_entry a i s = Some e \<longleftrightarrow> e \<in> set (messages s) \<and> en_address e = a \<and> en_id e = i"
  unfolding find_entry_def
  by (rule find_unique_eq_Some) (use distinct_mapD [OF mem_inv_keys(6) [OF assms]] in auto)

lemma find_entry_D: "find_entry a i s = Some e \<Longrightarrow> e \<in> set (messages s) \<and> en_address e = a \<and> en_id e = i"
  unfolding find_entry_def by (drule find_SomeD) simp

lemma find_sub_D: "find_sub a ep ps = Some p \<Longrightarrow> p \<in> set ps \<and> ps_mailbox_address p = a \<and> ps_endpoint p = ep"
  unfolding find_sub_def by (drule find_SomeD) simp

lemma find_entry_filter:
  assumes "mem_inv s" "messages s' = filter P (messages s)"
  shows "find_entry a i s' = (case find_entry a i s of None \<Rightarrow> None | Some e \<Rightarrow> if P e then Some e else None)"
  unfolding find_entry_def assms(2)
  by (rule find_filter_unique) (use distinct_mapD [OF mem_inv_keys(6) [OF assms(1)]] in auto)

lemma sub_unique:
  "mem_inv s \<Longrightarrow> p \<in> set (subscriptions s) \<Longrightarrow> p' \<in> set (subscriptions s) \<Longrightarrow>
   ps_mailbox_address p = a \<and> ps_endpoint p = ep \<Longrightarrow>
   ps_mailbox_address p' = a \<and> ps_endpoint p' = ep \<Longrightarrow> p = p'"
  by (rule distinct_mapD [OF mem_inv_keys(7)]) (auto simp: sub_key_def)

lemma find_sub_Some:
  assumes "mem_inv s"
  shows "find_sub a ep (subscriptions s) = Some p \<longleftrightarrow>
     p \<in> set (subscriptions s) \<and> ps_mailbox_address p = a \<and> ps_endpoint p = ep"
  unfolding find_sub_def by (rule find_unique_eq_Some) (rule sub_unique [OF assms])

lemma find_sub_filter:
  assumes "mem_inv s"
  shows "find_sub a ep (filter P (subscriptions s)) =
    (case find_sub a ep (subscriptions s) of None \<Rightarrow> None | Some p \<Rightarrow> if P p then Some p else None)"
  unfolding find_sub_def by (rule find_filter_unique) (rule sub_unique [OF assms])

lemma find_entry_cong [simp]:
  "find_entry a i (s\<lparr>mailboxes := x\<rparr>) = find_entry a i s"
  "find_entry a i (s\<lparr>subscriptions := y\<rparr>) = find_entry a i s"
  "find_entry a i (s\<lparr>custom_domains := z\<rparr>) = find_entry a i s"
  "find_entry a i (s\<lparr>attested_devices := w\<rparr>) = find_entry a i s"
  by (simp_all add: find_entry_def)

lemma mem_inv_filter:
  assumes "mem_inv s"
  shows "mem_inv (s\<lparr>messages := filter P (messages s)\<rparr>)"
    "mem_inv (s\<lparr>subscriptions := filter Q (subscriptions s)\<rparr>)"
  using assms by (auto simp: mem_inv_def distinct_map_filter)

lemma card_entries:
  assumes "mem_inv s"
  shows "card (dom (v_entry (mem_view s) a)) = length (filter (\<lambda>e. en_address e = a) (messages s))"
proof -
  have "dom (v_entry (mem_view s) a) = set (map en_id (filter (\<lambda>e. en_address e = a) (messages s)))"
    using find_entry_Some [OF assms] by (auto simp: dom_def image_iff)
  then show ?thesis
    using mem_inv_keys(6) [OF assms] by (metis distinct_card distinct_map_filter length_map)
qed

lemma card_subs:
  assumes "mem_inv s"
  shows "card (dom (v_sub (mem_view s) a)) =
    length (filter (\<lambda>p. ps_mailbox_address p = a) (subscriptions s))"
proof -
  let ?l = "filter (\<lambda>p. ps_mailbox_address p = a) (subscriptions s)"
  have "dom (v_sub (mem_view s) a) = set (map ps_endpoint ?l)"
    using find_sub_Some [OF assms] by (auto simp: dom_def image_iff)
  moreover have "distinct (map ps_endpoint ?l)"
    using mem_inv_keys(7) [OF assms] by (auto simp: distinct_map inj_on_def sub_key_def)
  ultimately show ?thesis by (metis distinct_card length_map)
qed

subsection \<open>Mailboxes\<close>

lemma mem_create_mailbox_refines:
  assumes "mem_inv s"
  shows "op_refines True mem_inv mem_view s (mem_create_mailbox now a d ex ow dv s)
    (spec_create_mailbox now a d ex ow dv (mem_view s))"
  using assms
  by (auto simp: mem_create_mailbox_def spec_create_mailbox_def op_refines_def hm_contains_key_get
      mem_inv_def hm_laws Let_def intro!: sview_eqI)

lemma mem_extend_mailbox_refines:
  assumes "mem_inv s"
  shows "op_refines True mem_inv mem_view s (mem_extend_mailbox a ex s)
    (spec_extend_mailbox a ex (mem_view s))"
  using assms
  by (auto simp: mem_extend_mailbox_def spec_extend_mailbox_def op_refines_def
      mem_inv_def hm_laws Let_def intro!: sview_eqI split: option.splits)

lemma mem_rotate_owner_token_refines:
  assumes "mem_inv s"
  shows "op_refines True mem_inv mem_view s (mem_rotate_owner_token a h s)
    (spec_rotate_owner_token a h (mem_view s))"
  using assms
  by (auto simp: mem_rotate_owner_token_def spec_rotate_owner_token_def op_refines_def
      mem_inv_def hm_laws Let_def intro!: sview_eqI split: option.splits)

text \<open>Deleting a set of mailboxes with their messages and subscriptions (the cascade).\<close>

lemma mem_forget_view:
  assumes inv: "mem_inv s"
    and mb: "\<And>a. hm_get mbs a = (if a \<in> A then None else hm_get (mailboxes s) a)" "hm_invar mbs"
    and s': "s' = s\<lparr>mailboxes := mbs, messages := filter (\<lambda>e. en_address e \<notin> A) (messages s),
        subscriptions := filter (\<lambda>p. ps_mailbox_address p \<notin> A) (subscriptions s)\<rparr>"
  shows "mem_inv s'" "mem_view s' = forget_mailboxes A (mem_view s)"
proof -
  show "mem_inv s'"
    using inv mb unfolding s' mem_inv_def by (auto simp: distinct_map_filter split: if_splits)
  have m: "messages s' = filter (\<lambda>e. en_address e \<notin> A) (messages s)" by (simp add: s')
  show "mem_view s' = forget_mailboxes A (mem_view s)"
  proof (rule sview_eqI)
    fix a i
    show "v_entry (mem_view s') a i = v_entry (forget_mailboxes A (mem_view s)) a i"
      by (cases "find_entry a i s")
        (auto simp: forget_mailboxes_def find_entry_filter [OF inv m] dest: find_entry_D)
  next
    fix a ep
    show "v_sub (mem_view s') a ep = v_sub (forget_mailboxes A (mem_view s)) a ep"
      by (cases "find_sub a ep (subscriptions s)")
        (auto simp: forget_mailboxes_def s' find_sub_filter [OF inv] dest: find_sub_D)
  qed (auto simp: forget_mailboxes_def s' mb)
qed

lemma mem_delete_mailbox_refines:
  assumes "mem_inv s"
  shows "op_refines True mem_inv mem_view s (mem_delete_mailbox a s)
    (spec_delete_mailbox a (mem_view s))"
proof -
  have "mem_inv (snd (mem_delete_mailbox a s)) \<and>
      mem_view (snd (mem_delete_mailbox a s)) = forget_mailboxes {a} (mem_view s)"
    using mem_forget_view [OF assms, of "hm_remove a (mailboxes s)" "{a}"] mem_inv_keys(1) [OF assms]
    by (simp add: mem_delete_mailbox_def hm_laws)
  then show ?thesis
    by (auto simp: op_refines_def spec_delete_mailbox_def mem_delete_mailbox_def)
qed

lemma mem_expired_list:
  assumes "mem_inv s"
  shows "set (map mb_address (filter (\<lambda>m. mb_expires_at m \<le> now) (hm_values (mailboxes s)))) =
      expired_mailboxes now (mem_view s)"
    "length (filter (\<lambda>m. mb_expires_at m \<le> now) (hm_values (mailboxes s))) =
      card (expired_mailboxes now (mem_view s))"
proof -
  note inv = mem_inv_keys(1) [OF assms]
  show "set (map mb_address (filter (\<lambda>m. mb_expires_at m \<le> now) (hm_values (mailboxes s)))) =
      expired_mailboxes now (mem_view s)"
    using mem_inv_keys(4) [OF assms]
    by (auto simp: expired_mailboxes_def hm_values_ran [OF inv] ran_def image_iff)
  show "length (filter (\<lambda>m. mb_expires_at m \<le> now) (hm_values (mailboxes s))) =
      card (expired_mailboxes now (mem_view s))"
    by (simp add: hm_count_values [OF inv] expired_mailboxes_def)
qed

lemma mem_purge_expired_refines:
  assumes "mem_inv s"
  shows "op_refines True mem_inv mem_view s (mem_purge_expired now s)
    (spec_purge_expired now (mem_view s))"
proof -
  let ?ex = "map mb_address (filter (\<lambda>m. mb_expires_at m \<le> now) (hm_values (mailboxes s)))"
  have "mem_inv (snd (mem_purge_expired now s)) \<and>
      mem_view (snd (mem_purge_expired now s)) = forget_mailboxes (set ?ex) (mem_view s)"
    using mem_forget_view [OF assms, of "fold hm_remove ?ex (mailboxes s)" "set ?ex"]
      hm_get_fold_remove [OF mem_inv_keys(1) [OF assms], of ?ex]
    unfolding mem_purge_expired_def Let_def by auto
  moreover have "fst (mem_purge_expired now s) = Ok (card (expired_mailboxes now (mem_view s)))"
    using mem_expired_list(2) [OF assms, of now] by (simp add: mem_purge_expired_def Let_def)
  ultimately show ?thesis
    unfolding op_refines_def spec_purge_expired_def mem_expired_list(1) [OF assms] by simp
qed

lemma mem_count_active_refines:
  assumes "mem_inv s"
  shows "mem_count_active_mailboxes_by_device h now s = Ok (card (device_mailboxes h now (mem_view s)))"
  using hm_count_values [OF mem_inv_keys(1) [OF assms],
      of "\<lambda>m. mb_creator_device_hash m = Some h \<and> mb_expires_at m > now"]
  by (simp add: mem_count_active_mailboxes_by_device_def device_mailboxes_def)

subsection \<open>Quota enforcement\<close>

definition mailbox_rows :: "string \<Rightarrow> inner \<Rightarrow> quota_row list" where
  "mailbox_rows a s = map (\<lambda>e. message_row (en_message e)) (filter (\<lambda>e. en_address e = a) (messages s))"

lemma mailbox_rows_distinct: "distinct (map en_id (messages s)) \<Longrightarrow> distinct (map row_id (mailbox_rows a s))"
  by (simp add: mailbox_rows_def comp_def distinct_map_filter)

lemma quota_drops_subset: "set (quota_drops q mid rows) \<subseteq> row_id ` set rows"
proof -
  have "set (byte_drops cap mid n rs) \<subseteq> row_id ` set rs" for cap n rs
    by (induction rs arbitrary: n) (auto simp: Let_def)
  then have "set (byte_drops cap mid n (newest_first rows)) \<subseteq> row_id ` set rows" for cap n
    by (metis set_newest_first)
  moreover have "set (count_drops c (newest_first rows)) \<subseteq> row_id ` set rows" for c
    using set_drop_subset [of "unat c" "newest_first rows"] by (auto simp: count_drops_def)
  ultimately show ?thesis by (auto simp: quota_drops_def Let_def)
qed

lemma enforce_quotas_messages:
  assumes d: "distinct (map en_id (messages s))"
  shows "enforce_quotas s a mid q = s\<lparr>messages := filter
    (\<lambda>e. en_address e \<noteq> a \<or> quota_keeps q mid (mailbox_rows a s) (message_row (en_message e)))
    (messages s)\<rparr>"
proof (cases "q = UNLIMITED")
  case True
  then show ?thesis by (simp add: enforce_quotas_def)
next
  case False
  let ?drops = "quota_drops q mid (mailbox_rows a s)"
  have iff: "en_id e \<notin> set ?drops \<longleftrightarrow>
      en_address e \<noteq> a \<or> quota_keeps q mid (mailbox_rows a s) (message_row (en_message e))"
    if e: "e \<in> set (messages s)" for e
  proof (cases "en_address e = a")
    case True
    then have "message_row (en_message e) \<in> set (mailbox_rows a s)"
      using e by (auto simp: mailbox_rows_def)
    from quota_drops_iff [OF mailbox_rows_distinct [OF d] this, of q mid] True show ?thesis by simp
  next
    case False
    have "en_id e \<notin> row_id ` set (mailbox_rows a s)"
      using False distinct_mapD [OF d e] by (force simp: mailbox_rows_def)
    with quota_drops_subset False show ?thesis by blast
  qed
  then have "filter (\<lambda>e. en_id e \<notin> set ?drops) (messages s) = filter
    (\<lambda>e. en_address e \<noteq> a \<or> quota_keeps q mid (mailbox_rows a s) (message_row (en_message e)))
    (messages s)" by (intro filter_cong) auto
  moreover have "?drops = [] \<Longrightarrow> filter (\<lambda>e. en_id e \<notin> set ?drops) (messages s) = messages s" by simp
  ultimately show ?thesis
    using False by (auto simp: enforce_quotas_def Let_def mailbox_rows_def [symmetric])
qed

subsection \<open>Messages\<close>

lemma ran_entries:
  assumes "mem_inv s"
  shows "ran (v_entry (mem_view s) a) = entry_view ` {e \<in> set (messages s). en_address e = a}"
  using find_entry_Some [OF assms] by (auto simp: ran_def image_iff)

lemma rows_of_mailbox:
  assumes "mem_inv s"
  shows "rows_of_entries (v_entry (mem_view s) a) (mailbox_rows a s)"
  using mailbox_rows_distinct [OF mem_inv_keys(6) [OF assms], of a]
  by (simp add: rows_of_entries_def ran_entries [OF assms] mailbox_rows_def entry_view_def image_image)

definition new_entry :: "datetime \<Rightarrow> uuid \<Rightarrow> (nat \<Rightarrow> uuid) \<Rightarrow> string \<Rightarrow> new_message \<Rightarrow> mem_entry" where
  "new_entry now mid aids a m = \<lparr>en_message = stored_of_new now mid aids a m,
     en_contents = snd (store_attachments aids (nm_attachments m)), en_raw = nm_raw_content m\<rparr>"

lemma new_entry_simps [simp]:
  "en_id (new_entry now mid aids a m) = mid" "en_address (new_entry now mid aids a m) = a"
  "entry_view (new_entry now mid aids a m) = new_ventry now mid aids a m"
  by (simp_all add: new_entry_def stored_of_new_def entry_view_def new_ventry_def)

lemma fresh_id_messages:
  assumes "mem_inv s" "fresh_ids mid aids m (mem_view s)"
  shows "mid \<notin> en_id ` set (messages s)"
proof
  assume "mid \<in> en_id ` set (messages s)"
  then obtain e where "e \<in> set (messages s)" "en_id e = mid" by auto
  with find_entry_Some [OF assms(1)] have "find_entry (en_address e) mid s = Some e" by auto
  with assms(2) show False by (auto simp: fresh_ids_def)
qed

lemma mem_append_entry:
  fixes now :: datetime and a :: string
  assumes inv: "mem_inv s"
    and fresh: "fresh_ids mid aids m (mem_view s)"
  defines "s' \<equiv> s\<lparr>messages := messages s @ [new_entry now mid aids a m]\<rparr>"
  shows "mem_inv s'"
    "v_entry (mem_view s') = (v_entry (mem_view s))(a := (v_entry (mem_view s) a)(mid \<mapsto> new_ventry now mid aids a m))"
proof -
  have "entry_ok (new_entry now mid aids a m)"
    using fresh by (auto simp: entry_ok_def new_entry_def stored_of_new_def store_attachments_ids
        distinct_map fresh_ids_def atLeast0LessThan)
  then show "mem_inv s'"
    using inv fresh_id_messages [OF inv fresh] unfolding s'_def mem_inv_def by auto
  have none: "find_entry b mid s = None" for b using fresh by (simp add: fresh_ids_def)
  show "v_entry (mem_view s') = (v_entry (mem_view s))(a := (v_entry (mem_view s) a)(mid \<mapsto> new_ventry now mid aids a m))"
    using none
    by (auto simp: s'_def fun_eq_iff find_entry_def find_append_single split: option.splits)
qed

lemma mem_save_message_eq:
  fixes now :: datetime and a :: string
  assumes "mem_inv s" "fresh_ids mid aids m (mem_view s)"
  defines "s1 \<equiv> s\<lparr>messages := messages s @ [new_entry now mid aids a m]\<rparr>"
  shows "mem_save_message q now mid aids a m s = (Ok (stored_of_new now mid aids a m), s1\<lparr>messages := filter
    (\<lambda>e. en_address e \<noteq> a \<or> quota_keeps q mid (mailbox_rows a s1) (message_row (en_message e))) (messages s1)\<rparr>)"
  using enforce_quotas_messages [OF mem_inv_keys(6) [OF mem_append_entry(1) [OF assms(1,2)]], of now a a mid q]
  by (simp add: mem_save_message_def Let_def s1_def new_entry_def)

lemma mem_save_message_refines:
  assumes inv: "mem_inv s"
    and fresh: "fresh_ids mid aids m (mem_view s)"
    and run: "mem_save_message q now mid aids a m s = (r, s')"
  shows "mem_inv s' \<and> r = Ok (stored_of_new now mid aids a m) \<and>
    spec_save_message q now mid aids a m (mem_view s) (mem_view s')"
proof -
  let ?s1 = "s\<lparr>messages := messages s @ [new_entry now mid aids a m]\<rparr>"
  let ?P = "\<lambda>e. en_address e \<noteq> a \<or> quota_keeps q mid (mailbox_rows a ?s1) (message_row (en_message e))"
  note app = mem_append_entry [OF inv fresh, of now a]
  have r: "r = Ok (stored_of_new now mid aids a m)" and s': "s' = ?s1\<lparr>messages := filter ?P (messages ?s1)\<rparr>"
    using run unfolding mem_save_message_eq [OF inv fresh] by simp_all
  have inv': "mem_inv s'" unfolding s' by (rule mem_inv_filter(1) [OF app(1)])
  have m': "messages s' = filter ?P (messages ?s1)" by (simp add: s')
  let ?ents = "(v_entry (mem_view s) a)(mid \<mapsto> new_ventry now mid aids a m)"
  have ents: "v_entry (mem_view ?s1) a = ?ents" using app(2) by simp
  have "mem_view s' = (mem_view s)\<lparr>v_entry := (v_entry (mem_view s))(a := keep_entries q mid (mailbox_rows a ?s1) ?ents)\<rparr>"
  proof (rule sview_eqI)
    fix b i
    have "v_entry (mem_view s') b i = (case find_entry b i ?s1 of None \<Rightarrow> None
        | Some e \<Rightarrow> if ?P e then Some (entry_view e) else None)"
      by (simp add: find_entry_filter [OF app(1) m'] split: option.split)
    moreover have "v_entry (mem_view ?s1) b i = map_option entry_view (find_entry b i ?s1)" by simp
    ultimately show "v_entry (mem_view s') b i = v_entry ((mem_view s)\<lparr>v_entry := (v_entry (mem_view s))
        (a := keep_entries q mid (mailbox_rows a ?s1) ?ents)\<rparr>) b i"
      unfolding ents [symmetric] using fun_cong [OF app(2), of b]
      by (cases "find_entry b i ?s1")
        (auto simp: keep_entries_def entry_view_def dest: find_entry_D split: if_splits)
  qed (simp_all add: s')
  moreover have "rows_of_entries ?ents (mailbox_rows a ?s1)"
    using rows_of_mailbox [OF app(1), of a] by (simp only: ents)
  ultimately show ?thesis using r inv' by (auto simp: spec_save_message_def Let_def)
qed

lemma mem_list_messages_refines:
  assumes inv: "mem_inv s"
  shows "\<exists>out. mem_list_messages a limit since s = Ok out \<and>
    spec_list_messages a limit since (mem_view s) out"
proof -
  let ?new = "\<lambda>e. newer_than since (v_entry (mem_view s) a) (ve_message (entry_view e))"
  let ?full = "sort_key summary_key (map (\<lambda>e. summary_of (en_message e))
      (filter ?new (filter (\<lambda>e. en_address e = a) (messages s))))"
  have newer: "(case Option.bind since (\<lambda>mid. map_option (\<lambda>e. (sm_received_at (en_message e), en_id e))
        (find_entry a mid s)) of None \<Rightarrow> True
      | Some (ts, mid) \<Rightarrow> sm_received_at (en_message e) > ts \<or>
          (sm_received_at (en_message e) = ts \<and> en_id e > mid)) \<longleftrightarrow> ?new e" for e
    by (cases since; cases "find_entry a (the since) s")
      (simp_all add: newer_than_def entry_view_def summary_key_less)
  have keys: "distinct (map summary_key (map (\<lambda>e. summary_of (en_message e)) (filter P (messages s))))" for P
  proof -
    have "inj_on (\<lambda>e. summary_key (summary_of (en_message e))) (set (messages s))"
      using distinct_mapD [OF mem_inv_keys(6) [OF inv]]
      by (auto simp: inj_on_def summary_key_def summary_of_def word_uint_eq_iff)
    then have "inj_on (\<lambda>e. summary_key (summary_of (en_message e))) (set (filter P (messages s)))"
      by (rule inj_on_subset) auto
    moreover have "distinct (filter P (messages s))"
      using mem_inv_keys(6) [OF inv] by (simp add: distinct_map)
    ultimately show ?thesis by (simp add: distinct_map comp_def)
  qed
  have "sorted_wrt (\<lambda>x y. summary_key x < summary_key y) ?full"
    by (rule sorted_wrt_less_sort_key) (simp only: filter_filter keys)
  moreover have "set ?full = {summary_of (ve_message e) | e. e \<in> ran (v_entry (mem_view s) a) \<and>
      newer_than since (v_entry (mem_view s) a) (ve_message e)}"
    by (force simp: ran_entries [OF inv] image_iff)
  moreover have "mem_list_messages a limit since s =
      Ok (if limit = 0 then ?full else take (unat limit) ?full)"
    by (simp add: mem_list_messages_def Let_def newer word_gt_0)
  ultimately show ?thesis unfolding spec_list_messages_def by blast
qed

lemma mem_get_attachment_refines:
  assumes "mem_inv s"
  shows "mem_get_attachment a i j s = Ok (spec_get_attachment a i j (mem_view s))"
proof (cases "find_entry a i s")
  case (Some e)
  then have "distinct (map am_id (sm_attachments (en_message e)))"
    using assms by (auto simp: mem_inv_def entry_ok_def dest!: find_entry_D)
  from find_sort_key [OF this, of j] Some show ?thesis
    by (auto simp: mem_get_attachment_def spec_get_attachment_def entry_view_def canon_message_def
        find_map_of split: option.splits)
qed (simp add: mem_get_attachment_def spec_get_attachment_def)

lemma mem_delete_message_refines:
  assumes inv: "mem_inv s"
  shows "op_refines True mem_inv mem_view s (mem_delete_message a i s)
    (spec_delete_message a i (mem_view s))"
proof -
  let ?P = "\<lambda>e. en_address e = a \<longrightarrow> en_id e \<noteq> i"
  let ?s' = "s\<lparr>messages := filter ?P (messages s)\<rparr>"
  have f: "find_entry b j ?s' = (case find_entry b j s of None \<Rightarrow> None
      | Some e \<Rightarrow> if ?P e then Some e else None)" for b j
    by (rule find_entry_filter [OF inv]) simp
  have "mem_view ?s' = snd (spec_delete_message a i (mem_view s))"
    by (rule sview_eqI)
      (auto simp: spec_delete_message_def f dest: find_entry_D split: option.split)
  moreover have "length (filter ?P (messages s)) \<noteq> length (messages s) \<longleftrightarrow> find_entry a i s \<noteq> None"
    unfolding length_filter_neq_iff find_entry_def find_None_iff by auto
  ultimately show ?thesis
    using mem_inv_filter(1) [OF inv]
    by (simp add: op_refines_def mem_delete_message_def spec_delete_message_def Let_def)
qed

lemma mem_delete_all_messages_refines:
  assumes inv: "mem_inv s"
  shows "op_refines True mem_inv mem_view s (mem_delete_all_messages a s)
    (spec_delete_all_messages a (mem_view s))"
proof -
  let ?s' = "s\<lparr>messages := filter (\<lambda>e. en_address e \<noteq> a) (messages s)\<rparr>"
  have f: "find_entry b j ?s' = (case find_entry b j s of None \<Rightarrow> None
      | Some e \<Rightarrow> if en_address e \<noteq> a then Some e else None)" for b j
    by (rule find_entry_filter [OF inv]) simp
  have "mem_view ?s' = snd (spec_delete_all_messages a (mem_view s))"
    by (rule sview_eqI)
      (auto simp: spec_delete_all_messages_def f dest: find_entry_D split: option.split)
  moreover have "length (messages s) - length (filter (\<lambda>e. en_address e \<noteq> a) (messages s)) =
      card (dom (v_entry (mem_view s) a))"
    unfolding card_entries [OF inv]
    using sum_length_filter_compl [of "\<lambda>e. en_address e = a" "messages s"] by simp
  ultimately show ?thesis
    using mem_inv_filter(1) [OF inv]
    by (simp add: op_refines_def mem_delete_all_messages_def spec_delete_all_messages_def Let_def)
qed

lemma mem_mark_seen_refines:
  assumes inv: "mem_inv s"
  shows "op_refines True mem_inv mem_view s (mem_mark_seen a i s) (spec_mark_seen a i (mem_view s))"
proof (cases "find_entry a i s")
  case None
  then have "mem_view s = snd (spec_mark_seen a i (mem_view s))"
    by (intro sview_eqI) (auto simp: spec_mark_seen_def)
  with None inv show ?thesis by (simp add: op_refines_def mem_mark_seen_def spec_mark_seen_def)
next
  case (Some e)
  let ?f = "\<lambda>e. e\<lparr>en_message := (en_message e)\<lparr>sm_seen := True\<rparr>\<rparr>"
  let ?P = "\<lambda>e. en_address e = a \<and> en_id e = i"
  let ?s' = "s\<lparr>messages := update_first ?P ?f (messages s)\<rparr>"
  have "distinct (messages s)" using mem_inv_keys(6) [OF inv] by (simp add: distinct_map)
  then have m: "update_first ?P ?f (messages s) = map (\<lambda>e. if ?P e then ?f e else e) (messages s)"
    using distinct_mapD [OF mem_inv_keys(6) [OF inv]] by (intro update_first_map) auto
  have f: "find_entry b j ?s' = map_option (\<lambda>e. if ?P e then ?f e else e) (find_entry b j s)" for b j
    unfolding find_entry_def by (simp add: m find_map_preserving)
  have ev: "entry_view (?f e) = mark_entry (entry_view e)" for e
    by (simp add: entry_view_def mark_entry_def canon_message_def)
  have "mem_view ?s' = snd (spec_mark_seen a i (mem_view s))"
    by (rule sview_eqI)
      (auto simp: spec_mark_seen_def f ev option.map_comp comp_def dest: find_entry_D
        intro!: map_option_cong)
  moreover have "mem_inv ?s'"
    using inv map_update_first [of ?P en_id ?f "messages s"] unfolding mem_inv_def
    by (auto simp: entry_ok_def dest!: set_update_first)
  ultimately show ?thesis
    using Some by (simp add: op_refines_def mem_mark_seen_def spec_mark_seen_def)
qed

subsection \<open>Push subscriptions\<close>

lemma mem_add_subscription_refines:
  assumes inv: "mem_inv s"
  shows "op_refines True mem_inv mem_view s (mem_add_subscription now sid a kd ep p au cap s)
    (spec_add_subscription now sid a kd ep p au cap (mem_view s))"
proof (cases "find_sub a ep (subscriptions s)")
  case None
  let ?sub = "\<lparr>ps_id = sid, ps_mailbox_address = a, ps_kind = kd, ps_endpoint = ep, ps_p256dh = p,
      ps_auth = au, ps_created_at = now\<rparr>"
  let ?s' = "s\<lparr>subscriptions := subscriptions s @ [?sub]\<rparr>"
  have "sub_key ?sub \<notin> sub_key ` set (subscriptions s)"
    using None by (auto simp: find_sub_def find_None_iff sub_key_def)
  then have "mem_inv ?s'" using inv by (auto simp: mem_inv_def)
  moreover have "mem_view ?s' = (mem_view s)\<lparr>v_sub := (v_sub (mem_view s))(a := (v_sub (mem_view s) a)(ep \<mapsto> ?sub))\<rparr>"
    using None by (intro sview_eqI) (auto simp: find_sub_def find_append_single split: option.splits)
  ultimately show ?thesis
    using None inv card_subs [OF inv, of a]
    by (auto simp: op_refines_def mem_add_subscription_def spec_add_subscription_def Let_def
        find_sub_def)
next
  case (Some old)
  let ?P = "\<lambda>q. ps_mailbox_address q = a \<and> ps_endpoint q = ep"
  let ?f = "\<lambda>q. q\<lparr>ps_kind := kd, ps_p256dh := p, ps_auth := au\<rparr>"
  let ?s' = "s\<lparr>subscriptions := update_first ?P ?f (subscriptions s)\<rparr>"
  have "distinct (subscriptions s)" using mem_inv_keys(7) [OF inv] by (simp add: distinct_map)
  then have m: "update_first ?P ?f (subscriptions s) = map (\<lambda>q. if ?P q then ?f q else q) (subscriptions s)"
    using sub_unique [OF inv] by (intro update_first_map) auto
  have f: "find_sub b e (subscriptions ?s') =
      map_option (\<lambda>q. if ?P q then ?f q else q) (find_sub b e (subscriptions s))" for b e
    unfolding find_sub_def by (simp add: m find_map_preserving)
  have "mem_view ?s' = (mem_view s)\<lparr>v_sub := (v_sub (mem_view s))(a := (v_sub (mem_view s) a)(ep \<mapsto> ?f old))\<rparr>"
  proof (rule sview_eqI)
    fix b e
    show "v_sub (mem_view ?s') b e =
      v_sub ((mem_view s)\<lparr>v_sub := (v_sub (mem_view s))(a := (v_sub (mem_view s) a)(ep \<mapsto> ?f old))\<rparr>) b e"
      using Some f [of b e]
      by (cases "find_sub b e (subscriptions s)") (auto dest: find_sub_D)
  qed (simp_all add: find_entry_def)
  moreover have "mem_inv ?s'"
    using inv map_update_first [of ?P sub_key ?f "subscriptions s"] unfolding mem_inv_def
    by (auto simp: sub_key_def dest!: set_update_first)
  ultimately show ?thesis
    using Some by (simp add: op_refines_def mem_add_subscription_def spec_add_subscription_def
        Let_def find_sub_def)
qed

lemma mem_list_subscriptions_refines:
  assumes "mem_inv s"
  shows "\<exists>out. mem_list_subscriptions a s = Ok out \<and> distinct out \<and> set out = ran (v_sub (mem_view s) a)"
  using find_sub_Some [OF assms] mem_inv_keys(7) [OF assms]
  by (auto simp: mem_list_subscriptions_def ran_def distinct_map)

lemma mem_delete_subscription_refines:
  assumes inv: "mem_inv s"
  shows "op_refines True mem_inv mem_view s (mem_delete_subscription a ep s)
    (spec_delete_subscription a ep (mem_view s))"
proof -
  let ?P = "\<lambda>p. ps_mailbox_address p = a \<longrightarrow> ps_endpoint p \<noteq> ep"
  let ?s' = "s\<lparr>subscriptions := filter ?P (subscriptions s)\<rparr>"
  have "mem_view ?s' = snd (spec_delete_subscription a ep (mem_view s))"
    by (rule sview_eqI)
      (auto simp: spec_delete_subscription_def find_sub_filter [OF inv] dest: find_sub_D split: option.split)
  moreover have "length (filter ?P (subscriptions s)) \<noteq> length (subscriptions s) \<longleftrightarrow>
      find_sub a ep (subscriptions s) \<noteq> None"
    unfolding length_filter_neq_iff find_sub_def find_None_iff by auto
  ultimately show ?thesis
    using mem_inv_filter(2) [OF inv]
    by (simp add: op_refines_def mem_delete_subscription_def spec_delete_subscription_def Let_def)
qed

subsection \<open>Custom domains and attested devices\<close>

lemma mem_create_custom_domain_refines:
  assumes "mem_inv s"
  shows "op_refines True mem_inv mem_view s (mem_create_custom_domain now d h tok s)
    (spec_create_custom_domain now d h tok (mem_view s))"
  using assms
  by (auto simp: mem_create_custom_domain_def spec_create_custom_domain_def op_refines_def
      hm_contains_key_get mem_inv_def hm_laws Let_def intro!: sview_eqI)

lemma mem_delete_custom_domain_refines:
  assumes "mem_inv s"
  shows "op_refines True mem_inv mem_view s (mem_delete_custom_domain d s)
    (spec_delete_custom_domain d (mem_view s))"
  using assms
  by (auto simp: mem_delete_custom_domain_def spec_delete_custom_domain_def op_refines_def
      mem_inv_def hm_laws intro!: sview_eqI split: if_splits)

lemma mem_record_custom_domain_check_refines:
  assumes "mem_inv s"
  shows "op_refines True mem_inv mem_view s (mem_record_custom_domain_check d st va ca s)
    (spec_record_custom_domain_check d st va ca (mem_view s))"
  using assms
  by (auto simp: mem_record_custom_domain_check_def spec_record_custom_domain_check_def op_refines_def
      mem_inv_def hm_laws intro!: sview_eqI split: option.splits)

lemma mem_list_recheck_refines:
  assumes inv: "mem_inv s"
  shows "\<exists>out. mem_list_custom_domains_to_recheck cutoff s = Ok out \<and> distinct out \<and>
    set out = {c \<in> ran (v_domain (mem_view s)). due_for_recheck cutoff c}"
proof -
  have "map cd_domain (hm_values (custom_domains s)) = hm_keys (custom_domains s)"
    using mem_inv_keys(2,5) [OF inv] by (intro hm_values_distinct)
  then have "distinct (map cd_domain (hm_values (custom_domains s)))"
    using hm.keys_distinct [OF mem_inv_keys(2) [OF inv]] by simp
  then have "distinct (hm_values (custom_domains s))" by (simp add: distinct_map)
  moreover have "cd_status c \<in> {Verified, Failed} \<longleftrightarrow> cd_status c \<noteq> Pending" for c
    by (cases "cd_status c") auto
  ultimately show ?thesis
    by (auto simp: mem_list_custom_domains_to_recheck_def hm_values_ran [OF mem_inv_keys(2) [OF inv]]
        due_for_recheck_def)
qed

lemma mem_upsert_attested_device_refines:
  assumes "mem_inv s"
  shows "op_refines True mem_inv mem_view s (mem_upsert_attested_device k pk now s)
    (spec_upsert_attested_device k pk now (mem_view s))"
  using assms
  by (auto simp: mem_upsert_attested_device_def spec_upsert_attested_device_def op_refines_def
      mem_inv_def hm_laws Let_def intro!: sview_eqI split: option.splits)

lemma mem_advance_counter_refines:
  assumes "mem_inv s"
  shows "op_refines True mem_inv mem_view s (mem_advance_attested_device_counter k c now s)
    (spec_advance_attested_device_counter k c now (mem_view s))"
  using assms
  by (auto simp: mem_advance_attested_device_counter_def spec_advance_attested_device_counter_def
      op_refines_def mem_inv_def hm_laws intro!: sview_eqI split: option.splits)

lemma mem_prune_attested_devices_refines:
  assumes inv: "mem_inv s"
  shows "op_refines True mem_inv mem_view s (mem_prune_attested_devices t s)
    (spec_prune_attested_devices t (mem_view s))"
proof -
  note dev = mem_inv_keys(3) [OF inv]
  let ?s' = "snd (mem_prune_attested_devices t s)"
  have "mem_view ?s' = snd (spec_prune_attested_devices t (mem_view s))"
    using dev by (intro sview_eqI) (auto simp: mem_prune_attested_devices_def Let_def hm_laws
        spec_prune_attested_devices_def idle_devices_def fun_eq_iff split: option.splits)
  moreover have "mem_inv ?s'"
    using inv by (simp add: mem_prune_attested_devices_def Let_def mem_inv_def)
  moreover have "fst (mem_prune_attested_devices t s) = Ok (card (idle_devices t (mem_view s)))"
    using hm_retain_count [OF dev, of "\<lambda>_ d. ad_last_seen_at d \<ge> t"]
    by (simp add: mem_prune_attested_devices_def Let_def idle_devices_def not_le)
  ultimately show ?thesis by (simp add: op_refines_def spec_prune_attested_devices_def)
qed

subsection \<open>The contract\<close>

lemma mem_reads:
  assumes "mem_inv s"
  shows "mem_get_mailbox a s = Ok (v_mailbox (mem_view s) a)"
    "mem_mailbox_is_active a now s = Ok (spec_is_active a now (mem_view s))"
    "map_ok (map_option canon_message) (mem_get_message a i s) = Ok (map_option ve_message (v_entry (mem_view s) a i))"
    "mem_get_raw_message a i s = Ok (Option.bind (v_entry (mem_view s) a i) ve_raw)"
    "mem_get_custom_domain d s = Ok (v_domain (mem_view s) d)"
    "mem_custom_domain_is_verified d s = Ok (spec_is_verified d (mem_view s))"
    "mem_get_attested_device k s = Ok (v_device (mem_view s) k)"
  by (simp_all add: mem_get_mailbox_def mem_mailbox_is_active_def spec_is_active_def mem_get_message_def
      mem_get_raw_message_def mem_get_custom_domain_def mem_custom_domain_is_verified_def
      spec_is_verified_def mem_get_attested_device_def option.map_comp comp_def bind_map_option)
    (simp add: entry_view_def comp_def)

lemma mem_view_keys:
  "\<exists>z. find_entry a i s = Some z \<and> entry_view z = e \<Longrightarrow>
     sm_id (ve_message e) = i \<and> sm_mailbox_address (ve_message e) = a"
  "find_sub a ep (subscriptions s) = Some p \<Longrightarrow> ps_mailbox_address p = a \<and> ps_endpoint p = ep"
  by (auto dest!: find_entry_D find_sub_D)

lemma memory_ops_simps [simp]:
  "st_create_mailbox (memory_ops q) = mem_create_mailbox"
  "st_get_mailbox (memory_ops q) = mem_get_mailbox"
  "st_mailbox_is_active (memory_ops q) = mem_mailbox_is_active"
  "st_extend_mailbox (memory_ops q) = mem_extend_mailbox"
  "st_delete_mailbox (memory_ops q) = mem_delete_mailbox"
  "st_rotate_owner_token (memory_ops q) = mem_rotate_owner_token"
  "st_save_message (memory_ops q) = mem_save_message q"
  "st_list_messages (memory_ops q) = mem_list_messages"
  "st_get_message (memory_ops q) = mem_get_message"
  "st_get_raw_message (memory_ops q) = mem_get_raw_message"
  "st_get_attachment (memory_ops q) = mem_get_attachment"
  "st_delete_message (memory_ops q) = mem_delete_message"
  "st_mark_seen (memory_ops q) = mem_mark_seen"
  "st_delete_all_messages (memory_ops q) = mem_delete_all_messages"
  "st_purge_expired (memory_ops q) = mem_purge_expired"
  "st_add_subscription (memory_ops q) = mem_add_subscription"
  "st_list_subscriptions (memory_ops q) = mem_list_subscriptions"
  "st_delete_subscription (memory_ops q) = mem_delete_subscription"
  "st_create_custom_domain (memory_ops q) = mem_create_custom_domain"
  "st_get_custom_domain (memory_ops q) = mem_get_custom_domain"
  "st_delete_custom_domain (memory_ops q) = mem_delete_custom_domain"
  "st_custom_domain_is_verified (memory_ops q) = mem_custom_domain_is_verified"
  "st_record_custom_domain_check (memory_ops q) = mem_record_custom_domain_check"
  "st_list_custom_domains_to_recheck (memory_ops q) = mem_list_custom_domains_to_recheck"
  "st_upsert_attested_device (memory_ops q) = mem_upsert_attested_device"
  "st_get_attested_device (memory_ops q) = mem_get_attested_device"
  "st_advance_attested_device_counter (memory_ops q) = mem_advance_attested_device_counter"
  "st_prune_attested_devices (memory_ops q) = mem_prune_attested_devices"
  "st_count_active_mailboxes_by_device (memory_ops q) = mem_count_active_mailboxes_by_device"
  "st_run_maintenance (memory_ops q) = default_run_maintenance"
  "st_ping (memory_ops q) = default_ping"
  by (simp_all add: memory_ops_def)

lemmas mem_refines = mem_create_mailbox_refines mem_extend_mailbox_refines mem_delete_mailbox_refines
  mem_rotate_owner_token_refines mem_purge_expired_refines mem_delete_message_refines
  mem_mark_seen_refines mem_delete_all_messages_refines
  mem_delete_subscription_refines mem_create_custom_domain_refines mem_delete_custom_domain_refines
  mem_record_custom_domain_check_refines mem_upsert_attested_device_refines
  mem_advance_counter_refines mem_prune_attested_devices_refines

lemmas mem_read_refines = mem_reads mem_get_attachment_refines mem_count_active_refines

interpretation mem: store_contract "memory_ops q" q mem_inv mem_view True "\<lambda>_. True" for q
proof (unfold_locales, goal_cases)
  case (7 s mid aids m now a r s')
  then show ?case using mem_save_message_refines by simp
next
  case (8 s a limit since)
  then show ?case using mem_list_messages_refines by simp
next
  case (16 s now sid a kd ep p au cap rs s')
  then show ?case using mem_add_subscription_refines [of s now sid a kd ep p au cap] by simp
next
  case (17 s a)
  then show ?case using mem_list_subscriptions_refines by simp
next
  case (24 s cutoff)
  then show ?case using mem_list_recheck_refines by simp
qed (simp_all add: mem_refines mem_read_refines read_refines_def opt_in_iff default_run_maintenance_def
    mem_view_keys mem_inv_keys(4,5))

end
