(* ===== verification/Store_Steps.thy ===== *)
theory Store_Steps
  imports Memory_Store_Correct
begin

text \<open>
  Histories of a store: \<open>store_step\<close> is one call of one state-changing trait method with arbitrary
  arguments (the identifiers that \<open>save_message\<close> draws are fresh), so a history interleaves the
  calls of any number of SMTP sessions, HTTP requests and background tasks. The locale lemmas hold
  for every backend that meets the contract; the named properties are their instances for the
  in-memory store.
\<close>

inductive store_step :: "'s store_ops \<Rightarrow> ('s \<Rightarrow> sview) \<Rightarrow> 's \<Rightarrow> 's \<Rightarrow> bool"
  for ops :: "'s store_ops" and view :: "'s \<Rightarrow> sview" where
  create_mailbox: "store_step ops view s (snd (st_create_mailbox ops now a d ex ow dv s))"
| extend_mailbox: "store_step ops view s (snd (st_extend_mailbox ops a ex s))"
| delete_mailbox: "store_step ops view s (snd (st_delete_mailbox ops a s))"
| rotate_owner_token: "store_step ops view s (snd (st_rotate_owner_token ops a h s))"
| save_message: "fresh_ids mid aids m (view s) \<Longrightarrow>
    store_step ops view s (snd (st_save_message ops now mid aids a m s))"
| delete_message: "store_step ops view s (snd (st_delete_message ops a i s))"
| mark_seen: "store_step ops view s (snd (st_mark_seen ops a i s))"
| delete_all_messages: "store_step ops view s (snd (st_delete_all_messages ops a s))"
| purge_expired: "store_step ops view s (snd (st_purge_expired ops now s))"
| add_subscription: "store_step ops view s (snd (st_add_subscription ops now sid a kd ep p au cap s))"
| delete_subscription: "store_step ops view s (snd (st_delete_subscription ops a ep s))"
| create_custom_domain: "store_step ops view s (snd (st_create_custom_domain ops now d h tok s))"
| delete_custom_domain: "store_step ops view s (snd (st_delete_custom_domain ops d s))"
| record_custom_domain_check:
    "store_step ops view s (snd (st_record_custom_domain_check ops d stat va ca s))"
| upsert_attested_device: "store_step ops view s (snd (st_upsert_attested_device ops k pk now s))"
| advance_attested_device_counter:
    "store_step ops view s (snd (st_advance_attested_device_counter ops k cnt now s))"
| prune_attested_devices: "store_step ops view s (snd (st_prune_attested_devices ops now s))"
| run_maintenance: "store_step ops view s (snd (st_run_maintenance ops s))"

definition store_reachable :: "'s store_ops \<Rightarrow> ('s \<Rightarrow> sview) \<Rightarrow> 's \<Rightarrow> 's \<Rightarrow> bool" where
  "store_reachable ops view = (store_step ops view)\<^sup>*\<^sup>*"

text \<open>A history during which the device \<open>k\<close> stays registered.\<close>

definition device_history :: "'s store_ops \<Rightarrow> ('s \<Rightarrow> sview) \<Rightarrow> string \<Rightarrow> 's \<Rightarrow> 's \<Rightarrow> bool" where
  "device_history ops view k =
     (\<lambda>s s'. store_step ops view s s' \<and> v_device (view s') k \<noteq> None)\<^sup>*\<^sup>*"

subsection \<open>Which parts of the view a method leaves alone\<close>

lemma spec_v_device [simp]:
  "v_device (snd (spec_create_mailbox now a d ex ow dv v)) = v_device v"
  "v_device (snd (spec_extend_mailbox a ex v)) = v_device v"
  "v_device (snd (spec_delete_mailbox a v)) = v_device v"
  "v_device (snd (spec_rotate_owner_token a h v)) = v_device v"
  "v_device (snd (spec_delete_message a i v)) = v_device v"
  "v_device (snd (spec_mark_seen a i v)) = v_device v"
  "v_device (snd (spec_delete_all_messages a v)) = v_device v"
  "v_device (snd (spec_purge_expired now v)) = v_device v"
  "v_device (snd (spec_add_subscription now sid a kd ep p au cap v)) = v_device v"
  "v_device (snd (spec_delete_subscription a ep v)) = v_device v"
  "v_device (snd (spec_create_custom_domain now d h tok v)) = v_device v"
  "v_device (snd (spec_delete_custom_domain d v)) = v_device v"
  "v_device (snd (spec_record_custom_domain_check d stat va ca v)) = v_device v"
  by (auto simp: spec_create_mailbox_def spec_extend_mailbox_def spec_delete_mailbox_def
      forget_mailboxes_def spec_rotate_owner_token_def spec_delete_message_def spec_mark_seen_def
      spec_delete_all_messages_def spec_purge_expired_def spec_add_subscription_def Let_def
      spec_delete_subscription_def spec_create_custom_domain_def spec_delete_custom_domain_def
      spec_record_custom_domain_check_def split: option.splits)

lemma spec_save_v_device: "spec_save_message q now mid aids a m v v' \<Longrightarrow> v_device v' = v_device v"
  by (auto simp: spec_save_message_def Let_def)

lemma op_refines_device:
  "op_refines reliable sinv view s res spec \<Longrightarrow> v_device (snd spec) = v_device (view s) \<Longrightarrow>
   v_device (view (snd res)) = v_device (view s)"
  by (auto simp: op_refines_def)

context store_contract
begin

lemmas op_views =
  create_mailbox [THEN op_refines_view] extend_mailbox [THEN op_refines_view]
  delete_mailbox [THEN op_refines_view] rotate_owner_token [THEN op_refines_view]
  delete_message [THEN op_refines_view] mark_seen [THEN op_refines_view]
  delete_all_messages [THEN op_refines_view] purge_expired [THEN op_refines_view]
  delete_subscription [THEN op_refines_view] create_custom_domain [THEN op_refines_view]
  delete_custom_domain [THEN op_refines_view] record_custom_domain_check [THEN op_refines_view]
  upsert_attested_device [THEN op_refines_view] advance_attested_device_counter [THEN op_refines_view]
  prune_attested_devices [THEN op_refines_view]

lemma save_message_view:
  assumes "sinv s" "fresh_ids mid aids m (view s)"
  shows "sinv (snd (st_save_message ops now mid aids a m s)) \<and>
    (spec_save_message quotas now mid aids a m (view s) (view (snd (st_save_message ops now mid aids a m s))) \<or>
     view (snd (st_save_message ops now mid aids a m s)) = view s)"
  using save_message [OF assms, of now a "fst (st_save_message ops now mid aids a m s)"
      "snd (st_save_message ops now mid aids a m s)"] by auto

lemma add_subscription_view:
  assumes "sinv s"
  shows "sinv (snd (st_add_subscription ops now sid a kd ep p au cap s)) \<and>
    (view (snd (st_add_subscription ops now sid a kd ep p au cap s)) =
       snd (spec_add_subscription now sid a kd ep p au cap (view s)) \<or>
     view (snd (st_add_subscription ops now sid a kd ep p au cap s)) = view s)"
  using add_subscription [OF assms, of now sid a kd ep p au cap
      "fst (st_add_subscription ops now sid a kd ep p au cap s)"
      "snd (st_add_subscription ops now sid a kd ep p au cap s)"]
  by (auto dest: op_refines_view)

lemma step_inv: "store_step ops view s s' \<Longrightarrow> sinv s \<Longrightarrow> sinv s'"
  by (cases rule: store_step.cases) (auto simp: op_views save_message_view add_subscription_view run_maintenance)

lemma reachable_inv: "store_reachable ops view s s' \<Longrightarrow> sinv s \<Longrightarrow> sinv s'"
  unfolding store_reachable_def by (induction rule: rtranclp_induct) (auto intro: step_inv)

lemmas op_keeps_devices =
  create_mailbox [THEN op_refines_device, OF _ spec_v_device(1)]
  extend_mailbox [THEN op_refines_device, OF _ spec_v_device(2)]
  delete_mailbox [THEN op_refines_device, OF _ spec_v_device(3)]
  rotate_owner_token [THEN op_refines_device, OF _ spec_v_device(4)]
  delete_message [THEN op_refines_device, OF _ spec_v_device(5)]
  mark_seen [THEN op_refines_device, OF _ spec_v_device(6)]
  delete_all_messages [THEN op_refines_device, OF _ spec_v_device(7)]
  purge_expired [THEN op_refines_device, OF _ spec_v_device(8)]
  delete_subscription [THEN op_refines_device, OF _ spec_v_device(10)]
  create_custom_domain [THEN op_refines_device, OF _ spec_v_device(11)]
  delete_custom_domain [THEN op_refines_device, OF _ spec_v_device(12)]
  record_custom_domain_check [THEN op_refines_device, OF _ spec_v_device(13)]

lemma save_and_subscribe_keep_devices:
  "sinv s \<Longrightarrow> fresh_ids mid aids m (view s) \<Longrightarrow>
     v_device (view (snd (st_save_message ops now mid aids a m s))) = v_device (view s)"
  "sinv s \<Longrightarrow> v_device (view (snd (st_add_subscription ops now sid a kd ep p au cap s))) = v_device (view s)"
  using save_message_view [of s mid aids m now a] spec_save_v_device
    add_subscription_view [of s now sid a kd ep p au cap] by auto

text \<open>A step never lowers a device's counter and never changes its public key.\<close>

lemma step_device:
  assumes "store_step ops view s s'" "sinv s" "v_device (view s) k = Some d" "v_device (view s') k = Some d'"
  shows "ad_counter d \<le> ad_counter d' \<and> ad_public_key d' = ad_public_key d"
  using assms(1)
proof cases
  case (upsert_attested_device k' pk now)
  then show ?thesis using op_views(13) [OF assms(2), of k' pk now] assms(3,4)
    by (auto simp: spec_upsert_attested_device_def Let_def split: if_splits option.splits)
next
  case (advance_attested_device_counter k' cnt now)
  then show ?thesis using op_views(14) [OF assms(2), of k' cnt now] assms(3,4)
    by (auto simp: spec_advance_attested_device_counter_def split: if_splits option.splits)
next
  case (prune_attested_devices now)
  then show ?thesis using op_views(15) [OF assms(2), of now] assms(3,4)
    by (auto simp: spec_prune_attested_devices_def split: if_splits)
qed (use assms(2-4) in \<open>auto simp: op_keeps_devices save_and_subscribe_keep_devices run_maintenance\<close>)

lemma device_history_counter:
  assumes "device_history ops view k s s'" "sinv s" "v_device (view s) k = Some d"
  shows "sinv s' \<and> (\<exists>d'. v_device (view s') k = Some d' \<and> ad_counter d \<le> ad_counter d' \<and>
    ad_public_key d' = ad_public_key d)"
  using assms(1) unfolding device_history_def
proof (induction rule: rtranclp_induct)
  case base
  then show ?case using assms by auto
next
  case (step y z)
  then obtain d1 d2 where d: "v_device (view y) k = Some d1" "ad_counter d \<le> ad_counter d1"
    "ad_public_key d1 = ad_public_key d" "v_device (view z) k = Some d2" "sinv y" by auto
  with step step_device [of y z k d1 d2] step_inv [of y z] show ?case by auto
qed

text \<open>Replay protection: once a counter was accepted, no counter that is not larger is accepted
  again while the device stays registered, whatever else happens in between.\<close>

lemma replay_rejected:
  assumes "sinv s" "st_advance_attested_device_counter ops k c t s = (Ok True, s1)"
    and "device_history ops view k s1 s2" "c' \<le> c"
    and "st_advance_attested_device_counter ops k c' t' s2 = (Ok b, s3)"
  shows "\<not> b"
proof -
  from op_refines_Ok [OF advance_attested_device_counter [OF assms(1), of t k c, unfolded assms(2)]]
  obtain d where d: "v_device (view s1) k = Some d" "ad_counter d = c" and inv1: "sinv s1"
    by (auto simp: spec_advance_attested_device_counter_def split: option.splits if_splits)
  from device_history_counter [OF assms(3) inv1 d(1)] d(2)
  obtain d' where d': "v_device (view s2) k = Some d'" "c \<le> ad_counter d'" and inv2: "sinv s2" by auto
  from op_refines_Ok(1) [OF advance_attested_device_counter [OF inv2, of t' k c', unfolded assms(5)]] d' assms(4)
  show ?thesis by (auto simp: spec_advance_attested_device_counter_def)
qed

end

end
