(* ===== verification/Memory_Properties.thy ===== *)
theory Memory_Properties
  imports Store_Steps
begin

text \<open>
  The properties of the in-memory store: it meets the store contract and keeps its invariant over
  every history, listing, expiry, and two corner cases in which it departs from the documentation of
  the trait.
\<close>

definition mailbox_entries :: "string \<Rightarrow> inner \<Rightarrow> mem_entry list" where
  "mailbox_entries a s = filter (\<lambda>e. en_address e = a) (messages s)"

text \<open>Concrete data on which the properties are exercised.\<close>

definition mail_1k :: new_message where
  "mail_1k = \<lparr>nm_mail_from = ''a@b'', nm_subject = Some ''s'', nm_message_date = None,
     nm_text_body = Some ''t'', nm_html_body = None, nm_raw_size = 1000, nm_raw_content = Some ''raw'',
     nm_attachments = [\<lparr>na_filename = Some ''f'', na_content_type = ''text/plain'', na_content = ''xyz''\<rparr>]\<rparr>"

definition quota2 :: mailbox_quotas where
  "quota2 = \<lparr>q_max_messages = 2, q_max_bytes = 2500\<rparr>"

definition att_id :: "uuid \<Rightarrow> nat \<Rightarrow> uuid" where
  "att_id base i = base + of_nat i"

definition store_1 :: inner where
  "store_1 = snd (mem_create_mailbox 0 ''u@d'' ''d'' 100 None None inner_default)"

definition store_2 :: inner where
  "store_2 = snd (mem_save_message quota2 10 1 (att_id 100) ''u@d'' mail_1k store_1)"

subsection \<open>Helper lemmas\<close>

text \<open>The mailbox after a save: exactly the rows that the quota keeps.\<close>

lemma saved_entries:
  assumes "mem_inv s" "fresh_ids mid aids m (mem_view s)" "mem_save_message q now mid aids a m s = (r, s')"
  defines "rows \<equiv> mailbox_rows a (s\<lparr>messages := messages s @ [new_entry now mid aids a m]\<rparr>)"
  shows "mailbox_entries a s' = filter (\<lambda>e. quota_keeps q mid rows (message_row (en_message e)))
      (mailbox_entries a s @ [new_entry now mid aids a m])"
    "distinct (map row_id rows)"
    "rows = map (\<lambda>e. message_row (en_message e)) (mailbox_entries a s @ [new_entry now mid aids a m])"
    "filter (\<lambda>e. en_address e \<noteq> a) (messages s') = filter (\<lambda>e. en_address e \<noteq> a) (messages s)"
proof -
  show rows: "rows = map (\<lambda>e. message_row (en_message e)) (mailbox_entries a s @ [new_entry now mid aids a m])"
    by (simp add: rows_def mailbox_rows_def mailbox_entries_def)
  show "distinct (map row_id rows)"
    unfolding rows_def
    by (rule mailbox_rows_distinct) (rule mem_inv_keys(6) [OF mem_append_entry(1) [OF assms(1,2)]])
  have m: "messages s' = filter (\<lambda>e. en_address e \<noteq> a \<or> quota_keeps q mid rows (message_row (en_message e)))
      (messages s @ [new_entry now mid aids a m])"
    using assms(3) unfolding mem_save_message_eq [OF assms(1,2)] rows_def by auto
  show "mailbox_entries a s' = filter (\<lambda>e. quota_keeps q mid rows (message_row (en_message e)))
      (mailbox_entries a s @ [new_entry now mid aids a m])"
    by (auto simp: mailbox_entries_def m intro: filter_cong)
  show "filter (\<lambda>e. en_address e \<noteq> a) (messages s') = filter (\<lambda>e. en_address e \<noteq> a) (messages s)"
    by (auto simp: m intro: filter_cong)
qed

text \<open>Freshness of identifiers as a check that computes.\<close>

definition ids_fresh :: "uuid \<Rightarrow> uuid list \<Rightarrow> inner \<Rightarrow> bool" where
  "ids_fresh mid aids s \<longleftrightarrow> distinct aids \<and>
     list_all (\<lambda>e. en_id e \<noteq> mid \<and> list_all (\<lambda>j. j \<notin> fst ` set (en_contents e)) aids) (messages s)"

lemma ids_fresh_fresh:
  assumes "ids_fresh mid (map aids [0..<length (nm_attachments m)]) s"
  shows "fresh_ids mid aids m (mem_view s)"
  using assms
  by (auto simp: ids_fresh_def fresh_ids_def list_all_iff distinct_map atLeast0LessThan entry_view_def
      find_entry_def find_None_iff map_of_eq_None_iff dest!: find_SomeD)

lemma store_1_inv: "mem_inv store_1"
  using mem_create_mailbox_refines [OF mem_inv_default, of 0 "''u@d''" "''d''" 100 None None]
  by (simp add: store_1_def op_refines_def)

lemma store_2_inv: "mem_inv store_2"
proof -
  have "fresh_ids 1 (att_id 100) mail_1k (mem_view store_1)" by (rule ids_fresh_fresh) code_simp
  from mem_save_message_refines [OF store_1_inv this, of quota2 10 "''u@d''"] show ?thesis
    unfolding store_2_def by (metis prod.collapse)
qed

lemma store_2_fresh: "fresh_ids 2 (att_id 200) mail_1k (mem_view store_2)"
  by (rule ids_fresh_fresh) code_simp

lemma received_at_new_entry [simp]: "sm_received_at (en_message (new_entry now mid aids a m)) = now"
  by (simp add: new_entry_def stored_of_new_def)

lemma row_key_new_entry:
  "row_key (message_row (en_message (new_entry now mid aids a m))) = (- now, - uint mid)"
  by (simp add: row_key_def message_row_def new_entry_def stored_of_new_def row_id_def)

lemma found_entry:
  assumes "mem_inv s" "e \<in> set (mailbox_entries a s)"
  shows "find_entry a (en_id e) s = Some e"
  using assms find_entry_Some by (auto simp: mailbox_entries_def)

lemma find_entry_None:
  "find_entry a i s = None \<longleftrightarrow> (\<forall>e \<in> set (mailbox_entries a s). en_id e \<noteq> i)"
  by (auto simp: find_entry_def find_None_iff mailbox_entries_def)

lemma bex_filter_unique:
  "(\<And>e. e \<in> set xs \<Longrightarrow> f e = k \<Longrightarrow> e = n) \<Longrightarrow> n \<in> set xs \<Longrightarrow> f n = k \<Longrightarrow>
   (\<exists>e\<in>set (filter K xs). f e = k) \<longleftrightarrow> K n"
  unfolding set_filter by blast

lemma stored_attachment_lookup:
  assumes d: "inj_on aids {..<length atts}" and j: "j < length atts"
  shows "find (\<lambda>x. am_id x = aids j) (fst (store_attachments aids atts)) =
      Some \<lparr>am_id = aids j, am_filename = na_filename (atts ! j), am_content_type = na_content_type (atts ! j),
            am_size = as_i32 (length (na_content (atts ! j)))\<rparr>"
    "find (\<lambda>p. fst p = aids j) (snd (store_attachments aids atts)) = Some (aids j, na_content (atts ! j))"
proof -
  have inj: "aids i = aids j \<longleftrightarrow> i = j" if "i < length atts" for i
    using d j that by (auto simp: inj_on_def)
  have mem: "(j, atts ! j) \<in> set (enumerate 0 atts)" using j by (force simp: in_set_enumerate_eq)
  show "find (\<lambda>x. am_id x = aids j) (fst (store_attachments aids atts)) =
      Some \<lparr>am_id = aids j, am_filename = na_filename (atts ! j), am_content_type = na_content_type (atts ! j),
            am_size = as_i32 (length (na_content (atts ! j)))\<rparr>"
    using mem by (subst find_unique_eq_Some)
      (auto simp: store_attachments_def in_set_enumerate_eq inj image_iff intro: bexI [OF _ mem])
  show "find (\<lambda>p. fst p = aids j) (snd (store_attachments aids atts)) = Some (aids j, na_content (atts ! j))"
    using mem by (subst find_unique_eq_Some)
      (auto simp: store_attachments_def in_set_enumerate_eq inj image_iff intro: bexI [OF _ mem])
qed

subsection \<open>Properties\<close>

text \<open>C1: The in-memory store implements the store contract: under its invariant every method of
  \<open>MemoryStore\<close> returns the result and makes the change that the specification of that method
  prescribes on the abstract view, and keeps the invariant.\<close>

theorem memory_store_contract: "store_contract (memory_ops q) q mem_inv mem_view True (\<lambda>_. True)"
  by (rule mem.store_contract_axioms)

text \<open>Every history of method calls from the empty store, in any interleaving, keeps the
  in-memory store's invariant: unique message ids, unique (mailbox, endpoint) subscriptions, maps
  keyed by the records' own keys, attachment contents stored for exactly the listed attachments.\<close>

theorem memory_reachable_inv:
  assumes "store_reachable (memory_ops q) mem_view inner_default s"
  shows "mem_inv s"
  using mem.reachable_inv [OF assms mem_inv_default] .

theorem memory_reachable_inv_witness: "mem_inv store_1"
proof (rule memory_reachable_inv)
  show "store_reachable (memory_ops q) mem_view inner_default store_1"
    using store_step.create_mailbox [of "memory_ops q" mem_view inner_default 0 "''u@d''" "''d''" 100 None None]
    by (simp add: store_reachable_def store_1_def)
qed

text \<open>Listing. \<open>list_messages\<close> returns summaries strictly newest first by (arrival time, id),
  of exactly the mailbox's messages, or with a \<open>since\<close> cursor that still names one of them of
  exactly those newer than it; a non-zero limit keeps the newest ones.\<close>

theorem list_messages_newest_first:
  assumes "mem_inv s"
  shows "\<exists>full. mem_list_messages a limit since s =
      Ok (if limit = 0 then full else take (unat limit) full) \<and>
    sorted_wrt (\<lambda>x y. su_received_at x > su_received_at y \<or>
      su_received_at x = su_received_at y \<and> su_id x > su_id y) full \<and>
    set full = (\<lambda>e. summary_of (en_message e)) ` {e \<in> set (mailbox_entries a s).
      \<forall>i c. since = Some i \<longrightarrow> c \<in> set (mailbox_entries a s) \<longrightarrow> en_id c = i \<longrightarrow>
        sm_received_at (en_message e) > sm_received_at (en_message c) \<or>
        sm_received_at (en_message e) = sm_received_at (en_message c) \<and> en_id e > i}"
proof -
  obtain full where full: "mem_list_messages a limit since s = Ok (if limit = 0 then full else take (unat limit) full)"
    "sorted_wrt (\<lambda>x y. summary_key x < summary_key y) full"
    "set full = {summary_of (ve_message e) | e. e \<in> ran (v_entry (mem_view s) a) \<and>
                      newer_than since (v_entry (mem_view s) a) (ve_message e)}"
    using mem_list_messages_refines [OF assms, of a limit since] by (auto simp: spec_list_messages_def)
  have lt: "(\<lambda>x y. summary_key x < summary_key y) = (\<lambda>x y. su_received_at x > su_received_at y \<or>
      su_received_at x = su_received_at y \<and> su_id x > su_id y)"
    by (auto simp: summary_key_def less_prod_def' word_less_def fun_eq_iff)
  have nt: "newer_than since (v_entry (mem_view s) a) (canon_message (en_message e)) \<longleftrightarrow>
      (\<forall>i c. since = Some i \<longrightarrow> c \<in> set (mailbox_entries a s) \<longrightarrow> en_id c = i \<longrightarrow>
        sm_received_at (en_message e) > sm_received_at (en_message c) \<or>
        sm_received_at (en_message e) = sm_received_at (en_message c) \<and> en_id e > i)" for e
  proof (cases since)
    case (Some i)
    show ?thesis
    proof (cases "find_entry a i s")
      case None
      then have "c \<in> set (mailbox_entries a s) \<Longrightarrow> en_id c \<noteq> i" for c
        using found_entry [OF assms] by fastforce
      with None show ?thesis by (simp add: Some newer_than_def)
    next
      case (Some c)
      have "c' = c" if "c' \<in> set (mailbox_entries a s)" "en_id c' = i" for c'
        using found_entry [OF assms that(1)] that(2) Some by simp
      then show ?thesis
        using Some find_entry_D [OF Some]
        by (auto simp: \<open>since = Some i\<close> newer_than_def summary_key_less mailbox_entries_def)
    qed
  qed (simp add: newer_than_def)
  have "set full = (\<lambda>e. summary_of (en_message e)) ` {e \<in> set (mailbox_entries a s).
      newer_than since (v_entry (mem_view s) a) (canon_message (en_message e))}"
    unfolding full(3) ran_entries [OF assms] mailbox_entries_def by force
  then show ?thesis using full(1,2) unfolding nt lt by blast
qed

theorem list_messages_newest_first_witness:
  "\<exists>full. mem_list_messages ''u@d'' 0 None store_2 = Ok full \<and> length full \<ge> 1"
proof -
  from list_messages_newest_first [OF store_2_inv, of "''u@d''" 0 None]
  obtain full where f: "mem_list_messages ''u@d'' 0 None store_2 = Ok full"
    "set full = (\<lambda>e. summary_of (en_message e)) ` set (mailbox_entries ''u@d'' store_2)" by auto
  have "mailbox_entries ''u@d'' store_2 \<noteq> []" by code_simp
  then have "full \<noteq> []" using f(2) by auto
  then show ?thesis using f(1) by (cases full) auto
qed

text \<open>Expiry. \<open>purge_expired\<close> removes exactly the mailboxes whose expiry is not after \<open>now\<close>,
  with all their messages and subscriptions, returns how many there were, and leaves everything
  that belongs to the other mailboxes as it was.\<close>

theorem purge_exact:
  assumes "mem_inv s" "mem_purge_expired now s = (r, s')"
  shows "r = Ok (card {a. \<exists>m. hm_get (mailboxes s) a = Some m \<and> mb_expires_at m \<le> now}) \<and>
    (\<forall>a. hm_get (mailboxes s') a = (case hm_get (mailboxes s) a of None \<Rightarrow> None
       | Some m \<Rightarrow> if mb_expires_at m \<le> now then None else Some m)) \<and>
    (\<forall>a i. find_entry a i s' = (case hm_get (mailboxes s) a of None \<Rightarrow> find_entry a i s
       | Some m \<Rightarrow> if mb_expires_at m \<le> now then None else find_entry a i s)) \<and>
    (\<forall>a p. p \<in> set (subscriptions s') \<and> ps_mailbox_address p = a \<longleftrightarrow>
       p \<in> set (subscriptions s) \<and> ps_mailbox_address p = a \<and> a \<notin> expired_mailboxes now (mem_view s))"
proof -
  let ?ex = "map mb_address (filter (\<lambda>m. mb_expires_at m \<le> now) (hm_values (mailboxes s)))"
  have s': "s' = s\<lparr>mailboxes := fold hm_remove ?ex (mailboxes s),
            messages := filter (\<lambda>e. en_address e \<notin> expired_mailboxes now (mem_view s)) (messages s),
            subscriptions := filter (\<lambda>p. ps_mailbox_address p \<notin> expired_mailboxes now (mem_view s)) (subscriptions s)\<rparr>"
    and r: "r = Ok (card (expired_mailboxes now (mem_view s)))"
    using assms(2) mem_expired_list [OF assms(1), of now] by (auto simp: mem_purge_expired_def Let_def)
  have "hm_get (mailboxes s') a = (if a \<in> expired_mailboxes now (mem_view s) then None else hm_get (mailboxes s) a)" for a
    using hm_get_fold_remove [OF mem_inv_keys(1) [OF assms(1)], of ?ex a] mem_expired_list(1) [OF assms(1), of now]
    unfolding s' by simp
  moreover have "find_entry a i s' = (case find_entry a i s of None \<Rightarrow> None
      | Some e \<Rightarrow> if en_address e \<notin> expired_mailboxes now (mem_view s) then Some e else None)" for a i
    by (rule find_entry_filter [OF assms(1)]) (simp add: s')
  ultimately show ?thesis
    using r by (auto simp: expired_mailboxes_def s' dest: find_entry_D split: option.splits)
qed

theorem purge_exact_witness:
  "fst (mem_purge_expired 100 store_2) = Ok (card {a. \<exists>m. hm_get (mailboxes store_2) a = Some m \<and> mb_expires_at m \<le> 100}) \<and>
   find_entry ''u@d'' 1 (snd (mem_purge_expired 100 store_2)) = None \<and>
   find_entry ''u@d'' 1 store_2 \<noteq> None"
proof -
  have "hm_get (mailboxes store_2) ''u@d'' = Some \<lparr>mb_address = ''u@d'', mb_domain = ''d'', mb_created_at = 0,
      mb_expires_at = 100, mb_owner_token_hash = None, mb_creator_device_hash = None\<rparr>" by code_simp
  moreover have "find_entry ''u@d'' 1 store_2 \<noteq> None" by code_simp
  ultimately show ?thesis using purge_exact [OF store_2_inv prod.collapse [symmetric], of 100] by simp
qed

text \<open>The message just saved survives its own save if and only if there is no message cap or fewer
  than \<open>max_messages\<close> messages of the mailbox are newer than it by (arrival time, id). So it is
  dropped at once when enough other messages carry the same timestamp and larger ids, or a later
  timestamp (the clock is read before the lock is taken): the count rule, unlike the byte rule, has
  no exception for it.\<close>

theorem saved_kept_iff:
  assumes "mem_inv s" "fresh_ids mid aids m (mem_view s)" "mem_save_message q now mid aids a m s = (r, s')"
  shows "mem_get_message a mid s' \<noteq> Ok None \<longleftrightarrow> q_max_messages q = 0 \<or>
    length (filter (\<lambda>e. sm_received_at (en_message e) > now \<or> sm_received_at (en_message e) = now \<and> en_id e > mid)
      (mailbox_entries a s)) < unat (q_max_messages q)"
proof -
  let ?new = "new_entry now mid aids a m"
  let ?rows = "map (\<lambda>e. message_row (en_message e)) (mailbox_entries a s @ [?new])"
  have "mid \<notin> en_id ` set (mailbox_entries a s)"
    using fresh_id_messages [OF assms(1,2)] by (auto simp: mailbox_entries_def)
  then have uniq: "e = ?new" if "e \<in> set (mailbox_entries a s @ [?new])" "en_id e = mid" for e
    using that by auto
  have "mem_get_message a mid s' \<noteq> Ok None \<longleftrightarrow> (\<exists>e \<in> set (mailbox_entries a s'). en_id e = mid)"
    unfolding mem_get_message_def result.inject option.map_disc_iff find_entry_None by blast
  also have "\<dots> \<longleftrightarrow> quota_keeps q mid ?rows (message_row (en_message ?new))"
    unfolding saved_entries(1) [OF assms] saved_entries(3) [OF assms] by (rule bex_filter_unique) (rule uniq, simp_all)
  also have "\<dots> \<longleftrightarrow> q_max_messages q = 0 \<or> newer_count ?rows (message_row (en_message ?new)) < unat (q_max_messages q)"
    by (simp add: quota_keeps_def)
  also have "newer_count ?rows (message_row (en_message ?new)) = length (filter (\<lambda>e. row_key (message_row (en_message e))
      < (- now, - uint mid)) (mailbox_entries a s))"
    by (simp add: newer_count_def filter_map comp_def row_key_new_entry)
  also have "filter (\<lambda>e. row_key (message_row (en_message e)) < (- now, - uint mid)) (mailbox_entries a s) =
      filter (\<lambda>e. sm_received_at (en_message e) > now \<or> sm_received_at (en_message e) = now \<and> en_id e > mid)
        (mailbox_entries a s)"
    by (rule filter_cong) (auto simp: row_key_def message_row_def row_id_def word_less_def)
  finally show ?thesis .
qed

definition quota1 :: mailbox_quotas where
  "quota1 = \<lparr>q_max_messages = 1, q_max_bytes = 0\<rparr>"

definition store_tie :: inner where
  "store_tie = snd (mem_save_message quota1 10 7 (att_id 100) ''u@d'' mail_1k store_1)"

theorem saved_kept_iff_witness:
  "mem_get_message ''u@d'' 2 (snd (mem_save_message quota1 10 2 (att_id 200) ''u@d'' mail_1k store_tie)) = Ok None"
proof -
  have "fresh_ids 7 (att_id 100) mail_1k (mem_view store_1)" by (rule ids_fresh_fresh) code_simp
  from mem_save_message_refines [OF store_1_inv this prod.collapse [symmetric], of quota1 10 "''u@d''"]
  have inv: "mem_inv store_tie" by (simp add: store_tie_def)
  have fresh: "fresh_ids 2 (att_id 200) mail_1k (mem_view store_tie)" by (rule ids_fresh_fresh) code_simp
  have "\<not> (q_max_messages quota1 = 0 \<or> length (filter (\<lambda>e. sm_received_at (en_message e) > 10 \<or>
      sm_received_at (en_message e) = 10 \<and> en_id e > 2) (mailbox_entries ''u@d'' store_tie)) < unat (q_max_messages quota1))"
    by code_simp
  then show ?thesis
    using saved_kept_iff [OF inv fresh prod.collapse [symmetric], of "''u@d''" quota1 10] by blast
qed

text \<open>C38: The in-memory store accepts mail for an address that has no mailbox, and the message is
  then visible to whoever creates that mailbox later, with whatever owner token.\<close>

theorem orphan_message_revealed:
  assumes "mem_inv s" "hm_get (mailboxes s) a = None" "fresh_ids mid aids m (mem_view s)"
    and "mem_save_message UNLIMITED now mid aids a m s = (r, s1)"
    and "mem_create_mailbox now' a d ex ow dv s1 = (r', s2)"
  shows "r = Ok (stored_of_new now mid aids a m) \<and> (\<exists>mb. r' = Ok mb \<and> mb_owner_token_hash mb = ow) \<and>
    mem_get_message a mid s2 = Ok (Some (stored_of_new now mid aids a m))"
proof -
  let ?new = "new_entry now mid aids a m"
  have s1: "s1 = s\<lparr>messages := messages s @ [?new]\<rparr>" "r = Ok (stored_of_new now mid aids a m)"
    using assms(4) unfolding mem_save_message_eq [OF assms(1,3)] by auto
  have inv1: "mem_inv s1" unfolding s1(1) by (rule mem_append_entry(1) [OF assms(1,3)])
  have "find_entry a mid s1 = Some ?new"
    using find_entry_Some [OF inv1, of a mid] by (simp add: s1(1))
  then show ?thesis
    using assms(2,5) s1
    by (auto simp: mem_create_mailbox_def hm_contains_key_get Let_def mem_get_message_def new_entry_def)
qed

theorem orphan_message_revealed_witness:
  "mem_get_message ''v@d'' 2 (snd (mem_create_mailbox 30 ''v@d'' ''d'' 90 (Some ''owner'') None
      (snd (mem_save_message UNLIMITED 20 2 (att_id 200) ''v@d'' mail_1k store_2)))) =
   Ok (Some (stored_of_new 20 2 (att_id 200) ''v@d'' mail_1k))"
proof -
  have "hm_get (mailboxes store_2) ''v@d'' = None" by code_simp
  from orphan_message_revealed [OF store_2_inv this store_2_fresh prod.collapse [symmetric] prod.collapse [symmetric],
      of 20 30 "''d''" 90 "Some ''owner''" None] show ?thesis by simp
qed

end
