(* ===== verification/Rust_Str.thy ===== *)
theory Rust_Str
  imports Prelude
begin

text \<open>
  The part of Rust's \<open>str\<close>/\<open>String\<close> library that the program uses, on UTF-8 byte strings.
  A Unicode scalar value is the byte list that encodes it (\<open>chars\<close> cuts a string into them), so
  \<open>trim\<close> and \<open>split_whitespace\<close> see all of Unicode's \<open>White_Space\<close>, not only the ASCII blanks.
  Patterns that the program splits at (\<open>'@'\<close>, \<open>'.'\<close>, \<open>','\<close>, \<open>' '\<close>, \<open>';'\<close>, \<open>'+'\<close>, newline)
  are ASCII, so those splits work byte by byte.
\<close>

subsection \<open>ASCII classes and case\<close>

definition byte_of :: "char \<Rightarrow> nat" where
  "byte_of c = of_char c"

definition is_ascii_uppercase :: "char \<Rightarrow> bool" where
  "is_ascii_uppercase c \<longleftrightarrow> 65 \<le> byte_of c \<and> byte_of c \<le> 90"

definition is_ascii_lowercase :: "char \<Rightarrow> bool" where
  "is_ascii_lowercase c \<longleftrightarrow> 97 \<le> byte_of c \<and> byte_of c \<le> 122"

definition is_ascii_digit :: "char \<Rightarrow> bool" where
  "is_ascii_digit c \<longleftrightarrow> 48 \<le> byte_of c \<and> byte_of c \<le> 57"

definition is_ascii_alphabetic :: "char \<Rightarrow> bool" where
  "is_ascii_alphabetic c \<longleftrightarrow> is_ascii_uppercase c \<or> is_ascii_lowercase c"

definition is_ascii_alphanumeric :: "char \<Rightarrow> bool" where
  "is_ascii_alphanumeric c \<longleftrightarrow> is_ascii_alphabetic c \<or> is_ascii_digit c"

definition is_ascii :: "char \<Rightarrow> bool" where
  "is_ascii c \<longleftrightarrow> byte_of c < 128"

definition ascii_lower :: "char \<Rightarrow> char" where
  "ascii_lower c = (if is_ascii_uppercase c then char_of (byte_of c + 32) else c)"

definition ascii_upper :: "char \<Rightarrow> char" where
  "ascii_upper c = (if is_ascii_lowercase c then char_of (byte_of c - 32) else c)"

definition to_ascii_lowercase :: "string \<Rightarrow> string" where
  "to_ascii_lowercase s = map ascii_lower s"

definition to_ascii_uppercase :: "string \<Rightarrow> string" where
  "to_ascii_uppercase s = map ascii_upper s"

definition eq_ignore_ascii_case :: "string \<Rightarrow> string \<Rightarrow> bool" where
  "eq_ignore_ascii_case a b \<longleftrightarrow> to_ascii_lowercase a = to_ascii_lowercase b"

subsection \<open>Characters of a UTF-8 string, white space\<close>

definition is_continuation :: "char \<Rightarrow> bool" where
  "is_continuation c \<longleftrightarrow> 128 \<le> byte_of c \<and> byte_of c < 192"

function chars :: "string \<Rightarrow> string list" where
  "chars [] = []"
| "chars (b # bs) = (b # takeWhile is_continuation bs) # chars (dropWhile is_continuation bs)"
  by pat_completeness auto
termination
  by (relation "measure length") (auto simp: length_dropWhile_le le_imp_less_Suc)

definition utf8_of :: "nat list \<Rightarrow> string" where
  "utf8_of ns = map char_of ns"

text \<open>\<open>char::is_whitespace\<close>: the encodings of the code points with \<open>White_Space\<close> (U+0009--U+000D,
  U+0020, U+0085, U+00A0, U+1680, U+2000--U+200A, U+2028, U+2029, U+202F, U+205F, U+3000).\<close>

definition is_whitespace :: "string \<Rightarrow> bool" where
  "is_whitespace ch \<longleftrightarrow> map byte_of ch \<in> set
     [[9], [10], [11], [12], [13], [32], [194, 133], [194, 160], [225, 154, 128],
      [226, 128, 128], [226, 128, 129], [226, 128, 130], [226, 128, 131], [226, 128, 132],
      [226, 128, 133], [226, 128, 134], [226, 128, 135], [226, 128, 136], [226, 128, 137],
      [226, 128, 138], [226, 128, 168], [226, 128, 169], [226, 128, 175], [226, 129, 159],
      [227, 128, 128]]"

definition trim_start :: "string \<Rightarrow> string" where
  "trim_start s = concat (dropWhile is_whitespace (chars s))"

definition trim_end :: "string \<Rightarrow> string" where
  "trim_end s = concat (rev (dropWhile is_whitespace (rev (chars s))))"

definition trim :: "string \<Rightarrow> string" where
  "trim s = trim_end (trim_start s)"

text \<open>\<open>splitn(2, char::is_whitespace)\<close>: the part before the first white space character, and
  the rest after it if there is one.\<close>

definition splitn2_ws :: "string \<Rightarrow> string \<times> string option" where
  "splitn2_ws s =
     (concat (takeWhile (\<lambda>ch. \<not> is_whitespace ch) (chars s)),
      case dropWhile (\<lambda>ch. \<not> is_whitespace ch) (chars s) of
        [] \<Rightarrow> None
      | ch # rest \<Rightarrow> Some (concat rest))"

text \<open>\<open>split_whitespace().next().unwrap_or("")\<close>.\<close>

definition first_word :: "string \<Rightarrow> string" where
  "first_word s =
     concat (takeWhile (\<lambda>ch. \<not> is_whitespace ch) (dropWhile is_whitespace (chars s)))"

subsection \<open>Searching and splitting at an ASCII byte\<close>

definition split_once :: "char \<Rightarrow> string \<Rightarrow> (string \<times> string) option" where
  "split_once c s =
     (if c \<in> set s then Some (takeWhile (\<lambda>x. x \<noteq> c) s, tl (dropWhile (\<lambda>x. x \<noteq> c) s)) else None)"

definition rsplit_once :: "char \<Rightarrow> string \<Rightarrow> (string \<times> string) option" where
  "rsplit_once c s =
     (case split_once c (rev s) of None \<Rightarrow> None | Some (b, a) \<Rightarrow> Some (rev a, rev b))"

fun split_at :: "char \<Rightarrow> string \<Rightarrow> string list" where
  "split_at c [] = [[]]"
| "split_at c (x # xs) =
     (if x = c then [] # split_at c xs
      else case split_at c xs of [] \<Rightarrow> [[x]] | p # ps \<Rightarrow> (x # p) # ps)"

definition starts_with :: "string \<Rightarrow> string \<Rightarrow> bool" where
  "starts_with s p \<longleftrightarrow> take (length p) s = p"

definition ends_with :: "string \<Rightarrow> string \<Rightarrow> bool" where
  "ends_with s p \<longleftrightarrow> starts_with (rev s) (rev p)"

definition strip_prefix :: "string \<Rightarrow> string \<Rightarrow> string option" where
  "strip_prefix s p = (if starts_with s p then Some (drop (length p) s) else None)"

fun str_find :: "string \<Rightarrow> string \<Rightarrow> nat option" where
  "str_find [] p = (if p = [] then Some 0 else None)"
| "str_find (x # xs) p =
     (if starts_with (x # xs) p then Some 0 else map_option Suc (str_find xs p))"

definition find_char :: "string \<Rightarrow> char \<Rightarrow> nat option" where
  "find_char s c = (if c \<in> set s then Some (length (takeWhile (\<lambda>x. x \<noteq> c) s)) else None)"

definition trim_end_matches :: "char \<Rightarrow> string \<Rightarrow> string" where
  "trim_end_matches c s = rev (dropWhile (\<lambda>x. x = c) (rev s))"

fun join_with :: "string \<Rightarrow> string list \<Rightarrow> string" where
  "join_with sep [] = []"
| "join_with sep [x] = x"
| "join_with sep (x # y # ys) = x @ sep @ join_with sep (y # ys)"

text \<open>\<open>str::lines\<close>: split after each newline, drop a trailing carriage return of each line and
  the empty piece after a final newline.\<close>

definition strip_cr :: "string \<Rightarrow> string" where
  "strip_cr l = (if l \<noteq> [] \<and> last l = CHR 13 then butlast l else l)"

definition str_lines :: "string \<Rightarrow> string list" where
  "str_lines s =
     (let parts = split_at (CHR 10) s;
          terminated = map strip_cr (butlast parts)
      in if last parts = [] then terminated else terminated @ [last parts])"

subsection \<open>\<open>String::from_utf8_lossy\<close>\<close>

text \<open>\<open>utf8_step s\<close> is how many bytes of the non-empty \<open>s\<close> one step of the decoder consumes, and
  whether they are a valid character (otherwise they become one U+FFFD).\<close>

definition second_byte_ok :: "nat \<Rightarrow> nat \<Rightarrow> bool" where
  "second_byte_ok b0 b1 \<longleftrightarrow>
     (if b0 = 224 then 160 \<le> b1 \<and> b1 \<le> 191
      else if b0 = 237 then 128 \<le> b1 \<and> b1 \<le> 159
      else if b0 = 240 then 144 \<le> b1 \<and> b1 \<le> 191
      else if b0 = 244 then 128 \<le> b1 \<and> b1 \<le> 143
      else 128 \<le> b1 \<and> b1 \<le> 191)"

definition utf8_width :: "nat \<Rightarrow> nat" where
  "utf8_width b0 =
     (if b0 < 128 then 1 else if 194 \<le> b0 \<and> b0 \<le> 223 then 2
      else if 224 \<le> b0 \<and> b0 \<le> 239 then 3 else if 240 \<le> b0 \<and> b0 \<le> 244 then 4 else 0)"

definition utf8_step :: "string \<Rightarrow> nat \<times> bool" where
  "utf8_step s =
     (let byte = (\<lambda>i. if i < length s then byte_of (s ! i) else 0);
          cont = (\<lambda>i. i < length s \<and> is_continuation (s ! i));
          w = utf8_width (byte 0)
      in if w = 1 then (1, True)
         else if w = 0 then (1, False)
         else if \<not> second_byte_ok (byte 0) (byte 1) then (1, False)
         else if w = 2 then (2, True)
         else if \<not> cont 2 then (2, False)
         else if w = 3 then (3, True)
         else if \<not> cont 3 then (3, False)
         else (4, True))"

function from_utf8_lossy :: "string \<Rightarrow> string" where
  "from_utf8_lossy s =
     (if s = [] then []
      else case utf8_step s of (n, valid) \<Rightarrow>
        (if valid then take n s else utf8_of [239, 191, 189]) @ from_utf8_lossy (drop n s))"
  by pat_completeness auto
termination
  by (relation "measure length")
    (auto simp: utf8_step_def Let_def split: if_splits)

declare from_utf8_lossy.simps [simp del]

text \<open>\<open>format!("{n}")\<close> of an unsigned integer.\<close>

fun show_nat :: "nat \<Rightarrow> string" where
  "show_nat n = (if n < 10 then [char_of (48 + n)] else show_nat (n div 10) @ [char_of (48 + n mod 10)])"

declare show_nat.simps [simp del]

subsection \<open>Case folding\<close>

lemma byte_of_inject [simp]: "byte_of c = byte_of d \<longleftrightarrow> c = d"
  by (simp add: byte_of_def)

lemma byte_of_char_of: "n < 256 \<Longrightarrow> byte_of (char_of n) = n"
  by (simp add: byte_of_def)

lemma ascii_lower_idem [simp]: "ascii_lower (ascii_lower c) = ascii_lower c"
  by (auto simp: ascii_lower_def is_ascii_uppercase_def byte_of_char_of)

lemma ascii_lower_not_upper [simp]: "\<not> is_ascii_uppercase (ascii_lower c)"
  by (auto simp: ascii_lower_def is_ascii_uppercase_def byte_of_char_of)

lemma to_ascii_lowercase_idem [simp]:
  "to_ascii_lowercase (to_ascii_lowercase s) = to_ascii_lowercase s"
  by (simp add: to_ascii_lowercase_def)

lemma to_ascii_lowercase_append [simp]:
  "to_ascii_lowercase (a @ b) = to_ascii_lowercase a @ to_ascii_lowercase b"
  by (simp add: to_ascii_lowercase_def)

lemma length_to_ascii_lowercase [simp]: "length (to_ascii_lowercase s) = length s"
  by (simp add: to_ascii_lowercase_def)

lemma to_ascii_lowercase_id:
  "(\<forall>c\<in>set s. \<not> is_ascii_uppercase c) \<Longrightarrow> to_ascii_lowercase s = s"
  by (auto simp: to_ascii_lowercase_def ascii_lower_def intro!: map_idI)

lemma lowercase_iff: "to_ascii_lowercase s = s \<longleftrightarrow> (\<forall>c\<in>set s. \<not> is_ascii_uppercase c)"
  by (metis ascii_lower_not_upper imageE list.set_map to_ascii_lowercase_def to_ascii_lowercase_id)

subsection \<open>Splitting\<close>

lemma split_once_Some_iff:
  "split_once c s = Some (a, b) \<longleftrightarrow> s = a @ c # b \<and> c \<notin> set a"
proof
  assume eq: "split_once c s = Some (a, b)"
  then have c: "c \<in> set s" and a: "a = takeWhile (\<lambda>x. x \<noteq> c) s"
    and b: "b = tl (dropWhile (\<lambda>x. x \<noteq> c) s)"
    by (auto simp: split_once_def split: if_splits)
  have ne: "dropWhile (\<lambda>x. x \<noteq> c) s \<noteq> []" using c by (simp add: dropWhile_eq_Nil_conv)
  then have "hd (dropWhile (\<lambda>x. x \<noteq> c) s) = c" using hd_dropWhile by blast
  with ne b have "dropWhile (\<lambda>x. x \<noteq> c) s = c # b" by (metis list.collapse)
  then have "s = a @ c # b" using a by (metis takeWhile_dropWhile_id)
  moreover have "c \<notin> set a" using a by (auto dest: set_takeWhileD)
  ultimately show "s = a @ c # b \<and> c \<notin> set a" by simp
next
  assume "s = a @ c # b \<and> c \<notin> set a"
  moreover from this have "takeWhile (\<lambda>x. x \<noteq> c) a = a" by (auto simp: takeWhile_eq_all_conv)
  ultimately show "split_once c s = Some (a, b)"
    by (auto simp: split_once_def takeWhile_append dropWhile_append)
qed

lemma first_split_unique:
  fixes c :: char
  shows "a @ c # r = a' @ c # r' \<Longrightarrow> c \<notin> set a \<Longrightarrow> c \<notin> set a' \<Longrightarrow> a = a' \<and> r = r'"
  using split_once_Some_iff [of c "a @ c # r" a r] split_once_Some_iff [of c "a @ c # r" a' r'] by simp

lemma split_once_None_iff: "split_once c s = None \<longleftrightarrow> c \<notin> set s"
  by (simp add: split_once_def)

lemma rsplit_once_Some_iff:
  "rsplit_once c s = Some (a, b) \<longleftrightarrow> s = a @ c # b \<and> c \<notin> set b"
proof -
  have "rsplit_once c s = Some (a, b) \<longleftrightarrow> split_once c (rev s) = Some (rev b, rev a)"
    by (auto simp: rsplit_once_def split: option.splits)
  also have "\<dots> \<longleftrightarrow> s = a @ c # b \<and> c \<notin> set b"
    by (simp add: split_once_Some_iff rev_swap)
  finally show ?thesis .
qed

lemma rsplit_once_None_iff: "rsplit_once c s = None \<longleftrightarrow> c \<notin> set s"
  by (auto simp: rsplit_once_def split_once_def)

lemma length_takeWhile_neq_less: "c \<in> set s \<Longrightarrow> length (takeWhile (\<lambda>x. x \<noteq> c) s) < length s"
  by (induction s) auto

lemma find_char_Some_iff:
  "find_char s c = Some n \<longleftrightarrow> n < length s \<and> s ! n = c \<and> c \<notin> set (take n s)"
proof
  assume "find_char s c = Some n"
  then have c: "c \<in> set s" and n: "n = length (takeWhile (\<lambda>x. x \<noteq> c) s)"
    by (auto simp: find_char_def split: if_splits)
  from c have lt: "n < length s"
    unfolding n by (rule length_takeWhile_neq_less)
  have "s ! n = c" using nth_length_takeWhile [of "\<lambda>x. x \<noteq> c" s] lt n by auto
  moreover have "take n s = takeWhile (\<lambda>x. x \<noteq> c) s" unfolding n by (rule takeWhile_eq_take [symmetric])
  then have "c \<notin> set (take n s)" by (auto dest: set_takeWhileD)
  ultimately show "n < length s \<and> s ! n = c \<and> c \<notin> set (take n s)" using lt by simp
next
  assume A: "n < length s \<and> s ! n = c \<and> c \<notin> set (take n s)"
  then have "takeWhile (\<lambda>x. x \<noteq> c) s = take n s"
    by (intro takeWhile_eq_take_P_nth) (auto simp: in_set_conv_nth)
  with A show "find_char s c = Some n"
    by (auto simp: find_char_def)
qed

lemma concat_chars [simp]: "concat (chars s) = s"
  by (induction s rule: chars.induct) auto

lemma trim_end_matches_append:
  "\<exists>n. s = trim_end_matches c s @ replicate n c"
proof -
  have "takeWhile (\<lambda>x. x = c) (rev s) = replicate (length (takeWhile (\<lambda>x. x = c) (rev s))) c"
    by (metis (mono_tags, lifting) replicate_length_same set_takeWhileD)
  then have "s = trim_end_matches c s @ replicate (length (takeWhile (\<lambda>x. x = c) (rev s))) c"
    unfolding trim_end_matches_def
    by (metis rev_append rev_replicate rev_rev_ident takeWhile_dropWhile_id)
  then show ?thesis by blast
qed

subsection \<open>Trimming ASCII strings\<close>

lemma ascii_not_continuation: "is_ascii c \<Longrightarrow> \<not> is_continuation c"
  by (simp add: is_ascii_def is_continuation_def)

lemma chars_ascii: "list_all is_ascii s \<Longrightarrow> chars s = map (\<lambda>c. [c]) s"
proof (induction s rule: chars.induct)
  case (2 b bs)
  then have "takeWhile is_continuation bs = []" "dropWhile is_continuation bs = bs"
    by (cases bs; simp add: ascii_not_continuation)+
  with 2 show ?case by simp
qed simp

abbreviation ws :: "char \<Rightarrow> bool" where
  "ws c \<equiv> is_whitespace [c]"

lemma concat_map_single [simp]: "concat (map (\<lambda>c. [c]) s) = s"
  by (induction s) auto

lemma trim_start_ascii: "list_all is_ascii s \<Longrightarrow> trim_start s = dropWhile ws s"
  by (simp add: trim_start_def chars_ascii dropWhile_map comp_def)

lemma trim_end_ascii: "list_all is_ascii s \<Longrightarrow> trim_end s = rev (dropWhile ws (rev s))"
  by (simp add: trim_end_def chars_ascii rev_map dropWhile_map comp_def)

lemma trim_ascii_id:
  assumes "list_all is_ascii s" "s = [] \<or> \<not> ws (hd s) \<and> \<not> ws (last s)"
  shows "trim_start s = s" "trim_end s = s" "trim s = s"
proof -
  show a: "trim_start s = s" using assms by (cases s) (auto simp: trim_start_ascii)
  show b: "trim_end s = s"
    using assms by (cases s rule: rev_cases) (auto simp: trim_end_ascii)
  show "trim s = s" by (simp add: trim_def a b)
qed

lemma splitn2_ws_ascii:
  assumes "list_all is_ascii (w @ c # r)" "ws c" "\<And>x. x \<in> set w \<Longrightarrow> \<not> ws x"
  shows "splitn2_ws (w @ c # r) = (w, Some r)"
proof -
  have "takeWhile (\<lambda>x. \<not> ws x) (w @ c # r) = w" "dropWhile (\<lambda>x. \<not> ws x) (w @ c # r) = c # r"
    using assms(2,3) by (induction w) auto
  with assms(1) show ?thesis
    by (simp add: splitn2_ws_def chars_ascii takeWhile_map dropWhile_map comp_def del: list_all_append map_append)
qed

end
