(* ===== verification/Otp.thy ===== *)
theory Otp
  imports Rust_Str
begin

text \<open>
  \<open>src/otp.rs\<close>: extraction of one-time codes. The four regular expressions belong to the
  \<open>regex\<close> crate: their searches are arguments, collected in \<open>otp_patterns\<close> (the first capture
  group of the first match, or of all matches in order); \<open>Otp_Patterns\<close> gives the patterns themselves.
\<close>

record otp_patterns =
  g_code :: "string \<Rightarrow> string option"
  keyword_then_digits :: "string \<Rightarrow> string list"
  digits_then_keyword :: "string \<Rightarrow> string list"
  keyword_then_alnum :: "string \<Rightarrow> string option"

definition BODY_SCAN_LIMIT :: nat where
  "BODY_SCAN_LIMIT = 4096"

definition MIN_DIGITS :: nat where
  "MIN_DIGITS = 4"

definition MAX_DIGITS :: nat where
  "MAX_DIGITS = 8"

definition is_char_boundary :: "string \<Rightarrow> nat \<Rightarrow> bool" where
  "is_char_boundary s i \<longleftrightarrow> i = 0 \<or> i = length s \<or> (i < length s \<and> \<not> is_continuation (s ! i))"

definition floor_char_boundary :: "string \<Rightarrow> nat \<Rightarrow> nat" where
  "floor_char_boundary s m =
     (if m \<ge> length s then length s
      else case find (is_char_boundary s) (rev [0..<Suc m]) of Some i \<Rightarrow> i | None \<Rightarrow> 0)"

definition normalize_digits :: "string \<Rightarrow> string option" where
  "normalize_digits raw =
     (let digits = filter is_ascii_digit raw
      in if MIN_DIGITS \<le> length digits \<and> length digits \<le> MAX_DIGITS then Some digits else None)"

definition ascii_number :: "string \<Rightarrow> nat" where
  "ascii_number s = foldl (\<lambda>n c. 10 * n + (byte_of c - 48)) 0 s"

definition standalone_code :: "string \<Rightarrow> string option" where
  "standalone_code line =
     (let line = trim line
      in if line = [] \<or> length line > MAX_DIGITS then None
         else if \<not> list_all is_ascii_digit line then None
         else case normalize_digits line of None \<Rightarrow> None
         | Some code \<Rightarrow>
             if length code = 4 \<and> 1900 \<le> ascii_number code \<and> ascii_number code \<le> 2099 then None
             else Some code)"

fun find_map :: "('a \<Rightarrow> 'b option) \<Rightarrow> 'a list \<Rightarrow> 'b option" where
  "find_map f [] = None"
| "find_map f (x # xs) = (case f x of Some y \<Rightarrow> Some y | None \<Rightarrow> find_map f xs)"

definition scan_anchored :: "otp_patterns \<Rightarrow> string \<Rightarrow> string option" where
  "scan_anchored re haystack =
     (case g_code re haystack of
        Some c \<Rightarrow> Some c
      | None \<Rightarrow>
          (case find_map (\<lambda>caps. find_map normalize_digits caps)
                  [keyword_then_digits re haystack, digits_then_keyword re haystack] of
             Some code \<Rightarrow> Some code
           | None \<Rightarrow>
               (case keyword_then_alnum re haystack of
                  Some token \<Rightarrow>
                    if length (filter is_ascii_digit token) \<ge> 2 \<and> length (filter is_ascii_alphabetic token) \<ge> 1
                    then Some token else None
                | None \<Rightarrow> None)))"

definition otp_extract :: "otp_patterns \<Rightarrow> string option \<Rightarrow> string option \<Rightarrow> string option" where
  "otp_extract re subject text_body =
     (let subject = (case subject of Some s \<Rightarrow> s | None \<Rightarrow> []);
          body = (case text_body of Some s \<Rightarrow> s | None \<Rightarrow> []);
          body = take (floor_char_boundary body BODY_SCAN_LIMIT) body
      in case find_map (scan_anchored re) [subject, body] of
           Some code \<Rightarrow> Some code
         | None \<Rightarrow> find_map standalone_code (str_lines subject @ str_lines body))"

subsection \<open>Properties\<close>

lemma find_map_Some: "find_map f xs = Some y \<Longrightarrow> \<exists>x\<in>set xs. f x = Some y"
  by (induction xs) (auto split: option.splits)

lemma floor_char_boundary_props:
  "floor_char_boundary s m \<le> m \<or> floor_char_boundary s m = length s \<and> length s \<le> m"
  "is_char_boundary s (floor_char_boundary s m)"
  "i \<le> m \<Longrightarrow> is_char_boundary s i \<Longrightarrow> i \<le> length s \<Longrightarrow> i \<le> floor_char_boundary s m"
proof -
  let ?xs = "rev [0..<Suc m]"
  have len: "length ?xs = Suc m" and nth: "j < Suc m \<Longrightarrow> ?xs ! j = m - j" for j
    by (simp_all add: rev_nth del: upt_Suc)
  have ne: "find (is_char_boundary s) ?xs \<noteq> None"
    by (auto simp: find_None_iff is_char_boundary_def simp del: upt_Suc intro!: bexI [of _ 0])
  then obtain k where k: "find (is_char_boundary s) ?xs = Some k" by auto
  then obtain j where j: "j < Suc m" "k = m - j" "is_char_boundary s k"
    and least: "\<And>l. l < j \<Longrightarrow> \<not> is_char_boundary s (?xs ! l)"
    unfolding find_Some_iff len by (metis nth)
  have f: "floor_char_boundary s m = (if m \<ge> length s then length s else k)"
    by (simp add: floor_char_boundary_def k del: upt_Suc)
  show "floor_char_boundary s m \<le> m \<or> floor_char_boundary s m = length s \<and> length s \<le> m"
    using j by (auto simp: f)
  show "is_char_boundary s (floor_char_boundary s m)"
    using j by (auto simp: f is_char_boundary_def)
  show "i \<le> m \<Longrightarrow> is_char_boundary s i \<Longrightarrow> i \<le> length s \<Longrightarrow> i \<le> floor_char_boundary s m"
  proof (rule ccontr)
    assume i: "i \<le> m" "is_char_boundary s i" "i \<le> length s" "\<not> i \<le> floor_char_boundary s m"
    then have "k < i" by (auto simp: f split: if_splits)
    then have "m - i < j" using i(1) j by auto
    from least [OF this] nth [of "m - i"] i(1,2) show False by simp
  qed
qed

lemma normalize_digits_Some:
  "normalize_digits raw = Some code \<Longrightarrow> list_all is_ascii_digit code \<and> 4 \<le> length code \<and> length code \<le> 8"
  by (auto simp: normalize_digits_def Let_def list_all_iff MIN_DIGITS_def MAX_DIGITS_def split: if_splits)

lemma standalone_code_Some:
  assumes "standalone_code line = Some code"
  shows "list_all is_ascii_digit code \<and> 4 \<le> length code \<and> length code \<le> 8"
    "\<not> (length code = 4 \<and> 1900 \<le> ascii_number code \<and> ascii_number code \<le> 2099)"
  using assms normalize_digits_Some
  by (auto simp: standalone_code_def Let_def split: if_splits option.splits)

lemma scan_anchored_Some:
  assumes "scan_anchored re h = Some code"
  shows "g_code re h = Some code \<or>
    list_all is_ascii_digit code \<and> 4 \<le> length code \<and> length code \<le> 8 \<or>
    keyword_then_alnum re h = Some code \<and> 2 \<le> length (filter is_ascii_digit code) \<and>
      1 \<le> length (filter is_ascii_alphabetic code)"
proof (cases "g_code re h")
  case None
  show ?thesis
  proof (cases "find_map (\<lambda>caps. find_map normalize_digits caps)
      [keyword_then_digits re h, digits_then_keyword re h]")
    case None
    then show ?thesis using assms \<open>g_code re h = None\<close>
      unfolding scan_anchored_def by (auto split: option.splits if_splits)
  next
    case (Some c)
    then have "c = code" using assms \<open>g_code re h = None\<close> by (simp add: scan_anchored_def)
    moreover from find_map_Some [OF Some] obtain caps where "find_map normalize_digits caps = Some c" by auto
    ultimately show ?thesis using find_map_Some [of normalize_digits caps c] normalize_digits_Some by blast
  qed
qed (use assms in \<open>simp add: scan_anchored_def\<close>)

text \<open>A code that \<open>otp::extract\<close> returns is four to eight ASCII digits, or the captured digits of
  a \<open>G-\<close> code, or an alphanumeric token captured after a keyword that mixes at least two digits with
  a letter, found in the subject or in the part of the body that ends at the last character boundary
  not after byte 4096; slicing there never splits a character.\<close>

theorem otp_extract_shape:
  assumes "otp_extract re subject text_body = Some code"
  shows "let s = (case subject of Some s \<Rightarrow> s | None \<Rightarrow> []);
             b = (case text_body of Some b \<Rightarrow> b | None \<Rightarrow> []);
             n = floor_char_boundary b BODY_SCAN_LIMIT
         in n \<le> BODY_SCAN_LIMIT \<and> is_char_boundary b n \<and>
            (list_all is_ascii_digit code \<and> 4 \<le> length code \<and> length code \<le> 8 \<or>
             (\<exists>h\<in>{s, take n b}. g_code re h = Some code \<or>
                keyword_then_alnum re h = Some code \<and> 2 \<le> length (filter is_ascii_digit code) \<and>
                1 \<le> length (filter is_ascii_alphabetic code)))"
proof -
  define s where "s = (case subject of Some s \<Rightarrow> s | None \<Rightarrow> [])"
  define b where "b = (case text_body of Some b \<Rightarrow> b | None \<Rightarrow> [])"
  define n where "n = floor_char_boundary b BODY_SCAN_LIMIT"
  have n: "n \<le> BODY_SCAN_LIMIT" "is_char_boundary b n"
    using floor_char_boundary_props(1,2) [of b BODY_SCAN_LIMIT] by (auto simp: n_def)
  have ex: "(case find_map (scan_anchored re) [s, take n b] of Some c \<Rightarrow> Some c
      | None \<Rightarrow> find_map standalone_code (str_lines s @ str_lines (take n b))) = Some code"
    using assms unfolding otp_extract_def Let_def s_def b_def n_def by simp
  have "list_all is_ascii_digit code \<and> 4 \<le> length code \<and> length code \<le> 8 \<or>
      (\<exists>h\<in>{s, take n b}. g_code re h = Some code \<or> keyword_then_alnum re h = Some code \<and>
         2 \<le> length (filter is_ascii_digit code) \<and> 1 \<le> length (filter is_ascii_alphabetic code))"
  proof (cases "find_map (scan_anchored re) [s, take n b]")
    case None
    with ex find_map_Some [of standalone_code _ code] standalone_code_Some(1) show ?thesis by auto
  next
    case (Some c)
    with ex have "c = code" by simp
    with find_map_Some [OF Some] obtain h where "h \<in> {s, take n b}" "scan_anchored re h = Some code" by auto
    with scan_anchored_Some show ?thesis by blast
  qed
  with n show ?thesis unfolding Let_def s_def b_def n_def by blast
qed

definition no_patterns :: otp_patterns where
  "no_patterns = \<lparr>g_code = (\<lambda>_. None), keyword_then_digits = (\<lambda>_. []), digits_then_keyword = (\<lambda>_. []),
     keyword_then_alnum = (\<lambda>_. None)\<rparr>"

theorem otp_extract_shape_witness:
  "otp_extract no_patterns None (Some (''Hi'' @ [CHR 10] @ '' 482913 '' @ [CHR 10])) = Some ''482913'' \<and>
   list_all is_ascii_digit ''482913''"
proof -
  have e: "otp_extract no_patterns None (Some (''Hi'' @ [CHR 10] @ '' 482913 '' @ [CHR 10])) = Some ''482913''"
    by code_simp
  from otp_extract_shape [OF this] have "list_all is_ascii_digit ''482913''"
    by (auto simp: no_patterns_def Let_def)
  with e show ?thesis by blast
qed

end
