(* ===== verification/Regex.thy ===== *)
theory Regex
  imports Rust_Str
begin

text \<open>
  Regular expressions of the kind that \<open>src/otp.rs\<close> uses, with the documented semantics of the \<open>regex\<close>
  crate: the leftmost match, and among the matches at one place the one that a backtracking search
  finds first. A match is searched for in the Unicode characters of the text; \<open>re_run\<close> lists the matches
  at a place in order of preference. Which characters beyond ASCII are digits or word characters and
  which are equal up to case is a parameter (\<open>unicode\<close>).
\<close>

record unicode =
  un_digit :: "string \<Rightarrow> bool"
  un_word :: "string \<Rightarrow> bool"
  un_same :: "string \<Rightarrow> string \<Rightarrow> bool"

definition word_byte :: "char \<Rightarrow> bool" where
  "word_byte c \<longleftrightarrow> is_ascii_alphanumeric c \<or> c = CHR ''_''"

definition unicode_ok :: "unicode \<Rightarrow> bool" where
  "unicode_ok uc \<longleftrightarrow>
     (\<forall>c. is_ascii c \<longrightarrow> un_digit uc [c] = is_ascii_digit c \<and> un_word uc [c] = word_byte c) \<and>
     (\<forall>a b. is_ascii a \<longrightarrow> is_ascii b \<longrightarrow> un_same uc [a] [b] = (ascii_lower a = ascii_lower b)) \<and>
     (\<forall>u. un_digit uc u \<longrightarrow> un_word uc u) \<and>
     (\<forall>b. is_ascii b \<longrightarrow> \<not> un_same uc (utf8_of [195, 177]) [b])"

text \<open>A place in the text is the character before it and the characters after it.\<close>

datatype re =
    Empty
  | OneOf "string \<Rightarrow> bool"
  | Boundary
  | Seq re re
  | Alt re re
  | Group re

type_synonym re_match = "string list \<times> string list \<times> string option"

definition re_before :: "string option \<Rightarrow> string list \<Rightarrow> string option" where
  "re_before p x = (if x = [] then p else Some (last x))"

definition at_boundary :: "unicode \<Rightarrow> string option \<Rightarrow> string list \<Rightarrow> bool" where
  "at_boundary uc p s \<longleftrightarrow>
     (case p of None \<Rightarrow> False | Some u \<Rightarrow> un_word uc u) \<noteq> (case s of [] \<Rightarrow> False | u # _ \<Rightarrow> un_word uc u)"

text \<open>A match is what it consumed, what follows, and the text of the capture group.\<close>

fun re_run :: "unicode \<Rightarrow> re \<Rightarrow> string option \<Rightarrow> string list \<Rightarrow> re_match list" where
  "re_run uc Empty p s = [([], s, None)]"
| "re_run uc (OneOf P) p s = (case s of [] \<Rightarrow> [] | u # us \<Rightarrow> if P u then [([u], us, None)] else [])"
| "re_run uc Boundary p s = (if at_boundary uc p s then [([], s, None)] else [])"
| "re_run uc (Seq a b) p s =
     concat (map (\<lambda>(x, s1, g). map (\<lambda>(y, s2, g2). (x @ y, s2, if g2 = None then g else g2))
       (re_run uc b (re_before p x) s1)) (re_run uc a p s))"
| "re_run uc (Alt a b) p s = re_run uc a p s @ re_run uc b p s"
| "re_run uc (Group a) p s = map (\<lambda>(x, s1, _). (x, s1, Some (concat x))) (re_run uc a p s)"

fun exactly :: "nat \<Rightarrow> re \<Rightarrow> re" where
  "exactly 0 a = Empty"
| "exactly (Suc n) a = Seq a (exactly n a)"

fun at_most :: "nat \<Rightarrow> re \<Rightarrow> re" where
  "at_most 0 a = Empty"
| "at_most (Suc n) a = Alt (Seq a (at_most n a)) Empty"

fun at_most_lazy :: "nat \<Rightarrow> re \<Rightarrow> re" where
  "at_most_lazy 0 a = Empty"
| "at_most_lazy (Suc n) a = Alt Empty (Seq a (at_most_lazy n a))"

definition between :: "nat \<Rightarrow> nat \<Rightarrow> re \<Rightarrow> re" where
  "between lo hi a = Seq (exactly lo a) (at_most (hi - lo) a)"

definition optional :: "re \<Rightarrow> re" where
  "optional a = Alt a Empty"

fun seq_all :: "re list \<Rightarrow> re" where
  "seq_all [] = Empty"
| "seq_all [a] = a"
| "seq_all (a # as) = Seq a (seq_all as)"

fun any_of :: "re list \<Rightarrow> re" where
  "any_of [] = OneOf (\<lambda>_. False)"
| "any_of [a] = a"
| "any_of (a # as) = Alt a (any_of as)"

definition ascii_class :: "(char \<Rightarrow> bool) \<Rightarrow> string \<Rightarrow> bool" where
  "ascii_class P u \<longleftrightarrow> (case u of [c] \<Rightarrow> P c | _ \<Rightarrow> False)"

definition literal :: "string \<Rightarrow> re" where
  "literal w = seq_all (map (\<lambda>u. OneOf (\<lambda>v. v = u)) (chars w))"

definition literal_ci :: "unicode \<Rightarrow> string \<Rightarrow> re" where
  "literal_ci uc w = seq_all (map (\<lambda>u. OneOf (un_same uc u)) (chars w))"

subsection \<open>Searching\<close>

text \<open>\<open>Regex::captures\<close>: group 1 of the leftmost match, with the place where it ends.\<close>

fun re_search :: "unicode \<Rightarrow> re \<Rightarrow> string option \<Rightarrow> string list \<Rightarrow> (string option \<times> string option \<times> string list) option" where
  "re_search uc r p s =
     (case re_run uc r p s of
        (x, s', g) # _ \<Rightarrow> Some (g, re_before p x, s')
      | [] \<Rightarrow> (case s of [] \<Rightarrow> None | u # us \<Rightarrow> re_search uc r (Some u) us))"

declare re_search.simps [simp del]

definition captures :: "unicode \<Rightarrow> re \<Rightarrow> string \<Rightarrow> string option" where
  "captures uc r h = (case re_search uc r None (chars h) of Some (g, _) \<Rightarrow> g | None \<Rightarrow> None)"

lemma re_run_split: "(x, s', g) \<in> set (re_run uc r p s) \<Longrightarrow> s = x @ s'"
proof (induction r arbitrary: p s x s' g)
  case (Seq a b)
  then show ?case by fastforce
qed (auto split: list.splits if_splits)

text \<open>\<open>Regex::captures_iter\<close>: the next search starts where the last match ended; after an empty match,
  one character further.\<close>

function captures_from :: "unicode \<Rightarrow> re \<Rightarrow> string option \<Rightarrow> string list \<Rightarrow> string list" where
  "captures_from uc r p s =
     (case re_search uc r p s of
        None \<Rightarrow> []
      | Some (g, p', s') \<Rightarrow>
          (case g of Some t \<Rightarrow> [t] | None \<Rightarrow> []) @
          (if length s' < length s then captures_from uc r p' s'
           else case s of [] \<Rightarrow> [] | u # us \<Rightarrow> captures_from uc r (Some u) us))"
  by pat_completeness auto
termination
  by (relation "measure (\<lambda>(_, _, _, s). length s)") auto

declare captures_from.simps [simp del]

definition captures_iter :: "unicode \<Rightarrow> re \<Rightarrow> string \<Rightarrow> string list" where
  "captures_iter uc r h = captures_from uc r None (chars h)"

subsection \<open>Repetitions of one class\<close>

lemma re_run_exactly:
  "re_run uc (exactly n (OneOf P)) p s =
     (if n \<le> length (takeWhile P s) then [(take n s, drop n s, None)] else [])"
proof (induction n arbitrary: p s)
  case (Suc n)
  show ?case by (cases s) (simp_all add: Suc.IH)
qed simp

lemma upt_one: "[0..<Suc 0] = [0]"
  by simp

lemma upt_Suc_map: "rev [0..<Suc (Suc n)] = map Suc (rev [0..<Suc n]) @ [0]"
  by (metis map_Suc_upt rev.simps(2) rev_map upt_rec zero_less_Suc)

lemma re_run_at_most:
  "re_run uc (at_most n (OneOf P)) p s =
     map (\<lambda>k. (take k s, drop k s, None)) (rev [0..<Suc (min n (length (takeWhile P s)))])"
proof (induction n arbitrary: p s)
  case (Suc n)
  show ?case
    by (cases s) (simp_all add: Suc.IH upt_Suc_map upt_one comp_def case_prod_beta del: upt_Suc)
qed simp

lemma re_run_at_most_lazy:
  "re_run uc (at_most_lazy n (OneOf P)) p s =
     map (\<lambda>k. (take k s, drop k s, None)) [0..<Suc (min n (length (takeWhile P s)))]"
proof (induction n arbitrary: p s)
  case (Suc n)
  have "[0..<Suc (Suc k)] = 0 # map Suc [0..<Suc k]" for k
    by (metis map_Suc_upt upt_rec zero_less_Suc)
  then show ?case
    by (cases s) (simp_all add: Suc.IH upt_one comp_def case_prod_beta del: upt_Suc)
qed simp

lemma length_takeWhile_drop: "k \<le> length (takeWhile P s) \<Longrightarrow> length (takeWhile P (drop k s)) = length (takeWhile P s) - k"
proof (induction k arbitrary: s)
  case (Suc k)
  then show ?case by (cases s) (auto split: if_splits)
qed simp

lemma re_run_between:
  assumes "lo \<le> hi"
  shows "re_run uc (between lo hi (OneOf P)) p s =
    (if lo \<le> length (takeWhile P s)
     then map (\<lambda>k. (take k s, drop k s, None)) (rev [lo..<Suc (min hi (length (takeWhile P s)))]) else [])"
proof (cases "lo \<le> length (takeWhile P s)")
  case True
  have "[lo..<Suc (min hi (length (takeWhile P s)))] =
      map (\<lambda>k. k + lo) [0..<Suc (min (hi - lo) (length (takeWhile P s) - lo))]"
    using assms True by (simp add: map_add_upt min_def del: upt_Suc)
  moreover have "take (k + lo) s = take lo s @ take k (drop lo s)" for k by (metis add.commute take_add)
  ultimately show ?thesis
    using True
    by (simp add: between_def re_run_exactly re_run_at_most length_takeWhile_drop comp_def rev_map
        del: upt_Suc exactly.simps at_most.simps)
qed (simp add: between_def re_run_exactly)

text \<open>The first success of an ordered choice.\<close>

lemma concat_first:
  assumes "xs = ys @ x # zs" "\<And>y. y \<in> set ys \<Longrightarrow> f y = []" "f x = m # ms"
  shows "concat (map f xs) = m # ms @ concat (map f zs)"
  using assms(2) by (simp add: assms(1,3))

lemma split_upt:
  assumes "lo \<le> k" "k \<le> n"
  shows "rev [lo..<Suc n] = rev [Suc k..<Suc n] @ k # rev [lo..<k]"
proof -
  have "[lo..<k + (Suc n - k)] = [lo..<k] @ [k..<k + (Suc n - k)]" by (rule upt_add_eq_append [OF assms(1)])
  then have "[lo..<Suc n] = [lo..<k] @ k # [Suc k..<Suc n]" using assms by (simp add: upt_conv_Cons del: upt_Suc)
  then show ?thesis by simp
qed

lemma re_run_between_then:
  assumes "lo \<le> k" "k \<le> hi" "k \<le> length (takeWhile P s)" "k < length s" "Q (s ! k)"
    and "\<And>j. k < j \<Longrightarrow> j \<le> length (takeWhile P s) \<Longrightarrow> j < length s \<Longrightarrow> \<not> Q (s ! j)"
  shows "\<exists>ms. re_run uc (Seq (between lo hi (OneOf P)) (OneOf Q)) p s = (take (Suc k) s, drop (Suc k) s, None) # ms"
proof -
  let ?n = "min hi (length (takeWhile P s))"
  let ?f = "\<lambda>j. case drop j s of [] \<Rightarrow> [] | u # us \<Rightarrow> if Q u then [(take j s @ [u], us, None :: string option)] else []"
  have run: "re_run uc (Seq (between lo hi (OneOf P)) (OneOf Q)) p s = concat (map ?f (rev [lo..<Suc ?n]))"
    using assms(1-3) by (auto simp: re_run_between comp_def split: list.splits intro!: arg_cong [of _ _ concat] map_cong simp del: upt_Suc)
  have "?f j = []" if "j \<in> set (rev [Suc k..<Suc ?n])" for j
  proof (cases "j < length s")
    case True
    moreover have "k < j" "j \<le> length (takeWhile P s)" using that by auto
    ultimately show ?thesis using assms(6) [of j] by (simp add: Cons_nth_drop_Suc [symmetric])
  qed simp
  moreover have "?f k = [(take (Suc k) s, drop (Suc k) s, None)]"
    using assms(4,5) by (simp add: Cons_nth_drop_Suc [symmetric] take_Suc_conv_app_nth)
  ultimately show ?thesis
    unfolding run using concat_first [OF split_upt, of lo k ?n ?f] assms(1-3) by auto
qed

subsection \<open>Literals and alternatives\<close>

lemma re_run_classes:
  "re_run uc (seq_all (map OneOf Ps)) p s =
     (if length Ps \<le> length s \<and> list_all2 (\<lambda>P u. P u) Ps (take (length Ps) s)
      then [(take (length Ps) s, drop (length Ps) s, None)] else [])"
proof (induction Ps arbitrary: p s)
  case (Cons P Ps)
  show ?case
  proof (cases Ps)
    case Nil
    then show ?thesis by (cases s) auto
  next
    case (Cons Q Qs)
    then have "seq_all (map OneOf (P # Ps)) = Seq (OneOf P) (seq_all (map OneOf Ps))" by simp
    then show ?thesis using Cons.IH by (cases s) auto
  qed
qed simp

lemma re_run_any_of: "re_run uc (any_of rs) p s = concat (map (\<lambda>r. re_run uc r p s) rs)"
  by (induction rs rule: any_of.induct) (auto split: list.split)

lemma re_run_literal_ascii:
  assumes "list_all is_ascii w"
  shows "re_run uc (literal w) p (map (\<lambda>c. [c]) s) =
    (if starts_with s w then [(map (\<lambda>c. [c]) w, map (\<lambda>c. [c]) (drop (length w) s), None)] else [])"
proof -
  define Ps where "Ps = map (\<lambda>c v. v = [c]) w"
  have "list_all2 (\<lambda>P u. P u) Ps (take (length w) (map (\<lambda>c. [c]) s)) \<longleftrightarrow>
      take (length w) s = w" if "length w \<le> length s"
    using that by (auto simp: Ps_def list_all2_conv_all_nth list_eq_iff_nth_eq min_def)
  moreover have "take (length w) s = w \<Longrightarrow> length w \<le> length s" by (metis nat_le_linear take_all)
  moreover have "literal w = seq_all (map OneOf Ps)" "length Ps = length w"
    using assms by (simp_all add: Ps_def literal_def chars_ascii comp_def)
  ultimately show ?thesis
    by (auto simp: re_run_classes starts_with_def take_map drop_map)
qed

lemma re_run_literal_ci_ascii:
  assumes "\<And>a b. is_ascii a \<Longrightarrow> is_ascii b \<Longrightarrow> un_same uc [a] [b] = (ascii_lower a = ascii_lower b)"
    and "list_all is_ascii w" "list_all is_ascii s"
  shows "re_run uc (literal_ci uc w) p (map (\<lambda>c. [c]) s) =
    (if starts_with (to_ascii_lowercase s) (to_ascii_lowercase w)
     then [(map (\<lambda>c. [c]) (take (length w) s), map (\<lambda>c. [c]) (drop (length w) s), None)] else [])"
proof -
  define Ps where "Ps = map (\<lambda>c. un_same uc [c]) w"
  have "list_all2 (\<lambda>P u. P u) Ps (take (length w) (map (\<lambda>c. [c]) s)) \<longleftrightarrow>
      take (length w) (to_ascii_lowercase s) = to_ascii_lowercase w" if "length w \<le> length s"
    using that assms by (auto simp: Ps_def list_all2_conv_all_nth list_eq_iff_nth_eq min_def to_ascii_lowercase_def list_all_length)
  moreover have "take (length w) (to_ascii_lowercase s) = to_ascii_lowercase w \<Longrightarrow> length w \<le> length s"
    by (metis length_take length_to_ascii_lowercase nat_le_linear take_all)
  moreover have "literal_ci uc w = seq_all (map OneOf Ps)" "length Ps = length w"
    using assms by (simp_all add: Ps_def literal_ci_def chars_ascii comp_def)
  ultimately show ?thesis
    by (auto simp: re_run_classes starts_with_def take_map drop_map)
qed

subsection \<open>Searching for the first place\<close>

lemma search_skip:
  assumes "\<And>a b. pre = a @ b \<Longrightarrow> b \<noteq> [] \<Longrightarrow> re_run uc r (re_before p a) (b @ s) = []"
  shows "re_search uc r p (pre @ s) = re_search uc r (re_before p pre) s"
  using assms
proof (induction pre arbitrary: p)
  case (Cons u us)
  have "re_run uc r p (u # us @ s) = []" using Cons.prems [of "[]" "u # us"] by (simp add: re_before_def)
  then have "re_search uc r p ((u # us) @ s) = re_search uc r (Some u) (us @ s)" by (simp add: re_search.simps [of uc r p])
  also have "\<dots> = re_search uc r (re_before (Some u) us) s"
  proof (rule Cons.IH)
    fix a b assume "us = a @ b" "b \<noteq> []"
    with Cons.prems [of "u # a" b] show "re_run uc r (re_before (Some u) a) (b @ s) = []"
      by (simp add: re_before_def split: if_splits)
  qed
  finally show ?case by (simp add: re_before_def)
qed (simp add: re_before_def)

lemma search_None:
  assumes "\<And>a b. s = a @ b \<Longrightarrow> re_run uc r (re_before p a) b = []"
  shows "re_search uc r p s = None"
proof -
  have "re_search uc r p (s @ []) = re_search uc r (re_before p s) []"
    by (rule search_skip) (use assms in simp)
  also have "\<dots> = None" using assms [of s "[]"] by (simp add: re_search.simps)
  finally show ?thesis by simp
qed

lemma search_here: "re_run uc r p s = (x, s', g) # ms \<Longrightarrow> re_search uc r p s = Some (g, re_before p x, s')"
  by (simp add: re_search.simps)

end
