(* ===== verification/Otp_Patterns.thy ===== *)
theory Otp_Patterns
  imports Otp Regex
begin

text \<open>
  The four regular expressions of \<open>src/otp.rs\<close> and what the extraction does with them: every code it
  returns is a short token of the mail, and the common shapes of a one-time-code mail are found.
\<close>

definition digit :: "unicode \<Rightarrow> re" where
  "digit uc = OneOf (un_digit uc)"

definition not_digit :: "unicode \<Rightarrow> re" where
  "not_digit uc = OneOf (\<lambda>u. \<not> un_digit uc u)"

text \<open>\<open>[\d \t-]\<close> and \<open>\d(?:[\d \t-]{2,10}\d)?\<close>\<close>

definition digit_or_gap :: "unicode \<Rightarrow> string \<Rightarrow> bool" where
  "digit_or_gap uc u \<longleftrightarrow> un_digit uc u \<or> ascii_class (\<lambda>c. c \<in> {CHR '' '', CHR 9, CHR ''-''}) u"

definition digit_run :: "unicode \<Rightarrow> re" where
  "digit_run uc = Seq (digit uc) (optional (Seq (between 2 10 (OneOf (digit_or_gap uc))) (digit uc)))"

definition not_newline :: "string \<Rightarrow> bool" where
  "not_newline u \<longleftrightarrow> \<not> ascii_class (\<lambda>c. c \<in> {CHR 13, CHR 10}) u"

text \<open>\<open>\bG-(\d{6})\b\<close>\<close>

definition G_CODE :: "unicode \<Rightarrow> re" where
  "G_CODE uc = seq_all [Boundary, literal ''G-'', Group (exactly 6 (digit uc)), Boundary]"

definition CONTRASENA :: string where
  "CONTRASENA = ''contrase'' @ utf8_of [195, 177] @ ''a''"

text \<open>\<open>(?i)\b(?:code|otp|pin|passcode|password|contrase\u{f1}a)\b\D{0,24}?(\d(?:[\d \t-]{2,10}\d)?)\b\<close>\<close>

definition KEYWORD_THEN_DIGITS :: "unicode \<Rightarrow> re" where
  "KEYWORD_THEN_DIGITS uc = seq_all
     [Boundary,
      any_of (map (literal_ci uc) [''code'', ''otp'', ''pin'', ''passcode'', ''password'', CONTRASENA]),
      Boundary, at_most_lazy 24 (not_digit uc), Group (digit_run uc), Boundary]"

text \<open>\<open>(?i)\b(\d(?:[\d \t-]{2,10}\d)?)\b[^\r\n]{0,40}?\b(?:code|otp|pin|passcode)\b\<close>\<close>

definition DIGITS_THEN_KEYWORD :: "unicode \<Rightarrow> re" where
  "DIGITS_THEN_KEYWORD uc = seq_all
     [Boundary, Group (digit_run uc), Boundary, at_most_lazy 40 (OneOf not_newline), Boundary,
      any_of (map (literal_ci uc) [''code'', ''otp'', ''pin'', ''passcode'']), Boundary]"

text \<open>\<open>(?i:\b(?:code|otp|passcode)\b)[^\r\nA-Za-z0-9]{1,16}([A-Z0-9]{5,10})\b\<close>\<close>

definition KEYWORD_THEN_ALNUM :: "unicode \<Rightarrow> re" where
  "KEYWORD_THEN_ALNUM uc = seq_all
     [Boundary, any_of (map (literal_ci uc) [''code'', ''otp'', ''passcode'']), Boundary,
      between 1 16 (OneOf (\<lambda>u. not_newline u \<and> \<not> ascii_class is_ascii_alphanumeric u)),
      Group (between 5 10 (OneOf (ascii_class (\<lambda>c. is_ascii_uppercase c \<or> is_ascii_digit c)))), Boundary]"

definition otp_regexes :: "unicode \<Rightarrow> otp_patterns" where
  "otp_regexes uc = \<lparr>g_code = captures uc (G_CODE uc), keyword_then_digits = captures_iter uc (KEYWORD_THEN_DIGITS uc),
     digits_then_keyword = captures_iter uc (DIGITS_THEN_KEYWORD uc),
     keyword_then_alnum = captures uc (KEYWORD_THEN_ALNUM uc)\<rparr>"

definition ascii_unicode :: unicode where
  "ascii_unicode = \<lparr>un_digit = ascii_class is_ascii_digit, un_word = ascii_class word_byte,
     un_same = (\<lambda>u v. map ascii_lower u = map ascii_lower v)\<rparr>"

lemma ascii_unicode_ok: "unicode_ok ascii_unicode"
  by (auto simp: unicode_ok_def ascii_unicode_def ascii_class_def word_byte_def is_ascii_alphanumeric_def
      utf8_of_def split: list.splits)

subsection \<open>The digits after a keyword\<close>

abbreviation singles :: "string \<Rightarrow> string list" where
  "singles s \<equiv> map (\<lambda>c. [c]) s"

definition run_byte :: "char \<Rightarrow> bool" where
  "run_byte c \<longleftrightarrow> is_ascii_digit c \<or> c \<in> {CHR '' '', CHR 9, CHR ''-''}"

lemma ascii_facts:
  assumes "unicode_ok uc"
  shows "is_ascii c \<Longrightarrow> un_digit uc [c] = is_ascii_digit c" "is_ascii c \<Longrightarrow> un_word uc [c] = word_byte c"
    "is_ascii a \<Longrightarrow> is_ascii c \<Longrightarrow> un_same uc [a] [c] = (ascii_lower a = ascii_lower c)"
    "un_digit uc u \<Longrightarrow> un_word uc u" "is_ascii c \<Longrightarrow> \<not> un_same uc (utf8_of [195, 177]) [c]"
  using assms by (simp_all add: unicode_ok_def)

lemma digit_ascii: "is_ascii_digit c \<Longrightarrow> is_ascii c"
  by (simp add: is_ascii_digit_def is_ascii_def)

lemma takeWhile_digits:
  assumes "unicode_ok uc" "list_all is_ascii rest" "list_all is_ascii_digit d"
  shows "takeWhile (digit_or_gap uc) (singles (d @ rest)) = singles (d @ takeWhile run_byte rest)"
proof -
  have "takeWhile (digit_or_gap uc) (singles s) = singles (takeWhile run_byte s)" if "list_all is_ascii s" for s
    using that by (induction s) (auto simp: ascii_facts [OF assms(1)] run_byte_def ascii_class_def digit_or_gap_def)
  moreover have "takeWhile run_byte (d @ rest) = d @ takeWhile run_byte rest" "list_all is_ascii d"
    using assms(3) by (induction d) (auto simp: run_byte_def digit_ascii)
  ultimately show ?thesis using assms(2) by (metis list_all_append)
qed

text \<open>What may follow the digits: no word character, and no further digit in the same run.\<close>

definition ends_digits :: "string \<Rightarrow> bool" where
  "ends_digits rest \<longleftrightarrow> (rest = [] \<or> \<not> word_byte (hd rest)) \<and> list_all (\<lambda>c. \<not> is_ascii_digit c) (takeWhile run_byte rest)"

lemma ends_digits_nth:
  assumes "ends_digits rest" "k \<le> length (takeWhile run_byte rest)" "k < length rest"
  shows "\<not> is_ascii_digit (rest ! k)"
proof (cases "k = length (takeWhile run_byte rest)")
  case True
  with assms(3) have "\<not> run_byte (rest ! k)" by (metis nth_length_takeWhile)
  then show ?thesis by (simp add: run_byte_def)
next
  case False
  with assms(2) have "k < length (takeWhile run_byte rest)" by simp
  then show ?thesis using assms(1) by (metis ends_digits_def list_all_length takeWhile_nth)
qed

lemma digit_run_first:
  assumes uc: "unicode_ok uc" and ascii: "list_all is_ascii rest"
    and d: "list_all is_ascii_digit d" "4 \<le> length d" "length d \<le> 12" and rest: "ends_digits rest"
  shows "\<exists>ms. re_run uc (digit_run uc) p (singles (d @ rest)) = (singles d, singles rest, None) # ms"
proof -
  obtain c d' where cd: "d = c # d'" using d(2) by (cases d) auto
  let ?s = "singles (d' @ rest)" and ?k = "length d' - 1"
  have d': "list_all is_ascii_digit d'" "3 \<le> length d'" "length d' \<le> 11" using d cd by auto
  have all: "list_all is_ascii (d' @ rest)" using d'(1) ascii by (auto simp: list_all_iff digit_ascii)
  have nth: "un_digit uc (?s ! j) = is_ascii_digit ((d' @ rest) ! j)" if "j < length (d' @ rest)" for j
    using that all ascii_facts(1) [OF uc, of "(d' @ rest) ! j"] by (simp add: list_all_length del: map_append)
  have len: "length (takeWhile (digit_or_gap uc) ?s) = length d' + length (takeWhile run_byte rest)"
    by (simp add: takeWhile_digits [OF uc ascii d'(1)] del: map_append)
  have no: "\<not> un_digit uc (?s ! j)" if "?k < j" "j \<le> length (takeWhile (digit_or_gap uc) ?s)" "j < length ?s" for j
  proof -
    have "length d' \<le> j" using that(1) d'(2) by simp
    then show ?thesis
      using that len nth [of j] ends_digits_nth [OF rest, of "j - length d'"] by (simp add: nth_append del: map_append)
  qed
  have k: "?k < length d'" using d'(2) by simp
  then have "is_ascii_digit ((d' @ rest) ! ?k)" using d'(1) by (simp add: nth_append list_all_length)
  then have "un_digit uc (?s ! ?k)" using nth [of ?k] k by (simp del: map_append)
  then obtain ms where "re_run uc (Seq (between 2 10 (OneOf (digit_or_gap uc))) (digit uc)) (Some [c]) ?s =
      (take (Suc ?k) ?s, drop (Suc ?k) ?s, None) # ms"
    using re_run_between_then [of 2 ?k 10 "digit_or_gap uc" ?s "un_digit uc" uc "Some [c]"] no len d'
    unfolding digit_def by fastforce
  moreover have "take (Suc ?k) ?s = singles d'" "drop (Suc ?k) ?s = singles rest" using d'(2) by simp_all
  moreover have "un_digit uc [c]" using d(1) cd ascii_facts(1) [OF uc] by (simp add: digit_ascii)
  ultimately show ?thesis
    by (simp add: digit_run_def cd optional_def digit_def re_before_def)
qed

subsection \<open>The keyword before the digits\<close>

definition KEYWORDS :: "string list" where
  "KEYWORDS = [''code'', ''otp'', ''pin'', ''passcode'', ''password'']"

definition keyword :: "unicode \<Rightarrow> re" where
  "keyword uc = any_of (map (literal_ci uc) (KEYWORDS @ [CONTRASENA]))"

lemma keywords_ascii: "list_all (\<lambda>w. list_all is_ascii w \<and> to_ascii_lowercase w = w) KEYWORDS"
  by code_simp

lemma contrasena_chars:
  "chars CONTRASENA = singles ''contrase'' @ [utf8_of [195, 177], ''a'']"
  by code_simp

text \<open>The one keyword that is not ASCII does not match ASCII text.\<close>

lemma contrasena_no_match:
  assumes "unicode_ok uc" "list_all is_ascii s"
  shows "re_run uc (literal_ci uc CONTRASENA) p (singles s) = []"
proof -
  define Ps where "Ps = map (un_same uc) (singles ''contrase'' @ [utf8_of [195, 177], ''a''])"
  have len: "length Ps = 10" by (simp add: Ps_def)
  have "Ps ! 8 = un_same uc (utf8_of [195, 177])" by (simp add: Ps_def nth_append)
  then have "\<not> list_all2 (\<lambda>P u. P u) Ps (take (length Ps) (singles s))" if "length Ps \<le> length s"
    using that len assms(2) ascii_facts(5) [OF assms(1), of "s ! 8"]
    by (auto simp: list_all2_conv_all_nth list_all_length intro!: exI [of _ 8])
  moreover have "literal_ci uc CONTRASENA = seq_all (map OneOf Ps)"
    unfolding literal_ci_def contrasena_chars Ps_def by simp
  ultimately show ?thesis using re_run_classes [of uc Ps p "singles s"] by auto
qed

lemma keyword_runs:
  assumes "unicode_ok uc" "list_all is_ascii s"
  shows "re_run uc (keyword uc) p (singles s) =
    concat (map (\<lambda>w. if starts_with (to_ascii_lowercase s) w
      then [(singles (take (length w) s), singles (drop (length w) s), None)] else []) KEYWORDS)"
proof -
  have "re_run uc (literal_ci uc w) p (singles s) = (if starts_with (to_ascii_lowercase s) w
      then [(singles (take (length w) s), singles (drop (length w) s), None)] else [])" if "w \<in> set KEYWORDS" for w
    using re_run_literal_ci_ascii [of uc w s p] ascii_facts(3) [OF assms(1)] assms(2) that keywords_ascii
    by (auto simp: list_all_iff)
  then show ?thesis
    by (simp add: keyword_def re_run_any_of contrasena_no_match [OF assms] comp_def cong: map_cong)
qed

lemma keyword_first:
  assumes "unicode_ok uc" "list_all is_ascii (k @ t)" "to_ascii_lowercase k \<in> set KEYWORDS"
  shows "re_run uc (keyword uc) p (singles (k @ t)) = [(singles k, singles t, None)]"
proof -
  have len: "length k = length (to_ascii_lowercase k)" by simp
  show ?thesis
    using assms(3) len unfolding keyword_runs [OF assms(1,2)]
    by (auto simp: KEYWORDS_def starts_with_def eval_nat_numeral simp del: length_to_ascii_lowercase)
qed

lemma KEYWORD_THEN_DIGITS_alt:
  "KEYWORD_THEN_DIGITS uc =
     Seq Boundary (Seq (keyword uc) (Seq Boundary (Seq (at_most_lazy 24 (not_digit uc)) (Seq (Group (digit_run uc)) Boundary))))"
  by (simp add: KEYWORD_THEN_DIGITS_def keyword_def KEYWORDS_def)

lemma captured_digits:
  assumes uc: "unicode_ok uc" and ascii: "list_all is_ascii rest"
    and d: "list_all is_ascii_digit d" "4 \<le> length d" "length d \<le> 12" and rest: "ends_digits rest"
  shows "\<exists>ms. re_run uc (Seq (Group (digit_run uc)) Boundary) p (singles (d @ rest)) = (singles d, singles rest, Some d) # ms"
proof -
  have "is_ascii_digit (last d)" using d(1,2) by (cases d rule: rev_cases) auto
  then have "un_word uc [last d]" using ascii_facts(1,4) [OF uc] digit_ascii by blast
  moreover have "(case singles rest of [] \<Rightarrow> False | u # _ \<Rightarrow> un_word uc u) = False"
    using rest ascii ascii_facts(2) [OF uc, of "hd rest"] by (cases rest) (auto simp: ends_digits_def)
  moreover have "d \<noteq> []" using d(2) by auto
  ultimately have "at_boundary uc (re_before p (singles d)) (singles rest)"
    by (simp add: at_boundary_def re_before_def last_map)
  with digit_run_first [OF assms, of p] show ?thesis by fastforce
qed

lemma digits_after_gap:
  assumes uc: "unicode_ok uc" and ascii: "list_all is_ascii (sep @ rest)"
    and d: "list_all is_ascii_digit d" "4 \<le> length d" "length d \<le> 12" and rest: "ends_digits rest"
    and sep: "list_all (\<lambda>c. \<not> is_ascii_digit c) sep" "length sep \<le> 24"
  shows "\<exists>ms. re_run uc (Seq (at_most_lazy 24 (not_digit uc)) (Seq (Group (digit_run uc)) Boundary)) p
      (singles (sep @ d @ rest)) = (singles (sep @ d), singles rest, Some d) # ms"
proof -
  let ?s = "singles (sep @ d @ rest)" and ?G = "Seq (Group (digit_run uc)) Boundary"
  have un: "\<not> un_digit uc [c]" if "c \<in> set sep" for c
    using that sep(1) ascii ascii_facts(1) [OF uc, of c] by (auto simp: list_all_iff)
  obtain c d' where cd: "d = c # d'" using d(2) by (cases d) auto
  have "un_digit uc [c]" using d(1) cd ascii_facts(1) [OF uc, of c] by (simp add: digit_ascii)
  then have tw: "takeWhile (\<lambda>u. \<not> un_digit uc u) ?s = singles sep"
    using un cd by (induction sep) auto
  have ok: "\<And>p. \<exists>ms. re_run uc ?G p (singles (d @ rest)) = (singles d, singles rest, Some d) # ms"
    using captured_digits [OF uc _ d rest] ascii by auto
  let ?f = "\<lambda>k. map (\<lambda>(y, s2, g2). (take k ?s @ y, s2, if g2 = None then None else g2))
      (re_run uc ?G (re_before p (take k ?s)) (drop k ?s))"
  have run: "re_run uc (Seq (at_most_lazy 24 (not_digit uc)) ?G) p ?s = concat (map ?f [0..<Suc (length sep)])"
    using sep(2) unfolding re_run.simps(4) not_digit_def re_run_at_most_lazy tw by (simp add: comp_def del: upt_Suc re_run.simps)
  have none: "?f k = []" if "k \<in> set [0..<length sep]" for k
  proof -
    have "drop k ?s = [sep ! k] # drop (Suc k) ?s" using that by (simp add: Cons_nth_drop_Suc [symmetric] nth_append)
    then show ?thesis using un [of "sep ! k"] that by (simp add: digit_run_def digit_def)
  qed
  obtain ms where "?f (length sep) = (singles (sep @ d), singles rest, Some d) # ms"
    using ok [of "re_before p (singles sep)"] by fastforce
  from concat_first [of "[0..<Suc (length sep)]" "[0..<length sep]" "length sep" "[]" ?f, OF _ none this]
  show ?thesis unfolding run by (intro exI) simp
qed

lemma keyword_then_digits_here:
  assumes uc: "unicode_ok uc" and ascii: "list_all is_ascii (k @ sep @ rest)"
    and k: "to_ascii_lowercase k \<in> set KEYWORDS" "case p of None \<Rightarrow> True | Some u \<Rightarrow> \<not> un_word uc u"
    and sep: "sep \<noteq> []" "\<not> word_byte (hd sep)" "list_all (\<lambda>c. \<not> is_ascii_digit c) sep" "length sep \<le> 24"
    and d: "list_all is_ascii_digit d" "4 \<le> length d" "length d \<le> 12" and rest: "ends_digits rest"
  shows "\<exists>ms. re_run uc (KEYWORD_THEN_DIGITS uc) p (singles (k @ sep @ d @ rest)) =
    (singles (k @ sep @ d), singles rest, Some d) # ms"
proof -
  have "list_all (\<lambda>w. w \<noteq> [] \<and> word_byte (hd w) \<and> word_byte (last w)) KEYWORDS" by code_simp
  then have "to_ascii_lowercase k \<noteq> []" "word_byte (hd (to_ascii_lowercase k))" "word_byte (last (to_ascii_lowercase k))"
    using k(1) by (auto simp: list_all_iff)
  then have "k \<noteq> []" "word_byte (hd k)" "word_byte (last k)"
    by (auto simp: to_ascii_lowercase_def hd_map last_map word_byte_def ascii_lower_def is_ascii_alphanumeric_def
        is_ascii_alphabetic_def split: if_splits)
  moreover have "is_ascii (hd k)" "is_ascii (last k)" "is_ascii (hd sep)"
    using ascii sep(1) \<open>k \<noteq> []\<close> by (auto simp: list_all_iff)
  ultimately have word: "un_word uc [hd k]" "un_word uc [last k]" "\<not> un_word uc [hd sep]" "k \<noteq> []"
    using ascii_facts(2) [OF uc] sep(2) by auto
  have start: "at_boundary uc p (singles (k @ t))" for t
    using word k(2) by (cases k; cases p) (auto simp: at_boundary_def)
  have after: "at_boundary uc (re_before q (singles k)) (singles (sep @ t))" for q t
    using word sep(1) by (cases sep) (auto simp: at_boundary_def re_before_def last_map)
  have all: "list_all is_ascii (k @ sep @ d @ rest)" using ascii d(1) by (auto simp: list_all_iff digit_ascii)
  note key = keyword_first [OF uc all k(1)]
  obtain ms where "re_run uc (Seq (at_most_lazy 24 (not_digit uc)) (Seq (Group (digit_run uc)) Boundary))
      (re_before p (singles k)) (singles (sep @ d @ rest)) = (singles (sep @ d), singles rest, Some d) # ms"
    using digits_after_gap [OF uc _ d rest sep(3,4), of "re_before p (singles k)"] ascii by auto
  moreover have "re_before (re_before p []) x = re_before p x" "re_before p [] = p" for x p by (simp_all add: re_before_def)
  ultimately show ?thesis
    unfolding KEYWORD_THEN_DIGITS_alt re_run.simps(4) [of uc Boundary] re_run.simps(4) [of uc "keyword uc"] re_run.simps(3)
    by (simp add: start after key del: map_append re_run.simps(4)) simp
qed

lemma singles_split:
  assumes "singles s = a @ b"
  shows "a = singles (take (length a) s)" "b = singles (drop (length a) s)"
proof -
  have "a = take (length a) (singles s)" "b = drop (length a) (singles s)" by (simp_all add: assms)
  then show "a = singles (take (length a) s)" "b = singles (drop (length a) s)" by (simp_all only: take_map drop_map)
qed

lemma search_keyword_then_digits:
  assumes uc: "unicode_ok uc" and ascii: "list_all is_ascii (pre @ k @ sep @ rest)"
    and k: "to_ascii_lowercase k \<in> set KEYWORDS" "pre = [] \<or> \<not> word_byte (last pre)"
    and first: "\<forall>i<length pre. \<forall>w\<in>set KEYWORDS. \<not> starts_with (to_ascii_lowercase (drop i (pre @ k @ sep @ d @ rest))) w"
    and sep: "sep \<noteq> []" "\<not> word_byte (hd sep)" "list_all (\<lambda>c. \<not> is_ascii_digit c) sep" "length sep \<le> 24"
    and d: "list_all is_ascii_digit d" "4 \<le> length d" "length d \<le> 12" and rest: "ends_digits rest"
  shows "\<exists>p. re_search uc (KEYWORD_THEN_DIGITS uc) None (singles (pre @ k @ sep @ d @ rest)) = Some (Some d, p, singles rest)"
proof -
  let ?t = "k @ sep @ d @ rest"
  have all: "list_all is_ascii (pre @ ?t)" using ascii d(1) by (auto simp: list_all_iff digit_ascii)
  have "re_run uc (KEYWORD_THEN_DIGITS uc) (re_before None a) (b @ singles ?t) = []" if ab: "singles pre = a @ b" "b \<noteq> []" for a b
  proof -
    have i: "length a < length pre" using arg_cong [OF ab(1), of length] ab(2) by simp
    have b: "b @ singles ?t = singles (drop (length a) (pre @ ?t))"
      using singles_split(2) [OF ab(1)] i by simp
    have "list_all is_ascii (drop (length a) (pre @ ?t))" using all by (auto simp: list_all_iff dest: in_set_dropD)
    from keyword_runs [OF uc this] first i have "re_run uc (keyword uc) p (b @ singles ?t) = []" for p
      unfolding b by (auto simp: concat_eq_Nil_conv)
    then show ?thesis by (simp add: KEYWORD_THEN_DIGITS_alt)
  qed
  then have skip: "re_search uc (KEYWORD_THEN_DIGITS uc) None (singles pre @ singles ?t) =
      re_search uc (KEYWORD_THEN_DIGITS uc) (re_before None (singles pre)) (singles ?t)"
    by (rule search_skip)
  have "case re_before None (singles pre) of None \<Rightarrow> True | Some u \<Rightarrow> \<not> un_word uc u"
    using k(2) ascii ascii_facts(2) [OF uc, of "last pre"]
    by (cases pre rule: rev_cases) (auto simp: re_before_def)
  with keyword_then_digits_here [OF uc _ k(1) _ sep d rest, of "re_before None (singles pre)"] ascii
  obtain ms where "re_run uc (KEYWORD_THEN_DIGITS uc) (re_before None (singles pre)) (singles ?t) =
      (singles (k @ sep @ d), singles rest, Some d) # ms" by auto
  from search_here [OF this] skip show ?thesis by auto
qed

lemma g_code_absent:
  assumes ascii: "list_all is_ascii s" and "\<forall>i. \<not> starts_with (drop i s) ''G-''"
  shows "captures uc (G_CODE uc) s = None"
proof -
  have lit: "list_all is_ascii ''G-''" by code_simp
  have "re_search uc (G_CODE uc) None (singles s) = None"
  proof (rule search_None)
    fix a b assume "singles s = a @ b"
    then have "b = singles (drop (length a) s)" by (rule singles_split)
    then have "re_run uc (literal ''G-'') p b = []" for p using re_run_literal_ascii [OF lit] assms(2) by simp
    then show "re_run uc (G_CODE uc) (re_before None a) b = []" by (simp add: G_CODE_def)
  qed
  then show ?thesis by (simp add: captures_def chars_ascii [OF ascii])
qed

subsection \<open>What a group can capture\<close>

definition caught :: "unicode \<Rightarrow> re \<Rightarrow> string \<Rightarrow> bool" where
  "caught uc r t \<longleftrightarrow> (\<exists>p s x s'. (x, s', Some t) \<in> set (re_run uc r p s))"

lemma captures_caught: "captures uc r h = Some t \<Longrightarrow> caught uc r t"
proof -
  have "re_search uc r p s = Some (Some t, p', s') \<Longrightarrow> caught uc r t" for p s p' s'
  proof (induction uc r p s rule: re_search.induct)
    case (1 uc r p s)
    then show ?case
      by (auto simp: re_search.simps [of uc r p] caught_def split: list.splits) (metis list.set_intros(1))+
  qed
  then show "captures uc r h = Some t \<Longrightarrow> caught uc r t"
    by (auto simp: captures_def split: option.splits)
qed

lemma caught_simps [simp]:
  "\<not> caught uc Empty t" "\<not> caught uc (OneOf P) t" "\<not> caught uc Boundary t"
  "caught uc (Alt a b) t \<longleftrightarrow> caught uc a t \<or> caught uc b t"
  by (auto simp: caught_def split: list.splits)

lemma caught_SeqD: "caught uc (Seq a b) t \<Longrightarrow> caught uc a t \<or> caught uc b t"
  by (auto simp: caught_def split: if_splits) blast

lemma not_caught:
  "\<not> caught uc (exactly n (OneOf P)) t" "\<not> caught uc (at_most n (OneOf P)) t"
  "\<not> caught uc (at_most_lazy n (OneOf P)) t" "\<not> caught uc (between lo hi (OneOf P)) t"
proof -
  show e: "\<not> caught uc (exactly n (OneOf P)) t" for n by (auto simp: caught_def re_run_exactly)
  show m: "\<not> caught uc (at_most n (OneOf P)) t" for n by (auto simp: caught_def re_run_at_most)
  show "\<not> caught uc (at_most_lazy n (OneOf P)) t" by (auto simp: caught_def re_run_at_most_lazy)
  show "\<not> caught uc (between lo hi (OneOf P)) t" unfolding between_def using caught_SeqD e m by blast
qed

lemma not_caught_literals: "\<not> caught uc (literal w) t" "\<not> caught uc (literal_ci uc w) t"
proof -
  have cls: "\<not> caught uc (seq_all (map OneOf Ps)) t" for Ps by (auto simp: caught_def re_run_classes split: if_splits)
  from cls [of "map (\<lambda>u v. v = u) (chars w)"] show "\<not> caught uc (literal w) t" by (simp add: literal_def comp_def)
  from cls [of "map (un_same uc) (chars w)"] show "\<not> caught uc (literal_ci uc w) t" by (simp add: literal_ci_def comp_def)
qed

lemma caught_GroupD: "caught uc (Group a) t \<Longrightarrow> \<exists>p s x s' g. (x, s', g) \<in> set (re_run uc a p s) \<and> t = concat x"
  by (auto simp: caught_def) blast

lemma take_class: "k \<le> length (takeWhile P s) \<Longrightarrow> list_all P (take k s) \<and> length (take k s) = k"
proof (induction s arbitrary: k)
  case (Cons u us)
  then show ?case by (cases k) (auto split: if_splits)
qed simp

lemma g_code_caught:
  assumes "caught uc (G_CODE uc) t"
  shows "\<exists>us. length us = 6 \<and> list_all (un_digit uc) us \<and> t = concat us"
proof -
  have "caught uc (Group (exactly 6 (digit uc))) t"
    using assms unfolding G_CODE_def seq_all.simps by (auto dest!: caught_SeqD simp: not_caught_literals)
  from caught_GroupD [OF this] obtain s where "t = concat (take 6 s)" "6 \<le> length (takeWhile (un_digit uc) s)"
    by (auto simp: digit_def re_run_exactly split: if_splits)
  with take_class [of 6 "un_digit uc" s] show ?thesis by blast
qed

lemma concat_ascii_class: "list_all (ascii_class P) us \<Longrightarrow> list_all P (concat us) \<and> length (concat us) = length us"
  by (induction us) (auto simp: ascii_class_def split: list.splits)

lemma alnum_caught:
  assumes "caught uc (KEYWORD_THEN_ALNUM uc) t"
  shows "5 \<le> length t \<and> length t \<le> 10 \<and> list_all (\<lambda>c. is_ascii_uppercase c \<or> is_ascii_digit c) t"
proof -
  let ?P = "ascii_class (\<lambda>c. is_ascii_uppercase c \<or> is_ascii_digit c)"
  have "caught uc (Group (between 5 10 (OneOf ?P))) t"
    using assms unfolding KEYWORD_THEN_ALNUM_def seq_all.simps
    by (auto dest!: caught_SeqD simp: not_caught not_caught_literals)
  from caught_GroupD [OF this] obtain s k where "t = concat (take k s)" "5 \<le> k" "k \<le> 10" "k \<le> length (takeWhile ?P s)"
    by (auto simp: re_run_between split: if_splits)
  with take_class [of k ?P s] concat_ascii_class [of _ "take k s"] show ?thesis by auto
qed

text \<open>Every code that the server announces is short and is taken from the mail's own code patterns: four to
  eight ASCII digits, six digits (of any script, \<open>\d\<close> being a Unicode class) after \<open>G-\<close>, or five to ten
  upper-case letters and digits with at least two digits and a letter.\<close>

theorem otp_code_short:
  assumes "otp_extract (otp_regexes uc) subject body = Some code"
  shows "list_all is_ascii_digit code \<and> 4 \<le> length code \<and> length code \<le> 8 \<or>
    (\<exists>us. length us = 6 \<and> list_all (un_digit uc) us \<and> code = concat us) \<or>
    5 \<le> length code \<and> length code \<le> 10 \<and> list_all (\<lambda>c. is_ascii_uppercase c \<or> is_ascii_digit c) code \<and>
      2 \<le> length (filter is_ascii_digit code) \<and> 1 \<le> length (filter is_ascii_alphabetic code)"
proof -
  have "list_all is_ascii_digit code \<and> 4 \<le> length code \<and> length code \<le> 8 \<or>
      (\<exists>h. captures uc (G_CODE uc) h = Some code \<or> captures uc (KEYWORD_THEN_ALNUM uc) h = Some code \<and>
         2 \<le> length (filter is_ascii_digit code) \<and> 1 \<le> length (filter is_ascii_alphabetic code))"
    using otp_extract_shape [OF assms] unfolding Let_def by (simp add: otp_regexes_def) blast
  then show ?thesis using captures_caught g_code_caught alnum_caught by blast
qed

subsection \<open>Examples\<close>

text \<open>Cases of the source's tests, with their fillers left out.\<close>

lemma otp_codes_found:
  "otp_extract (otp_regexes ascii_unicode) None (Some ''PIN: 9134'') = Some ''9134''"
  "otp_extract (otp_regexes ascii_unicode) None (Some ''G-482913 ok'') = Some ''482913''"
  "otp_extract (otp_regexes ascii_unicode) None (Some ''code 123 456'') = Some ''123456''"
  "otp_extract (otp_regexes ascii_unicode) None (Some ''483920 is your code'') = Some ''483920''"
  "otp_extract (otp_regexes ascii_unicode) None (Some ''code: 7XK4P9'') = Some ''7XK4P9''"
  by code_simp+

lemma otp_noise_ignored:
  "otp_extract (otp_regexes ascii_unicode) None (Some ''code ABCDEF'') = None"
  "otp_extract (otp_regexes ascii_unicode) None (Some ''word 7XK4P9'') = None"
  "otp_extract (otp_regexes ascii_unicode) None (Some ''code 123'') = None"
  "otp_extract (otp_regexes ascii_unicode) None (Some ''code 123456789'') = None"
  by code_simp+

text \<open>The example in the comment on the alphanumeric pattern is not found: only characters that are neither
  letters nor digits may stand between the keyword and the code.\<close>

lemma alnum_after_words_missed:
  "otp_extract (otp_regexes ascii_unicode) None (Some ''your code is 7XK4P9'') = None"
  by code_simp

text \<open>C37: The digits that a mail announces are found, whatever Unicode's tables say beyond ASCII. When an
  ASCII subject has a keyword (\<open>code\<close>, \<open>otp\<close>, \<open>pin\<close>, \<open>passcode\<close>, \<open>password\<close>, in any case) as a word of its own, no
  keyword begins earlier and there is no \<open>G-\<close>, and after a gap of at most 24 characters without a digit
  come four to eight digits, directly followed by no word character, and with no further digit in the
  run of spaces, tabs and hyphens that follows them (\<open>ends_digits\<close>: otherwise the groups are one code, or
  none is found), then \<open>extract\<close> returns exactly those digits, whatever the body is.\<close>

theorem otp_keyword_code_found:
  assumes uc: "unicode_ok uc" and ascii: "list_all is_ascii (pre @ k @ sep @ rest)"
    and k: "to_ascii_lowercase k \<in> set KEYWORDS" "pre = [] \<or> \<not> word_byte (last pre)"
    and first: "\<forall>i<length pre. \<forall>w\<in>set KEYWORDS. \<not> starts_with (to_ascii_lowercase (drop i (pre @ k @ sep @ d @ rest))) w"
    and g: "\<forall>i. \<not> starts_with (drop i (pre @ k @ sep @ d @ rest)) ''G-''"
    and sep: "sep \<noteq> []" "\<not> word_byte (hd sep)" "list_all (\<lambda>c. \<not> is_ascii_digit c) sep" "length sep \<le> 24"
    and d: "list_all is_ascii_digit d" "4 \<le> length d" "length d \<le> 8" and rest: "ends_digits rest"
  shows "otp_extract (otp_regexes uc) (Some (pre @ k @ sep @ d @ rest)) body = Some d"
proof -
  let ?s = "pre @ k @ sep @ d @ rest"
  have all: "list_all is_ascii ?s" using ascii d(1) by (auto simp: list_all_iff digit_ascii)
  have "length d \<le> 12" using d(3) by simp
  from search_keyword_then_digits [OF uc ascii k first sep d(1,2) this rest]
  obtain xs where "captures_iter uc (KEYWORD_THEN_DIGITS uc) ?s = d # xs"
    by (auto simp: captures_iter_def chars_ascii [OF all] captures_from.simps [of uc "KEYWORD_THEN_DIGITS uc" None] simp del: map_append)
  moreover have "normalize_digits d = Some d"
    using d by (simp add: normalize_digits_def Let_def list_all_iff MIN_DIGITS_def MAX_DIGITS_def filter_id_conv)
  ultimately have "scan_anchored (otp_regexes uc) ?s = Some d"
    by (simp add: scan_anchored_def otp_regexes_def g_code_absent [OF all g])
  then show ?thesis by (simp add: otp_extract_def Let_def)
qed

theorem otp_keyword_code_found_witness:
  "otp_extract (otp_regexes ascii_unicode) (Some ''Your verification CODE is 482913. Bye'') None = Some ''482913''"
proof -
  let ?pre = "''Your verification ''" and ?k = "''CODE''" and ?sep = "'' is ''" and ?d = "''482913''" and ?rest = "''. Bye''"
  have "\<forall>i<length ?pre. \<forall>w\<in>set KEYWORDS. \<not> starts_with (to_ascii_lowercase (drop i (?pre @ ?k @ ?sep @ ?d @ ?rest))) w"
    by code_simp
  moreover have "\<not> starts_with (drop i (?pre @ ?k @ ?sep @ ?d @ ?rest)) ''G-''" for i
  proof -
    have "CHR ''G'' \<notin> set (drop i (?pre @ ?k @ ?sep @ ?d @ ?rest))" by (rule contra_subsetD [OF set_drop_subset]) simp
    then show ?thesis unfolding starts_with_def by (metis in_set_takeD list.set_intros(1))
  qed
  moreover have "list_all is_ascii (?pre @ ?k @ ?sep @ ?rest)" "to_ascii_lowercase ?k \<in> set KEYWORDS"
    "\<not> word_byte (last ?pre)" "\<not> word_byte (hd ?sep)" "list_all (\<lambda>c. \<not> is_ascii_digit c) ?sep"
    "list_all is_ascii_digit ?d" "ends_digits ?rest" by code_simp+
  ultimately have "otp_extract (otp_regexes ascii_unicode) (Some (?pre @ ?k @ ?sep @ ?d @ ?rest)) None = Some ?d"
    by (intro otp_keyword_code_found [OF ascii_unicode_ok]) simp_all
  then show ?thesis by simp
qed

end
