(* ===== verification/Smtp_Commands.thy ===== *)
theory Smtp_Commands
  imports Rust_Str
begin

text \<open>
  \<open>src/smtp/commands.rs\<close>: the SMTP command line parser.
\<close>

datatype command =
    Helo string
  | Ehlo string
  | MailFrom string
  | RcptTo string
  | Data
  | Rset
  | Noop
  | Quit
  | StartTls
  | Vrfy
  | Help
  | Unknown string

definition extract_path :: "string \<Rightarrow> string \<Rightarrow> string option" where
  "extract_path args keyword =
     (let lower = to_ascii_lowercase args;
          needle = to_ascii_lowercase keyword @ '':''
      in case str_find lower needle of
           None \<Rightarrow> None
         | Some idx \<Rightarrow>
             let after = trim_start (drop (idx + length needle) args)
             in case find_char after (CHR ''<'') of
                  Some open_at \<Rightarrow>
                    let rest = drop (open_at + 1) after
                    in (case find_char rest (CHR ''>'') of
                          None \<Rightarrow> None
                        | Some close_at \<Rightarrow> Some (trim (take close_at rest)))
                | None \<Rightarrow> Some (first_word after))"

definition parse_command :: "string \<Rightarrow> command" where
  "parse_command line =
     (let trimmed = trim line;
          verb = to_ascii_uppercase (fst (splitn2_ws trimmed));
          rest = trim (case snd (splitn2_ws trimmed) of Some r \<Rightarrow> r | None \<Rightarrow> [])
      in if verb = ''HELO'' then Helo rest
         else if verb = ''EHLO'' then Ehlo rest
         else if verb = ''MAIL'' then
           (case extract_path rest ''FROM'' of Some addr \<Rightarrow> MailFrom addr | None \<Rightarrow> Unknown trimmed)
         else if verb = ''RCPT'' then
           (case extract_path rest ''TO'' of Some addr \<Rightarrow> RcptTo addr | None \<Rightarrow> Unknown trimmed)
         else if verb = ''DATA'' then Data
         else if verb = ''RSET'' then Rset
         else if verb = ''NOOP'' then Noop
         else if verb = ''QUIT'' then Quit
         else if verb = ''STARTTLS'' then StartTls
         else if verb = ''VRFY'' then Vrfy
         else if verb = ''HELP'' then Help
         else Unknown trimmed)"

lemma parse_command_examples:
  "parse_command ''mail from:<A@b.test> SIZE=100'' = MailFrom ''A@b.test''"
  "parse_command ''RCPT TO: x@y.test FOO'' = RcptTo ''x@y.test''"
  "parse_command ''MAIL FROM:<>'' = MailFrom []"
  "parse_command ''RCPT TO:<x@y.test'' = Unknown ''RCPT TO:<x@y.test''"
  by code_simp+

definition plain_address :: "string \<Rightarrow> bool" where
  "plain_address a \<longleftrightarrow> list_all (\<lambda>c. is_ascii c \<and> \<not> ws c \<and> c \<noteq> CHR ''<'' \<and> c \<noteq> CHR ''>'') a"

definition plain_params :: "string \<Rightarrow> bool" where
  "plain_params ps \<longleftrightarrow> list_all is_ascii ps \<and> (ps = [] \<or> \<not> ws (last ps))"

lemma ws_space: "ws (CHR '' '')" "\<not> ws (CHR ''>'')" "\<not> ws (CHR ''<'')" by code_simp+

lemma extract_path_bracketed:
  assumes a: "plain_address a" and p: "list_all is_ascii ps"
    and k: "starts_with (to_ascii_lowercase (key @ '':<'' @ a @ ''>'' @ ps)) (to_ascii_lowercase kw @ '':'')"
      "length kw = length key"
  shows "extract_path (key @ '':<'' @ a @ ''>'' @ ps) kw = Some a"
proof -
  let ?args = "key @ '':<'' @ a @ ''>'' @ ps"
  have "to_ascii_lowercase ?args \<noteq> []" by (simp add: to_ascii_lowercase_def)
  then have f: "str_find (to_ascii_lowercase ?args) (to_ascii_lowercase kw @ '':'') = Some 0"
    using k(1) by (cases "to_ascii_lowercase ?args") simp_all
  have asc: "list_all is_ascii (''<'' @ a @ ''>'' @ ps)"
    using a p by (auto simp: plain_address_def list_all_iff is_ascii_def byte_of_def)
  then have ts: "trim_start (''<'' @ a @ ''>'' @ ps) = ''<'' @ a @ ''>'' @ ps"
    using ws_space by (simp add: trim_start_ascii del: list_all_append)
  have d: "drop (0 + length (to_ascii_lowercase kw @ '':'')) ?args = ''<'' @ a @ ''>'' @ ps"
    "drop (0 + 1) (''<'' @ a @ ''>'' @ ps) = a @ ''>'' @ ps"
    using k(2) by simp_all
  have fo: "find_char (''<'' @ a @ ''>'' @ ps) (CHR ''<'') = Some 0" by (simp add: find_char_def)
  have fc: "find_char (a @ ''>'' @ ps) (CHR ''>'') = Some (length a)"
    using a by (auto simp: find_char_Some_iff nth_append plain_address_def list_all_iff)
  have "trim a = a"
  proof (rule trim_ascii_id(3))
    show "list_all is_ascii a" using a by (simp add: plain_address_def list_all_iff)
    show "a = [] \<or> \<not> ws (hd a) \<and> \<not> ws (last a)"
      using a hd_in_set [of a] last_in_set [of a] unfolding plain_address_def list_all_iff by blast
  qed
  then show ?thesis
    unfolding extract_path_def Let_def f option.case d ts fo fc by simp
qed

lemma verbs:
  "\<forall>v\<in>{''MAIL'', ''RCPT''}. list_all is_ascii v" "\<forall>v\<in>{''MAIL'', ''RCPT''}. \<forall>x\<in>set v. \<not> ws x"
  "\<forall>v\<in>{''MAIL'', ''RCPT''}. v \<noteq> []" "\<forall>v\<in>{''MAIL'', ''RCPT''}. to_ascii_uppercase v = v"
  by code_simp+

lemma parse_command_verb:
  assumes v: "verb \<in> {''MAIL'', ''RCPT''}" and r: "list_all is_ascii rest" "rest \<noteq> []" "\<not> ws (hd rest)" "\<not> ws (last rest)"
  shows "parse_command (verb @ '' '' @ rest) =
    (if verb = ''MAIL'' then (case extract_path rest ''FROM'' of Some addr \<Rightarrow> MailFrom addr | None \<Rightarrow> Unknown (verb @ '' '' @ rest))
     else (case extract_path rest ''TO'' of Some addr \<Rightarrow> RcptTo addr | None \<Rightarrow> Unknown (verb @ '' '' @ rest)))"
proof -
  have verb: "list_all is_ascii verb" "\<forall>x\<in>set verb. \<not> ws x" "verb \<noteq> []" "to_ascii_uppercase verb = verb"
    using verbs v by (blast, blast, blast, blast)
  have sp: "is_ascii (CHR '' '')" by code_simp
  define L where "L = verb @ '' '' @ rest"
  have tl: "trim L = L"
    using verb r sp unfolding L_def by (intro trim_ascii_id(3)) (auto simp: hd_append)
  have sl: "splitn2_ws L = (verb, Some rest)"
    using verb r sp splitn2_ws_ascii [of verb "CHR '' ''" rest] ws_space by (simp add: L_def)
  have tr: "trim rest = rest" using r by (intro trim_ascii_id(3)) auto
  have "verb = ''MAIL'' \<or> verb = ''RCPT''" using v by blast
  then show ?thesis
    unfolding L_def [symmetric] using verb(4)
    by (elim disjE) (simp_all add: parse_command_def Let_def tl sl tr)
qed

text \<open>Round trip. A \<open>MAIL FROM\<close> or \<open>RCPT TO\<close> line built around an address without blanks and
  angle brackets is parsed back to exactly that address, whatever ESMTP parameters follow.\<close>

theorem parse_path_roundtrip:
  assumes "plain_address a" "plain_params ps"
  shows "parse_command (''MAIL FROM:<'' @ a @ ''>'' @ ps) = MailFrom a \<and>
    parse_command (''RCPT TO:<'' @ a @ ''>'' @ ps) = RcptTo a"
proof -
  have r: "list_all is_ascii (''FROM:<'' @ a @ ''>'' @ ps)" "list_all is_ascii (''TO:<'' @ a @ ''>'' @ ps)"
    using assms by (auto simp: plain_address_def plain_params_def list_all_iff is_ascii_def byte_of_def)
  have l: "\<not> ws (last (''FROM:<'' @ a @ ''>'' @ ps))" "\<not> ws (last (''TO:<'' @ a @ ''>'' @ ps))"
    using assms(2) ws_space by (auto simp: plain_params_def)
  have h: "\<not> ws (hd ''FROM'')" "\<not> ws (hd ''TO'')" by code_simp+
  have f: "extract_path (''FROM:<'' @ a @ ''>'' @ ps) ''FROM'' = Some a"
    using extract_path_bracketed [OF assms(1), of ps "''FROM''" "''FROM''"] assms(2)
    by (simp add: plain_params_def starts_with_def to_ascii_lowercase_def ascii_lower_def is_ascii_uppercase_def byte_of_def)
  have t: "extract_path (''TO:<'' @ a @ ''>'' @ ps) ''TO'' = Some a"
    using extract_path_bracketed [OF assms(1), of ps "''TO''" "''TO''"] assms(2)
    by (simp add: plain_params_def starts_with_def to_ascii_lowercase_def ascii_lower_def is_ascii_uppercase_def byte_of_def)
  show ?thesis
    using parse_command_verb [of "''MAIL''", OF _ r(1) _ _ l(1)] parse_command_verb [of "''RCPT''", OF _ r(2) _ _ l(2)] h f t
    by simp
qed

theorem parse_path_roundtrip_witness:
  "parse_command (''RCPT TO:<'' @ ''Bob+x@d.test'' @ ''>'' @ '' SIZE=9'') = RcptTo ''Bob+x@d.test''"
proof -
  have "plain_address ''Bob+x@d.test''" "plain_params '' SIZE=9''" by code_simp+
  from parse_path_roundtrip [OF this] show ?thesis by blast
qed

end
