(* ===== verification/Config.thy ===== *)
theory Config
  imports Model Rust_Str
begin

text \<open>
  \<open>src/config.rs\<close>: the configuration record, its defaults, \<open>from_env\<close> with every validation it
  makes, and the helpers that the servers call. The environment is a function from names to values;
  the file system (\<open>read_file\<close>), the base64 crate (\<open>b64\<close>) and the parser of socket addresses
  (\<open>parse_addr\<close>) are arguments. \<open>from_env\<close> is cut into the sections of the source; each section
  sets its fields of the configuration or stops with the first error, as \<open>?\<close> and \<open>bail!\<close> do.
\<close>

datatype db_backend = Sqlite | Postgres

datatype tier = Free | Pro

record tier_policy =
  tp_active_mailboxes :: u32
  tp_max_lifetime_seconds :: u64
  tp_custom_local_parts :: bool
  tp_domain_count :: u32
  tp_custom_domains :: bool

record tls_config =
  tc_cert_path :: string
  tc_key_path :: string

record config =
  smtp_bind_addr :: string
  api_bind_addr :: string
  domains :: "string list"
  database_url :: string
  db_max_connections :: u32
  default_ttl :: duration
  max_message_size :: nat
  max_recipients :: nat
  max_connections :: nat
  smtp_session_timeout :: duration
  per_ip_connections_per_min :: nat
  cleanup_interval :: duration
  cors_allowed_origins :: "string list"
  smtp_hostname :: string
  tls :: "tls_config option"
  reserved_local_parts :: "string set"
  api_rate_limit_per_second :: u64
  api_rate_limit_burst :: u32
  create_rate_limit_per_minute :: u64
  create_rate_limit_burst :: u32
  api_request_timeout :: duration
  api_trust_proxy_headers :: bool
  api_docs_enabled :: bool
  legal_pages_enabled :: bool
  sse_max_concurrent :: nat
  sse_max_per_ip :: nat
  max_addresses_per_ip_per_day :: u32
  max_messages_per_mailbox :: u32
  max_mailbox_bytes :: u64
  min_free_disk_bytes :: u64
  vapid_public_key :: "string option"
  vapid_private_key :: "string option"
  vapid_subject :: string
  max_subscriptions_per_mailbox :: u32
  apns_team_id :: "string option"
  apns_key_id :: "string option"
  apns_private_key :: "string option"
  apns_topic :: "string option"
  apns_sandbox :: bool
  catch_all_enabled :: bool
  custom_domains_enabled :: bool
  max_custom_domains_per_ip_per_day :: u32
  custom_domain_verify_throttle :: duration
  store_raw_message :: bool
  entitlements_enforced :: bool
  token_signing_key :: "bytes option"
  revenuecat_secret_key :: "string option"
  revenuecat_entitlement_id :: string
  client_attestation_required :: bool
  app_attest_team_id :: "string option"
  app_attest_bundle_id :: "string option"
  app_attest_root_pem :: "bytes option"
  free_tier :: tier_policy
  pro_tier :: tier_policy

definition DEFAULT_SQLITE_URL :: string where
  "DEFAULT_SQLITE_URL = ''sqlite://data/anony-mail.db''"

definition builtin_reserved_local_parts :: "string set" where
  "builtin_reserved_local_parts = set
     [''postmaster'', ''abuse'', ''hostmaster'', ''webmaster'', ''noc'', ''security'', ''info'',
      ''marketing'', ''sales'', ''support'', ''admin'', ''administrator'', ''ssladmin'',
      ''ssladministrator'', ''sysadmin'', ''root'', ''mailer-daemon'', ''noreply'', ''no-reply'',
      ''daemon'']"

definition config_default :: config where
  "config_default = \<lparr>
     smtp_bind_addr = ''0.0.0.0:25'', api_bind_addr = ''0.0.0.0:8080'',
     domains = [''example.com''], database_url = DEFAULT_SQLITE_URL, db_max_connections = 0,
     default_ttl = seconds 3600, max_message_size = 26214400, max_recipients = 10,
     max_connections = 1024, smtp_session_timeout = seconds 60, per_ip_connections_per_min = 60,
     cleanup_interval = seconds 300, cors_allowed_origins = [''*''], smtp_hostname = ''example.com'',
     tls = None, reserved_local_parts = builtin_reserved_local_parts,
     api_rate_limit_per_second = 20, api_rate_limit_burst = 50, create_rate_limit_per_minute = 30,
     create_rate_limit_burst = 10, api_request_timeout = seconds 30, api_trust_proxy_headers = False,
     api_docs_enabled = True, legal_pages_enabled = False, sse_max_concurrent = 512,
     sse_max_per_ip = 8, max_addresses_per_ip_per_day = 200, max_messages_per_mailbox = 50,
     max_mailbox_bytes = 41943040, min_free_disk_bytes = 268435456, vapid_public_key = None,
     vapid_private_key = None, vapid_subject = ''mailto:postmaster@example.com'',
     max_subscriptions_per_mailbox = 5, apns_team_id = None, apns_key_id = None,
     apns_private_key = None, apns_topic = None, apns_sandbox = False, catch_all_enabled = False,
     custom_domains_enabled = True, max_custom_domains_per_ip_per_day = 5,
     custom_domain_verify_throttle = seconds 10, store_raw_message = False,
     entitlements_enforced = False, token_signing_key = None, revenuecat_secret_key = None,
     revenuecat_entitlement_id = ''Anony Mail Pro'', client_attestation_required = False,
     app_attest_team_id = None, app_attest_bundle_id = None, app_attest_root_pem = None,
     free_tier = \<lparr>tp_active_mailboxes = 5, tp_max_lifetime_seconds = 86400,
        tp_custom_local_parts = False, tp_domain_count = 1, tp_custom_domains = False\<rparr>,
     pro_tier = \<lparr>tp_active_mailboxes = 50, tp_max_lifetime_seconds = 0,
        tp_custom_local_parts = True, tp_domain_count = 0, tp_custom_domains = True\<rparr>\<rparr>"

subsection \<open>Helpers\<close>

definition push_configured :: "config \<Rightarrow> bool" where
  "push_configured c \<longleftrightarrow> vapid_public_key c \<noteq> None \<and> vapid_private_key c \<noteq> None"

definition apns_configured :: "config \<Rightarrow> bool" where
  "apns_configured c \<longleftrightarrow> apns_team_id c \<noteq> None \<and> apns_key_id c \<noteq> None \<and>
     apns_private_key c \<noteq> None \<and> apns_topic c \<noteq> None"

definition any_push_configured :: "config \<Rightarrow> bool" where
  "any_push_configured c \<longleftrightarrow> push_configured c \<or> apns_configured c"

definition entitlements_supported :: "config \<Rightarrow> bool" where
  "entitlements_supported c \<longleftrightarrow> token_signing_key c \<noteq> None"

definition app_attest_configured :: "config \<Rightarrow> bool" where
  "app_attest_configured c \<longleftrightarrow> app_attest_team_id c \<noteq> None \<and> app_attest_bundle_id c \<noteq> None"

definition app_attest_app_id :: "config \<Rightarrow> string option" where
  "app_attest_app_id c =
     (case (app_attest_team_id c, app_attest_bundle_id c) of
        (Some team, Some bundle) \<Rightarrow> Some (team @ ''.'' @ bundle)
      | _ \<Rightarrow> None)"

fun tier_policy_of :: "config \<Rightarrow> tier \<Rightarrow> tier_policy" where
  "tier_policy_of c Free = free_tier c"
| "tier_policy_of c Pro = pro_tier c"

definition db_backend_of :: "config \<Rightarrow> db_backend" where
  "db_backend_of c =
     (let url = trim (database_url c) in
      if starts_with url ''postgres://'' \<or> starts_with url ''postgresql://'' then Postgres else Sqlite)"

definition accepts_domain :: "config \<Rightarrow> string \<Rightarrow> bool" where
  "accepts_domain c domain \<longleftrightarrow> to_ascii_lowercase domain \<in> set (domains c)"

definition cors_allow_any :: "config \<Rightarrow> bool" where
  "cors_allow_any c \<longleftrightarrow> ''*'' \<in> set (cors_allowed_origins c)"

definition is_reserved_local_part :: "config \<Rightarrow> string \<Rightarrow> bool" where
  "is_reserved_local_part c local_part \<longleftrightarrow> local_part \<in> reserved_local_parts c"

definition mailbox_quotas_of :: "config \<Rightarrow> mailbox_quotas" where
  "mailbox_quotas_of c =
     \<lparr>q_max_messages = max_messages_per_mailbox c, q_max_bytes = max_mailbox_bytes c\<rparr>"

definition sqlite_path :: "config \<Rightarrow> string option" where
  "sqlite_path c =
     (if db_backend_of c \<noteq> Sqlite then None
      else let raw = trim (database_url c);
               without_scheme = (case strip_prefix raw ''sqlite://'' of
                   Some r \<Rightarrow> r
                 | None \<Rightarrow> (case strip_prefix raw ''sqlite:'' of Some r \<Rightarrow> r | None \<Rightarrow> raw))
           in Some (hd (split_at (CHR ''?'') without_scheme)))"

subsection \<open>Reading the environment\<close>

type_synonym env = "string \<Rightarrow> string option"

datatype config_error = Bail string | InvalidValue string string | Context string

text \<open>\<open>u32::from_str\<close>, \<open>u64::from_str\<close>, \<open>usize::from_str\<close> (an optional \<open>+\<close>, at least one digit, no
  overflow) and \<open>bool::from_str\<close>.\<close>

definition digits_value :: "string \<Rightarrow> nat" where
  "digits_value s = foldl (\<lambda>n c. 10 * n + (byte_of c - 48)) 0 s"

definition parse_uint :: "nat \<Rightarrow> string \<Rightarrow> nat option" where
  "parse_uint bits s =
     (let ds = (case s of [] \<Rightarrow> [] | c # cs \<Rightarrow> if c = CHR ''+'' then cs else s)
      in if ds = [] \<or> \<not> list_all is_ascii_digit ds then None
         else if digits_value ds < 2 ^ bits then Some (digits_value ds) else None)"

definition parse_bool :: "string \<Rightarrow> bool option" where
  "parse_bool s = (if s = ''true'' then Some True else if s = ''false'' then Some False else None)"

definition env_or :: "env \<Rightarrow> string \<Rightarrow> string \<Rightarrow> string" where
  "env_or env key default_value = (case env key of Some v \<Rightarrow> v | None \<Rightarrow> default_value)"

definition non_empty_env :: "env \<Rightarrow> string \<Rightarrow> string option" where
  "non_empty_env env key =
     (case env key of None \<Rightarrow> None | Some s \<Rightarrow> if trim s = [] then None else Some (trim s))"

definition parse_env :: "(string \<Rightarrow> 'a option) \<Rightarrow> env \<Rightarrow> string \<Rightarrow> 'a \<Rightarrow> ('a, config_error) result" where
  "parse_env parse env key default_value =
     (case env key of
        Some raw \<Rightarrow> if trim raw \<noteq> []
                    then (case parse (trim raw) of Some v \<Rightarrow> Ok v | None \<Rightarrow> Err (InvalidValue key raw))
                    else Ok default_value
      | None \<Rightarrow> Ok default_value)"

definition parse_list :: "string \<Rightarrow> string list" where
  "parse_list raw = filter (\<lambda>s. s \<noteq> []) (map trim (split_at (CHR '','') raw))"

definition env_u32 :: "env \<Rightarrow> string \<Rightarrow> u32 \<Rightarrow> (u32, config_error) result" where
  "env_u32 = parse_env (\<lambda>s. map_option word_of_nat (parse_uint 32 s))"

definition env_u64 :: "env \<Rightarrow> string \<Rightarrow> u64 \<Rightarrow> (u64, config_error) result" where
  "env_u64 = parse_env (\<lambda>s. map_option word_of_nat (parse_uint 64 s))"

definition env_usize :: "env \<Rightarrow> string \<Rightarrow> nat \<Rightarrow> (nat, config_error) result" where
  "env_usize = parse_env (parse_uint 64)"

definition env_bool :: "env \<Rightarrow> string \<Rightarrow> bool \<Rightarrow> (bool, config_error) result" where
  "env_bool = parse_env parse_bool"

text \<open>\<open>Duration::from_secs(parse_env(key, base.as_secs())?)\<close>.\<close>

definition env_secs :: "env \<Rightarrow> string \<Rightarrow> duration \<Rightarrow> (duration, config_error) result" where
  "env_secs env key base =
     map_ok (\<lambda>n. seconds (int n)) (parse_env (parse_uint 64) env key (nat (base div 1000000000)))"

text \<open>The \<open>?\<close> operator.\<close>

definition and_then :: "('a, 'e) result \<Rightarrow> ('a \<Rightarrow> ('b, 'e) result) \<Rightarrow> ('b, 'e) result" where
  "and_then r f = (case r of Ok x \<Rightarrow> f x | Err e \<Rightarrow> Err e)"

definition env_server :: "(string \<Rightarrow> string option) \<Rightarrow> env \<Rightarrow> config \<Rightarrow> (config, config_error) result" where
  "env_server parse_addr env c =
     (let ds = map to_ascii_lowercase (parse_list (env_or env ''DOMAINS'' []))
      in if ds = [] then Err (Bail ''DOMAINS must be set'')
      else and_then (env_u32 env ''DB_MAX_CONNECTIONS'' (db_max_connections c)) (\<lambda>dbm.
           and_then (parse_env parse_addr env ''SMTP_BIND_ADDR'' (smtp_bind_addr c)) (\<lambda>smtp_addr.
           and_then (parse_env parse_addr env ''API_BIND_ADDR'' (api_bind_addr c)) (\<lambda>api_addr.
           and_then (env_secs env ''DEFAULT_TTL_SECONDS'' (default_ttl c)) (\<lambda>ttl.
           and_then (env_usize env ''MAX_MESSAGE_SIZE_BYTES'' (max_message_size c)) (\<lambda>mms.
           and_then (env_usize env ''MAX_RECIPIENTS'' (max_recipients c)) (\<lambda>mr.
           and_then (env_usize env ''MAX_CONNECTIONS'' (max_connections c)) (\<lambda>mc.
           and_then (env_secs env ''SMTP_SESSION_TIMEOUT_SECONDS'' (smtp_session_timeout c)) (\<lambda>sst.
           and_then (env_usize env ''SMTP_PER_IP_CONNECTIONS_PER_MIN'' (per_ip_connections_per_min c)) (\<lambda>pip.
           and_then (env_secs env ''CLEANUP_INTERVAL_SECONDS'' (cleanup_interval c)) (\<lambda>ci.
           Ok (c\<lparr>domains := ds,
                 database_url := (case env ''DATABASE_URL'' of
                     Some s \<Rightarrow> if trim s = [] then database_url c else s
                   | None \<Rightarrow> database_url c),
                 db_max_connections := dbm, smtp_bind_addr := smtp_addr, api_bind_addr := api_addr,
                 default_ttl := ttl, max_message_size := mms, max_recipients := mr,
                 max_connections := mc, smtp_session_timeout := sst,
                 per_ip_connections_per_min := pip, cleanup_interval := ci\<rparr>))))))))))))"

definition non_blank :: "string option \<Rightarrow> string option" where
  "non_blank v = (case v of Some s \<Rightarrow> if s = [] then None else Some s | None \<Rightarrow> None)"

definition env_tls :: "env \<Rightarrow> config \<Rightarrow> (config, config_error) result" where
  "env_tls env c =
     (let c1 = c\<lparr>cors_allowed_origins := parse_list (env_or env ''CORS_ALLOWED_ORIGINS'' ''*''),
                 smtp_hostname := (case env ''SMTP_HOSTNAME'' of
                     Some s \<Rightarrow> if trim s = [] then hd (domains c) else s
                   | None \<Rightarrow> hd (domains c)),
                 reserved_local_parts := builtin_reserved_local_parts \<union>
                   set (map to_ascii_lowercase (parse_list (env_or env ''RESERVED_LOCAL_PARTS'' [])))\<rparr>
      in case (non_blank (env ''TLS_CERT_PATH''), non_blank (env ''TLS_KEY_PATH'')) of
           (Some cert, Some key) \<Rightarrow> Ok (c1\<lparr>tls := Some \<lparr>tc_cert_path = cert, tc_key_path = key\<rparr>\<rparr>)
         | (None, None) \<Rightarrow> Ok (c1\<lparr>tls := None\<rparr>)
         | _ \<Rightarrow> Err (Bail ''TLS_CERT_PATH and TLS_KEY_PATH must both be set, or both be unset''))"

definition env_limits :: "env \<Rightarrow> config \<Rightarrow> (config, config_error) result" where
  "env_limits env c =
     and_then (env_u64 env ''API_RATE_LIMIT_PER_SECOND'' (api_rate_limit_per_second c)) (\<lambda>rps.
     and_then (env_u32 env ''API_RATE_LIMIT_BURST'' (api_rate_limit_burst c)) (\<lambda>rb.
     and_then (env_u64 env ''API_CREATE_RATE_LIMIT_PER_MINUTE'' (create_rate_limit_per_minute c)) (\<lambda>cpm.
     and_then (env_u32 env ''API_CREATE_RATE_LIMIT_BURST'' (create_rate_limit_burst c)) (\<lambda>cb.
     and_then (env_secs env ''API_REQUEST_TIMEOUT_SECONDS'' (api_request_timeout c)) (\<lambda>rt.
     and_then (env_bool env ''API_TRUST_PROXY_HEADERS'' (api_trust_proxy_headers c)) (\<lambda>tph.
     and_then (env_bool env ''API_DOCS_ENABLED'' (api_docs_enabled c)) (\<lambda>ade.
     and_then (env_bool env ''LEGAL_PAGES_ENABLED'' (legal_pages_enabled c)) (\<lambda>lpe.
     and_then (env_usize env ''SSE_MAX_CONCURRENT'' (sse_max_concurrent c)) (\<lambda>smc.
     and_then (env_usize env ''SSE_MAX_PER_IP'' (sse_max_per_ip c)) (\<lambda>smi.
     and_then (env_u32 env ''MAX_ADDRESSES_PER_IP_PER_DAY'' (max_addresses_per_ip_per_day c)) (\<lambda>mad.
     and_then (env_u32 env ''MAX_MESSAGES_PER_MAILBOX'' (max_messages_per_mailbox c)) (\<lambda>mmm.
     and_then (env_u64 env ''MAX_MAILBOX_BYTES'' (max_mailbox_bytes c)) (\<lambda>mmb.
     and_then (env_u64 env ''MIN_FREE_DISK_BYTES'' (min_free_disk_bytes c)) (\<lambda>mfd.
     Ok (c\<lparr>api_rate_limit_per_second := rps, api_rate_limit_burst := rb,
           create_rate_limit_per_minute := cpm, create_rate_limit_burst := cb,
           api_request_timeout := rt, api_trust_proxy_headers := tph, api_docs_enabled := ade,
           legal_pages_enabled := lpe, sse_max_concurrent := smc, sse_max_per_ip := smi,
           max_addresses_per_ip_per_day := mad, max_messages_per_mailbox := mmm,
           max_mailbox_bytes := mmb, min_free_disk_bytes := mfd\<rparr>)))))))))))))))"

definition env_vapid :: "env \<Rightarrow> config \<Rightarrow> (config, config_error) result" where
  "env_vapid env c =
     (let public_key = non_empty_env env ''VAPID_PUBLIC_KEY'';
          private_key = non_empty_env env ''VAPID_PRIVATE_KEY''
      in if (public_key \<noteq> None) \<noteq> (private_key \<noteq> None)
         then Err (Bail ''VAPID_PUBLIC_KEY and VAPID_PRIVATE_KEY must both be set, or both be unset'')
         else and_then (env_u32 env ''MAX_SUBSCRIPTIONS_PER_MAILBOX'' (max_subscriptions_per_mailbox c)) (\<lambda>ms.
              Ok (c\<lparr>vapid_public_key := public_key, vapid_private_key := private_key,
                    vapid_subject := (case non_empty_env env ''VAPID_SUBJECT'' of
                        Some s \<Rightarrow> s
                      | None \<Rightarrow> ''mailto:postmaster@'' @ hd (domains c)),
                    max_subscriptions_per_mailbox := ms\<rparr>)))"

definition remove_whitespace :: "string \<Rightarrow> string" where
  "remove_whitespace s = concat (filter (\<lambda>ch. \<not> is_whitespace ch) (chars s))"

definition env_apns_key ::
  "(string \<Rightarrow> bytes option) \<Rightarrow> (string \<Rightarrow> bytes option) \<Rightarrow> env \<Rightarrow> (string option, config_error) result" where
  "env_apns_key read_file b64 env =
     (case (non_empty_env env ''APNS_KEY_PATH'', non_empty_env env ''APNS_KEY_BASE64'') of
        (Some _, Some _) \<Rightarrow> Err (Bail ''set only one of APNS_KEY_PATH and APNS_KEY_BASE64'')
      | (Some path, None) \<Rightarrow>
          (case read_file path of
             Some s \<Rightarrow> if from_utf8_lossy s = s then Ok (Some s) else Err (Context ''reading APNS_KEY_PATH'')
           | None \<Rightarrow> Err (Context ''reading APNS_KEY_PATH''))
      | (None, Some enc) \<Rightarrow>
          (case b64 (remove_whitespace enc) of
             None \<Rightarrow> Err (Context ''APNS_KEY_BASE64 is not valid base64'')
           | Some bs \<Rightarrow> if from_utf8_lossy bs = bs then Ok (Some bs)
                        else Err (Context ''APNS_KEY_BASE64 does not decode to PEM text''))
      | (None, None) \<Rightarrow> Ok None)"

definition env_apns ::
  "(string \<Rightarrow> bytes option) \<Rightarrow> (string \<Rightarrow> bytes option) \<Rightarrow> env \<Rightarrow> config \<Rightarrow> (config, config_error) result" where
  "env_apns read_file b64 env c =
     (let team = non_empty_env env ''APNS_TEAM_ID'';
          key_id = non_empty_env env ''APNS_KEY_ID'';
          topic = non_empty_env env ''APNS_TOPIC''
      in and_then (env_apns_key read_file b64 env) (\<lambda>key.
         let parts = [team \<noteq> None, key_id \<noteq> None, key \<noteq> None, topic \<noteq> None]
         in if list_ex (\<lambda>b. b) parts \<and> \<not> list_all (\<lambda>b. b) parts
            then Err (Bail ''APNs requires all of its settings together'')
            else and_then (env_bool env ''APNS_SANDBOX'' (apns_sandbox c)) (\<lambda>sandbox.
                 Ok (c\<lparr>apns_team_id := team, apns_key_id := key_id, apns_private_key := key,
                       apns_topic := topic, apns_sandbox := sandbox\<rparr>))))"

definition env_features :: "env \<Rightarrow> config \<Rightarrow> (config, config_error) result" where
  "env_features env c =
     and_then (env_bool env ''CATCH_ALL_ENABLED'' (catch_all_enabled c)) (\<lambda>cae.
     and_then (env_bool env ''CUSTOM_DOMAINS_ENABLED'' (custom_domains_enabled c)) (\<lambda>cde.
     and_then (env_u32 env ''MAX_CUSTOM_DOMAINS_PER_IP_PER_DAY'' (max_custom_domains_per_ip_per_day c)) (\<lambda>mcd.
     and_then (env_secs env ''CUSTOM_DOMAIN_VERIFY_THROTTLE_SECONDS'' (custom_domain_verify_throttle c)) (\<lambda>vt.
     and_then (env_bool env ''STORE_RAW_MESSAGE'' (store_raw_message c)) (\<lambda>srm.
     Ok (c\<lparr>catch_all_enabled := cae, custom_domains_enabled := cde,
           max_custom_domains_per_ip_per_day := mcd, custom_domain_verify_throttle := vt,
           store_raw_message := srm\<rparr>))))))"

definition env_signing_key :: "(string \<Rightarrow> bytes option) \<Rightarrow> env \<Rightarrow> (bytes option, config_error) result" where
  "env_signing_key b64 env =
     (case non_empty_env env ''TOKEN_SIGNING_KEY'' of
        None \<Rightarrow> Ok None
      | Some enc \<Rightarrow>
          (case b64 enc of
             None \<Rightarrow> Err (Context ''TOKEN_SIGNING_KEY is not valid base64'')
           | Some bs \<Rightarrow> if length bs < 32 then Err (Bail ''TOKEN_SIGNING_KEY must decode to at least 32 bytes'')
                        else Ok (Some bs)))"

definition env_entitlements ::
  "(string \<Rightarrow> bytes option) \<Rightarrow> env \<Rightarrow> config \<Rightarrow> (config, config_error) result" where
  "env_entitlements b64 env c =
     and_then (env_bool env ''ENTITLEMENTS_ENFORCED'' (entitlements_enforced c)) (\<lambda>enforced.
     and_then (env_signing_key b64 env) (\<lambda>key.
     let rc = non_empty_env env ''REVENUECAT_SECRET_KEY'';
         rid = (case non_empty_env env ''REVENUECAT_ENTITLEMENT_ID'' of
                  Some s \<Rightarrow> s | None \<Rightarrow> revenuecat_entitlement_id c)
     in if enforced \<and> key = None then Err (Bail ''ENTITLEMENTS_ENFORCED=true requires TOKEN_SIGNING_KEY'')
        else if rc \<noteq> None \<and> key = None then Err (Bail ''REVENUECAT_SECRET_KEY requires TOKEN_SIGNING_KEY'')
        else Ok (c\<lparr>entitlements_enforced := enforced, token_signing_key := key,
                   revenuecat_secret_key := rc, revenuecat_entitlement_id := rid\<rparr>)))"

definition env_attest ::
  "(string \<Rightarrow> bytes option) \<Rightarrow> env \<Rightarrow> config \<Rightarrow> (config, config_error) result" where
  "env_attest read_file env c =
     and_then (env_bool env ''CLIENT_ATTESTATION_REQUIRED'' (client_attestation_required c)) (\<lambda>required.
     let team = non_empty_env env ''APP_ATTEST_TEAM_ID'';
         bundle = non_empty_env env ''APP_ATTEST_BUNDLE_ID''
     in if (team \<noteq> None) \<noteq> (bundle \<noteq> None)
        then Err (Bail ''APP_ATTEST_TEAM_ID and APP_ATTEST_BUNDLE_ID must both be set, or both be unset'')
        else if team \<noteq> None \<and> token_signing_key c = None
        then Err (Bail ''APP_ATTEST_* requires TOKEN_SIGNING_KEY to mint client tokens'')
        else if required \<and> team = None
        then Err (Bail ''CLIENT_ATTESTATION_REQUIRED=true requires APP_ATTEST_TEAM_ID'')
        else and_then (case non_empty_env env ''APP_ATTEST_ROOT_CA_PATH'' of
                 Some path \<Rightarrow> (case read_file path of
                     Some bs \<Rightarrow> Ok (Some bs)
                   | None \<Rightarrow> Err (Context ''reading APP_ATTEST_ROOT_CA_PATH''))
               | None \<Rightarrow> Ok None) (\<lambda>pem.
             Ok (c\<lparr>client_attestation_required := required, app_attest_team_id := team,
                   app_attest_bundle_id := bundle, app_attest_root_pem := pem\<rparr>)))"

definition env_tiers :: "env \<Rightarrow> config \<Rightarrow> (config, config_error) result" where
  "env_tiers env c =
     and_then (env_u32 env ''FREE_ACTIVE_MAILBOXES'' (tp_active_mailboxes (free_tier c))) (\<lambda>fam.
     and_then (env_u64 env ''FREE_MAX_LIFETIME_SECONDS'' (tp_max_lifetime_seconds (free_tier c))) (\<lambda>fml.
     and_then (env_bool env ''FREE_CUSTOM_LOCAL_PARTS'' (tp_custom_local_parts (free_tier c))) (\<lambda>fcl.
     and_then (env_u32 env ''FREE_DOMAIN_COUNT'' (tp_domain_count (free_tier c))) (\<lambda>fdc.
     and_then (env_bool env ''FREE_CUSTOM_DOMAINS'' (tp_custom_domains (free_tier c))) (\<lambda>fcd.
     and_then (env_u32 env ''PRO_ACTIVE_MAILBOXES'' (tp_active_mailboxes (pro_tier c))) (\<lambda>pam.
     and_then (env_u64 env ''PRO_MAX_LIFETIME_SECONDS'' (tp_max_lifetime_seconds (pro_tier c))) (\<lambda>pml.
     Ok (c\<lparr>free_tier := \<lparr>tp_active_mailboxes = fam, tp_max_lifetime_seconds = fml,
             tp_custom_local_parts = fcl, tp_domain_count = fdc, tp_custom_domains = fcd\<rparr>,
           pro_tier := (pro_tier c)\<lparr>tp_active_mailboxes := pam, tp_max_lifetime_seconds := pml\<rparr>\<rparr>))))))))"

definition from_env ::
  "(string \<Rightarrow> string option) \<Rightarrow> (string \<Rightarrow> bytes option) \<Rightarrow> (string \<Rightarrow> bytes option) \<Rightarrow> env
   \<Rightarrow> (config, config_error) result" where
  "from_env parse_addr read_file b64 env =
     foldl and_then (env_server parse_addr env config_default)
       [env_tls env, env_limits env, env_vapid env, env_apns read_file b64 env, env_features env,
        env_entitlements b64 env, env_attest read_file env, env_tiers env]"

subsection \<open>What a loaded configuration satisfies\<close>

definition config_ok :: "config \<Rightarrow> bool" where
  "config_ok c \<longleftrightarrow>
     domains c \<noteq> [] \<and> (\<forall>d\<in>set (domains c). to_ascii_lowercase d = d) \<and>
     builtin_reserved_local_parts \<subseteq> reserved_local_parts c \<and>
     (\<forall>r\<in>reserved_local_parts c. to_ascii_lowercase r = r) \<and>
     (vapid_public_key c = None \<longleftrightarrow> vapid_private_key c = None) \<and>
     (apns_configured c \<or> apns_team_id c = None \<and> apns_key_id c = None \<and>
        apns_private_key c = None \<and> apns_topic c = None) \<and>
     (entitlements_enforced c \<longrightarrow> entitlements_supported c) \<and>
     (\<forall>k. token_signing_key c = Some k \<longrightarrow> 32 \<le> length k) \<and>
     (revenuecat_secret_key c \<noteq> None \<longrightarrow> entitlements_supported c) \<and>
     (app_attest_team_id c = None \<longleftrightarrow> app_attest_bundle_id c = None) \<and>
     (app_attest_configured c \<longrightarrow> entitlements_supported c) \<and>
     (client_attestation_required c \<longrightarrow> app_attest_configured c)"

lemma and_then_Ok [simp]: "and_then r f = Ok y \<longleftrightarrow> (\<exists>x. r = Ok x \<and> f x = Ok y)"
  by (cases r) (auto simp: and_then_def)

lemma lowercase_builtin: "\<forall>r\<in>builtin_reserved_local_parts. to_ascii_lowercase r = r"
  by code_simp

lemma env_server_ok:
  "env_server pa env c = Ok c' \<Longrightarrow> domains c' \<noteq> [] \<and> (\<forall>d\<in>set (domains c'). to_ascii_lowercase d = d)"
  by (auto simp: env_server_def Let_def split: if_splits)

lemma env_tls_ok:
  assumes "env_tls env c = Ok c'"
  shows "domains c' = domains c" "builtin_reserved_local_parts \<subseteq> reserved_local_parts c'"
    "\<forall>r\<in>reserved_local_parts c'. to_ascii_lowercase r = r"
proof -
  have r: "domains c' = domains c \<and> reserved_local_parts c' = builtin_reserved_local_parts \<union>
      set (map to_ascii_lowercase (parse_list (env_or env ''RESERVED_LOCAL_PARTS'' [])))"
    using assms by (auto simp: env_tls_def Let_def split: option.splits)
  then show "domains c' = domains c" "builtin_reserved_local_parts \<subseteq> reserved_local_parts c'" by auto
  show "\<forall>r\<in>reserved_local_parts c'. to_ascii_lowercase r = r"
    using r lowercase_builtin by auto
qed

lemma env_limits_frame:
  "env_limits env c = Ok c' \<Longrightarrow> domains c' = domains c \<and> reserved_local_parts c' = reserved_local_parts c"
  by (auto simp: env_limits_def)

lemma env_vapid_ok:
  "env_vapid env c = Ok c' \<Longrightarrow> domains c' = domains c \<and> reserved_local_parts c' = reserved_local_parts c \<and>
   (vapid_public_key c' = None \<longleftrightarrow> vapid_private_key c' = None)"
  by (auto simp: env_vapid_def Let_def split: if_splits)

lemma env_apns_ok:
  "env_apns rf b64 env c = Ok c' \<Longrightarrow> domains c' = domains c \<and> reserved_local_parts c' = reserved_local_parts c \<and>
   vapid_public_key c' = vapid_public_key c \<and> vapid_private_key c' = vapid_private_key c \<and>
   (apns_configured c' \<or> apns_team_id c' = None \<and> apns_key_id c' = None \<and>
    apns_private_key c' = None \<and> apns_topic c' = None)"
  by (auto simp: env_apns_def Let_def apns_configured_def split: if_splits)

definition same_channels :: "config \<Rightarrow> config \<Rightarrow> bool" where
  "same_channels c c' \<longleftrightarrow> domains c' = domains c \<and> reserved_local_parts c' = reserved_local_parts c \<and>
     vapid_public_key c' = vapid_public_key c \<and> vapid_private_key c' = vapid_private_key c \<and>
     apns_team_id c' = apns_team_id c \<and> apns_key_id c' = apns_key_id c \<and>
     apns_private_key c' = apns_private_key c \<and> apns_topic c' = apns_topic c"

lemma env_features_frame: "env_features env c = Ok c' \<Longrightarrow> same_channels c c'"
  by (auto simp: env_features_def same_channels_def)

lemma env_entitlements_ok:
  "env_entitlements b64 env c = Ok c' \<Longrightarrow> same_channels c c' \<and>
   (entitlements_enforced c' \<longrightarrow> token_signing_key c' \<noteq> None) \<and>
   (revenuecat_secret_key c' \<noteq> None \<longrightarrow> token_signing_key c' \<noteq> None) \<and>
   (\<forall>k. token_signing_key c' = Some k \<longrightarrow> 32 \<le> length k)"
  by (auto simp: env_entitlements_def env_signing_key_def same_channels_def Let_def
      split: if_splits option.splits)

lemma env_attest_ok:
  "env_attest rf env c = Ok c' \<Longrightarrow> same_channels c c' \<and>
   entitlements_enforced c' = entitlements_enforced c \<and> token_signing_key c' = token_signing_key c \<and>
   revenuecat_secret_key c' = revenuecat_secret_key c \<and>
   (app_attest_team_id c' = None \<longleftrightarrow> app_attest_bundle_id c' = None) \<and>
   (app_attest_team_id c' \<noteq> None \<longrightarrow> token_signing_key c' \<noteq> None) \<and>
   (client_attestation_required c' \<longrightarrow> app_attest_team_id c' \<noteq> None)"
  by (auto simp: env_attest_def same_channels_def Let_def split: if_splits)

lemma env_tiers_frame:
  "env_tiers env c = Ok c' \<Longrightarrow> same_channels c c' \<and>
   entitlements_enforced c' = entitlements_enforced c \<and> token_signing_key c' = token_signing_key c \<and>
   revenuecat_secret_key c' = revenuecat_secret_key c \<and> app_attest_team_id c' = app_attest_team_id c \<and>
   app_attest_bundle_id c' = app_attest_bundle_id c \<and>
   client_attestation_required c' = client_attestation_required c"
  by (auto simp: env_tiers_def same_channels_def)

lemma from_env_config_ok:
  assumes "from_env parse_addr read_file b64 env = Ok c"
  shows "config_ok c"
proof -
  from assms obtain c1 c2 c3 c4 c5 c6 c7 c8 where
    s: "env_server parse_addr env config_default = Ok c1" "env_tls env c1 = Ok c2" "env_limits env c2 = Ok c3"
      "env_vapid env c3 = Ok c4" "env_apns read_file b64 env c4 = Ok c5" "env_features env c5 = Ok c6"
      "env_entitlements b64 env c6 = Ok c7" "env_attest read_file env c7 = Ok c8" "env_tiers env c8 = Ok c"
    by (auto simp: from_env_def)
  have ch: "same_channels c5 c"
    using env_features_frame [OF s(6)] env_entitlements_ok [OF s(7)] env_attest_ok [OF s(8)]
      env_tiers_frame [OF s(9)] by (simp add: same_channels_def)
  then have "domains c = domains c1" "reserved_local_parts c = reserved_local_parts c2"
    using env_tls_ok(1) [OF s(2)] env_limits_frame [OF s(3)] env_vapid_ok [OF s(4)] env_apns_ok [OF s(5)]
    by (simp_all add: same_channels_def)
  moreover have "vapid_public_key c = None \<longleftrightarrow> vapid_private_key c = None"
    using ch env_vapid_ok [OF s(4)] env_apns_ok [OF s(5)] by (simp add: same_channels_def)
  moreover have "apns_configured c \<or> apns_team_id c = None \<and> apns_key_id c = None \<and>
      apns_private_key c = None \<and> apns_topic c = None"
    using ch env_apns_ok [OF s(5)] by (simp add: same_channels_def apns_configured_def)
  ultimately show ?thesis
    using env_server_ok [OF s(1)] env_tls_ok(2,3) [OF s(2)] env_entitlements_ok [OF s(7)]
      env_attest_ok [OF s(8)] env_tiers_frame [OF s(9)]
    by (auto simp: config_ok_def entitlements_supported_def app_attest_configured_def)
qed

text \<open>C36: What \<open>from_env\<close> guarantees of a configuration that it returns: there is at least one accepted
  domain and all of them are lower case, the built-in reserved local parts are reserved, the VAPID keys,
  the APNs settings and the App Attest team and bundle are complete or absent, a signing key has at least
  32 bytes and is present whenever tiers are enforced, RevenueCat or App Attest is configured, and required
  attestation implies configured App Attest. (It does not guarantee all that the program relies on: a
  limiter rate whose period is rounded to zero and a cleanup interval of zero are accepted.)\<close>

theorem from_env_ok:
  assumes "from_env parse_addr read_file b64 env = Ok c"
  shows "config_ok c"
  by (rule from_env_config_ok [OF assms])

definition sample_env :: env where
  "sample_env = map_of [(''DOMAINS'', ''A.test, b.test''), (''ENTITLEMENTS_ENFORCED'', ''true''),
     (''TOKEN_SIGNING_KEY'', replicate 40 (CHR ''k'')), (''MAX_RECIPIENTS'', ''+7'')]"

theorem from_env_ok_witness:
  "\<exists>c. from_env Some (\<lambda>_. None) Some sample_env = Ok c \<and> config_ok c \<and> domains c = [''a.test'', ''b.test''] \<and>
       entitlements_enforced c \<and> max_recipients c = 7"
proof -
  have "case from_env Some (\<lambda>_. None) Some sample_env of Err e \<Rightarrow> False
    | Ok c \<Rightarrow> domains c = [''a.test'', ''b.test''] \<and> entitlements_enforced c \<and> max_recipients c = 7"
    by code_simp
  then show ?thesis using from_env_ok [of Some "\<lambda>_. None" Some sample_env] by (auto split: result.splits)
qed

end
