(* ===== verification/Mime.thy ===== *)
theory Mime
  imports Model Otp
begin

text \<open>
  \<open>src/mime.rs\<close> and \<open>src/events.rs\<close>: turning the received bytes into a \<open>NewMessage\<close>, and the event
  that announces a stored message. The \<open>mail-parser\<close> crate and chrono's RFC 3339 parser are
  arguments; \<open>parsed_mail\<close> holds what the code asks the parsed message for.
\<close>

record mail_addr =
  ma_name :: "string option"
  ma_address :: "string option"

record mail_part =
  mp_is_multipart :: bool
  mp_content_type :: "(string \<times> string option) option"
  mp_attachment_name :: "string option"
  mp_contents :: bytes

record parsed_mail =
  pm_from :: "mail_addr list option"
  pm_subject :: "string option"
  pm_date_rfc3339 :: "string option"
  pm_body_text :: "string option"
  pm_body_html :: "string option"
  pm_attachments :: "mail_part list"

definition trimmed_non_empty :: "string option \<Rightarrow> string option" where
  "trimmed_non_empty s =
     (case s of None \<Rightarrow> None | Some t \<Rightarrow> if trim t = [] then None else Some (trim t))"

definition format_addr :: "mail_addr \<Rightarrow> string" where
  "format_addr addr =
     (case (trimmed_non_empty (ma_name addr), trimmed_non_empty (ma_address addr)) of
        (Some name, Some email) \<Rightarrow> name @ '' <'' @ email @ ''>''
      | (None, Some email) \<Rightarrow> email
      | (Some name, None) \<Rightarrow> name
      | (None, None) \<Rightarrow> [])"

definition part_attachment :: "mail_part \<Rightarrow> new_attachment" where
  "part_attachment part =
     \<lparr>na_filename = mp_attachment_name part,
      na_content_type = (case mp_content_type part of
          Some (ctype, Some sub) \<Rightarrow> ctype @ ''/'' @ sub
        | Some (ctype, None) \<Rightarrow> ctype
        | None \<Rightarrow> ''application/octet-stream''),
      na_content = mp_contents part\<rparr>"

definition raw_size_of :: "bytes \<Rightarrow> int" where
  "raw_size_of raw = as_i32 (min (length raw) i32_max)"

definition parse_message ::
  "(bytes \<Rightarrow> parsed_mail option) \<Rightarrow> (string \<Rightarrow> datetime option) \<Rightarrow> bytes \<Rightarrow> string \<Rightarrow> new_message" where
  "parse_message mail_parser rfc3339 raw envelope_from =
     (case mail_parser raw of
        None \<Rightarrow> \<lparr>nm_mail_from = envelope_from, nm_subject = None, nm_message_date = None,
                 nm_text_body = None, nm_html_body = None, nm_raw_size = raw_size_of raw,
                 nm_raw_content = None, nm_attachments = []\<rparr>
      | Some message \<Rightarrow>
          \<lparr>nm_mail_from = (case pm_from message of
               Some (addr # _) \<Rightarrow> if format_addr addr = [] then envelope_from else format_addr addr
             | _ \<Rightarrow> envelope_from),
           nm_subject = pm_subject message,
           nm_message_date = Option.bind (pm_date_rfc3339 message) rfc3339,
           nm_text_body = pm_body_text message, nm_html_body = pm_body_html message,
           nm_raw_size = raw_size_of raw, nm_raw_content = None,
           nm_attachments = map part_attachment (filter (\<lambda>p. \<not> mp_is_multipart p) (pm_attachments message))\<rparr>)"

record mail_event =
  me_address :: string
  me_id :: uuid
  me_mail_from :: string
  me_subject :: "string option"
  me_received_at :: datetime
  me_has_attachments :: bool
  me_code :: "string option"

definition event_from_stored :: "otp_patterns \<Rightarrow> string \<Rightarrow> stored_message \<Rightarrow> mail_event" where
  "event_from_stored re address msg =
     \<lparr>me_address = address, me_id = sm_id msg, me_mail_from = sm_mail_from msg,
      me_subject = sm_subject msg, me_received_at = sm_received_at msg,
      me_has_attachments = (sm_attachments msg \<noteq> []),
      me_code = otp_extract re (sm_subject msg) (sm_text_body msg)\<rparr>"

text \<open>The recorded size never wraps: it is the length, capped at the largest \<open>i32\<close>.\<close>

lemma raw_size_of_eq: "raw_size_of raw = int (min (length raw) i32_max)"
  by (simp add: raw_size_of_def as_i32_id)

lemma parse_message_raw_size [simp]:
  "nm_raw_size (parse_message mp rf raw from) = int (min (length raw) i32_max)"
  "nm_raw_content (parse_message mp rf raw from) = None"
  by (auto simp: parse_message_def raw_size_of_eq split: option.splits)

end
