(* ===== verification/World.thy ===== *)
theory World
  imports Config Mime Store_Contract
begin

text \<open>
  What every task of the process shares: the store, the events published so far, the readings of
  \<open>Utc::now()\<close> and the identifiers drawn by \<open>Uuid::new_v4()\<close>. A reading or a draw takes the next
  element of its stream, so a definition that takes two readings sees two values. The HTTP side
  extends the record (theory \<open>Api_Base\<close>).
\<close>

record 's world =
  w_store :: 's
  w_events :: "mail_event list"
  w_clock :: "nat \<Rightarrow> datetime"
  w_ticks :: nat
  w_uuids :: "nat \<Rightarrow> uuid"
  w_drawn :: nat

definition utc_now :: "('s, 'x) world_scheme \<Rightarrow> datetime \<times> ('s, 'x) world_scheme" where
  "utc_now w = (w_clock w (w_ticks w), w\<lparr>w_ticks := Suc (w_ticks w)\<rparr>)"

text \<open>\<open>Duration::seconds(config.default_ttl.as_secs() as i64)\<close>.\<close>

definition ttl_of :: "config \<Rightarrow> duration" where
  "ttl_of c = seconds (as_i64 (word_of_int (default_ttl c div 1000000000)))"

end
