(* ===== verification/Smtp_Session.thy ===== *)
theory Smtp_Session
  imports Smtp_Commands World
begin

text \<open>
  \<open>src/smtp/session.rs\<close>: one inbound SMTP connection. The connection (\<open>conn\<close>) is the buffer of the
  \<open>BufReader\<close> and the reads that the socket will deliver, chunk by chunk (\<open>NetFail\<close> is a failed or
  timed-out read, the end of the list end of file), the lines written so far, and how many more
  writes succeed before the peer is gone. The \<open>world\<close> (theory \<open>World\<close>) holds what the session shares with the rest
  of the process: the store, the published events, the readings of the clock and the identifiers
  drawn. Every \<open>?\<close> on a write or read is an \<open>Abort\<close>.
\<close>

subsection \<open>State\<close>

datatype net_event = Chunk bytes | NetFail

record conn =
  cn_buf :: bytes
  cn_sock :: "net_event list"
  cn_out :: "string list"
  cn_writable :: nat

record session =
  ss_helo :: "string option"
  ss_mail_from :: "string option"
  ss_rcpts :: "string list"
  ss_tls_active :: bool

text \<open>\<open>SmtpContext\<close>, with the third-party code it reaches: the TLS acceptor (a handshake on the rest
  of the socket gives the decrypted stream or fails), the MIME parser, the patterns of the code
  extraction and the free-space query of the file system.\<close>

record 's smtp_context =
  cx_ops :: "'s store_ops"
  cx_config :: config
  cx_tls_acceptor :: "(net_event list \<Rightarrow> net_event list option) option"
  cx_mail_parser :: "bytes \<Rightarrow> parsed_mail option"
  cx_rfc3339 :: "string \<Rightarrow> datetime option"
  cx_otp :: otp_patterns
  cx_available_space :: "string \<Rightarrow> u64 option"

datatype line_status = Line | Eof | TooLong

datatype data_outcome = Complete bytes | TooLarge | ConnectionClosed

datatype recipient_check = Accept string | NotOurDomain | NoMailbox | CheckError

datatype io_error = IoError

datatype 'a flow = Continue 'a | Break 'a | Return 'a | Abort 'a

definition COMMAND_LINE_MAX :: nat where
  "COMMAND_LINE_MAX = 4096"

definition session_new :: session where
  "session_new = \<lparr>ss_helo = None, ss_mail_from = None, ss_rcpts = [], ss_tls_active = False\<rparr>"

definition reset_tx :: "session \<Rightarrow> session" where
  "reset_tx ss = ss\<lparr>ss_mail_from := None, ss_rcpts := []\<rparr>"

subsection \<open>Lines in, lines out\<close>

function read_line_loop ::
  "nat \<Rightarrow> bytes \<Rightarrow> bytes \<Rightarrow> net_event list
   \<Rightarrow> (line_status, io_error) result \<times> bytes \<times> bytes \<times> net_event list" where
  "read_line_loop maxlen line buf sock =
     (if buf = [] then
        (case sock of
           [] \<Rightarrow> (Ok (if line = [] then Eof else Line), line, [], [])
         | NetFail # rest \<Rightarrow> (Err IoError, line, [], rest)
         | Chunk c # rest \<Rightarrow>
             if c = [] then (Ok (if line = [] then Eof else Line), line, [], rest)
             else read_line_loop maxlen line c rest)
      else
        (case find_char buf (CHR 10) of
           Some pos \<Rightarrow>
             if length line + (pos + 1) > maxlen then (Ok TooLong, line, drop (pos + 1) buf, sock)
             else (Ok Line, line @ take (pos + 1) buf, drop (pos + 1) buf, sock)
         | None \<Rightarrow>
             if length line + length buf > maxlen then (Ok TooLong, line, [], sock)
             else read_line_loop maxlen (line @ buf) [] sock))"
  by pat_completeness auto
termination
  by (relation "measure (\<lambda>(_, _, buf, sock). 2 * length sock + (if buf = [] then 0 else 1))") auto

declare read_line_loop.simps [simp del]

definition read_line :: "nat \<Rightarrow> conn \<Rightarrow> (line_status, io_error) result \<times> bytes \<times> conn" where
  "read_line maxlen cn =
     (case read_line_loop maxlen [] (cn_buf cn) (cn_sock cn) of
        (r, line, buf, sock) \<Rightarrow> (r, line, cn\<lparr>cn_buf := buf, cn_sock := sock\<rparr>))"

definition write_line :: "string \<Rightarrow> conn \<Rightarrow> (conn, io_error) result" where
  "write_line line cn =
     (if cn_writable cn = 0 then Err IoError
      else Ok (cn\<lparr>cn_out := cn_out cn @ [line], cn_writable := cn_writable cn - 1\<rparr>))"

fun write_multiline :: "nat \<Rightarrow> string list \<Rightarrow> conn \<Rightarrow> (conn, io_error) result" where
  "write_multiline code [] cn = Ok cn"
| "write_multiline code [l] cn = write_line (show_nat code @ '' '' @ l) cn"
| "write_multiline code (l # ls) cn =
     (case write_line (show_nat code @ ''-'' @ l) cn of
        Ok cn' \<Rightarrow> write_multiline code ls cn'
      | Err e \<Rightarrow> Err e)"

definition strip_eol :: "bytes \<Rightarrow> bytes" where
  "strip_eol line =
     (let l1 = (if line \<noteq> [] \<and> last line = CHR 10 then butlast line else line)
      in if l1 \<noteq> [] \<and> last l1 = CHR 13 then butlast l1 else l1)"

definition is_terminator :: "bytes \<Rightarrow> bool" where
  "is_terminator line \<longleftrightarrow> strip_eol line = ''.''"

text \<open>What is left to read; every line read makes it smaller.\<close>

definition event_size :: "net_event \<Rightarrow> nat" where
  "event_size e = (case e of Chunk c \<Rightarrow> Suc (length c) | NetFail \<Rightarrow> 1)"

definition unread :: "conn \<Rightarrow> nat" where
  "unread cn = length (cn_buf cn) + sum_list (map event_size (cn_sock cn))"

abbreviation sock_size :: "net_event list \<Rightarrow> nat" where
  "sock_size sock \<equiv> sum_list (map event_size sock)"

lemma read_line_loop_bounds:
  "read_line_loop m line buf sock = (r, line', buf', sock') \<Longrightarrow>
   length buf' + sock_size sock' \<le> length buf + sock_size sock \<and>
   (r = Ok TooLong \<longrightarrow> length buf' + sock_size sock' < length buf + sock_size sock) \<and>
   (r = Ok Line \<longrightarrow> line' \<noteq> [] \<and>
      length buf' + sock_size sock' + length line' \<le> length buf + sock_size sock + length line \<and>
      (length line \<le> m \<longrightarrow> length line' \<le> m))"
proof (induction m line buf sock arbitrary: r line' buf' sock' rule: read_line_loop.induct)
  case (1 m line buf sock)
  note eq = 1(3) [unfolded read_line_loop.simps [of m line buf sock]]
  show ?case
  proof (cases "buf = []")
    case True
    show ?thesis
    proof (cases sock)
      case Nil
      with eq True show ?thesis by (auto split: if_splits)
    next
      case (Cons e es)
      show ?thesis
      proof (cases e)
        case NetFail
        with eq True Cons show ?thesis by (auto simp: event_size_def)
      next
        case (Chunk c)
        show ?thesis
        proof (cases "c = []")
          case True
          with eq \<open>buf = []\<close> Cons Chunk show ?thesis by (auto simp: event_size_def split: if_splits)
        next
          case False
          with eq \<open>buf = []\<close> Cons Chunk have "read_line_loop m line c es = (r, line', buf', sock')" by simp
          from 1(1) [OF \<open>buf = []\<close> Cons Chunk False this] show ?thesis
            using \<open>buf = []\<close> Cons Chunk by (auto simp: event_size_def)
        qed
      qed
    qed
  next
    case False
    show ?thesis
    proof (cases "find_char buf (CHR 10)")
      case None
      show ?thesis
      proof (cases "length line + length buf > m")
        case True
        with eq False None show ?thesis by auto
      next
        case le: False
        with eq False None have "read_line_loop m (line @ buf) [] sock = (r, line', buf', sock')" by simp
        from 1(2) [OF False None le this] le show ?thesis by auto
      qed
    next
      case (Some pos)
      then have "pos < length buf" by (simp add: find_char_Some_iff)
      with eq False Some show ?thesis by (cases "length line + (pos + 1) > m") auto
    qed
  qed
qed

lemma read_line_bounds:
  assumes "read_line m cn = (r, line, cn')"
  shows "unread cn' \<le> unread cn" "r = Ok TooLong \<Longrightarrow> unread cn' < unread cn"
    "r = Ok Line \<Longrightarrow> line \<noteq> [] \<and> unread cn' + length line \<le> unread cn \<and> length line \<le> m"
    "cn_out cn' = cn_out cn" "cn_writable cn' = cn_writable cn"
proof -
  obtain buf sock where loop: "read_line_loop m [] (cn_buf cn) (cn_sock cn) = (r, line, buf, sock)"
    and cn': "cn' = cn\<lparr>cn_buf := buf, cn_sock := sock\<rparr>"
    using assms by (auto simp: read_line_def split: prod.splits)
  from read_line_loop_bounds [OF loop] cn'
  show "unread cn' \<le> unread cn" "r = Ok TooLong \<Longrightarrow> unread cn' < unread cn"
    "r = Ok Line \<Longrightarrow> line \<noteq> [] \<and> unread cn' + length line \<le> unread cn \<and> length line \<le> m"
    "cn_out cn' = cn_out cn" "cn_writable cn' = cn_writable cn"
    by (auto simp: unread_def)
qed

lemma read_line_unread_less:
  "read_line m cn = (Ok TooLong, line, cn') \<Longrightarrow> unread cn' < unread cn"
  "read_line m cn = (Ok Line, line, cn') \<Longrightarrow> unread cn' < unread cn"
proof -
  show "unread cn' < unread cn" if "read_line m cn = (Ok TooLong, line, cn')"
    using read_line_bounds(2) [OF that] by simp
  show "unread cn' < unread cn" if "read_line m cn = (Ok Line, line, cn')"
    using read_line_bounds(3) [OF that] by (cases line) auto
qed

subsection \<open>The DATA phase\<close>

definition dot_unstuff :: "bytes \<Rightarrow> bytes" where
  "dot_unstuff line = (if line \<noteq> [] \<and> hd line = CHR ''.'' then tl line else line)"

function read_data_loop ::
  "nat \<Rightarrow> bytes \<Rightarrow> bool \<Rightarrow> conn \<Rightarrow> (data_outcome, io_error) result \<times> conn" where
  "read_data_loop maxsize data too_large cn =
     (case read_line (saturating_add_usize maxsize 4) cn of
        (Err e, line, cn') \<Rightarrow> (Err e, cn')
      | (Ok Eof, line, cn') \<Rightarrow> (Ok ConnectionClosed, cn')
      | (Ok TooLong, line, cn') \<Rightarrow>
          read_data_loop maxsize (if too_large then data else []) True cn'
      | (Ok Line, line, cn') \<Rightarrow>
          if is_terminator line then (Ok (if too_large then TooLarge else Complete data), cn')
          else if too_large then read_data_loop maxsize data too_large cn'
          else if length data + length (dot_unstuff line) > maxsize
               then read_data_loop maxsize [] True cn'
               else read_data_loop maxsize (data @ dot_unstuff line) too_large cn')"
  by pat_completeness auto
termination
  by (relation "measure (\<lambda>(_, _, _, cn). unread cn)") (auto dest!: sym [of _ "read_line _ _"] read_line_unread_less)

declare read_data_loop.simps [simp del]

definition read_data :: "config \<Rightarrow> conn \<Rightarrow> (data_outcome, io_error) result \<times> conn" where
  "read_data c cn = read_data_loop (max_message_size c) [] False cn"

subsection \<open>Recipients\<close>

definition strip_plus_tag :: "string \<Rightarrow> string" where
  "strip_plus_tag addr =
     (case rsplit_once (CHR ''@'') addr of
        None \<Rightarrow> addr
      | Some (local_part, domain) \<Rightarrow>
          (case find_char local_part (CHR ''+'') of
             Some pos \<Rightarrow> if pos > 0 then take pos local_part @ ''@'' @ domain else addr
           | None \<Rightarrow> addr))"

definition try_catch_all ::
  "'s smtp_context \<Rightarrow> string \<Rightarrow> 's world \<Rightarrow> recipient_check \<times> 's world" where
  "try_catch_all cx delivery w =
     (if \<not> catch_all_enabled (cx_config cx) then (NoMailbox, w)
      else case rsplit_once (CHR ''@'') delivery of
        None \<Rightarrow> (NoMailbox, w)
      | Some (local_part, domain) \<Rightarrow>
          if is_reserved_local_part (cx_config cx) local_part then (NoMailbox, w)
          else
            let (now1, w1) = utc_now w;
                (now2, w2) = utc_now w1;
                (r, s') = st_create_mailbox (cx_ops cx) now2 delivery domain
                            (now1 + ttl_of (cx_config cx)) None None (w_store w2);
                w3 = w2\<lparr>w_store := s'\<rparr>
            in case r of
                 Ok _ \<Rightarrow> (Accept delivery, w3)
               | Err e \<Rightarrow>
                   if is_unique_violation e then
                     (let (now3, w4) = utc_now w3
                      in case st_mailbox_is_active (cx_ops cx) delivery now3 (w_store w4) of
                           Ok True \<Rightarrow> (Accept delivery, w4)
                         | Ok False \<Rightarrow> (NoMailbox, w4)
                         | Err _ \<Rightarrow> (CheckError, w4))
                   else (CheckError, w3))"

definition domain_accepted :: "'s smtp_context \<Rightarrow> string \<Rightarrow> 's \<Rightarrow> recipient_check option" where
  "domain_accepted cx domain s =
     (if accepts_domain (cx_config cx) domain then None
      else if \<not> custom_domains_enabled (cx_config cx) then Some NotOurDomain
      else case st_custom_domain_is_verified (cx_ops cx) domain s of
             Ok True \<Rightarrow> None
           | Ok False \<Rightarrow> Some NotOurDomain
           | Err _ \<Rightarrow> Some CheckError)"

definition validate_recipient ::
  "'s smtp_context \<Rightarrow> string \<Rightarrow> 's world \<Rightarrow> recipient_check \<times> 's world" where
  "validate_recipient cx addr w =
     (case rsplit_once (CHR ''@'') addr of
        None \<Rightarrow> (NotOurDomain, w)
      | Some (_, domain) \<Rightarrow>
          if domain = [] then (NotOurDomain, w)
          else case domain_accepted cx domain (w_store w) of
            Some refusal \<Rightarrow> (refusal, w)
          | None \<Rightarrow>
              let delivery = strip_plus_tag addr;
                  (now, w1) = utc_now w
              in case st_mailbox_is_active (cx_ops cx) delivery now (w_store w1) of
                   Ok True \<Rightarrow> (Accept delivery, w1)
                 | Ok False \<Rightarrow>
                     if accepts_domain (cx_config cx) domain then try_catch_all cx delivery w1
                     else (NoMailbox, w1)
                 | Err _ \<Rightarrow> (CheckError, w1))"

type_synonym 's sstate = "session \<times> conn \<times> 's world"

definition reply :: "string \<Rightarrow> 's sstate \<Rightarrow> 's sstate flow" where
  "reply line st =
     (case st of (ss, cn, w) \<Rightarrow>
        (case write_line line cn of Ok cn' \<Rightarrow> Continue (ss, cn', w) | Err _ \<Rightarrow> Abort (ss, cn, w)))"

definition handle_rcpt :: "'s smtp_context \<Rightarrow> string \<Rightarrow> 's sstate \<Rightarrow> 's sstate flow" where
  "handle_rcpt cx addr st =
     (case st of (ss, cn, w) \<Rightarrow>
        if ss_mail_from ss = None then reply ''503 5.5.1 Need MAIL before RCPT'' st
        else if length (ss_rcpts ss) \<ge> max_recipients (cx_config cx)
        then reply ''452 4.5.3 Too many recipients'' st
        else
          let recipient = to_ascii_lowercase (trim addr);
              (check, w') = validate_recipient cx recipient w
          in case check of
               Accept delivery \<Rightarrow>
                 let ss' = (if delivery \<in> set (ss_rcpts ss) then ss
                            else ss\<lparr>ss_rcpts := ss_rcpts ss @ [delivery]\<rparr>)
                 in reply ''250 2.1.5 Recipient OK'' (ss', cn, w')
             | NotOurDomain \<Rightarrow> reply ''550 5.7.1 Relaying denied, not a local domain'' (ss, cn, w')
             | NoMailbox \<Rightarrow> reply ''550 5.1.1 No such user here'' (ss, cn, w')
             | CheckError \<Rightarrow>
                 reply ''451 4.3.0 Temporary lookup failure, try again later'' (ss, cn, w'))"

subsection \<open>Storing the message\<close>

text \<open>\<open>std::path\<close>: the directory of the database file, up to redundant separators.\<close>

definition path_components :: "string \<Rightarrow> string list" where
  "path_components p =
     (case filter (\<lambda>c. c \<noteq> []) (split_at (CHR ''/'') p) of
        [] \<Rightarrow> []
      | c # cs \<Rightarrow> (if c = ''.'' \<and> starts_with p ''/'' then [] else [c]) @ filter (\<lambda>d. d \<noteq> ''.'') cs)"

definition db_dir :: "string \<Rightarrow> string" where
  "db_dir p =
     (let cs = path_components p
      in if cs = [] then ''.''
         else if starts_with p ''/'' then ''/'' @ join_with ''/'' (butlast cs)
         else if butlast cs = [] then ''.'' else join_with ''/'' (butlast cs))"

definition storage_has_headroom :: "'s smtp_context \<Rightarrow> bool" where
  "storage_has_headroom cx =
     (if min_free_disk_bytes (cx_config cx) = 0 then True
      else case sqlite_path (cx_config cx) of
        None \<Rightarrow> True
      | Some db_path \<Rightarrow>
          (case cx_available_space cx (db_dir db_path) of
             Some free \<Rightarrow> free \<ge> min_free_disk_bytes (cx_config cx)
           | None \<Rightarrow> True))"

fun store_copies ::
  "'s smtp_context \<Rightarrow> new_message \<Rightarrow> string list \<Rightarrow> 's world \<Rightarrow> (unit, store_error) result \<times> 's world" where
  "store_copies cx parsed [] w = (Ok (), w)"
| "store_copies cx parsed (rcpt # rcpts) w =
     (let (now, w1) = utc_now w;
          base = w_drawn w1;
          (r, s') = st_save_message (cx_ops cx) now (w_uuids w1 base) (\<lambda>i. w_uuids w1 (Suc (base + i)))
                      rcpt parsed (w_store w1);
          w2 = w1\<lparr>w_store := s', w_drawn := Suc (base + length (nm_attachments parsed))\<rparr>
      in case r of
           Err e \<Rightarrow> (Err e, w2)
         | Ok stored \<Rightarrow>
             store_copies cx parsed rcpts
               (w2\<lparr>w_events := w_events w2 @ [event_from_stored (cx_otp cx) rcpt stored]\<rparr>))"

definition store_message ::
  "'s smtp_context \<Rightarrow> session \<Rightarrow> bytes \<Rightarrow> 's world \<Rightarrow> (nat, store_error) result \<times> 's world" where
  "store_message cx ss raw w =
     (let envelope_from = (case ss_mail_from ss of Some a \<Rightarrow> a | None \<Rightarrow> []);
          parsed = parse_message (cx_mail_parser cx) (cx_rfc3339 cx) raw envelope_from;
          parsed = (if store_raw_message (cx_config cx) then parsed\<lparr>nm_raw_content := Some raw\<rparr> else parsed);
          (r, w') = store_copies cx parsed (ss_rcpts ss) w
      in (map_ok (\<lambda>_. length (ss_rcpts ss)) r, w'))"

subsection \<open>The command loop\<close>

definition ehlo_caps :: "'s smtp_context \<Rightarrow> session \<Rightarrow> string list" where
  "ehlo_caps cx ss =
     [smtp_hostname (cx_config cx) @ '' at your service''] @
     (if cx_tls_acceptor cx \<noteq> None \<and> \<not> ss_tls_active ss then [''STARTTLS''] else []) @
     [''SIZE '' @ show_nat (max_message_size (cx_config cx)), ''8BITMIME'', ''PIPELINING'',
      ''ENHANCEDSTATUSCODES'', ''SMTPUTF8'']"

definition write_ehlo :: "'s smtp_context \<Rightarrow> 's sstate \<Rightarrow> 's sstate flow" where
  "write_ehlo cx st =
     (case st of (ss, cn, w) \<Rightarrow>
        (case write_multiline 250 (ehlo_caps cx ss) cn of
           Ok cn' \<Rightarrow> Continue (ss, cn', w) | Err _ \<Rightarrow> Abort (ss, cn, w)))"

definition handle_mail_from :: "string \<Rightarrow> 's sstate \<Rightarrow> 's sstate flow" where
  "handle_mail_from addr st =
     (case st of (ss, cn, w) \<Rightarrow>
        if ss_helo ss = None then reply ''503 5.5.1 Send HELO/EHLO first'' st
        else if ss_mail_from ss \<noteq> None then reply ''503 5.5.1 Sender already specified'' st
        else reply ''250 2.1.0 Sender OK'' (ss\<lparr>ss_mail_from := Some addr, ss_rcpts := []\<rparr>, cn, w))"

text \<open>After the reply to a stored or refused message the transaction is reset; a write error
  leaves before the reset, as \<open>?\<close> does.\<close>

definition reply_then_reset :: "string \<Rightarrow> 's sstate \<Rightarrow> 's sstate flow" where
  "reply_then_reset line st =
     (case reply line st of
        Continue (ss, cn, w) \<Rightarrow> Continue (reset_tx ss, cn, w)
      | other \<Rightarrow> other)"

definition receive_data :: "'s smtp_context \<Rightarrow> 's sstate \<Rightarrow> 's sstate flow" where
  "receive_data cx st =
     (case st of (ss, cn, w) \<Rightarrow>
        (case read_data (cx_config cx) cn of
           (Err _, cn') \<Rightarrow> Abort (ss, cn', w)
         | (Ok (Complete raw), cn') \<Rightarrow>
             (case store_message cx ss raw w of
                (Ok n, w') \<Rightarrow>
                  reply_then_reset (''250 2.0.0 Message accepted ('' @ show_nat n @ '' recipient(s))'')
                    (ss, cn', w')
              | (Err _, w') \<Rightarrow>
                  reply_then_reset ''451 4.3.0 Could not store message, try again later'' (ss, cn', w'))
         | (Ok TooLarge, cn') \<Rightarrow> reply_then_reset ''552 5.3.4 Message too large'' (ss, cn', w)
         | (Ok ConnectionClosed, cn') \<Rightarrow> Break (ss, cn', w)))"

definition handle_data :: "'s smtp_context \<Rightarrow> 's sstate \<Rightarrow> 's sstate flow" where
  "handle_data cx st =
     (case st of (ss, cn, w) \<Rightarrow>
        if ss_mail_from ss = None then reply ''503 5.5.1 Need MAIL before DATA'' st
        else if ss_rcpts ss = [] then reply ''554 5.5.1 No valid recipients'' st
        else if \<not> storage_has_headroom cx then reply ''452 4.3.1 Insufficient system storage'' st
        else case reply ''354 Start mail input; end with <CRLF>.<CRLF>'' st of
               Continue st' \<Rightarrow> receive_data cx st'
             | other \<Rightarrow> other)"

text \<open>\<open>BufReader::into_inner\<close> drops what was buffered; the handshake runs on the rest of the socket.\<close>

definition handle_starttls :: "'s smtp_context \<Rightarrow> 's sstate \<Rightarrow> 's sstate flow" where
  "handle_starttls cx st =
     (case st of (ss, cn, w) \<Rightarrow>
        if ss_tls_active ss then reply ''503 5.5.1 TLS already active'' st
        else case cx_tls_acceptor cx of
          None \<Rightarrow> reply ''502 5.5.1 STARTTLS not supported'' st
        | Some acceptor \<Rightarrow>
            (case reply ''220 2.0.0 Ready to start TLS'' st of
               Continue (ss', cn', w') \<Rightarrow>
                 (case acceptor (cn_sock cn') of
                    Some decrypted \<Rightarrow>
                      Continue (reset_tx (ss'\<lparr>ss_tls_active := True, ss_helo := None\<rparr>),
                                cn'\<lparr>cn_buf := [], cn_sock := decrypted\<rparr>, w')
                  | None \<Rightarrow> Return (ss', cn'\<lparr>cn_buf := []\<rparr>, w'))
             | other \<Rightarrow> other))"

definition break_after :: "'a flow \<Rightarrow> 'a flow" where
  "break_after f = (case f of Continue x \<Rightarrow> Break x | other \<Rightarrow> other)"

fun exec_command :: "'s smtp_context \<Rightarrow> command \<Rightarrow> 's sstate \<Rightarrow> 's sstate flow" where
  "exec_command cx Quit st = break_after (reply ''221 2.0.0 Bye'' st)"
| "exec_command cx (Ehlo domain) (ss, cn, w) =
     write_ehlo cx (reset_tx (ss\<lparr>ss_helo := Some domain\<rparr>), cn, w)"
| "exec_command cx (Helo domain) (ss, cn, w) =
     reply (''250 '' @ smtp_hostname (cx_config cx) @ '' Hello'')
       (reset_tx (ss\<lparr>ss_helo := Some domain\<rparr>), cn, w)"
| "exec_command cx (MailFrom addr) st = handle_mail_from addr st"
| "exec_command cx (RcptTo addr) st = handle_rcpt cx addr st"
| "exec_command cx Data st = handle_data cx st"
| "exec_command cx Rset (ss, cn, w) = reply ''250 2.0.0 OK'' (reset_tx ss, cn, w)"
| "exec_command cx Noop st = reply ''250 2.0.0 OK'' st"
| "exec_command cx StartTls st = handle_starttls cx st"
| "exec_command cx Vrfy st = reply ''252 2.5.2 Cannot VRFY user'' st"
| "exec_command cx Help st = reply ''214 2.0.0 anony-mail inbound-only SMTP'' st"
| "exec_command cx (Unknown t) st = reply ''500 5.5.2 Command not recognized'' st"

text \<open>One turn of the loop in \<open>run\<close>: read a line and execute it.\<close>

definition session_turn :: "'s smtp_context \<Rightarrow> 's sstate \<Rightarrow> 's sstate flow" where
  "session_turn cx st =
     (case st of (ss, cn, w) \<Rightarrow>
        (case read_line COMMAND_LINE_MAX cn of
           (Err _, line, cn') \<Rightarrow> Abort (ss, cn', w)
         | (Ok Eof, line, cn') \<Rightarrow> Break (ss, cn', w)
         | (Ok TooLong, line, cn') \<Rightarrow> break_after (reply ''500 5.5.2 Line too long'' (ss, cn', w))
         | (Ok Line, line, cn') \<Rightarrow>
             exec_command cx (parse_command (from_utf8_lossy (strip_eol line))) (ss, cn', w)))"

subsection \<open>Termination of the loop\<close>

definition progress :: "session \<Rightarrow> conn \<Rightarrow> session \<Rightarrow> conn \<Rightarrow> bool" where
  "progress ss cn ss' cn' \<longleftrightarrow>
     ss_tls_active ss' = ss_tls_active ss \<and> unread cn' \<le> unread cn \<or>
     \<not> ss_tls_active ss \<and> ss_tls_active ss'"

lemma write_line_Ok:
  "write_line l cn = Ok cn' \<Longrightarrow>
   cn_buf cn' = cn_buf cn \<and> cn_sock cn' = cn_sock cn \<and> cn_out cn' = cn_out cn @ [l] \<and> unread cn' = unread cn"
  by (auto simp: write_line_def unread_def split: if_splits)

lemma write_multiline_Ok: "write_multiline code ls cn = Ok cn' \<Longrightarrow> unread cn' = unread cn"
  by (induction code ls cn rule: write_multiline.induct) (auto dest: write_line_Ok split: result.splits)

lemma reply_cases:
  "reply l (ss, cn, w) = Abort (ss, cn, w) \<or>
   (\<exists>cn'. write_line l cn = Ok cn' \<and> reply l (ss, cn, w) = Continue (ss, cn', w))"
  by (auto simp: reply_def split: result.splits)

lemma reply_Continue:
  "reply l (ss, cn, w) = Continue (ss', cn', w') \<Longrightarrow> ss' = ss \<and> w' = w \<and> unread cn' = unread cn \<and>
     cn_buf cn' = cn_buf cn \<and> cn_sock cn' = cn_sock cn"
  using write_line_Ok by (fastforce simp: reply_def split: result.splits)

lemma reset_tx_simps [simp]:
  "ss_mail_from (reset_tx ss) = None" "ss_rcpts (reset_tx ss) = []"
  "ss_helo (reset_tx ss) = ss_helo ss" "ss_tls_active (reset_tx ss) = ss_tls_active ss"
  by (simp_all add: reset_tx_def)

lemma reply_then_reset_Continue:
  "reply_then_reset l (ss, cn, w) = Continue (ss', cn', w') \<Longrightarrow>
   ss' = reset_tx ss \<and> w' = w \<and> unread cn' = unread cn"
  by (auto simp: reply_then_reset_def split: flow.splits dest: reply_Continue)

lemma read_data_loop_unread: "read_data_loop m data big cn = (r, cn') \<Longrightarrow> unread cn' \<le> unread cn"
proof (induction m data big cn rule: read_data_loop.induct)
  case (1 m data big cn)
  obtain r1 line cn1 where rl: "read_line (saturating_add_usize m 4) cn = (r1, line, cn1)"
    by (cases "read_line (saturating_add_usize m 4) cn") auto
  note le = read_line_bounds(1) [OF rl]
  show ?case
    using 1 le rl read_data_loop.simps [of m data big cn]
    by (fastforce split: result.splits line_status.splits if_splits)
qed

lemma receive_data_Continue:
  assumes "receive_data cx (ss, cn, w) = Continue (ss', cn', w')"
  shows "ss' = reset_tx ss \<and> unread cn' \<le> unread cn"
proof -
  obtain r cn1 where rd: "read_data (cx_config cx) cn = (r, cn1)" by (cases "read_data (cx_config cx) cn")
  then have "unread cn1 \<le> unread cn" by (auto simp: read_data_def dest: read_data_loop_unread)
  then show ?thesis
    using assms rd
    by (auto simp: receive_data_def split: result.splits data_outcome.splits prod.splits
        dest!: reply_then_reset_Continue)
qed

lemma exec_command_progress:
  assumes "exec_command cx c (ss, cn, w) = Continue (ss', cn', w')"
  shows "progress ss cn ss' cn'"
  using assms
  by (cases c)
    (auto simp: progress_def break_after_def write_ehlo_def handle_mail_from_def handle_rcpt_def handle_data_def
      handle_starttls_def Let_def
      split: flow.splits result.splits if_splits recipient_check.splits prod.splits option.splits
      dest!: reply_Continue write_multiline_Ok receive_data_Continue)

lemma session_turn_progress:
  assumes "session_turn cx (ss, cn, w) = Continue (ss', cn', w')"
  shows "ss_tls_active ss' = ss_tls_active ss \<and> unread cn' < unread cn \<or>
    \<not> ss_tls_active ss \<and> ss_tls_active ss'"
proof -
  obtain r line cn1 where rl: "read_line COMMAND_LINE_MAX cn = (r, line, cn1)"
    by (cases "read_line COMMAND_LINE_MAX cn") auto
  have "r = Ok Line"
    using assms rl by (auto simp: session_turn_def break_after_def split: result.splits line_status.splits flow.splits)
  moreover from this rl have "unread cn1 < unread cn" by (simp add: read_line_unread_less)
  moreover have "progress ss cn1 ss' cn'"
    using assms rl \<open>r = Ok Line\<close> exec_command_progress by (fastforce simp: session_turn_def)
  ultimately show ?thesis by (auto simp: progress_def)
qed

function run_loop :: "'s smtp_context \<Rightarrow> 's sstate \<Rightarrow> 's sstate flow" where
  "run_loop cx st = (case session_turn cx st of Continue st' \<Rightarrow> run_loop cx st' | other \<Rightarrow> other)"
  by pat_completeness auto
termination
  by (relation "inv_image (less_than <*lex*> less_than)
        (\<lambda>(cx, ss, cn, w). (if ss_tls_active ss then 0 else 1, unread cn))")
    (auto dest!: session_turn_progress)

declare run_loop.simps [simp del]

definition run_session :: "'s smtp_context \<Rightarrow> 's sstate \<Rightarrow> 's sstate flow" where
  "run_session cx st =
     (case reply (''220 '' @ smtp_hostname (cx_config cx) @ '' ESMTP anony-mail'') st of
        Continue st' \<Rightarrow> run_loop cx st'
      | other \<Rightarrow> other)"

definition handle_connection :: "'s smtp_context \<Rightarrow> conn \<Rightarrow> 's world \<Rightarrow> 's sstate flow" where
  "handle_connection cx cn w = run_session cx (session_new, cn, w)"

end
