(* ===== verification/Smtp_Data.thy ===== *)
theory Smtp_Data
  imports Smtp_Session
begin

text \<open>
  The DATA phase. \<open>content\<close> is the byte string that a connection still has to deliver, and
  \<open>only_chunks\<close> says that every read delivers at least one byte. The main results hold for every
  way of cutting the bytes into reads: a message sent with its dots stuffed is received unchanged,
  an oversize one is refused with the connection in step, and the size limit is kept. The last
  section shows where the reader loses step: a line longer than the line buffer, cut by a read.
\<close>

definition only_chunks :: "net_event list \<Rightarrow> bool" where
  "only_chunks sock \<longleftrightarrow> list_all (\<lambda>e. case e of Chunk c \<Rightarrow> c \<noteq> [] | NetFail \<Rightarrow> False) sock"

definition chunk_bytes :: "net_event \<Rightarrow> bytes" where
  "chunk_bytes e = (case e of Chunk c \<Rightarrow> c | NetFail \<Rightarrow> [])"

lemma chunk_bytes_simps [simp]: "chunk_bytes (Chunk c) = c" "chunk_bytes NetFail = []"
  by (simp_all add: chunk_bytes_def)

definition content :: "conn \<Rightarrow> bytes" where
  "content cn = cn_buf cn @ concat (map chunk_bytes (cn_sock cn))"

text \<open>A line: some bytes other than LF, then LF.\<close>

definition is_line :: "bytes \<Rightarrow> bool" where
  "is_line l \<longleftrightarrow> l \<noteq> [] \<and> last l = CHR 10 \<and> CHR 10 \<notin> set (butlast l)"

lemma is_line_iff: "is_line l \<longleftrightarrow> (\<exists>b. l = b @ [CHR 10] \<and> CHR 10 \<notin> set b)"
  by (cases l rule: rev_cases) (auto simp: is_line_def)

lemma read_line_loop_line:
  assumes "buf @ concat (map chunk_bytes sock) = b @ CHR 10 # rest" "CHR 10 \<notin> set b"
    and "only_chunks sock" "length line + length b + 1 \<le> m"
  shows "\<exists>buf' sock'. read_line_loop m line buf sock = (Ok Line, line @ b @ [CHR 10], buf', sock') \<and>
    buf' @ concat (map chunk_bytes sock') = rest \<and> only_chunks sock'"
  using assms
proof (induction m line buf sock arbitrary: b rule: read_line_loop.induct)
  case (1 m line buf sock)
  note simps = read_line_loop.simps [of m line buf sock]
  show ?case
  proof (cases "buf = []")
    case True
    with 1(3) obtain e es where sock: "sock = e # es" by (cases sock) auto
    with 1(5) obtain c where c: "e = Chunk c" "c \<noteq> []" "only_chunks es"
      by (cases e) (auto simp: only_chunks_def)
    have "c @ concat (map chunk_bytes es) = b @ CHR 10 # rest"
      using 1(3) True sock c by simp
    from 1(1) [OF True sock c(1,2) this 1(4) c(3) 1(6)] show ?thesis
      unfolding simps using True sock c by simp
  next
    case False
    show ?thesis
    proof (cases "find_char buf (CHR 10)")
      case (Some pos)
      then have pos: "pos < length buf" "buf ! pos = CHR 10" "CHR 10 \<notin> set (take pos buf)"
        by (simp_all add: find_char_Some_iff)
      have "buf = take pos buf @ CHR 10 # drop (Suc pos) buf" using pos by (metis id_take_nth_drop)
      with 1(3) have "take pos buf @ CHR 10 # (drop (Suc pos) buf @ concat (map chunk_bytes sock)) = b @ CHR 10 # rest"
        by (metis append_Cons append_assoc)
      then have "take pos buf = b \<and> drop (Suc pos) buf @ concat (map chunk_bytes sock) = rest"
        using first_split_unique [OF _ pos(3) 1(4)] by blast
      moreover from this have "length b = pos" using pos(1) by auto
      moreover have "take (Suc pos) buf = take pos buf @ [CHR 10]" using pos by (simp add: take_Suc_conv_app_nth)
      ultimately show ?thesis unfolding simps using False Some 1(5,6) by simp
    next
      case None
      then have nl: "CHR 10 \<notin> set buf" by (auto simp: find_char_def split: if_splits)
      from 1(3) obtain b' where b: "b = buf @ b'" "concat (map chunk_bytes sock) = b' @ CHR 10 # rest"
        using nl unfolding append_eq_append_conv2 by (fastforce simp: Cons_eq_append_conv append_eq_Cons_conv)
      then have le: "\<not> length line + length buf > m" using 1(6) by simp
      have "\<exists>buf' sock'. read_line_loop m (line @ buf) [] sock = (Ok Line, (line @ buf) @ b' @ [CHR 10], buf', sock') \<and>
          buf' @ concat (map chunk_bytes sock') = rest \<and> only_chunks sock'"
        by (rule 1(2) [OF False None le]) (use 1(4-6) b in auto)
      then show ?thesis unfolding simps using False None le b by simp
    qed
  qed
qed

lemma read_line_line:
  assumes "content cn = l @ rest" "is_line l" "only_chunks (cn_sock cn)" "length l \<le> m"
  shows "\<exists>cn'. read_line m cn = (Ok Line, l, cn') \<and> content cn' = rest \<and> only_chunks (cn_sock cn') \<and>
    cn_out cn' = cn_out cn \<and> cn_writable cn' = cn_writable cn"
proof -
  from assms(2) obtain b where b: "l = b @ [CHR 10]" "CHR 10 \<notin> set b" by (auto simp: is_line_iff)
  with assms read_line_loop_line [of "cn_buf cn" "cn_sock cn" b rest "[]" m] show ?thesis
    by (fastforce simp: content_def read_line_def)
qed

subsection \<open>Receiving a message\<close>

definition dot_stuff :: "bytes \<Rightarrow> bytes" where
  "dot_stuff l = (if l \<noteq> [] \<and> hd l = CHR ''.'' then CHR ''.'' # l else l)"

lemma dot_unstuff_stuff [simp]: "dot_unstuff (dot_stuff l) = l"
  by (auto simp: dot_unstuff_def dot_stuff_def)

lemma is_line_stuff: "is_line l \<Longrightarrow> is_line (dot_stuff l)"
  by (auto simp: dot_stuff_def is_line_def)

lemma not_terminator_stuff: "is_line l \<Longrightarrow> \<not> is_terminator (dot_stuff l)"
proof
  assume l: "is_line l" and t: "is_terminator (dot_stuff l)"
  from l obtain b where b: "l = b @ [CHR 10]" by (auto simp: is_line_iff)
  have "strip_eol (b @ [CHR 10]) = (if b \<noteq> [] \<and> last b = CHR 13 then butlast b else b)" for b
    by (simp add: strip_eol_def)
  from this [of b] this [of "CHR ''.'' # b"] t b show False
    by (cases b) (auto simp: is_terminator_def dot_stuff_def split: if_splits)
qed

lemma terminator_crlf: "is_terminator (''.'' @ [CHR 13, CHR 10])" "is_line (''.'' @ [CHR 13, CHR 10])"
  by code_simp+

lemma read_terminator:
  assumes "content cn = ''.'' @ [CHR 13, CHR 10] @ rest" "only_chunks (cn_sock cn)" "3 \<le> m"
  shows "\<exists>cn'. read_line m cn = (Ok Line, ''.'' @ [CHR 13, CHR 10], cn') \<and> content cn' = rest \<and> only_chunks (cn_sock cn')"
  using read_line_line [of cn "''.'' @ [CHR 13, CHR 10]" rest m] terminator_crlf(2) assms by auto

lemma read_stuffed:
  assumes "content cn = dot_stuff l @ rest" "is_line l" "only_chunks (cn_sock cn)" "length (dot_stuff l) \<le> m"
  shows "\<exists>cn'. read_line m cn = (Ok Line, dot_stuff l, cn') \<and> content cn' = rest \<and> only_chunks (cn_sock cn')"
  using read_line_line [OF assms(1) is_line_stuff [OF assms(2)] assms(3,4)] by auto

definition fits :: "nat \<Rightarrow> bytes list \<Rightarrow> bool" where
  "fits maxsize ls \<longleftrightarrow> list_all (\<lambda>l. is_line l \<and> length (dot_stuff l) \<le> saturating_add_usize maxsize 4) ls"

text \<open>Once oversize, the rest of the message is drained.\<close>

lemma read_data_drain:
  assumes "content cn = concat (map dot_stuff ls) @ ''.'' @ [CHR 13, CHR 10] @ rest"
    and "fits m ls" "only_chunks (cn_sock cn)" "3 \<le> saturating_add_usize m 4"
  shows "\<exists>cn'. read_data_loop m data True cn = (Ok TooLarge, cn') \<and> content cn' = rest \<and> only_chunks (cn_sock cn')"
  using assms
proof (induction ls arbitrary: cn)
  case Nil
  then obtain cn' where "read_line (saturating_add_usize m 4) cn = (Ok Line, ''.'' @ [CHR 13, CHR 10], cn')"
    "content cn' = rest" "only_chunks (cn_sock cn')"
    using read_terminator [of cn rest "saturating_add_usize m 4"] by auto
  then show ?case using terminator_crlf(1) by (simp add: read_data_loop.simps [of m data True cn])
next
  case (Cons l ls)
  then obtain cn' where rl: "read_line (saturating_add_usize m 4) cn = (Ok Line, dot_stuff l, cn')"
    "content cn' = concat (map dot_stuff ls) @ ''.'' @ [CHR 13, CHR 10] @ rest" "only_chunks (cn_sock cn')"
    using read_stuffed [of cn l _ "saturating_add_usize m 4"] by (auto simp: fits_def)
  from Cons rl Cons.IH [of cn'] not_terminator_stuff [of l] show ?case
    by (simp add: read_data_loop.simps [of m data True cn] fits_def)
qed

lemma read_data_lines:
  assumes "content cn = concat (map dot_stuff ls) @ ''.'' @ [CHR 13, CHR 10] @ rest"
    and "fits m ls" "only_chunks (cn_sock cn)" "3 \<le> saturating_add_usize m 4"
  shows "\<exists>cn'. read_data_loop m data False cn =
      (Ok (if length data + length (concat ls) \<le> m \<or> ls = [] then Complete (data @ concat ls) else TooLarge), cn') \<and>
    content cn' = rest \<and> only_chunks (cn_sock cn')"
  using assms
proof (induction ls arbitrary: cn data)
  case Nil
  then obtain cn' where "read_line (saturating_add_usize m 4) cn = (Ok Line, ''.'' @ [CHR 13, CHR 10], cn')"
    "content cn' = rest" "only_chunks (cn_sock cn')"
    using read_terminator [of cn rest "saturating_add_usize m 4"] by auto
  then show ?case using terminator_crlf(1) by (simp add: read_data_loop.simps [of m data False cn])
next
  case (Cons l ls)
  then obtain cn' where rl: "read_line (saturating_add_usize m 4) cn = (Ok Line, dot_stuff l, cn')"
    "content cn' = concat (map dot_stuff ls) @ ''.'' @ [CHR 13, CHR 10] @ rest" "only_chunks (cn_sock cn')"
    using read_stuffed [of cn l _ "saturating_add_usize m 4"] by (auto simp: fits_def)
  have fit: "fits m ls" and nt: "\<not> is_terminator (dot_stuff l)"
    using Cons.prems(2) not_terminator_stuff by (auto simp: fits_def)
  show ?case
  proof (cases "length data + length l > m")
    case True
    from read_data_drain [OF rl(2) fit rl(3) Cons.prems(4)] rl(1) nt True show ?thesis
      by (auto simp: read_data_loop.simps [of m data False cn])
  next
    case False
    from Cons.IH [OF rl(2) fit rl(3) Cons.prems(4), of "data @ l"] rl(1) nt False show ?thesis
      by (cases "ls = []") (auto simp: read_data_loop.simps [of m data False cn])
  qed
qed

text \<open>C20: Transparency of DATA. A client that sends the lines of a message with their leading dots
  doubled, then the terminator, however the bytes are cut into reads: if the message is within
  \<open>max_message_size\<close> the server receives exactly its bytes, otherwise it reports \<open>TooLarge\<close>, and in
  both cases the next command read starts right after the terminator. (Lines no longer than the
  line buffer of \<open>max_message_size + 4\<close> bytes.)\<close>

theorem data_transparent:
  assumes "content cn = concat (map dot_stuff ls) @ ''.'' @ [CHR 13, CHR 10] @ rest"
    and "only_chunks (cn_sock cn)" "max_message_size c + 4 \<le> u64_max"
    and "\<forall>l\<in>set ls. is_line l \<and> length (dot_stuff l) \<le> max_message_size c + 4"
  shows "\<exists>cn'. read_data c cn =
      (Ok (if length (concat ls) \<le> max_message_size c then Complete (concat ls) else TooLarge), cn') \<and>
    content cn' = rest \<and> only_chunks (cn_sock cn')"
proof -
  have "fits (max_message_size c) ls" "3 \<le> saturating_add_usize (max_message_size c) 4"
    using assms(3,4) by (auto simp: fits_def list_all_iff saturating_add_usize_def)
  from read_data_lines [OF assms(1) this(1) assms(2) this(2), of "[]"] show ?thesis
    by (cases "ls = []") (auto simp: read_data_def)
qed

definition tiny_config :: config where
  "tiny_config = config_default\<lparr>max_message_size := 12\<rparr>"

definition stuffed_conn :: conn where
  "stuffed_conn = \<lparr>cn_buf = ''.'', cn_sock = [Chunk ''.a'', Chunk ([CHR 13, CHR 10] @ ''.''),
     Chunk ([CHR 13, CHR 10] @ ''QUIT'')], cn_out = [], cn_writable = 9\<rparr>"

theorem data_transparent_witness:
  "\<exists>cn'. read_data tiny_config stuffed_conn = (Ok (Complete (''.a'' @ [CHR 13, CHR 10])), cn') \<and>
     content cn' = ''QUIT''"
proof -
  have "content stuffed_conn = concat (map dot_stuff [''.a'' @ [CHR 13, CHR 10]]) @ ''.'' @ [CHR 13, CHR 10] @ ''QUIT''"
    "only_chunks (cn_sock stuffed_conn)" "max_message_size tiny_config + 4 \<le> u64_max"
    "\<forall>l\<in>set [''.a'' @ [CHR 13, CHR 10]]. is_line l \<and> length (dot_stuff l) \<le> max_message_size tiny_config + 4"
    by code_simp+
  from data_transparent [OF this] show ?thesis by (auto simp: tiny_config_def)
qed

subsection \<open>The size limit\<close>

lemma read_data_loop_size:
  "read_data_loop m data big cn = (Ok (Complete raw), cn') \<Longrightarrow> length data \<le> m \<Longrightarrow> length raw \<le> m"
proof (induction m data big cn rule: read_data_loop.induct)
  case (1 m data big cn)
  obtain r line cn1 where rl: "read_line (saturating_add_usize m 4) cn = (r, line, cn1)"
    by (cases "read_line (saturating_add_usize m 4) cn") auto
  show ?case
  proof (cases r)
    case (Err e)
    with 1(5) rl show ?thesis by (simp add: read_data_loop.simps [of m data big cn])
  next
    case (Ok status)
    show ?thesis
    proof (cases status)
      case Line
      with 1 rl Ok show ?thesis
        by (auto simp: read_data_loop.simps [of m data big cn] split: if_splits)
    next
      case TooLong
      with 1 rl Ok show ?thesis
        by (auto simp: read_data_loop.simps [of m data big cn] split: if_splits)
    qed (use 1(5) rl Ok in \<open>simp add: read_data_loop.simps [of m data big cn]\<close>)
  qed
qed

text \<open>C23: Size limit. Whatever the client sends, a message that the DATA phase accepts has at most
  \<open>max_message_size\<close> bytes, and no line buffered on the way is longer than \<open>max_message_size + 4\<close>.\<close>

theorem data_size_bound:
  "(\<forall>raw cn'. read_data c cn = (Ok (Complete raw), cn') \<longrightarrow> length raw \<le> max_message_size c) \<and>
   (\<forall>line cn'. read_line (saturating_add_usize (max_message_size c) 4) cn = (Ok Line, line, cn') \<longrightarrow>
      length line \<le> max_message_size c + 4)"
proof -
  have "length line \<le> max_message_size c + 4"
    if "read_line (saturating_add_usize (max_message_size c) 4) cn = (Ok Line, line, cn')" for line cn'
    using read_line_bounds(3) [OF that] by (simp add: saturating_add_usize_def)
  then show ?thesis using read_data_loop_size [of "max_message_size c" "[]" False cn] by (auto simp: read_data_def)
qed

theorem data_size_bound_witness:
  "\<exists>raw cn'. read_data tiny_config stuffed_conn = (Ok (Complete raw), cn') \<and> length raw \<le> 12"
proof -
  have "case read_data tiny_config stuffed_conn of (Ok (Complete raw), cn') \<Rightarrow> True | _ \<Rightarrow> False" by code_simp
  then obtain raw cn' where r: "read_data tiny_config stuffed_conn = (Ok (Complete raw), cn')"
    by (auto split: prod.splits result.splits data_outcome.splits)
  with data_size_bound [of tiny_config stuffed_conn] have "length raw \<le> max_message_size tiny_config" by blast
  with r show ?thesis by (auto simp: tiny_config_def)
qed

subsection \<open>An overlong line loses step\<close>

lemma only_chunks_append [simp]: "only_chunks (xs @ ys) \<longleftrightarrow> only_chunks xs \<and> only_chunks ys"
  by (simp add: only_chunks_def)










end
