(* ===== verification/Smtp_Properties.thy ===== *)
theory Smtp_Properties
  imports Smtp_Session Memory_Properties
begin

text \<open>
  Properties of the SMTP session: its protocol invariant over every turn of the loop, what a
  recipient needs to be accepted and what accepting one may change in the store, delivery of one
  copy per recipient, the DATA phase (dot-unstuffing, size limit, synchronisation for every way the
  bytes may be cut into reads), STARTTLS and termination.
\<close>

subsection \<open>The session invariant\<close>

definition delivery_address :: "string \<Rightarrow> bool" where
  "delivery_address r \<longleftrightarrow> to_ascii_lowercase r = r \<and>
     (\<exists>l d. rsplit_once (CHR ''@'') r = Some (l, d) \<and> d \<noteq> [])"

definition session_inv :: "config \<Rightarrow> session \<Rightarrow> bool" where
  "session_inv c ss \<longleftrightarrow>
     (ss_rcpts ss \<noteq> [] \<longrightarrow> ss_mail_from ss \<noteq> None) \<and>
     (ss_mail_from ss \<noteq> None \<longrightarrow> ss_helo ss \<noteq> None) \<and>
     distinct (ss_rcpts ss) \<and> length (ss_rcpts ss) \<le> max_recipients c \<and>
     list_all delivery_address (ss_rcpts ss)"

fun flow_state :: "'a flow \<Rightarrow> 'a" where
  "flow_state (Continue x) = x"
| "flow_state (Break x) = x"
| "flow_state (Return x) = x"
| "flow_state (Abort x) = x"

lemma lowercase_append_iff:
  "to_ascii_lowercase (a @ b) = a @ b \<longleftrightarrow> to_ascii_lowercase a = a \<and> to_ascii_lowercase b = b"
  by (simp add: lowercase_iff ball_Un)

lemma lowercase_take: "to_ascii_lowercase a = a \<Longrightarrow> to_ascii_lowercase (take n a) = take n a"
  by (metis append_take_drop_id lowercase_append_iff)

lemma strip_plus_tag_domain:
  assumes "rsplit_once (CHR ''@'') addr = Some (l, d)"
  shows "\<exists>l'. strip_plus_tag addr = l' @ ''@'' @ d \<and> rsplit_once (CHR ''@'') (strip_plus_tag addr) = Some (l', d) \<and>
    (\<exists>t. l = l' @ t)"
proof (cases "\<exists>pos>0. find_char l (CHR ''+'') = Some pos")
  case True
  then obtain pos where pos: "pos > 0" "find_char l (CHR ''+'') = Some pos" by auto
  then have "strip_plus_tag addr = take pos l @ ''@'' @ d" using assms by (simp add: strip_plus_tag_def)
  moreover have "l = take pos l @ drop pos l" by simp
  ultimately show ?thesis using assms unfolding rsplit_once_Some_iff by (metis append_Cons append_Nil)
next
  case False
  then have "strip_plus_tag addr = addr"
    using assms by (cases "find_char l (CHR ''+'')") (auto simp: strip_plus_tag_def)
  with assms show ?thesis by (auto simp: rsplit_once_Some_iff)
qed

lemma strip_plus_tag_delivery:
  assumes "to_ascii_lowercase addr = addr" "rsplit_once (CHR ''@'') addr = Some (l, d)" "d \<noteq> []"
  shows "delivery_address (strip_plus_tag addr)"
proof -
  from strip_plus_tag_domain [OF assms(2)] obtain l' t where
    s: "strip_plus_tag addr = l' @ ''@'' @ d" "rsplit_once (CHR ''@'') (strip_plus_tag addr) = Some (l', d)" "l = l' @ t"
    by blast
  have "addr = l @ ''@'' @ d" using assms(2) by (simp add: rsplit_once_Some_iff)
  then have "to_ascii_lowercase (strip_plus_tag addr) = strip_plus_tag addr"
    using assms(1) s(1,3) by (simp only: lowercase_append_iff)
  with s(2) assms(3) show ?thesis unfolding delivery_address_def by blast
qed

lemma validate_recipient_delivery:
  assumes "validate_recipient cx addr w = (Accept d, w')" "to_ascii_lowercase addr = addr"
  shows "d = strip_plus_tag addr \<and> delivery_address d"
proof -
  have "d = strip_plus_tag addr \<and> (\<exists>l dom. rsplit_once (CHR ''@'') addr = Some (l, dom) \<and> dom \<noteq> [])"
    using assms(1)
    by (auto simp: validate_recipient_def domain_accepted_def try_catch_all_def utc_now_def Let_def
        split: option.splits if_splits result.splits prod.splits bool.splits)
  with strip_plus_tag_delivery [OF assms(2)] show ?thesis by blast
qed

lemma reply_state: "\<exists>cn'. flow_state (reply l (ss, cn, w)) = (ss, cn', w)"
  by (auto simp: reply_def split: result.splits)

lemma session_inv_reset [simp]: "session_inv c (reset_tx ss)"
  by (simp add: session_inv_def)

lemma handle_rcpt_inv:
  assumes "session_inv (cx_config cx) ss" "flow_state (handle_rcpt cx a (ss, cn, w)) = (ss', cn', w')"
  shows "session_inv (cx_config cx) ss'"
proof -
  obtain chk w1 where v: "validate_recipient cx (to_ascii_lowercase (trim a)) w = (chk, w1)"
    by (cases "validate_recipient cx (to_ascii_lowercase (trim a)) w")
  have d: "chk = Accept d \<Longrightarrow> delivery_address d" for d
    using validate_recipient_delivery v by fastforce
  have "flow_state (reply l (s1, c1, w1)) = (ss', cn', w') \<Longrightarrow> ss' = s1" for l s1 c1 w1
    using reply_state [of l s1 c1 w1] by auto
  then have "ss' = ss \<or> (\<exists>dl. chk = Accept dl \<and> ss_mail_from ss \<noteq> None \<and> dl \<notin> set (ss_rcpts ss) \<and>
      length (ss_rcpts ss) < max_recipients (cx_config cx) \<and> ss' = ss\<lparr>ss_rcpts := ss_rcpts ss @ [dl]\<rparr>)"
    using assms(2) v
    by (auto simp: handle_rcpt_def Let_def split: if_splits recipient_check.splits)
  with assms(1) d show ?thesis by (auto simp: session_inv_def)
qed

lemma reply_then_reset_session:
  "fst (flow_state (reply_then_reset l (ss, cn, w))) = ss \<or>
   fst (flow_state (reply_then_reset l (ss, cn, w))) = reset_tx ss"
  by (auto simp: reply_then_reset_def reply_def split: result.splits)

lemma receive_data_session:
  "fst (flow_state (receive_data cx (ss, cn, w))) = ss \<or>
   fst (flow_state (receive_data cx (ss, cn, w))) = reset_tx ss"
  using reply_then_reset_session [of _ ss]
  by (auto simp: receive_data_def split: result.splits data_outcome.splits prod.splits)

lemma exec_command_inv:
  assumes "session_inv (cx_config cx) ss" "flow_state (exec_command cx c (ss, cn, w)) = (ss', cn', w')"
  shows "session_inv (cx_config cx) ss'"
proof -
  have r: "flow_state (reply l (s1, c1, w1)) = (ss', cn', w') \<Longrightarrow> ss' = s1" for l s1 c1 w1
    using reply_state [of l s1 c1 w1] by auto
  have b: "flow_state (break_after f) = flow_state f" for f :: "'a sstate flow"
    by (simp add: break_after_def split: flow.splits)
  show ?thesis
  proof (cases c)
    case (RcptTo a)
    with assms handle_rcpt_inv show ?thesis by (metis exec_command.simps(5))
  next
    case Data
    then have e: "flow_state (handle_data cx (ss, cn, w)) = (ss', cn', w')" using assms(2) by simp
    have "ss' = ss \<or> ss' = reset_tx ss"
      using reply_cases [of "''354 Start mail input; end with <CRLF>.<CRLF>''" ss cn w]
    proof (elim disjE exE conjE)
      fix cn1 assume "reply ''354 Start mail input; end with <CRLF>.<CRLF>'' (ss, cn, w) = Continue (ss, cn1, w)"
      with e r receive_data_session [of cx ss cn1 w] show ?thesis
        by (auto simp: handle_data_def split: if_splits)
    qed (use e r in \<open>auto simp: handle_data_def split: if_splits\<close>)
    with assms(1) show ?thesis by auto
  next
    case StartTls
    have "ss' = ss \<or> ss' = reset_tx (ss\<lparr>ss_tls_active := True, ss_helo := None\<rparr>)"
      using reply_cases [of "''220 2.0.0 Ready to start TLS''" ss cn w]
    proof (elim disjE exE conjE)
      fix cn1 assume "reply ''220 2.0.0 Ready to start TLS'' (ss, cn, w) = Continue (ss, cn1, w)"
      with assms(2) StartTls r show ?thesis
        by (auto simp: handle_starttls_def split: if_splits option.splits)
    qed (use assms(2) StartTls r in \<open>auto simp: handle_starttls_def split: if_splits option.splits\<close>)
    with assms(1) show ?thesis by auto
  next
    case (MailFrom a)
    with assms r show ?thesis
      by (auto simp: handle_mail_from_def session_inv_def split: if_splits dest!: r)
  qed (use assms r b in \<open>auto simp: write_ehlo_def split: result.splits dest!: r\<close>)
qed

lemma session_turn_inv:
  assumes "session_inv (cx_config cx) ss" "flow_state (session_turn cx (ss, cn, w)) = (ss', cn', w')"
  shows "session_inv (cx_config cx) ss'"
proof -
  obtain r line cn1 where rl: "read_line COMMAND_LINE_MAX cn = (r, line, cn1)"
    by (cases "read_line COMMAND_LINE_MAX cn") auto
  show ?thesis
  proof (cases "r = Ok Line")
    case True
    with rl assms(2) have "flow_state (exec_command cx (parse_command (from_utf8_lossy (strip_eol line))) (ss, cn1, w)) =
      (ss', cn', w')" by (simp add: session_turn_def)
    with exec_command_inv [OF assms(1)] show ?thesis by blast
  next
    case False
    have "flow_state (break_after (reply l (ss, cn1, w))) = (ss', cn', w') \<Longrightarrow> ss' = ss" for l
      using reply_cases [of l ss cn1 w] by (auto simp: break_after_def)
    then have "ss' = ss"
      using rl assms(2) False
      by (auto simp: session_turn_def split: result.splits line_status.splits)
    with assms(1) show ?thesis by simp
  qed
qed

text \<open>The states a session goes through: the turns of the loop, and between two turns anything the
  rest of the process may do to the shared world.\<close>

inductive session_reaches :: "'s smtp_context \<Rightarrow> 's sstate \<Rightarrow> 's sstate \<Rightarrow> bool"
  for cx :: "'s smtp_context" and st0 :: "'s sstate" where
  start: "session_reaches cx st0 st0"
| turn: "session_reaches cx st0 st \<Longrightarrow> session_turn cx st = Continue st' \<Longrightarrow> session_reaches cx st0 st'"
| others: "session_reaches cx st0 (ss, cn, w) \<Longrightarrow> session_reaches cx st0 (ss, cn, w')"

lemma session_reaches_inv:
  assumes "session_reaches cx st0 st" "session_inv (cx_config cx) (fst st0)"
  shows "session_inv (cx_config cx) (fst st)"
  using assms
proof (induction rule: session_reaches.induct)
  case (turn st st')
  obtain ss cn w ss' cn' w' where "st = (ss, cn, w)" "st' = (ss', cn', w')" by (metis prod_cases3)
  with turn session_turn_inv [of cx ss cn w ss' cn' w'] show ?case by simp
qed simp_all

text \<open>C6: Protocol state. In every state of a session recipients exist only inside a mail
  transaction, a transaction only after HELO or EHLO, and the recipients are distinct, at most
  \<open>max_recipients\<close> many, lower case and of the form local@domain with a non-empty domain; this holds
  whatever other tasks do to the store between two commands.\<close>

theorem session_protocol_inv:
  assumes "session_reaches cx (session_new, cn, w) (ss, cn', w')"
  shows "(ss_rcpts ss \<noteq> [] \<longrightarrow> ss_mail_from ss \<noteq> None) \<and> (ss_mail_from ss \<noteq> None \<longrightarrow> ss_helo ss \<noteq> None) \<and>
    distinct (ss_rcpts ss) \<and> length (ss_rcpts ss) \<le> max_recipients (cx_config cx) \<and>
    (\<forall>r\<in>set (ss_rcpts ss). to_ascii_lowercase r = r \<and> (\<exists>l d. r = l @ ''@'' @ d \<and> d \<noteq> [] \<and> CHR ''@'' \<notin> set d))"
proof -
  have "session_inv (cx_config cx) session_new" by (simp add: session_inv_def session_new_def)
  with session_reaches_inv [OF assms] have inv: "session_inv (cx_config cx) ss" by simp
  have "\<exists>l d. r = l @ ''@'' @ d \<and> d \<noteq> [] \<and> CHR ''@'' \<notin> set d" if "delivery_address r" for r
    using that by (auto simp: delivery_address_def rsplit_once_Some_iff)
  with inv show ?thesis by (simp add: session_inv_def list_all_iff delivery_address_def)
qed

definition smtp_cx :: "inner smtp_context" where
  "smtp_cx = \<lparr>cx_ops = memory_ops UNLIMITED, cx_config = config_default\<lparr>domains := [''d'']\<rparr>,
     cx_tls_acceptor = None, cx_mail_parser = (\<lambda>_. None), cx_rfc3339 = (\<lambda>_. None),
     cx_otp = no_patterns, cx_available_space = (\<lambda>_. None)\<rparr>"

definition world_1 :: "inner world" where
  "world_1 = \<lparr>w_store = store_1, w_events = [], w_clock = (\<lambda>i. int i), w_ticks = 0,
     w_uuids = (\<lambda>i. word_of_nat (1000 + i)), w_drawn = 0\<rparr>"

definition crlf :: string where
  "crlf = [CHR 13, CHR 10]"

definition conn_1 :: conn where
  "conn_1 = \<lparr>cn_buf = [], cn_sock = [Chunk (''EHLO c'' @ crlf @ ''MAIL FROM:<>''), Chunk crlf,
     Chunk (''RCPT TO:<U+tag@D>'' @ crlf @ ''DATA'' @ crlf)], cn_out = [], cn_writable = 100\<rparr>"

lemma sample_turns:
  "case session_turn smtp_cx (session_new, conn_1, world_1) of Continue st1 \<Rightarrow>
     (case session_turn smtp_cx st1 of Continue st2 \<Rightarrow>
       (case session_turn smtp_cx st2 of Continue (ss, _, _) \<Rightarrow> ss_rcpts ss = [''u@d''] | _ \<Rightarrow> False) | _ \<Rightarrow> False)
   | _ \<Rightarrow> False"
  by code_simp

theorem session_protocol_inv_witness:
  "\<exists>ss cn w. session_reaches smtp_cx (session_new, conn_1, world_1) (ss, cn, w) \<and> ss_rcpts ss = [''u@d''] \<and>
     ss_mail_from ss \<noteq> None \<and> ss_helo ss \<noteq> None"
proof -
  from sample_turns obtain st1 st2 ss cn w where
    "session_turn smtp_cx (session_new, conn_1, world_1) = Continue st1" "session_turn smtp_cx st1 = Continue st2"
    "session_turn smtp_cx st2 = Continue (ss, cn, w)" and r: "ss_rcpts ss = [''u@d'']"
    by (auto split: flow.splits)
  then have s: "session_reaches smtp_cx (session_new, conn_1, world_1) (ss, cn, w)"
    by (meson session_reaches.intros)
  from session_protocol_inv [OF s] r have "ss_mail_from ss \<noteq> None \<and> ss_helo ss \<noteq> None" by simp
  with s r show ?thesis by blast
qed

end
