(* ===== verification/Smtp_Delivery.thy ===== *)
theory Smtp_Delivery
  imports Smtp_Properties
begin

text \<open>
  The SMTP session against the store contract: which recipients are accepted, what accepting one may
  change in the store (the catch-all), and what storing a message does. The lemmas are proved in
  the locale \<open>store_contract\<close>, so they hold for every backend that meets it; the properties take the
  contract as a hypothesis.
\<close>

definition catch_all_created :: "config \<Rightarrow> string \<Rightarrow> sview \<Rightarrow> sview \<Rightarrow> bool" where
  "catch_all_created c dl v v' \<longleftrightarrow> catch_all_enabled c \<and> v_mailbox v dl = None \<and>
     (\<exists>l d mb. rsplit_once (CHR ''@'') dl = Some (l, d) \<and> \<not> is_reserved_local_part c l \<and>
        mb_address mb = dl \<and> mb_domain mb = d \<and> mb_owner_token_hash mb = None \<and>
        mb_creator_device_hash mb = None \<and> v' = v\<lparr>v_mailbox := (v_mailbox v)(dl \<mapsto> mb)\<rparr>)"

definition active_reading :: "'s world \<Rightarrow> 's world \<Rightarrow> string \<Rightarrow> sview \<Rightarrow> bool" where
  "active_reading w w' a v \<longleftrightarrow> (\<exists>i. w_ticks w \<le> i \<and> i < w_ticks w' \<and> spec_is_active a (w_clock w i) v)"

definition same_world :: "'s world \<Rightarrow> 's world \<Rightarrow> bool" where
  "same_world w w' \<longleftrightarrow> w_events w' = w_events w \<and> w_drawn w' = w_drawn w \<and> w_uuids w' = w_uuids w \<and>
     w_clock w' = w_clock w \<and> w_ticks w \<le> w_ticks w'"

lemma active_reading_later:
  "active_reading (w\<lparr>w_ticks := Suc (w_ticks w)\<rparr>) w' a v \<Longrightarrow> active_reading w w' a v"
  by (auto simp: active_reading_def intro: Suc_leD)

context store_contract
begin

lemma try_catch_all_effect:
  assumes "cx_ops cx = ops" "sinv (w_store w)" "try_catch_all cx dl w = (chk, w')"
  shows "sinv (w_store w') \<and> same_world w w' \<and>
    (view (w_store w') = view (w_store w) \<or> catch_all_created (cx_config cx) dl (view (w_store w)) (view (w_store w'))) \<and>
    (\<forall>x. chk = Accept x \<longrightarrow> x = dl \<and>
       (catch_all_created (cx_config cx) dl (view (w_store w)) (view (w_store w')) \<or>
        view (w_store w') = view (w_store w) \<and> active_reading w w' dl (view (w_store w))))"
proof (cases "\<exists>l d. catch_all_enabled (cx_config cx) \<and> rsplit_once (CHR ''@'') dl = Some (l, d) \<and>
    \<not> is_reserved_local_part (cx_config cx) l")
  case False
  with assms(2,3) show ?thesis
    by (auto simp: try_catch_all_def same_world_def split: if_splits option.splits)
next
  case True
  then obtain l d where ld: "catch_all_enabled (cx_config cx)" "rsplit_once (CHR ''@'') dl = Some (l, d)"
    "\<not> is_reserved_local_part (cx_config cx) l" by blast
  let ?k = "w_ticks w"
  obtain r s' where cr: "st_create_mailbox ops (w_clock w (Suc ?k)) dl d (w_clock w ?k + ttl_of (cx_config cx))
      None None (w_store w) = (r, s')" by (cases "st_create_mailbox ops (w_clock w (Suc ?k)) dl d
      (w_clock w ?k + ttl_of (cx_config cx)) None None (w_store w)")
  note out = create_mailbox_outcome [OF assms(2) cr]
  show ?thesis
  proof (cases r)
    case (Ok m)
    then have "chk = Accept dl" "w' = w\<lparr>w_ticks := Suc (Suc ?k), w_store := s'\<rparr>"
      using assms(1,3) ld cr by (auto simp: try_catch_all_def utc_now_def Let_def)
    moreover have "catch_all_created (cx_config cx) dl (view (w_store w)) (view s')"
      using out(2) [OF Ok] ld by (auto simp: catch_all_created_def intro!: exI [of _ m])
    ultimately show ?thesis using out(1) by (auto simp: same_world_def)
  next
    case (Err e)
    note view = out(3) [OF Err]
    show ?thesis
    proof (cases "is_unique_violation e")
      case False
      then have "chk = CheckError" "w' = w\<lparr>w_ticks := Suc (Suc ?k), w_store := s'\<rparr>"
        using assms(1,3) ld cr Err by (auto simp: try_catch_all_def utc_now_def Let_def)
      with out(1) view show ?thesis by (auto simp: same_world_def)
    next
      case True
      define b where "b = st_mailbox_is_active ops dl (w_clock w (Suc (Suc ?k))) s'"
      have w': "w' = w\<lparr>w_ticks := Suc (Suc (Suc ?k)), w_store := s'\<rparr>"
        and chk: "chk = (case b of Ok True \<Rightarrow> Accept dl | Ok False \<Rightarrow> NoMailbox | Err _ \<Rightarrow> CheckError)"
        using assms(1,3) ld cr Err True
        by (auto simp: try_catch_all_def utc_now_def Let_def b_def split: result.splits bool.splits)
      have "x = dl \<and> active_reading w w' dl (view s')" if "chk = Accept x" for x
      proof -
        from that chk have "b = Ok True" "x = dl" by (auto split: result.splits bool.splits)
        with mailbox_is_active_Ok [OF out(1), of dl "w_clock w (Suc (Suc ?k))" True] show ?thesis
          by (auto simp: b_def active_reading_def w' intro!: exI [of _ "Suc (Suc ?k)"])
      qed
      with out(1) view w' show ?thesis by (auto simp: same_world_def)
    qed
  qed
qed

lemma domain_accepted_None:
  assumes "cx_ops cx = ops" "sinv s" "domain_accepted cx d s = None"
  shows "accepts_domain (cx_config cx) d \<or> custom_domains_enabled (cx_config cx) \<and> spec_is_verified d (view s)"
  using assms custom_domain_is_verified_Ok [OF assms(2), of d True]
  by (auto simp: domain_accepted_def split: if_splits result.splits bool.splits)

lemma domain_accepted_not_Accept: "domain_accepted cx d s \<noteq> Some (Accept x)"
  by (auto simp: domain_accepted_def split: result.splits bool.splits)

lemma validate_recipient_effect:
  assumes "cx_ops cx = ops" "sinv (w_store w)" "validate_recipient cx addr w = (chk, w')"
  shows "sinv (w_store w') \<and> same_world w w' \<and>
    (view (w_store w') = view (w_store w) \<or>
     catch_all_created (cx_config cx) (strip_plus_tag addr) (view (w_store w)) (view (w_store w')) \<and>
     (\<exists>l d. rsplit_once (CHR ''@'') addr = Some (l, d) \<and> accepts_domain (cx_config cx) d)) \<and>
    (\<forall>x. chk = Accept x \<longrightarrow> x = strip_plus_tag addr \<and>
       (\<exists>l d. rsplit_once (CHR ''@'') addr = Some (l, d) \<and> d \<noteq> [] \<and>
          (accepts_domain (cx_config cx) d \<or>
           custom_domains_enabled (cx_config cx) \<and> spec_is_verified d (view (w_store w)))) \<and>
       (catch_all_created (cx_config cx) x (view (w_store w)) (view (w_store w')) \<or>
        view (w_store w') = view (w_store w) \<and> active_reading w w' x (view (w_store w))))"
proof (cases "\<exists>l d. rsplit_once (CHR ''@'') addr = Some (l, d) \<and> d \<noteq> [] \<and> domain_accepted cx d (w_store w) = None")
  case False
  with assms(2,3) show ?thesis
    by (auto simp: validate_recipient_def same_world_def domain_accepted_not_Accept split: option.splits if_splits)
next
  case True
  then obtain l d where ld: "rsplit_once (CHR ''@'') addr = Some (l, d)" "d \<noteq> []"
    "domain_accepted cx d (w_store w) = None" by blast
  note dom = domain_accepted_None [OF assms(1,2) ld(3)]
  let ?dl = "strip_plus_tag addr" and ?w1 = "w\<lparr>w_ticks := Suc (w_ticks w)\<rparr>"
  define b where "b = st_mailbox_is_active ops ?dl (w_clock w (w_ticks w)) (w_store w)"
  have v: "(chk, w') = (case b of Ok True \<Rightarrow> (Accept ?dl, ?w1)
      | Ok False \<Rightarrow> if accepts_domain (cx_config cx) d then try_catch_all cx ?dl ?w1 else (NoMailbox, ?w1)
      | Err _ \<Rightarrow> (CheckError, ?w1))"
    using assms(3) ld unfolding b_def assms(1) [symmetric]
    by (simp add: validate_recipient_def utc_now_def Let_def split del: if_split)
  consider "b = Ok True" | "b = Ok False" "accepts_domain (cx_config cx) d" |
    "b = Ok False" "\<not> accepts_domain (cx_config cx) d" | e where "b = Err e"
    by (cases b) auto
  then show ?thesis
  proof cases
    case 1
    then have "spec_is_active ?dl (w_clock w (w_ticks w)) (view (w_store w))"
      using mailbox_is_active_Ok [OF assms(2), of ?dl "w_clock w (w_ticks w)" True] by (simp add: b_def)
    with 1 v ld dom assms(2) show ?thesis by (auto simp: same_world_def active_reading_def)
  next
    case 2
    then have t: "try_catch_all cx ?dl ?w1 = (chk, w')" using v by simp
    from try_catch_all_effect [OF assms(1) _ t] assms(2) 2 ld dom show ?thesis
      by (auto simp: same_world_def dest: active_reading_later)
  qed (use v ld dom assms(2) in \<open>auto simp: same_world_def\<close>)
qed

end

lemma handle_rcpt_state:
  assumes "flow_state (handle_rcpt cx a (ss, cn, w)) = (ss', cn', w')"
  shows "w' = w \<and> ss' = ss \<or> (\<exists>chk. validate_recipient cx (to_ascii_lowercase (trim a)) w = (chk, w') \<and>
    ss_mail_from ss \<noteq> None \<and> (\<forall>r. r \<in> set (ss_rcpts ss') \<longrightarrow> r \<notin> set (ss_rcpts ss) \<longrightarrow> chk = Accept r))"
proof -
  obtain chk w1 where v: "validate_recipient cx (to_ascii_lowercase (trim a)) w = (chk, w1)"
    by (cases "validate_recipient cx (to_ascii_lowercase (trim a)) w")
  have r: "flow_state (reply l (s1, c1, v1)) = (ss', cn', w') \<Longrightarrow> ss' = s1 \<and> w' = v1" for l s1 c1 v1
    using reply_state [of l s1 c1 v1] by auto
  show ?thesis
  proof (cases "ss_mail_from ss = None \<or> length (ss_rcpts ss) \<ge> max_recipients (cx_config cx)")
    case True
    with assms r [of _ ss cn w] show ?thesis by (auto simp: handle_rcpt_def split: if_splits)
  next
    case False
    have "w' = w1 \<and> (\<forall>r. r \<in> set (ss_rcpts ss') \<longrightarrow> r \<notin> set (ss_rcpts ss) \<longrightarrow> chk = Accept r)"
      using assms False v
      by (cases chk) (auto simp: handle_rcpt_def Let_def dest!: r split: if_splits)
    with False v show ?thesis by auto
  qed
qed

text \<open>C7: No open relay. Every recipient that RCPT adds to the transaction is the command's address,
  trimmed, in lower case and without its plus tag, whose domain is a configured one or, with custom
  domains on, a verified one; its mailbox exists then, and either it was seen active by the clock
  during this command or the catch-all just created it.\<close>

theorem rcpt_no_open_relay:
  assumes "store_contract (cx_ops cx) q sinv view reliable T" "sinv (w_store w)"
    and "flow_state (exec_command cx (RcptTo a) (ss, cn, w)) = (ss', cn', w')"
    and "r \<in> set (ss_rcpts ss')" "r \<notin> set (ss_rcpts ss)"
  shows "ss_mail_from ss \<noteq> None \<and> r = strip_plus_tag (to_ascii_lowercase (trim a)) \<and>
    (\<exists>l d. rsplit_once (CHR ''@'') r = Some (l, d) \<and> d \<noteq> [] \<and>
       (accepts_domain (cx_config cx) d \<or>
        custom_domains_enabled (cx_config cx) \<and> spec_is_verified d (view (w_store w)))) \<and>
    v_mailbox (view (w_store w')) r \<noteq> None \<and>
    (active_reading w w' r (view (w_store w)) \<or>
     catch_all_created (cx_config cx) r (view (w_store w)) (view (w_store w')))"
proof -
  let ?addr = "to_ascii_lowercase (trim a)"
  from handle_rcpt_state [of cx a ss cn w ss' cn' w'] assms(3-5)
  have v: "validate_recipient cx ?addr w = (Accept r, w')" and mf: "ss_mail_from ss \<noteq> None" by auto
  note eff = store_contract.validate_recipient_effect [OF assms(1) refl assms(2) v, THEN conjunct2, THEN conjunct2,
      THEN conjunct2, rule_format, OF refl]
  then obtain l d where ld: "rsplit_once (CHR ''@'') ?addr = Some (l, d)" "d \<noteq> []"
    "accepts_domain (cx_config cx) d \<or> custom_domains_enabled (cx_config cx) \<and> spec_is_verified d (view (w_store w))"
    by blast
  have "\<exists>l' d'. rsplit_once (CHR ''@'') r = Some (l', d') \<and> d' = d"
    using strip_plus_tag_domain [OF ld(1)] eff by auto
  moreover have "v_mailbox (view (w_store w')) r \<noteq> None"
    using eff by (auto simp: catch_all_created_def active_reading_def spec_is_active_def split: option.splits)
  ultimately show ?thesis using eff ld mf by blast
qed

definition in_transaction :: session where
  "in_transaction = session_new\<lparr>ss_helo := Some ''c'', ss_mail_from := Some []\<rparr>"

theorem rcpt_no_open_relay_witness:
  "\<exists>ss cn w. flow_state (exec_command smtp_cx (RcptTo ''U+tag@D'') (in_transaction, conn_1, world_1)) = (ss, cn, w) \<and>
     ''u@d'' \<in> set (ss_rcpts ss) \<and>
     v_mailbox (mem_view (w_store w)) ''u@d'' \<noteq> None"
proof -
  obtain ss cn w where s: "flow_state (exec_command smtp_cx (RcptTo ''U+tag@D'') (in_transaction, conn_1, world_1)) = (ss, cn, w)"
    by (metis prod_cases3)
  have "ss_rcpts (fst (flow_state (exec_command smtp_cx (RcptTo ''U+tag@D'') (in_transaction, conn_1, world_1)))) = [''u@d'']"
    by code_simp
  then have r: "''u@d'' \<in> set (ss_rcpts ss)" using s by simp
  have "store_contract (cx_ops smtp_cx) UNLIMITED mem_inv mem_view True (\<lambda>_. True)" "mem_inv (w_store world_1)"
    "''u@d'' \<notin> set (ss_rcpts in_transaction)"
    using mem.store_contract_axioms store_1_inv
    by (simp_all add: smtp_cx_def world_1_def in_transaction_def session_new_def)
  from rcpt_no_open_relay [OF this(1,2) s r this(3)]
  have "v_mailbox (mem_view (w_store w)) ''u@d'' \<noteq> None" by blast
  then show ?thesis using s r by blast
qed

lemma exec_other_world:
  assumes "c \<noteq> Data" "\<forall>a. c \<noteq> RcptTo a" "flow_state (exec_command cx c (ss, cn, w)) = (ss', cn', w')"
  shows "w' = w"
proof -
  have r: "flow_state (reply l (s1, c1, v1)) = (ss', cn', w') \<Longrightarrow> w' = v1" for l s1 c1 v1
    using reply_state [of l s1 c1 v1] by auto
  have b: "flow_state (break_after f) = flow_state f" for f :: "'a sstate flow"
    by (simp add: break_after_def split: flow.splits)
  show ?thesis
  proof (cases c)
    case StartTls
    show ?thesis
      using reply_cases [of "''220 2.0.0 Ready to start TLS''" ss cn w]
    proof (elim disjE exE conjE)
      fix cn1 assume "reply ''220 2.0.0 Ready to start TLS'' (ss, cn, w) = Continue (ss, cn1, w)"
      with assms(3) StartTls r show ?thesis
        by (auto simp: handle_starttls_def split: if_splits option.splits)
    qed (use assms(3) StartTls r in \<open>auto simp: handle_starttls_def split: if_splits option.splits\<close>)
  qed (use assms r b in \<open>auto simp: write_ehlo_def handle_mail_from_def split: result.splits if_splits dest!: r\<close>)
qed

text \<open>C25: The catch-all is confined. Outside DATA the only thing an SMTP command may change in the
  store is that RCPT adds one mailbox, and only with the catch-all on: the mailbox of the command's own
  recipient (its address trimmed, in lower case and without its plus tag), which had none, at the
  recipient's domain, which is a configured one (never a custom one), with a local part that is not
  reserved, and without an owner token.\<close>

theorem catch_all_confined:
  assumes "store_contract (cx_ops cx) q sinv view reliable T" "sinv (w_store w)"
    and "flow_state (exec_command cx c (ss, cn, w)) = (ss', cn', w')" "c \<noteq> Data"
    and "view (w_store w') \<noteq> view (w_store w)"
  shows "\<exists>a l0 l d mb. c = RcptTo a \<and> catch_all_enabled (cx_config cx) \<and>
    rsplit_once (CHR ''@'') (to_ascii_lowercase (trim a)) = Some (l0, d) \<and>
    strip_plus_tag (to_ascii_lowercase (trim a)) = l @ ''@'' @ d \<and>
    v_mailbox (view (w_store w)) (l @ ''@'' @ d) = None \<and>
    accepts_domain (cx_config cx) d \<and> \<not> is_reserved_local_part (cx_config cx) l \<and>
    mb_address mb = l @ ''@'' @ d \<and> mb_domain mb = d \<and> mb_owner_token_hash mb = None \<and>
    view (w_store w') = (view (w_store w))\<lparr>v_mailbox := (v_mailbox (view (w_store w)))(l @ ''@'' @ d \<mapsto> mb)\<rparr>"
proof -
  from exec_other_world [OF assms(4) _ assms(3)] assms(5) obtain a where a: "c = RcptTo a" by blast
  let ?addr = "to_ascii_lowercase (trim a)"
  from handle_rcpt_state [of cx a ss cn w ss' cn' w'] assms(3,5) a
  obtain chk where v: "validate_recipient cx ?addr w = (chk, w')" by auto
  from store_contract.validate_recipient_effect [OF assms(1) refl assms(2) v] assms(5)
  obtain l0 d0 where cc: "catch_all_created (cx_config cx) (strip_plus_tag ?addr) (view (w_store w)) (view (w_store w'))"
    and ad: "rsplit_once (CHR ''@'') ?addr = Some (l0, d0)" "accepts_domain (cx_config cx) d0" by blast
  from strip_plus_tag_domain [OF ad(1)] obtain l' where
    l': "strip_plus_tag ?addr = l' @ ''@'' @ d0" "rsplit_once (CHR ''@'') (strip_plus_tag ?addr) = Some (l', d0)" by blast
  from cc obtain mb where "catch_all_enabled (cx_config cx)" "\<not> is_reserved_local_part (cx_config cx) l'"
    "v_mailbox (view (w_store w)) (l' @ ''@'' @ d0) = None" "mb_address mb = l' @ ''@'' @ d0" "mb_domain mb = d0"
    "mb_owner_token_hash mb = None"
    "view (w_store w') = (view (w_store w))\<lparr>v_mailbox := (v_mailbox (view (w_store w)))(l' @ ''@'' @ d0 \<mapsto> mb)\<rparr>"
    unfolding catch_all_created_def l'(2) unfolding l'(1) by blast
  with a ad l'(1) show ?thesis by blast
qed

definition catch_all_cx :: "inner smtp_context" where
  "catch_all_cx = smtp_cx\<lparr>cx_config := (cx_config smtp_cx)\<lparr>catch_all_enabled := True\<rparr>\<rparr>"

theorem catch_all_confined_witness:
  "\<exists>mb. mb_owner_token_hash mb = None \<and>
     v_mailbox (mem_view (w_store (snd (snd (flow_state
       (exec_command catch_all_cx (RcptTo ''new@d'') (in_transaction, conn_1, world_1))))))) ''new@d'' = Some mb"
proof -
  let ?f = "flow_state (exec_command catch_all_cx (RcptTo ''new@d'') (in_transaction, conn_1, world_1))"
  obtain ss cn w where s: "?f = (ss, cn, w)" by (metis prod_cases3)
  have "hm_get (mailboxes (w_store (snd (snd ?f)))) ''new@d'' \<noteq> None" "hm_get (mailboxes (w_store world_1)) ''new@d'' = None"
    by code_simp+
  then have ne: "mem_view (w_store w) \<noteq> mem_view (w_store world_1)"
    using s by (metis mem_view_simps(1) prod.sel(2))
  have "store_contract (cx_ops catch_all_cx) UNLIMITED mem_inv mem_view True (\<lambda>_. True)" "mem_inv (w_store world_1)"
    using mem.store_contract_axioms store_1_inv by (simp_all add: catch_all_cx_def smtp_cx_def world_1_def)
  from catch_all_confined [OF this s _ ne] obtain a l d mb where "RcptTo ''new@d'' = RcptTo a"
    "strip_plus_tag (to_ascii_lowercase (trim a)) = l @ ''@'' @ d" "mb_owner_token_hash mb = None"
    "mem_view (w_store w) = (mem_view (w_store world_1))
       \<lparr>v_mailbox := (v_mailbox (mem_view (w_store world_1)))(l @ ''@'' @ d \<mapsto> mb)\<rparr>" by blast
  moreover have "strip_plus_tag (to_ascii_lowercase (trim ''new@d'')) = ''new@d''" by code_simp
  ultimately have "v_mailbox (mem_view (w_store w)) ''new@d'' = Some mb \<and> mb_owner_token_hash mb = None"
    by (simp only: command.inject) simp
  then show ?thesis using s by auto
qed

subsection \<open>Storing one copy per recipient\<close>

text \<open>The next \<open>N\<close> identifiers to be drawn are distinct and not in use (they are version 4 UUIDs).\<close>

definition unused_ids :: "nat \<Rightarrow> 's world \<Rightarrow> sview \<Rightarrow> bool" where
  "unused_ids N w v \<longleftrightarrow> inj_on (w_uuids w) {w_drawn w..<w_drawn w + N} \<and>
     (\<forall>n \<in> {w_drawn w..<w_drawn w + N}. (\<forall>a. v_entry v a (w_uuids w n) = None) \<and>
        (\<forall>a i e. v_entry v a i = Some e \<longrightarrow> ve_content e (w_uuids w n) = None))"

definition ids_needed :: "new_message \<Rightarrow> nat" where
  "ids_needed m = Suc (length (nm_attachments m))"

definition delivered_copy ::
  "mailbox_quotas \<Rightarrow> new_message \<Rightarrow> string \<Rightarrow> (uuid \<Rightarrow> ventry option) \<Rightarrow> (uuid \<Rightarrow> ventry option) \<Rightarrow> bool" where
  "delivered_copy q m a ents ents' \<longleftrightarrow> (\<exists>now mid aids rows.
     ents mid = None \<and> rows_of_entries (ents(mid \<mapsto> new_ventry now mid aids a m)) rows \<and>
     ents' = keep_entries q mid rows (ents(mid \<mapsto> new_ventry now mid aids a m)))"

text \<open>The event names a message that is in the mailbox: the parsed one, with the event's identifier. A count
  quota can drop the new message itself when the mailbox holds one that is not older.\<close>

definition all_older :: "(uuid \<Rightarrow> ventry option) \<Rightarrow> datetime \<Rightarrow> bool" where
  "all_older ents now \<longleftrightarrow> (\<forall>i e. ents i = Some e \<longrightarrow> sm_received_at (ve_message e) < now)"

definition announced ::
  "mailbox_quotas \<Rightarrow> otp_patterns \<Rightarrow> new_message \<Rightarrow> sview \<Rightarrow> sview \<Rightarrow> mail_event \<Rightarrow> bool" where
  "announced q re m v v' ev \<longleftrightarrow> (\<exists>now aids. let a = me_address ev; mid = me_id ev in
     ev = event_from_stored re a (stored_of_new now mid aids a m) \<and>
     (q_max_messages q = 0 \<or> all_older (v_entry v a) now \<longrightarrow>
        v_entry v' a mid = Some (new_ventry now mid aids a m)))"

definition same_rest :: "sview \<Rightarrow> sview \<Rightarrow> bool" where
  "same_rest v v' \<longleftrightarrow> v_mailbox v' = v_mailbox v \<and> v_sub v' = v_sub v \<and> v_domain v' = v_domain v \<and>
     v_device v' = v_device v"

lemma unused_ids_inj:
  "unused_ids N w v \<Longrightarrow> n \<in> {w_drawn w..<w_drawn w + N} \<Longrightarrow> k \<in> {w_drawn w..<w_drawn w + N} \<Longrightarrow>
   w_uuids w n = w_uuids w k \<longleftrightarrow> n = k"
  by (auto simp: unused_ids_def dest: inj_onD)

lemma spec_save_delivered:
  assumes "spec_save_message q now mid aids a m v v'" "v_entry v a mid = None"
  shows "delivered_copy q m a (v_entry v a) (v_entry v' a)" "x \<noteq> a \<Longrightarrow> v_entry v' x = v_entry v x"
    "same_rest v v'"
    "q_max_messages q = 0 \<or> all_older (v_entry v a) now \<Longrightarrow> v_entry v' a mid = Some (new_ventry now mid aids a m)"
proof -
  from assms(1) obtain rows where rows: "rows_of_entries ((v_entry v a)(mid \<mapsto> new_ventry now mid aids a m)) rows"
    and v': "v' = v\<lparr>v_entry := (v_entry v)(a := keep_entries q mid rows ((v_entry v a)(mid \<mapsto> new_ventry now mid aids a m)))\<rparr>"
    by (auto simp: spec_save_message_def Let_def)
  show "delivered_copy q m a (v_entry v a) (v_entry v' a)"
    unfolding delivered_copy_def
    by (intro exI [of _ now] exI [of _ mid] exI [of _ aids] exI [of _ rows]) (simp add: assms(2) rows v')
  show "x \<noteq> a \<Longrightarrow> v_entry v' x = v_entry v x" "same_rest v v'" by (auto simp: v' same_rest_def)
  let ?r = "message_row (ve_message (new_ventry now mid aids a m))"
  have r: "row_id ?r = mid" "fst ?r = now"
    by (simp_all add: new_ventry_def message_row_def row_id_def canon_message_def stored_of_new_def)
  have "quota_keeps q mid rows ?r" if kept: "q_max_messages q = 0 \<or> all_older (v_entry v a) now"
  proof (cases "q_max_messages q = 0")
    case False
    show ?thesis
    proof (rule quota_keeps_newest [OF _ r(1)])
      fix r' assume "r' \<in> set rows"
      then consider "r' = ?r" | i e where "v_entry v a i = Some e" "r' = message_row (ve_message e)"
        using rows by (auto simp: rows_of_entries_def ran_def split: if_splits)
      then show "\<not> row_key r' < row_key ?r"
      proof cases
        case (2 i e)
        then have "sm_received_at (ve_message e) < now" using kept False by (auto simp: all_older_def)
        with 2 r(2) show ?thesis by (auto simp: row_key_def message_row_def)
      qed simp
    qed
  qed (use r(1) in \<open>simp add: quota_keeps_def\<close>)
  then show "q_max_messages q = 0 \<or> all_older (v_entry v a) now \<Longrightarrow>
      v_entry v' a mid = Some (new_ventry now mid aids a m)"
    by (simp add: v' keep_entries_def)
qed

lemma unused_fresh:
  assumes "unused_ids N w v" "ids_needed m \<le> N"
  shows "fresh_ids (w_uuids w (w_drawn w)) (\<lambda>i. w_uuids w (Suc (w_drawn w + i))) m v"
proof -
  have "inj_on (\<lambda>i. w_uuids w (Suc (w_drawn w + i))) {..<length (nm_attachments m)}"
    using unused_ids_inj [OF assms(1)] assms(2) by (auto simp: ids_needed_def intro!: inj_onI)
  moreover have "w_drawn w \<in> {w_drawn w..<w_drawn w + N}"
    "j < length (nm_attachments m) \<Longrightarrow> Suc (w_drawn w + j) \<in> {w_drawn w..<w_drawn w + N}" for j
    using assms(2) by (auto simp: ids_needed_def)
  ultimately show ?thesis using assms(1) unfolding unused_ids_def fresh_ids_def by blast
qed

lemma new_ventry_content:
  assumes "ve_content (new_ventry now mid aids a m) j \<noteq> None"
  shows "\<exists>k < length (nm_attachments m). j = aids k"
proof -
  have "j \<in> set (map fst (snd (store_attachments aids (nm_attachments m))))"
    using assms by (simp add: new_ventry_def map_of_eq_None_iff)
  then show ?thesis by (auto simp: store_attachments_ids)
qed

lemma unused_after_save:
  assumes u: "unused_ids (ids_needed m + N) w v"
    and sp: "spec_save_message q now (w_uuids w (w_drawn w)) (\<lambda>i. w_uuids w (Suc (w_drawn w + i))) a m v v'"
    and w': "w_uuids w' = w_uuids w" "w_drawn w' = Suc (w_drawn w + length (nm_attachments m))"
  shows "unused_ids N w' v'"
proof -
  let ?b = "w_drawn w" and ?aids = "\<lambda>i. w_uuids w (Suc (w_drawn w + i))"
  let ?R = "{?b..<?b + (ids_needed m + N)}"
  have old: "v_entry v' x i = Some e \<Longrightarrow> v_entry v x i = Some e \<or>
      i = w_uuids w ?b \<and> e = new_ventry now (w_uuids w ?b) ?aids a m" for x i e
    using sp by (auto simp: spec_save_message_def Let_def keep_entries_def split: if_splits option.splits)
  note inj = unused_ids_inj [OF u]
  have sub: "{w_drawn w'..<w_drawn w' + N} \<subseteq> ?R" using w'(2) by (auto simp: ids_needed_def)
  have n: "v_entry v' x (w_uuids w n) = None" "v_entry v' x i = Some e \<Longrightarrow> ve_content e (w_uuids w n) = None"
    if "n \<in> {w_drawn w'..<w_drawn w' + N}" for n x i e
  proof -
    have nR: "n \<in> ?R" and b: "?b \<in> ?R" "n \<noteq> ?b" using that sub w'(2) by (auto simp: ids_needed_def)
    have k: "Suc (?b + k) \<in> ?R \<and> n \<noteq> Suc (?b + k)" if "k < length (nm_attachments m)" for k
      using that \<open>n \<in> {w_drawn w'..<w_drawn w' + N}\<close> w'(2) by (auto simp: ids_needed_def)
    have v: "v_entry v x (w_uuids w n) = None" "v_entry v x i = Some e \<Longrightarrow> ve_content e (w_uuids w n) = None" for x i e
      using u nR unfolding unused_ids_def by blast+
    show "v_entry v' x (w_uuids w n) = None"
    proof (rule ccontr)
      assume "v_entry v' x (w_uuids w n) \<noteq> None"
      then obtain e where "v_entry v' x (w_uuids w n) = Some e" by auto
      from old [OF this] v(1) [of x] inj [OF nR b(1)] b(2) show False by auto
    qed
    assume "v_entry v' x i = Some e"
    from old [OF this] show "ve_content e (w_uuids w n) = None"
    proof
      assume "i = w_uuids w ?b \<and> e = new_ventry now (w_uuids w ?b) ?aids a m"
      then have e: "e = new_ventry now (w_uuids w ?b) ?aids a m" by simp
      show ?thesis
      proof (rule ccontr)
        assume "ve_content e (w_uuids w n) \<noteq> None"
        from new_ventry_content [OF this [unfolded e]] obtain j where
          j: "j < length (nm_attachments m)" "w_uuids w n = w_uuids w (Suc (?b + j))" by blast
        with inj [OF nR, of "Suc (?b + j)"] k [OF j(1)] show False by simp
      qed
    qed (rule v(2))
  qed
  moreover have "inj_on (w_uuids w) {w_drawn w'..<w_drawn w' + N}"
    using u sub unfolding unused_ids_def by (blast intro: inj_on_subset)
  ultimately show ?thesis using w'(1) by (simp add: unused_ids_def)
qed

context store_contract
begin

lemma store_copies_effect:
  assumes "cx_ops cx = ops" "sinv (w_store w)" "unused_ids (length rcpts * ids_needed m) w (view (w_store w))" "distinct rcpts"
    and "store_copies cx m rcpts w = (r, w')"
  shows "sinv (w_store w') \<and> same_rest (view (w_store w)) (view (w_store w')) \<and>
    (\<exists>ok rest evs. rcpts = ok @ rest \<and> w_events w' = w_events w @ evs \<and> map me_address evs = ok \<and>
       (r = Ok () \<longleftrightarrow> rest = []) \<and>
       (\<forall>a. a \<notin> set ok \<longrightarrow> v_entry (view (w_store w')) a = v_entry (view (w_store w)) a) \<and>
       (\<forall>a \<in> set ok. delivered_copy quotas m a (v_entry (view (w_store w)) a) (v_entry (view (w_store w')) a)) \<and>
       (\<forall>ev \<in> set evs. announced quotas (cx_otp cx) m (view (w_store w)) (view (w_store w')) ev))"
  using assms(2-5)
proof (induction rcpts arbitrary: w)
  case Nil
  then show ?case by (auto simp: same_rest_def)
next
  case (Cons a rcpts)
  let ?now = "w_clock w (w_ticks w)" and ?mid = "w_uuids w (w_drawn w)"
    and ?aids = "\<lambda>i. w_uuids w (Suc (w_drawn w + i))"
  obtain r1 s1 where sv: "st_save_message ops ?now ?mid ?aids a m (w_store w) = (r1, s1)"
    by (cases "st_save_message ops ?now ?mid ?aids a m (w_store w)")
  have needed: "ids_needed m \<le> length (a # rcpts) * ids_needed m" by simp
  note out = save_message [OF Cons.prems(1) unused_fresh [OF Cons.prems(2) needed] sv]
  define w2 where "w2 = w\<lparr>w_ticks := Suc (w_ticks w), w_store := s1,
    w_drawn := Suc (w_drawn w + length (nm_attachments m))\<rparr>"
  show ?case
  proof (cases r1)
    case (Err e)
    then have "r = Err e" "w' = w2" "view s1 = view (w_store w)"
      using Cons.prems(4) assms(1) sv out by (auto simp: w2_def utc_now_def Let_def)
    with out show ?thesis by (auto simp: w2_def same_rest_def intro!: exI [of _ "[]"])
  next
    case (Ok stored)
    with out have sp: "spec_save_message quotas ?now ?mid ?aids a m (view (w_store w)) (view s1)" by auto
    let ?w3 = "w2\<lparr>w_events := w_events w2 @ [event_from_stored (cx_otp cx) a stored]\<rparr>"
    have run: "store_copies cx m rcpts ?w3 = (r, w')"
      using Cons.prems(4) assms(1) sv Ok by (simp add: w2_def utc_now_def Let_def)
    have "unused_ids (length rcpts * ids_needed m) ?w3 (view (w_store ?w3))"
      using unused_after_save [of m "length rcpts * ids_needed m", OF _ sp, of ?w3] Cons.prems(2) by (simp add: w2_def)
    with Cons.IH [of ?w3] out run Cons.prems(3)
    have ih: "sinv (w_store w')" "same_rest (view s1) (view (w_store w'))" and
      "\<exists>ok rest evs. rcpts = ok @ rest \<and> w_events w' = w_events ?w3 @ evs \<and> map me_address evs = ok \<and>
       (r = Ok () \<longleftrightarrow> rest = []) \<and>
       (\<forall>a. a \<notin> set ok \<longrightarrow> v_entry (view (w_store w')) a = v_entry (view s1) a) \<and>
       (\<forall>a \<in> set ok. delivered_copy quotas m a (v_entry (view s1) a) (v_entry (view (w_store w')) a)) \<and>
       (\<forall>ev \<in> set evs. announced quotas (cx_otp cx) m (view s1) (view (w_store w')) ev)"
      by (auto simp: w2_def)
    then obtain ok rest evs where ok: "rcpts = ok @ rest" "w_events w' = w_events ?w3 @ evs" "map me_address evs = ok"
      "r = Ok () \<longleftrightarrow> rest = []" "\<And>x. x \<notin> set ok \<Longrightarrow> v_entry (view (w_store w')) x = v_entry (view s1) x"
      "\<And>x. x \<in> set ok \<Longrightarrow> delivered_copy quotas m x (v_entry (view s1) x) (v_entry (view (w_store w')) x)"
      "\<And>ev. ev \<in> set evs \<Longrightarrow> announced quotas (cx_otp cx) m (view s1) (view (w_store w')) ev" by blast
    have s1: "x \<noteq> a \<Longrightarrow> v_entry (view s1) x = v_entry (view (w_store w)) x" "same_rest (view (w_store w)) (view s1)"
      "delivered_copy quotas m a (v_entry (view (w_store w)) a) (v_entry (view s1) a)"
      "q_max_messages quotas = 0 \<or> all_older (v_entry (view (w_store w)) a) ?now \<Longrightarrow>
        v_entry (view s1) a ?mid = Some (new_ventry ?now ?mid ?aids a m)" for x
      using spec_save_delivered [OF sp] unused_fresh [OF Cons.prems(2) needed] by (auto simp: fresh_ids_def)
    have "a \<notin> set ok" using Cons.prems(3) ok(1) by auto
    then have "\<forall>x \<in> set (a # ok). delivered_copy quotas m x (v_entry (view (w_store w)) x) (v_entry (view (w_store w')) x)"
      using ok(5,6) s1(1,3) by (metis set_ConsD)
    moreover have "w_events w' = w_events w @ (event_from_stored (cx_otp cx) a stored # evs)"
      using ok(2) by (simp add: w2_def)
    moreover have "stored = stored_of_new ?now ?mid ?aids a m" using out Ok by auto
    then have "announced quotas (cx_otp cx) m (view (w_store w)) (view (w_store w')) (event_from_stored (cx_otp cx) a stored)"
      unfolding announced_def Let_def
      by (intro exI [of _ ?now] exI [of _ ?aids])
        (use ok(5) [OF \<open>a \<notin> set ok\<close>] s1(4) in \<open>simp add: event_from_stored_def stored_of_new_def\<close>)
    moreover have "announced quotas (cx_otp cx) m (view (w_store w)) (view (w_store w')) ev" if "ev \<in> set evs" for ev
    proof -
      have "me_address ev \<noteq> a" using that ok(3) \<open>a \<notin> set ok\<close> by auto
      with ok(7) [OF that] s1(1) show ?thesis by (simp add: announced_def Let_def)
    qed
    ultimately show ?thesis
      using ih ok s1 by (intro conjI exI [of _ "a # ok"] exI [of _ rest] exI [of _ "event_from_stored (cx_otp cx) a stored # evs"])
        (auto simp: same_rest_def event_from_stored_def)
  qed
qed

end

definition delivered_message :: "'s smtp_context \<Rightarrow> session \<Rightarrow> bytes \<Rightarrow> new_message" where
  "delivered_message cx ss raw =
     (let p = parse_message (cx_mail_parser cx) (cx_rfc3339 cx) raw
                (case ss_mail_from ss of Some a \<Rightarrow> a | None \<Rightarrow> [])
      in if store_raw_message (cx_config cx) then p\<lparr>nm_raw_content := Some raw\<rparr> else p)"

lemma reply_then_reset_state:
  assumes "flow_state (reply_then_reset l (ss, cn, w)) = (ss', cn', w')"
  shows "w' = w" "cn_writable cn \<noteq> 0 \<Longrightarrow> ss' = reset_tx ss \<and> cn_out cn' = cn_out cn @ [l]"
    "cn_writable cn = 0 \<Longrightarrow> ss' = ss \<and> cn_out cn' = cn_out cn"
  using assms by (auto simp: reply_then_reset_def reply_def write_line_def split: if_splits)

text \<open>C11: Delivery. When DATA has read a complete message, the client is told \<open>250\<close> with the number of
  recipients exactly when every recipient of the transaction got its copy, and \<open>451\<close> otherwise (the
  peer may be gone by then: no answer is written and the rest still holds); the answer ends the
  transaction. The recipients served are always a prefix of the recipient list, each of them got
  exactly one new message (the parsed one, with the quota applied to its mailbox) and one event in
  the same order, whose identifier finds that message in the mailbox unless a count quota dropped it in
  favour of one that is not older; the mailboxes of all other addresses, and everything else in the store, are as
  before. (The identifiers drawn are assumed not to be in use.)\<close>

theorem message_delivered:
  assumes "store_contract (cx_ops cx) q sinv view reliable T" "sinv (w_store w)"
    and "unused_ids (length (ss_rcpts ss) * ids_needed (delivered_message cx ss raw)) w (view (w_store w))"
    and "distinct (ss_rcpts ss)" "read_data (cx_config cx) cn = (Ok (Complete raw), cn1)"
    and "flow_state (receive_data cx (ss, cn, w)) = (ss', cn', w')"
  shows "\<exists>ok rest evs.
    ss_rcpts ss = ok @ rest \<and>
    (if cn_writable cn1 = 0 then ss' = ss \<and> cn_out cn' = cn_out cn1
     else ss' = reset_tx ss \<and> cn_out cn' = cn_out cn1 @
       [if rest = [] then ''250 2.0.0 Message accepted ('' @ show_nat (length (ss_rcpts ss)) @ '' recipient(s))''
        else ''451 4.3.0 Could not store message, try again later'']) \<and>
    w_events w' = w_events w @ evs \<and> map me_address evs = ok \<and>
    (\<forall>a \<in> set ok. delivered_copy q (delivered_message cx ss raw) a
       (v_entry (view (w_store w)) a) (v_entry (view (w_store w')) a)) \<and>
    (\<forall>ev \<in> set evs. announced q (cx_otp cx) (delivered_message cx ss raw) (view (w_store w)) (view (w_store w')) ev) \<and>
    (\<forall>a. a \<notin> set ok \<longrightarrow> v_entry (view (w_store w')) a = v_entry (view (w_store w)) a) \<and>
    same_rest (view (w_store w)) (view (w_store w'))"
proof -
  obtain r1 w1 where run: "store_copies cx (delivered_message cx ss raw) (ss_rcpts ss) w = (r1, w1)"
    by (cases "store_copies cx (delivered_message cx ss raw) (ss_rcpts ss) w")
  then have sm: "store_message cx ss raw w = (map_ok (\<lambda>_. length (ss_rcpts ss)) r1, w1)"
    by (simp add: store_message_def delivered_message_def Let_def)
  define answer where "answer = (if r1 = Ok ()
    then ''250 2.0.0 Message accepted ('' @ show_nat (length (ss_rcpts ss)) @ '' recipient(s))''
    else ''451 4.3.0 Could not store message, try again later'')"
  have "receive_data cx (ss, cn, w) = reply_then_reset answer (ss, cn1, w1)"
    using assms(5) sm by (cases r1) (auto simp: receive_data_def answer_def)
  with assms(6) have "flow_state (reply_then_reset answer (ss, cn1, w1)) = (ss', cn', w')" by simp
  note told = reply_then_reset_state [OF this]
  from store_contract.store_copies_effect [OF assms(1) refl assms(2-4) run] obtain ok rest evs where
    ok: "ss_rcpts ss = ok @ rest" "w_events w1 = w_events w @ evs" "map me_address evs = ok" "r1 = Ok () \<longleftrightarrow> rest = []"
    "\<forall>a. a \<notin> set ok \<longrightarrow> v_entry (view (w_store w1)) a = v_entry (view (w_store w)) a"
    "\<forall>a \<in> set ok. delivered_copy q (delivered_message cx ss raw) a (v_entry (view (w_store w)) a) (v_entry (view (w_store w1)) a)"
    "\<forall>ev \<in> set evs. announced q (cx_otp cx) (delivered_message cx ss raw) (view (w_store w)) (view (w_store w1)) ev"
    "same_rest (view (w_store w)) (view (w_store w1))" by blast
  show ?thesis
    unfolding told(1)
    by (intro exI [of _ ok] exI [of _ rest] exI [of _ evs] conjI ok)
      (use told(2,3) ok(4) in \<open>simp add: answer_def\<close>)
qed

definition data_conn :: conn where
  "data_conn = conn_1\<lparr>cn_sock := [Chunk (''hello'' @ [CHR 13, CHR 10] @ ''.'' @ [CHR 13, CHR 10])]\<rparr>"

theorem message_delivered_witness:
  "\<exists>ss cn w. flow_state (receive_data smtp_cx (in_transaction\<lparr>ss_rcpts := [''u@d'']\<rparr>, data_conn, world_1)) = (ss, cn, w) \<and>
     cn_out cn = [''250 2.0.0 Message accepted (1 recipient(s))''] \<and>
     map me_address (w_events w) = [''u@d''] \<and>
     (\<forall>ev\<in>set (w_events w). v_entry (mem_view (w_store w)) ''u@d'' (me_id ev) \<noteq> None)"
proof -
  let ?ss = "in_transaction\<lparr>ss_rcpts := [''u@d'']\<rparr>" and ?raw = "''hello'' @ [CHR 13, CHR 10]"
  let ?m = "delivered_message smtp_cx ?ss ?raw"
  obtain ss cn w where run: "flow_state (receive_data smtp_cx (?ss, data_conn, world_1)) = (ss, cn, w)"
    by (metis prod_cases3)
  obtain cn1 where rd: "read_data (cx_config smtp_cx) data_conn = (Ok (Complete ?raw), cn1)"
    "cn_writable cn1 = 100" "cn_out cn1 = []"
  proof -
    have "case read_data (cx_config smtp_cx) data_conn of (r, cn1) \<Rightarrow>
        r = Ok (Complete ?raw) \<and> cn_writable cn1 = 100 \<and> cn_out cn1 = []" by code_simp
    then show thesis by (cases "read_data (cx_config smtp_cx) data_conn") (use that in auto)
  qed
  have "messages (w_store world_1) = []" "ids_needed ?m = 1" by code_simp+
  then have fresh: "unused_ids (length (ss_rcpts ?ss) * ids_needed ?m) world_1 (mem_view (w_store world_1))"
    by (simp add: unused_ids_def find_entry_def inj_on_def)
  have mem: "store_contract (cx_ops smtp_cx) UNLIMITED mem_inv mem_view True (\<lambda>_. True)" "mem_inv (w_store world_1)"
    and rcpts: "distinct (ss_rcpts ?ss)" and open_conn: "\<not> cn_writable cn1 = 0"
    using mem.store_contract_axioms store_1_inv rd(2) by (simp_all add: smtp_cx_def world_1_def)
  obtain ok rest evs where o: "ss_rcpts ?ss = ok @ rest" "cn_out cn = cn_out cn1 @
       [if rest = [] then ''250 2.0.0 Message accepted ('' @ show_nat (length (ss_rcpts ?ss)) @ '' recipient(s))''
        else ''451 4.3.0 Could not store message, try again later'']"
    "w_events w = w_events world_1 @ evs" "map me_address evs = ok"
    "\<forall>ev\<in>set evs. announced UNLIMITED (cx_otp smtp_cx) ?m (mem_view (w_store world_1)) (mem_view (w_store w)) ev"
    using message_delivered [OF mem fresh rcpts rd(1) run, unfolded if_not_P [OF open_conn]] by blast
  have "length (w_events (snd (snd (flow_state (receive_data smtp_cx (?ss, data_conn, world_1)))))) = 1" by code_simp
  with o(1,3,4) run have ok: "ok = [''u@d'']" "rest = []" by (auto simp: world_1_def Cons_eq_append_conv)
  have "v_entry (mem_view (w_store w)) ''u@d'' (me_id ev) \<noteq> None" if "ev \<in> set evs" for ev
  proof -
    have "me_address ev = ''u@d''" using that o(4) ok by auto
    with o(5) that show ?thesis by (auto simp: announced_def Let_def UNLIMITED_def)
  qed
  moreover have "show_nat 1 = ''1''" by code_simp
  ultimately show ?thesis using run o ok rd(3) by (simp add: world_1_def)
qed

text \<open>C24: STARTTLS. A completed handshake resets the session (no HELO, no transaction), and its outcome
  does not depend on what the client had sent in the clear after the command and was already
  buffered: those bytes are never executed.\<close>

theorem starttls_discards_plaintext:
  assumes "\<not> ss_tls_active ss" "cx_tls_acceptor cx = Some f"
    and "handle_starttls cx (ss, cn, w) = Continue (ss', cn', w')"
  shows "ss' = \<lparr>ss_helo = None, ss_mail_from = None, ss_rcpts = [], ss_tls_active = True\<rparr> \<and> w' = w \<and>
    f (cn_sock cn) = Some (cn_sock cn') \<and> cn_buf cn' = [] \<and>
    (\<forall>b. handle_starttls cx (ss, cn\<lparr>cn_buf := b\<rparr>, w) = Continue (ss', cn', w'))"
proof -
  have "cn_writable cn \<noteq> 0" using assms by (auto simp: handle_starttls_def reply_def write_line_def split: if_splits)
  then obtain d where d: "f (cn_sock cn) = Some d"
    using assms by (auto simp: handle_starttls_def reply_def write_line_def split: option.splits)
  with assms \<open>cn_writable cn \<noteq> 0\<close> show ?thesis
    by (auto simp: handle_starttls_def reply_def write_line_def reset_tx_def)
qed

theorem starttls_discards_plaintext_witness:
  "\<exists>ss cn w. handle_starttls (smtp_cx\<lparr>cx_tls_acceptor := Some Some\<rparr>) (in_transaction, conn_1\<lparr>cn_buf := ''QUIT''\<rparr>, world_1) =
     Continue (ss, cn, w) \<and> ss_helo ss = None \<and> cn_buf cn = []"
proof -
  let ?cx = "smtp_cx\<lparr>cx_tls_acceptor := Some Some\<rparr>" and ?cn = "conn_1\<lparr>cn_buf := ''QUIT''\<rparr>"
  have "case handle_starttls ?cx (in_transaction, ?cn, world_1) of Continue _ \<Rightarrow> True | _ \<Rightarrow> False"
    by (simp add: handle_starttls_def reply_def write_line_def in_transaction_def session_new_def conn_1_def)
  then obtain ss cn w where s: "handle_starttls ?cx (in_transaction, ?cn, world_1) = Continue (ss, cn, w)"
    by (cases "handle_starttls ?cx (in_transaction, ?cn, world_1)") auto
  have "\<not> ss_tls_active in_transaction" by (simp add: in_transaction_def session_new_def)
  from starttls_discards_plaintext [OF this _ s, of Some] s show ?thesis by simp
qed

subsection \<open>How long a session lasts\<close>

text \<open>\<open>turns cx n st st'\<close>: the command loop has gone round \<open>n\<close> times from \<open>st\<close> and is still running, at \<open>st'\<close>.\<close>

inductive turns :: "'s smtp_context \<Rightarrow> nat \<Rightarrow> 's sstate \<Rightarrow> 's sstate \<Rightarrow> bool" for cx where
  start: "turns cx 0 st st"
| turn: "turns cx n st st1 \<Longrightarrow> session_turn cx st1 = Continue st2 \<Longrightarrow> turns cx (Suc n) st st2"

inductive_cases turns_SucE: "turns cx (Suc n) st st2"

lemma turns_unread:
  assumes "turns cx n (ss, cn, w) (ss', cn', w')"
  shows "ss_tls_active ss' = ss_tls_active ss \<and> n + unread cn' \<le> unread cn \<or> \<not> ss_tls_active ss \<and> ss_tls_active ss'"
  using assms
proof (induction n arbitrary: ss' cn' w')
  case 0
  then show ?case by (auto elim: turns.cases)
next
  case (Suc n)
  from Suc.prems obtain ss1 cn1 w1 where "turns cx n (ss, cn, w) (ss1, cn1, w1)"
    "session_turn cx (ss1, cn1, w1) = Continue (ss', cn', w')" by (elim turns_SucE) (metis prod_cases3)
  with Suc.IH session_turn_progress show ?case by fastforce
qed

text \<open>A client that sends only NOOP lines and reads the answers.\<close>

definition noop_conn :: "nat \<Rightarrow> nat \<Rightarrow> string list \<Rightarrow> conn" where
  "noop_conn k n out = \<lparr>cn_buf = [], cn_sock = replicate k (Chunk (''NOOP'' @ [CHR 13, CHR 10])),
     cn_out = out, cn_writable = n\<rparr>"

lemma noop_turn:
  "session_turn cx (ss, noop_conn (Suc k) (Suc n) out, w) = Continue (ss, noop_conn k n (out @ [''250 2.0.0 OK'']), w)"
proof -
  let ?l = "''NOOP'' @ [CHR 13, CHR 10]"
  have l: "find_char ?l (CHR 10) = Some 5" "parse_command (from_utf8_lossy (strip_eol ?l)) = Noop"
    by code_simp+
  have "read_line_loop COMMAND_LINE_MAX [] ?l sock = (Ok Line, ?l, [], sock)" for sock
    unfolding read_line_loop.simps [of COMMAND_LINE_MAX "[]" ?l sock] l(1) by (simp add: COMMAND_LINE_MAX_def)
  then have "read_line_loop COMMAND_LINE_MAX [] [] (Chunk ?l # sock) = (Ok Line, ?l, [], sock)" for sock
    by (simp add: read_line_loop.simps [of COMMAND_LINE_MAX "[]" "[]"])
  then show ?thesis
    using l(2) by (simp add: session_turn_def read_line_def noop_conn_def reply_def write_line_def)
qed

lemma noop_turns: "turns cx n (ss, noop_conn (n + k) (n + k) out, w)
    (ss, noop_conn k k (out @ replicate n ''250 2.0.0 OK''), w)"
proof (induction n arbitrary: k)
  case 0
  show ?case by (simp add: turns.start)
next
  case (Suc n)
  from Suc [of "Suc k"] show ?case
    using turns.turn noop_turn by (fastforce simp: replicate_append_same [symmetric])
qed

text \<open>C26: A session lasts as long as its input. On every finite input the command loop leaves, by QUIT,
  end of input, an overlong line, a failed handshake or a failed (or timed-out) read or write. As long
  as it runs, every turn consumes input: \<open>n\<close> turns without a TLS handshake leave at least \<open>n\<close> units
  (bytes and reads) less to read, before the handshake and after it. There is no other limit: the time-out
  is per line, so for every \<open>n\<close> a client that sends \<open>n\<close> NOOP lines is answered \<open>n\<close> times and still connected.\<close>

theorem session_ends:
  "(\<exists>st. handle_connection cx cn w \<in> {Break st, Return st, Abort st}) \<and>
   (\<forall>n ss cn1 w1 ss' cn' w'. turns cx n (ss, cn1, w1) (ss', cn', w') \<longrightarrow> ss_tls_active ss' = ss_tls_active ss \<longrightarrow>
      n + unread cn' \<le> unread cn1) \<and>
   (\<forall>n ss w1. turns cx n (ss, noop_conn n n [], w1) (ss, noop_conn 0 0 (replicate n ''250 2.0.0 OK''), w1))"
proof -
  have loop: "\<exists>st'. run_loop cx st \<in> {Break st', Return st', Abort st'}" for st
  proof (induction cx st rule: run_loop.induct)
    case (1 cx st)
    then show ?case
      by (cases "session_turn cx st") (auto simp: run_loop.simps [of cx st])
  qed
  have "\<exists>st. handle_connection cx cn w \<in> {Break st, Return st, Abort st}"
    using reply_cases [of "''220 '' @ smtp_hostname (cx_config cx) @ '' ESMTP anony-mail''" session_new cn w] loop
    by (auto simp: handle_connection_def run_session_def)
  moreover have "n + unread cn' \<le> unread cn1"
    if "turns cx n (ss, cn1, w1) (ss', cn', w')" "ss_tls_active ss' = ss_tls_active ss" for n ss cn1 w1 ss' cn' w'
    using turns_unread [OF that(1)] that(2) by auto
  moreover have "turns cx n (ss, noop_conn n n [], w1) (ss, noop_conn 0 0 (replicate n ''250 2.0.0 OK''), w1)" for n ss w1
    using noop_turns [of cx n ss 0 "[]" w1] by simp
  ultimately show ?thesis by blast
qed

theorem session_ends_witness:
  "2 + unread (noop_conn 0 0 (replicate 2 ''250 2.0.0 OK'')) \<le> unread (noop_conn 2 2 [])"
  using session_ends [of smtp_cx conn_1 world_1] by blast

end
