(* ===== verification/Ip_Addr.thy ===== *)
theory Ip_Addr
  imports Rust_Str
begin

text \<open>
  \<open>std::net::IpAddr\<close> and its parser (\<open>str::parse::<IpAddr>\<close>), which \<open>client_ip\<close> applies to the proxy
  headers: four dotted decimal octets without leading zeros, or eight groups of at most four
  hexadecimal digits with at most one \<open>::\<close> and an optional dotted tail. An address is its numeric
  value.
\<close>

datatype ip_addr = V4 nat | V6 nat

definition digit_value :: "nat \<Rightarrow> char \<Rightarrow> nat option" where
  "digit_value radix c =
     (let n = byte_of c;
          v = (if is_ascii_digit c then n - 48
               else if is_ascii_lowercase c then n - 87
               else if is_ascii_uppercase c then n - 55 else radix)
      in if v < radix then Some v else None)"

definition read_number :: "nat \<Rightarrow> nat \<Rightarrow> bool \<Rightarrow> nat \<Rightarrow> string \<Rightarrow> (nat \<times> string) option" where
  "read_number radix max_digits zero_prefix bound s =
     (let ds = takeWhile (\<lambda>c. digit_value radix c \<noteq> None) s;
          n = fold (\<lambda>c a. a * radix + the (digit_value radix c)) ds 0
      in if ds = [] \<or> length ds > max_digits \<or> (\<not> zero_prefix \<and> hd ds = CHR ''0'' \<and> length ds > 1) \<or> n > bound
         then None else Some (n, drop (length ds) s))"

definition read_separator ::
  "char \<Rightarrow> nat \<Rightarrow> (string \<Rightarrow> ('a \<times> string) option) \<Rightarrow> string \<Rightarrow> ('a \<times> string) option" where
  "read_separator sep index inner s =
     (if index = 0 then inner s
      else case s of [] \<Rightarrow> None | c # r \<Rightarrow> if c = sep then inner r else None)"

fun read_octets :: "nat \<Rightarrow> nat \<Rightarrow> string \<Rightarrow> (nat \<times> string) option" where
  "read_octets 0 acc s = Some (acc, s)"
| "read_octets (Suc k) acc s =
     (case read_separator (CHR ''.'') (3 - k) (read_number 10 3 False 255) s of
        None \<Rightarrow> None | Some (n, r) \<Rightarrow> read_octets k (acc * 256 + n) r)"

definition read_ipv4_addr :: "string \<Rightarrow> (nat \<times> string) option" where
  "read_ipv4_addr s = read_octets 4 0 s"

fun read_groups :: "nat \<Rightarrow> nat \<Rightarrow> string \<Rightarrow> nat list \<times> bool \<times> string" where
  "read_groups 0 i s = ([], False, s)"
| "read_groups (Suc k) i s =
     (case (if k > 0 then read_separator (CHR '':'') i read_ipv4_addr s else None) of
        Some (a, r) \<Rightarrow> ([a div 65536, a mod 65536], True, r)
      | None \<Rightarrow>
          (case read_separator (CHR '':'') i (read_number 16 4 True 65535) s of
             None \<Rightarrow> ([], False, s)
           | Some (g, r) \<Rightarrow> (case read_groups k (Suc i) r of (gs, v4, r') \<Rightarrow> (g # gs, v4, r'))))"

definition groups_value :: "nat list \<Rightarrow> nat" where
  "groups_value gs = fold (\<lambda>g a. a * 65536 + g) gs 0"

definition read_ipv6_addr :: "string \<Rightarrow> (nat \<times> string) option" where
  "read_ipv6_addr s =
     (case read_groups 8 0 s of (hds, v4, r) \<Rightarrow>
        if length hds = 8 then Some (groups_value hds, r)
        else if v4 \<or> take 2 r \<noteq> ''::'' then None
        else case read_groups (7 - length hds) 0 (drop 2 r) of (tls, _, r') \<Rightarrow>
          Some (groups_value (hds @ replicate (8 - length hds - length tls) 0 @ tls), r'))"

definition parse_ip :: "string \<Rightarrow> ip_addr option" where
  "parse_ip s =
     (case read_ipv4_addr s of
        Some (a, r) \<Rightarrow> if r = [] then Some (V4 a) else None
      | None \<Rightarrow>
          (case read_ipv6_addr s of
             Some (a, r) \<Rightarrow> if r = [] then Some (V6 a) else None
           | None \<Rightarrow> None))"

lemma parse_ip_examples:
  "parse_ip ''203.0.113.7'' = Some (V4 3405803783)"
  "parse_ip ''10.0.0.01'' = None" "parse_ip ''256.1.1.1'' = None" "parse_ip ''::1'' = Some (V6 1)"
  "parse_ip ''::ffff:1.2.3.4'' = Some (V6 281470698652420)" "parse_ip ''1:2'' = None"
  by code_simp+

end
