(* ===== verification/Rate_Limiter.thy ===== *)
theory Rate_Limiter
  imports Hash_Map Ip_Addr
begin

text \<open>
  \<open>src/smtp/mod.rs\<close>: the accept loop with its two hygiene limits, the sliding-window limiter per
  address and the cap on concurrent sessions, and the throttled logging of rejections. An IP
  address is an opaque key. \<open>Instant::duration_since\<close> saturates at zero.
\<close>

record rejection_log =
  rj_last_logged :: instant
  rj_unreported :: nat

record rate_limiter =
  rl_window :: duration
  rl_max :: nat
  rl_hits :: "(ip_addr, instant list) hmap"
  rl_rejections :: "(ip_addr, rejection_log) hmap"

definition duration_since :: "instant \<Rightarrow> instant \<Rightarrow> duration" where
  "duration_since now t = max 0 (now - t)"

definition rate_limiter_new :: "duration \<Rightarrow> nat \<Rightarrow> rate_limiter" where
  "rate_limiter_new window maxhits =
     \<lparr>rl_window = window, rl_max = maxhits, rl_hits = hm_empty, rl_rejections = hm_empty\<rparr>"

definition check_at :: "ip_addr \<Rightarrow> instant \<Rightarrow> rate_limiter \<Rightarrow> bool \<times> rate_limiter" where
  "check_at ip now l =
     (let recent = (\<lambda>t. duration_since now t < rl_window l);
          hits = (if hm_len (rl_hits l) > 10000
                  then hm_retain (\<lambda>_ times. list_ex recent times) (rl_hits l) else rl_hits l);
          times = filter recent (case hm_get hits ip of Some ts \<Rightarrow> ts | None \<Rightarrow> [])
      in if length times \<ge> rl_max l
         then (False, l\<lparr>rl_hits := hm_insert ip times hits\<rparr>)
         else (True, l\<lparr>rl_hits := hm_insert ip (times @ [now]) hits\<rparr>))"

definition note_rejection_at :: "ip_addr \<Rightarrow> instant \<Rightarrow> rate_limiter \<Rightarrow> nat option \<times> rate_limiter" where
  "note_rejection_at ip now l =
     (let rejections = (if hm_len (rl_rejections l) > 10000
            then hm_retain (\<lambda>_ r. duration_since now (rj_last_logged r) < rl_window l) (rl_rejections l)
            else rl_rejections l)
      in case hm_get rejections ip of
           None \<Rightarrow> (Some 1, l\<lparr>rl_rejections :=
               hm_insert ip \<lparr>rj_last_logged = now, rj_unreported = 0\<rparr> rejections\<rparr>)
         | Some r \<Rightarrow>
             if duration_since now (rj_last_logged r) < rl_window l
             then (None, l\<lparr>rl_rejections :=
               hm_insert ip (r\<lparr>rj_unreported := rj_unreported r + 1\<rparr>) rejections\<rparr>)
             else (Some (rj_unreported r + 1), l\<lparr>rl_rejections :=
               hm_insert ip \<lparr>rj_last_logged = now, rj_unreported = 0\<rparr> rejections\<rparr>))"

subsection \<open>The accept loop\<close>

record server =
  sv_limiter :: rate_limiter
  sv_permits :: nat

datatype accept_event = Incoming ip_addr instant instant | AcceptFailed | SessionEnded

datatype accept_outcome = Rejected string | Busy string | Spawned | Nothing

definition server_new :: "nat \<Rightarrow> nat \<Rightarrow> server" where
  "server_new max_connections per_ip =
     \<lparr>sv_limiter = rate_limiter_new (seconds 60) per_ip, sv_permits = max_connections\<rparr>"

fun serve_step :: "accept_event \<Rightarrow> server \<Rightarrow> accept_outcome \<times> server" where
  "serve_step AcceptFailed sv = (Nothing, sv)"
| "serve_step SessionEnded sv = (Nothing, sv\<lparr>sv_permits := sv_permits sv + 1\<rparr>)"
| "serve_step (Incoming ip now now') sv =
     (let (ok, l) = check_at ip now (sv_limiter sv)
      in if \<not> ok
         then (Rejected ''421 4.7.0 Too many connections from your host'',
               sv\<lparr>sv_limiter := snd (note_rejection_at ip now' l)\<rparr>)
         else if sv_permits sv = 0
         then (Busy ''421 4.7.0 Server busy, try again later'', sv\<lparr>sv_limiter := l\<rparr>)
         else (Spawned, sv\<lparr>sv_limiter := l, sv_permits := sv_permits sv - 1\<rparr>))"

subsection \<open>The sliding window\<close>

text \<open>A run of the limiter over connection attempts, with the attempts it let through.\<close>

definition limiter_step :: "rate_limiter \<times> (ip_addr \<times> instant) list \<Rightarrow> ip_addr \<times> instant
    \<Rightarrow> rate_limiter \<times> (ip_addr \<times> instant) list" where
  "limiter_step st e = (case check_at (fst e) (snd e) (fst st) of (ok, l) \<Rightarrow>
     (l, if ok then snd st @ [e] else snd st))"

definition limiter_run :: "rate_limiter \<Rightarrow> (ip_addr \<times> instant) list
    \<Rightarrow> rate_limiter \<times> (ip_addr \<times> instant) list" where
  "limiter_run l es = foldl limiter_step (l, []) es"

definition times_of :: "ip_addr \<Rightarrow> (ip_addr \<times> instant) list \<Rightarrow> instant list" where
  "times_of ip acc = map snd (filter (\<lambda>e. fst e = ip) acc)"

definition hits_of :: "rate_limiter \<Rightarrow> ip_addr \<Rightarrow> instant list" where
  "hits_of l ip = (case hm_get (rl_hits l) ip of Some ts \<Rightarrow> ts | None \<Rightarrow> [])"

text \<open>Every accepted attempt found fewer than \<open>maxhits\<close> accepted ones in the window before it.\<close>

definition paced :: "duration \<Rightarrow> nat \<Rightarrow> instant list \<Rightarrow> bool" where
  "paced w m ts \<longleftrightarrow> (\<forall>i < length ts. length (filter (\<lambda>u. ts ! i - u < w) (take (Suc i) ts)) \<le> m)"

definition limiter_inv :: "duration \<Rightarrow> nat \<Rightarrow> instant \<Rightarrow> rate_limiter \<times> (ip_addr \<times> instant) list \<Rightarrow> bool" where
  "limiter_inv w m T st \<longleftrightarrow> (case st of (l, acc) \<Rightarrow>
     rl_window l = w \<and> rl_max l = m \<and> hm_invar (rl_hits l) \<and>
     (\<forall>ip. filter (\<lambda>u. T - u < w) (hits_of l ip) = filter (\<lambda>u. T - u < w) (times_of ip acc) \<and>
        (\<forall>u \<in> set (hits_of l ip). u \<le> T) \<and> (\<forall>u \<in> set (times_of ip acc). u \<le> T) \<and>
        sorted (times_of ip acc) \<and> paced w m (times_of ip acc)))"

lemma paced_snoc:
  assumes "paced w m ts" "length (filter (\<lambda>u. now - u < w) ts) < m"
  shows "paced w m (ts @ [now])"
  using assms by (auto simp: paced_def nth_append less_Suc_eq)

lemma filter_recent_mono:
  fixes T now w :: int
  assumes "filter (\<lambda>u. T - u < w) xs = filter (\<lambda>u. T - u < w) ys" "T \<le> now"
  shows "filter (\<lambda>u. now - u < w) xs = filter (\<lambda>u. now - u < w) ys"
proof -
  have "filter (\<lambda>u. now - u < w) zs = filter (\<lambda>u. now - u < w) (filter (\<lambda>u. T - u < w) zs)" for zs
    using assms(2) by (auto intro!: filter_cong)
  then show ?thesis using assms(1) by metis
qed

lemma check_at_hits:
  assumes inv: "limiter_inv w m T (l, acc)" and T: "T \<le> now" and c: "check_at ip now l = (ok, l')"
  shows "rl_window l' = w" "rl_max l' = m" "hm_invar (rl_hits l')"
    "ok \<longleftrightarrow> length (filter (\<lambda>u. now - u < w) (times_of ip acc)) < m"
    "hits_of l' ip = filter (\<lambda>u. now - u < w) (times_of ip acc) @ (if ok then [now] else [])"
    "x \<noteq> ip \<Longrightarrow> hits_of l' x = hits_of l x \<or> hits_of l' x = [] \<and> filter (\<lambda>u. now - u < w) (hits_of l x) = []"
proof -
  have w: "rl_window l = w" "rl_max l = m" "hm_invar (rl_hits l)"
    and le: "\<And>x u. u \<in> set (hits_of l x) \<Longrightarrow> u \<le> T"
    using inv by (auto simp: limiter_inv_def)
  define recent where "recent = (\<lambda>t. duration_since now t < w)"
  have rec: "u \<in> set (hits_of l x) \<Longrightarrow> recent u \<longleftrightarrow> now - u < w" for u x
    using le [of u x] T by (auto simp: recent_def duration_since_def)
  define hits where "hits = (if hm_len (rl_hits l) > 10000
      then hm_retain (\<lambda>_ times. list_ex recent times) (rl_hits l) else rl_hits l)"
  define old where "old x = (case hm_get hits x of Some ts \<Rightarrow> ts | None \<Rightarrow> [])" for x
  have hinv: "hm_invar hits" using w(3) by (simp add: hits_def)
  have got: "hm_get hits x = hm_get (rl_hits l) x \<or>
      hm_get hits x = None \<and> (\<exists>ts. hm_get (rl_hits l) x = Some ts \<and> \<not> list_ex recent ts)" for x
    using hm.get_retain [OF w(3), of "\<lambda>_ times. list_ex recent times" x]
    by (cases "hm_get (rl_hits l) x") (auto simp: hits_def)
  have old: "old x = hits_of l x \<or> old x = [] \<and> filter recent (hits_of l x) = []" for x
    using got [of x]
  proof (elim disjE conjE exE)
    fix ts assume "hm_get hits x = None" "hm_get (rl_hits l) x = Some ts" "\<not> list_ex recent ts"
    then show ?thesis by (simp add: old_def hits_of_def list_ex_iff filter_empty_conv)
  qed (simp add: old_def hits_of_def)
  have cut: "filter recent (hits_of l x) = filter (\<lambda>u. now - u < w) (hits_of l x)" for x
    by (rule filter_cong) (auto simp: rec)
  have "filter recent (old ip) = filter recent (hits_of l ip)" using old [of ip] by auto
  also have "\<dots> = filter (\<lambda>u. now - u < w) (times_of ip acc)"
    unfolding cut by (rule filter_recent_mono [OF _ T]) (use inv in \<open>simp add: limiter_inv_def\<close>)
  finally have times: "filter recent (old ip) = filter (\<lambda>u. now - u < w) (times_of ip acc)" .
  have c': "(ok, l') = (if length (filter recent (old ip)) \<ge> m
      then (False, l\<lparr>rl_hits := hm_insert ip (filter recent (old ip)) hits\<rparr>)
      else (True, l\<lparr>rl_hits := hm_insert ip (filter recent (old ip) @ [now]) hits\<rparr>))"
    using c unfolding check_at_def w Let_def recent_def [symmetric] hits_def [symmetric] old_def by simp
  show "rl_window l' = w" "rl_max l' = m" "hm_invar (rl_hits l')"
    using c' w hinv by (auto split: if_splits)
  show "ok \<longleftrightarrow> length (filter (\<lambda>u. now - u < w) (times_of ip acc)) < m"
    using c' times by (auto split: if_splits)
  show "hits_of l' ip = filter (\<lambda>u. now - u < w) (times_of ip acc) @ (if ok then [now] else [])"
    using c' times hinv by (auto simp: hits_of_def hm_laws split: if_splits)
  show "x \<noteq> ip \<Longrightarrow> hits_of l' x = hits_of l x \<or> hits_of l' x = [] \<and> filter (\<lambda>u. now - u < w) (hits_of l x) = []"
    using c' hinv old [of x] cut [of x] by (auto simp: hits_of_def hm_laws old_def split: if_splits)
qed

lemma limiter_step_inv:
  assumes inv: "limiter_inv w m T (l, acc)" and T: "T \<le> now"
  shows "limiter_inv w m now (limiter_step (l, acc) (ip, now))"
proof -
  obtain ok l' where c: "check_at ip now l = (ok, l')" by (cases "check_at ip now l")
  note h = check_at_hits [OF inv T c]
  let ?acc = "if ok then acc @ [(ip, now)] else acc"
  have step: "limiter_step (l, acc) (ip, now) = (l', ?acc)" using c by (simp add: limiter_step_def)
  have inv': "\<And>x. filter (\<lambda>u. T - u < w) (hits_of l x) = filter (\<lambda>u. T - u < w) (times_of x acc)"
    "\<And>x. \<forall>u \<in> set (hits_of l x). u \<le> T" "\<And>x. \<forall>u \<in> set (times_of x acc). u \<le> T"
    "\<And>x. sorted (times_of x acc)" "\<And>x. paced w m (times_of x acc)"
    using inv by (auto simp: limiter_inv_def)
  have "filter (\<lambda>u. now - u < w) (hits_of l' x) = filter (\<lambda>u. now - u < w) (times_of x ?acc) \<and>
        (\<forall>u \<in> set (hits_of l' x). u \<le> now) \<and> (\<forall>u \<in> set (times_of x ?acc). u \<le> now) \<and>
        sorted (times_of x ?acc) \<and> paced w m (times_of x ?acc)" for x
  proof (cases "x = ip")
    case True
    have t: "times_of ip ?acc = times_of ip acc @ (if ok then [now] else [])" by (simp add: times_of_def)
    show ?thesis
      unfolding True t h(5)
      using inv'(3-5) [of ip] T h(4) by (auto simp: sorted_append paced_snoc intro: order_trans)
  next
    case False
    have t: "times_of x ?acc = times_of x acc" using False by (auto simp: times_of_def)
    have f: "filter (\<lambda>u. now - u < w) (hits_of l x) = filter (\<lambda>u. now - u < w) (times_of x acc)"
      by (rule filter_recent_mono [OF inv'(1) T])
    from h(6) [OF False] show ?thesis
    proof
      assume e: "hits_of l' x = hits_of l x"
      show ?thesis unfolding t e using inv'(2-5) [of x] f T by (auto intro: order_trans)
    next
      assume e: "hits_of l' x = [] \<and> filter (\<lambda>u. now - u < w) (hits_of l x) = []"
      show ?thesis unfolding t using e inv'(3-5) [of x] f T by (auto intro: order_trans)
    qed
  qed
  with h(1-3) show ?thesis by (simp add: step limiter_inv_def)
qed

lemma limiter_run_inv:
  assumes "sorted (map snd es)" "\<forall>e\<in>set es. T0 \<le> snd e"
  shows "limiter_inv w m (if es = [] then T0 else snd (last es)) (limiter_run (rate_limiter_new w m) es)"
  using assms
proof (induction es rule: rev_induct)
  case Nil
  then show ?case
    by (simp add: limiter_run_def limiter_inv_def rate_limiter_new_def hits_of_def times_of_def hm_laws paced_def)
next
  case (snoc e es)
  obtain l acc where st: "limiter_run (rate_limiter_new w m) es = (l, acc)" by (cases "limiter_run (rate_limiter_new w m) es")
  have "limiter_inv w m (if es = [] then T0 else snd (last es)) (l, acc)"
    using snoc st by (simp add: sorted_append)
  moreover have "(if es = [] then T0 else snd (last es)) \<le> snd e"
    using snoc.prems by (auto simp: sorted_append)
  ultimately have "limiter_inv w m (snd e) (limiter_step (l, acc) (fst e, snd e))" by (rule limiter_step_inv)
  then show ?case using st by (simp add: limiter_run_def)
qed

lemma sorted_filter_le_take:
  fixes ts :: "int list"
  shows "sorted ts \<Longrightarrow> filter (\<lambda>u. u \<le> t) ts = take (length (filter (\<lambda>u. u \<le> t) ts)) ts"
proof (induction ts)
  case (Cons a ts)
  have "filter (\<lambda>u. u \<le> t) ts = []" if "\<not> a \<le> t"
    using Cons.prems that by (auto simp: filter_empty_conv)
  with Cons show ?case by auto
qed simp

lemma paced_window:
  assumes "sorted ts" "paced w m ts"
  shows "length (filter (\<lambda>u. t - w < u \<and> u \<le> t) ts) \<le> m"
proof (cases "filter (\<lambda>u. u \<le> t) ts")
  case Nil
  then have "filter (\<lambda>u. t - w < u \<and> u \<le> t) ts = []" by (auto simp: filter_empty_conv)
  then show ?thesis by simp
next
  case (Cons a as)
  let ?k = "length (filter (\<lambda>u. u \<le> t) ts)"
  have pre: "filter (\<lambda>u. u \<le> t) ts = take ?k ts"
    by (rule sorted_filter_le_take [OF assms(1)])
  then have k: "?k \<le> length ts" "?k > 0" using Cons by auto
  have "ts ! (?k - 1) \<in> set (take ?k ts)" using k by (auto simp: in_set_conv_nth intro!: exI [of _ "?k - 1"])
  then have last: "ts ! (?k - 1) \<le> t" unfolding pre [symmetric] by simp
  have "filter (\<lambda>u. t - w < u \<and> u \<le> t) ts = filter (\<lambda>u. t - w < u) (take ?k ts)"
    unfolding pre [symmetric] by (simp add: conj_commute)
  then have "length (filter (\<lambda>u. t - w < u \<and> u \<le> t) ts) \<le> length (filter (\<lambda>u. ts ! (?k - 1) - u < w) (take ?k ts))"
    using last by (simp only:) (intro length_filter_le_filter, auto)
  also have "\<dots> \<le> m"
  proof -
    have "?k - 1 < length ts" "Suc (?k - 1) = ?k" using k by (linarith, linarith)
    with assms(2) show ?thesis unfolding paced_def by metis
  qed
  finally show ?thesis .
qed

text \<open>C28: Rate limit. Over any sequence of connection attempts in the order of time, from any number of
  addresses and with the table trimmed whenever it is large, the limiter lets through at most
  \<open>max\<close> attempts of one address in any interval of the length of the window.\<close>

theorem rate_limit_window:
  assumes "sorted (map snd es)"
  shows "length (filter (\<lambda>u. t - w < u \<and> u \<le> t) (times_of ip (snd (limiter_run (rate_limiter_new w m) es)))) \<le> m"
proof -
  have "\<forall>e\<in>set es. Min (insert 0 (snd ` set es)) \<le> snd e" by auto
  from limiter_run_inv [OF assms this, of w m] show ?thesis
    by (intro paced_window) (auto simp: limiter_inv_def split: prod.splits)
qed

theorem rate_limit_window_witness:
  "length (filter (\<lambda>u. 5 - 10 < u \<and> u \<le> 5) (times_of (V4 1)
     (snd (limiter_run (rate_limiter_new 10 2) [(V4 1, 1), (V4 1, 2), (V4 2, 3), (V4 1, 4)])))) \<le> 2 \<and>
   snd (limiter_run (rate_limiter_new 10 2) [(V4 1, 1), (V4 1, 2), (V4 2, 3), (V4 1, 4)]) =
     [(V4 1, 1), (V4 1, 2), (V4 2, 3)]"
proof
  show "snd (limiter_run (rate_limiter_new 10 2) [(V4 1, 1), (V4 1, 2), (V4 2, 3), (V4 1, 4)]) =
     [(V4 1, 1), (V4 1, 2), (V4 2, 3)]" by code_simp
qed (rule rate_limit_window, simp)

text \<open>The accept loop with the number of sessions running; a session that ends is one that runs.\<close>

fun serve_run :: "server \<Rightarrow> nat \<Rightarrow> accept_event list \<Rightarrow> server \<times> nat" where
  "serve_run sv active [] = (sv, active)"
| "serve_run sv active (SessionEnded # es) =
     (if active = 0 then serve_run sv active es
      else serve_run (snd (serve_step SessionEnded sv)) (active - 1) es)"
| "serve_run sv active (e # es) =
     (let (out, sv') = serve_step e sv
      in serve_run sv' (if out = Spawned then active + 1 else active) es)"

lemma serve_run_permits:
  "serve_run sv active es = (sv', active') \<Longrightarrow> sv_permits sv' + active' = sv_permits sv + active"
  by (induction sv active es rule: serve_run.induct) (auto simp: Let_def split: prod.splits if_splits)

text \<open>Concurrency cap. Whatever connections arrive and end, the sessions running and the permits
  left add up to \<open>max_connections\<close>, so never more than that many sessions run at once.\<close>

theorem serve_concurrency:
  "sv_permits (fst (serve_run (server_new maxc per_ip) 0 es)) + snd (serve_run (server_new maxc per_ip) 0 es) = maxc"
  using serve_run_permits [of "server_new maxc per_ip" 0 es]
  by (cases "serve_run (server_new maxc per_ip) 0 es") (simp add: server_new_def)

end
