(* ===== verification/Auth.thy ===== *)
theory Auth
  imports Rust_Str
begin

text \<open>
  \<open>src/api/auth.rs\<close> without its store access: token generation, hashing, the bearer header and the
  comparison of hashes. A header map is a lookup by lower-case name of the (first) value's bytes.
  SHA-256 and base64url are parameters.
\<close>

type_synonym headers = "string \<Rightarrow> bytes option"

text \<open>\<open>HeaderValue::to_str\<close>: only visible ASCII and tab.\<close>

definition header_to_str :: "bytes \<Rightarrow> string option" where
  "header_to_str v =
     (if \<forall>b\<in>set v. byte_of b = 9 \<or> 32 \<le> byte_of b \<and> byte_of b < 127 then Some v else None)"

definition TOKEN_PREFIX :: string where
  "TOKEN_PREFIX = ''am_''"

definition DOMAIN_TOKEN_PREFIX :: string where
  "DOMAIN_TOKEN_PREFIX = ''amd_''"

definition hex_digit :: "nat \<Rightarrow> char" where
  "hex_digit n = char_of (if n < 10 then 48 + n else 87 + n)"

definition hex :: "bytes \<Rightarrow> string" where
  "hex bs = concat (map (\<lambda>b. [hex_digit (byte_of b div 16), hex_digit (byte_of b mod 16)]) bs)"

text \<open>The fold of \<open>acc | (x ^ y)\<close> over the zipped bytes, at width 8.\<close>

definition byte_word :: "char \<Rightarrow> 8 word" where
  "byte_word c = of_nat (byte_of c)"

definition constant_time_eq :: "bytes \<Rightarrow> bytes \<Rightarrow> bool" where
  "constant_time_eq a b =
     (if length a \<noteq> length b then False
      else fold (\<lambda>(x, y) acc. or acc (xor (byte_word x) (byte_word y))) (zip a b) 0 = 0)"

definition hash_token :: "(bytes \<Rightarrow> bytes) \<Rightarrow> string \<Rightarrow> string" where
  "hash_token sha256 token = hex (sha256 token)"

definition token_matches_hash :: "(bytes \<Rightarrow> bytes) \<Rightarrow> string \<Rightarrow> string \<Rightarrow> bool" where
  "token_matches_hash sha256 presented want = constant_time_eq (hash_token sha256 presented) want"

text \<open>\<open>generate_token\<close> from the 32 bytes drawn.\<close>

definition generate_token ::
  "(bytes \<Rightarrow> bytes) \<Rightarrow> (bytes \<Rightarrow> string) \<Rightarrow> string \<Rightarrow> bytes \<Rightarrow> string \<times> string" where
  "generate_token sha256 b64url prefix drawn =
     (let token = prefix @ b64url drawn in (token, hash_token sha256 token))"

definition bearer_token :: "headers \<Rightarrow> string option" where
  "bearer_token h =
     (case Option.bind (h ''authorization'') header_to_str of None \<Rightarrow> None
      | Some v \<Rightarrow>
        (case split_once (CHR '' '') (trim v) of None \<Rightarrow> None
         | Some (scheme, rest) \<Rightarrow>
             if \<not> eq_ignore_ascii_case scheme ''bearer'' then None
             else let token = trim rest in if token \<noteq> [] then Some token else None))"

subsection \<open>The comparison is equality, the encoding is injective\<close>

lemma byte_of_less: "byte_of c < 256"
  by (simp add: byte_of_def)

lemma xor_eq_0_word: "xor a b = 0 \<longleftrightarrow> a = (b :: 'a::len word)"
  by (metis xor_self_eq xor.assoc xor.right_neutral xor.left_neutral)

lemma byte_word_inject [simp]: "byte_word a = byte_word b \<longleftrightarrow> a = b"
proof
  assume "byte_word a = byte_word b"
  then have "unat (byte_word a) = unat (byte_word b)" by simp
  then have "byte_of a = byte_of b" by (simp add: byte_word_def unat_of_nat byte_of_less)
  then show "a = b" by simp
qed simp

lemma fold_or_eq_0:
  "fold (\<lambda>(x, y) acc. or acc (xor (byte_word x) (byte_word y))) ps z = 0 \<longleftrightarrow>
   z = 0 \<and> (\<forall>(x, y)\<in>set ps. x = y)"
  by (induction ps arbitrary: z) (auto simp: or_eq_0_iff xor_eq_0_word)

lemma constant_time_eq_iff: "constant_time_eq a b \<longleftrightarrow> a = b"
  by (auto simp: constant_time_eq_def fold_or_eq_0 list_eq_iff_zip_eq)

lemma token_matches_hash_iff: "token_matches_hash sha256 t want \<longleftrightarrow> hash_token sha256 t = want"
  by (simp add: token_matches_hash_def constant_time_eq_iff)

lemma hex_digit_inj: "a < 16 \<Longrightarrow> b < 16 \<Longrightarrow> hex_digit a = hex_digit b \<longleftrightarrow> a = b"
proof -
  assume ab: "a < 16" "b < 16"
  have "byte_of (hex_digit n) = (if n < 10 then 48 + n else 87 + n)" if "n < 16" for n
    using that by (simp add: hex_digit_def byte_of_char_of)
  then have "byte_of (hex_digit a) = byte_of (hex_digit b) \<longleftrightarrow> a = b" using ab by auto
  then show ?thesis by simp
qed

lemma hex_inject: "hex a = hex b \<longleftrightarrow> a = b"
proof
  have lt: "byte_of c div 16 < 16" "byte_of c mod 16 < 16" for c
    using byte_of_less [of c] by auto
  show "hex a = hex b \<Longrightarrow> a = b"
  proof (induction a arbitrary: b)
    case (Cons x a)
    then obtain y b' where b: "b = y # b'" by (cases b) (auto simp: hex_def)
    have "byte_of x div 16 = byte_of y div 16" "byte_of x mod 16 = byte_of y mod 16" "hex a = hex b'"
      using Cons.prems b lt by (auto simp: hex_def hex_digit_inj)
    then have "byte_of x = byte_of y" by (metis div_mult_mod_eq)
    with Cons.IH \<open>hex a = hex b'\<close> b show ?case by simp
  qed (auto simp: hex_def concat_eq_Nil_conv)
qed simp

lemma length_hex: "length (hex bs) = 2 * length bs"
  by (induction bs) (auto simp: hex_def)

lemma hash_token_inject: "hash_token sha256 a = hash_token sha256 b \<longleftrightarrow> sha256 a = sha256 b"
  by (simp add: hash_token_def hex_inject)

text \<open>A client that sends \<open>Bearer <token>\<close> is understood, for every token without blanks.\<close>

definition token_chars :: "string \<Rightarrow> bool" where
  "token_chars t \<longleftrightarrow> t \<noteq> [] \<and> (\<forall>c\<in>set t. 33 \<le> byte_of c \<and> byte_of c < 127)"

lemma token_char_not_ws: "33 \<le> byte_of c \<Longrightarrow> byte_of c < 127 \<Longrightarrow> \<not> ws c"
  by (auto simp: is_whitespace_def utf8_of_def byte_of_def)

lemma bearer_token_header:
  assumes "token_chars t" "eq_ignore_ascii_case scheme ''bearer''" "token_chars scheme"
  shows "bearer_token ((\<lambda>_. None)(''authorization'' \<mapsto> scheme @ '' '' @ t)) = Some t"
proof -
  let ?v = "scheme @ '' '' @ t"
  have sp: "byte_of (CHR '' '') = 32" by code_simp
  have asc: "list_all is_ascii ?v" "list_all is_ascii t"
    using assms(1,3) sp by (auto simp: token_chars_def list_all_iff is_ascii_def)
  have "\<not> ws c" if "c \<in> set t \<union> set scheme" for c
    using that assms(1,3) token_char_not_ws by (auto simp: token_chars_def)
  then have edge: "\<not> ws (hd ?v)" "\<not> ws (last ?v)" "\<not> ws (hd t)" "\<not> ws (last t)"
    using assms(1,3) by (auto simp: token_chars_def hd_append)
  have tr: "trim ?v = ?v" "trim t = t"
    using trim_ascii_id(3) [OF asc(1)] trim_ascii_id(3) [OF asc(2)] edge by auto
  have "CHR '' '' \<notin> set scheme" using assms(3) sp by (auto simp: token_chars_def)
  then have "split_once (CHR '' '') ?v = Some (scheme, t)" by (simp add: split_once_Some_iff)
  moreover have "header_to_str ?v = Some ?v"
    using assms(1,3) sp by (auto simp: header_to_str_def token_chars_def)
  ultimately show ?thesis
    using assms(1,2) tr by (simp add: bearer_token_def token_chars_def Let_def)
qed

end
