(* ===== verification/Custom_Domains.thy ===== *)
theory Custom_Domains
  imports World Auth
begin

text \<open>
  \<open>src/custom_domains.rs\<close>: which names can be claimed, the DNS checks, the status transition with
  its grace window, and the background re-verification. The resolver (\<open>trait DomainDns\<close>) is a
  parameter: a pair of lookups, one pair per check run since answers change over time.
\<close>

definition TXT_LABEL :: string where
  "TXT_LABEL = ''_anonymail''"

definition TXT_VALUE_PREFIX :: string where
  "TXT_VALUE_PREFIX = ''anonymail-verify=''"

definition hours :: "int \<Rightarrow> duration" where
  "hours n = seconds (n * 3600)"

definition GRACE_HOURS :: int where
  "GRACE_HOURS = 48"

definition RECHECK_AFTER_HOURS :: int where
  "RECHECK_AFTER_HOURS = 24"

definition txt_value :: "string \<Rightarrow> string" where
  "txt_value txt_token = TXT_VALUE_PREFIX @ txt_token"

definition txt_host :: "string \<Rightarrow> string" where
  "txt_host domain = TXT_LABEL @ ''.'' @ domain"

text \<open>\<open>generate_txt_token\<close> from the 16 bytes drawn.\<close>

definition generate_txt_token :: "bytes \<Rightarrow> string" where
  "generate_txt_token drawn = hex drawn"

definition valid_label :: "string \<Rightarrow> bool" where
  "valid_label l \<longleftrightarrow> l \<noteq> [] \<and> length l \<le> 63 \<and> \<not> starts_with l ''-'' \<and> \<not> ends_with l ''-'' \<and>
     (\<forall>c\<in>set l. is_ascii_lowercase c \<or> is_ascii_digit c \<or> c = CHR ''-'')"

definition is_valid_domain :: "string \<Rightarrow> bool" where
  "is_valid_domain domain =
     (if length domain > 253 then False
      else let labels = split_at (CHR ''.'') domain
        in if length labels < 2 then False
           else if \<not> list_all valid_label labels then False
           else let tld = last labels
             in length tld \<ge> 2 \<and> (\<forall>c\<in>set tld. is_ascii_lowercase c))"

definition normalize_domain :: "string \<Rightarrow> string" where
  "normalize_domain raw = to_ascii_lowercase (trim_end_matches (CHR ''.'') (trim raw))"

definition validate_claimable :: "config \<Rightarrow> string \<Rightarrow> (string, string) result" where
  "validate_claimable config raw =
     (let domain = normalize_domain raw
      in if \<not> is_valid_domain domain then Err (''not a valid domain name: '' @ raw)
         else if list_ex (\<lambda>served. domain = served \<or> ends_with domain (''.'' @ served)) (domains config)
         then Err (''domain is reserved by this server: '' @ domain)
         else if domain = to_ascii_lowercase (smtp_hostname config)
         then Err (''domain is reserved by this server: '' @ domain)
         else Ok domain)"

record dns_check =
  dc_record :: string
  dc_ok :: bool
  dc_expected :: string
  dc_found :: "string option"

record domain_dns =
  dns_txt_records :: "string \<Rightarrow> (string list, string) result"
  dns_mx_hosts :: "string \<Rightarrow> (string list, string) result"

text \<open>\<open>HickoryDns\<close> over the resolver crate, a parameter: a name to the answers of a TXT and of an MX lookup. The
  inner result of \<open>resolver\<close> is the lazy construction, which can fail.\<close>

datatype rdata = TXT "bytes list" | MX string | OtherRecord

datatype lookup = Answers "rdata list" | NoRecordsFound | LookupFailed string

record resolver =
  rv_txt_lookup :: "string \<Rightarrow> lookup"
  rv_mx_lookup :: "string \<Rightarrow> lookup"

definition fqdn :: "string \<Rightarrow> string" where
  "fqdn name = trim_end_matches (CHR ''.'') name @ ''.''"

definition of_lookup :: "(rdata \<Rightarrow> string option) \<Rightarrow> lookup \<Rightarrow> (string list, string) result" where
  "of_lookup pick l =
     (case l of
        Answers rs \<Rightarrow> Ok (List.map_filter pick rs)
      | NoRecordsFound \<Rightarrow> Ok []
      | LookupFailed e \<Rightarrow> Err e)"

definition txt_of :: "rdata \<Rightarrow> string option" where
  "txt_of r = (case r of TXT parts \<Rightarrow> Some (concat (map from_utf8_lossy parts)) | _ \<Rightarrow> None)"

definition mx_of :: "rdata \<Rightarrow> string option" where
  "mx_of r = (case r of MX exchange \<Rightarrow> Some (to_ascii_lowercase (trim_end_matches (CHR ''.'') exchange)) | _ \<Rightarrow> None)"

definition hickory_dns :: "(resolver, string) result \<Rightarrow> domain_dns" where
  "hickory_dns built =
     \<lparr>dns_txt_records = (\<lambda>name. case built of Err e \<Rightarrow> Err e
        | Ok rv \<Rightarrow> of_lookup txt_of (rv_txt_lookup rv (fqdn name))),
      dns_mx_hosts = (\<lambda>name. case built of Err e \<Rightarrow> Err e
        | Ok rv \<Rightarrow> of_lookup mx_of (rv_mx_lookup rv (fqdn name)))\<rparr>"

definition summarize :: "string list \<Rightarrow> string option" where
  "summarize values = (if values = [] then None else Some (join_with '', '' values))"

definition check_record ::
  "string \<Rightarrow> string \<Rightarrow> (string \<Rightarrow> bool) \<Rightarrow> (string list, string) result \<Rightarrow> dns_check" where
  "check_record kind expected matches res =
     (case res of
        Ok values \<Rightarrow> \<lparr>dc_record = kind, dc_ok = list_ex matches values, dc_expected = expected,
                      dc_found = summarize values\<rparr>
      | Err _ \<Rightarrow> \<lparr>dc_record = kind, dc_ok = False, dc_expected = expected, dc_found = None\<rparr>)"

definition run_checks :: "domain_dns \<Rightarrow> config \<Rightarrow> custom_domain \<Rightarrow> dns_check list \<times> bool" where
  "run_checks dns config domain =
     (let expected_txt = txt_value (cd_txt_token domain);
          expected_mx = to_ascii_lowercase (trim_end_matches (CHR ''.'') (smtp_hostname config));
          txt = check_record ''txt'' expected_txt (\<lambda>v. trim v = expected_txt)
                  (dns_txt_records dns (txt_host (cd_domain domain)));
          mx = check_record ''mx'' expected_mx (\<lambda>h. h = expected_mx) (dns_mx_hosts dns (cd_domain domain))
      in ([txt, mx], dc_ok txt \<and> dc_ok mx))"

definition next_status ::
  "custom_domain \<Rightarrow> bool \<Rightarrow> datetime \<Rightarrow> custom_domain_status \<times> datetime option" where
  "next_status current all_ok now =
     (if all_ok then (Verified, Some now)
      else case cd_status current of
             Pending \<Rightarrow> (Pending, cd_verified_at current)
           | Failed \<Rightarrow> (Failed, cd_verified_at current)
           | Verified \<Rightarrow>
               let anchor = (case cd_verified_at current of Some t \<Rightarrow> t | None \<Rightarrow> cd_created_at current)
               in if now - anchor > hours GRACE_HOURS then (Failed, cd_verified_at current)
                  else (Verified, cd_verified_at current))"

definition check_and_record ::
  "'s store_ops \<Rightarrow> domain_dns \<Rightarrow> config \<Rightarrow> custom_domain \<Rightarrow> ('s, 'x) world_scheme
   \<Rightarrow> (dns_check list \<times> custom_domain_status \<times> datetime option, store_error) result \<times> ('s, 'x) world_scheme" where
  "check_and_record ops dns config domain w =
     (let (checks, all_ok) = run_checks dns config domain;
          (now, w1) = utc_now w;
          (status, verified_at) = next_status domain all_ok now;
          (r, s') = st_record_custom_domain_check ops (cd_domain domain) status verified_at now (w_store w1);
          w2 = w1\<lparr>w_store := s'\<rparr>
      in case r of
           Err e \<Rightarrow> (Err e, w2)
         | Ok _ \<Rightarrow> (Ok (checks, status, verified_at), w2))"

fun recheck_all ::
  "'s store_ops \<Rightarrow> (nat \<Rightarrow> domain_dns) \<Rightarrow> config \<Rightarrow> custom_domain list \<Rightarrow> ('s, 'x) world_scheme
   \<Rightarrow> ('s, 'x) world_scheme" where
  "recheck_all ops dns config [] w = w"
| "recheck_all ops dns config (d # ds) w =
     recheck_all ops (\<lambda>k. dns (Suc k)) config ds (snd (check_and_record ops (dns 0) config d w))"

text \<open>One tick of \<open>reverify_loop\<close>.\<close>

definition reverify_tick ::
  "'s store_ops \<Rightarrow> (nat \<Rightarrow> domain_dns) \<Rightarrow> config \<Rightarrow> ('s, 'x) world_scheme \<Rightarrow> ('s, 'x) world_scheme" where
  "reverify_tick ops dns config w =
     (let (now, w1) = utc_now w;
          cutoff = now - hours RECHECK_AFTER_HOURS
      in case st_list_custom_domains_to_recheck ops cutoff (w_store w1) of
           Err _ \<Rightarrow> w1
         | Ok due \<Rightarrow> recheck_all ops dns config due w1)"

subsection \<open>Claimable names\<close>

lemma set_split_at: "set s \<subseteq> insert c (\<Union> (set ` set (split_at c s)))"
proof (induction c s rule: split_at.induct)
  case (2 c x xs)
  then show ?case by (cases "split_at c xs") auto
qed simp

lemma split_at_not_Nil [simp]: "split_at c s \<noteq> []"
  by (cases s) (auto split: list.splits)

lemma split_at_snoc: "split_at c (s @ [c]) = split_at c s @ [[]]"
proof (induction s)
  case (Cons x s)
  then show ?case by (cases "split_at c s") auto
qed simp

lemma last_split_at_snoc: "last (split_at c (s @ [c])) = []"
  by (simp add: split_at_snoc)

lemma trim_end_matches_id: "s = [] \<or> last s \<noteq> c \<Longrightarrow> trim_end_matches c s = s"
  by (cases s rule: rev_cases) (auto simp: trim_end_matches_def)

lemma valid_label_chars: "valid_label l \<Longrightarrow> c \<in> set l \<Longrightarrow> 45 \<le> byte_of c \<and> byte_of c < 123"
  by (auto simp: valid_label_def is_ascii_lowercase_def is_ascii_digit_def byte_of_def)

lemma valid_label_lower: "valid_label l \<Longrightarrow> c \<in> set l \<Longrightarrow> \<not> is_ascii_uppercase c"
  by (auto simp: valid_label_def is_ascii_lowercase_def is_ascii_digit_def is_ascii_uppercase_def byte_of_def)

lemma is_valid_domain_labels:
  assumes "is_valid_domain d"
  shows "\<forall>l\<in>set (split_at (CHR ''.'') d). valid_label l" "length d \<le> 253" "d \<noteq> []"
  using assms by (auto simp: is_valid_domain_def Let_def list_all_iff split: if_splits)

lemma is_valid_domain_char:
  assumes "is_valid_domain d" "c \<in> set d"
  shows "45 \<le> byte_of c \<and> byte_of c < 123 \<and> \<not> is_ascii_uppercase c"
proof -
  have "byte_of (CHR ''.'') = 46" by code_simp
  moreover have "c = CHR ''.'' \<or> (\<exists>l\<in>set (split_at (CHR ''.'') d). c \<in> set l)"
    using assms(2) set_split_at [of d "CHR ''.''"] by auto
  ultimately show ?thesis
    using is_valid_domain_labels(1) [OF assms(1)] valid_label_chars valid_label_lower
    by (auto simp: is_ascii_uppercase_def)
qed

lemma normalize_valid_domain:
  assumes "is_valid_domain d"
  shows "normalize_domain d = d"
proof -
  note ch = is_valid_domain_char [OF assms]
  have "last d \<noteq> CHR ''.''"
  proof
    assume "last d = CHR ''.''"
    then have "d = butlast d @ [CHR ''.'']" using is_valid_domain_labels(3) [OF assms] by (metis append_butlast_last_id)
    then have "last (split_at (CHR ''.'') d) = []" by (metis last_split_at_snoc)
    moreover have "last (split_at (CHR ''.'') d) \<in> set (split_at (CHR ''.'') d)" by simp
    ultimately show False using is_valid_domain_labels(1) [OF assms] by (auto simp: valid_label_def)
  qed
  moreover have "trim d = d"
  proof (rule trim_ascii_id)
    show "list_all is_ascii d" using ch by (fastforce simp: list_all_iff is_ascii_def)
    have "\<not> ws c" if "c \<in> set d" for c using ch [OF that] token_char_not_ws [of c] by simp
    then show "d = [] \<or> \<not> ws (hd d) \<and> \<not> ws (last d)"
      using is_valid_domain_labels(3) [OF assms] by simp
  qed
  moreover have "to_ascii_lowercase d = d" using ch by (auto intro: to_ascii_lowercase_id)
  ultimately show ?thesis by (simp add: normalize_domain_def trim_end_matches_id)
qed

lemma validate_claimable_Ok:
  "validate_claimable c raw = Ok d \<longleftrightarrow> d = normalize_domain raw \<and> is_valid_domain d \<and>
     (\<forall>served\<in>set (domains c). d \<noteq> served \<and> \<not> ends_with d (''.'' @ served)) \<and>
     d \<noteq> to_ascii_lowercase (smtp_hostname c)"
  by (auto simp: validate_claimable_def Let_def list_ex_iff)

text \<open>A name accepted for a claim is canonical: it is a valid lower-case domain name, claiming it
  again under any spelling that normalises to it is accepted with the same result, and the lookup
  key of the claim routes is the same. It never captures the server's own name space: it is not a
  configured domain, not below one, not the mail host, and the SMTP side does not already accept it.\<close>

theorem claimable_canonical:
  assumes "validate_claimable c raw = Ok d"
  shows "is_valid_domain d \<and> to_ascii_lowercase d = d \<and> normalize_domain d = d \<and>
    (\<forall>other. normalize_domain other = d \<longrightarrow> validate_claimable c other = Ok d) \<and>
    \<not> accepts_domain c d \<and> d \<noteq> to_ascii_lowercase (smtp_hostname c) \<and>
    (\<forall>served\<in>set (domains c). \<forall>p. d \<noteq> p @ ''.'' @ served)"
proof -
  note ok = assms [unfolded validate_claimable_Ok]
  have low: "to_ascii_lowercase d = d" using ok by (simp add: normalize_domain_def)
  moreover have "normalize_domain d = d" using ok normalize_valid_domain by blast
  moreover have "\<forall>other. normalize_domain other = d \<longrightarrow> validate_claimable c other = Ok d"
    using ok by (auto simp: validate_claimable_Ok)
  moreover have "\<not> accepts_domain c d" using ok low by (auto simp: accepts_domain_def)
  moreover have "\<forall>served\<in>set (domains c). \<forall>p. d \<noteq> p @ ''.'' @ served"
    using ok by (auto simp: ends_with_def starts_with_def)
  ultimately show ?thesis using ok by blast
qed

theorem claimable_canonical_witness:
  "validate_claimable config_default '' My-Shop.Example.org. '' = Ok ''my-shop.example.org'' \<and>
   is_valid_domain ''my-shop.example.org'' \<and> \<not> accepts_domain config_default ''my-shop.example.org'' \<and>
   ''my-shop.example.org'' \<noteq> ''x'' @ ''.'' @ ''example.com''"
proof -
  have ok: "validate_claimable config_default '' My-Shop.Example.org. '' = Ok ''my-shop.example.org''"
    by code_simp
  have served: "''example.com'' \<in> set (domains config_default)" by (simp add: config_default_def)
  from ok served claimable_canonical [OF ok] show ?thesis by blast
qed

subsection \<open>What a passed check means\<close>

lemma of_lookup_Ok:
  "of_lookup pick l = Ok vs \<Longrightarrow> v \<in> set vs \<Longrightarrow> \<exists>rs. l = Answers rs \<and> (\<exists>r\<in>set rs. pick r = Some v)"
  by (cases l) (clarsimp simp: of_lookup_def List.map_filter_def, blast?)+

lemma picked:
  "txt_of r = Some v \<Longrightarrow> \<exists>parts. r = TXT parts \<and> v = concat (map from_utf8_lossy parts)"
  "mx_of r = Some h \<Longrightarrow> \<exists>mx. r = MX mx \<and> h = to_ascii_lowercase (trim_end_matches (CHR ''.'') mx)"
  by (cases r; simp add: txt_of_def mx_of_def)+

text \<open>With the production resolver, all checks pass only when the zone answers with a TXT record whose
  joined strings carry the challenge and with an MX record that names this server.\<close>

lemma hickory_checks_pass:
  assumes "run_checks (hickory_dns built) config d = (checks, True)"
  shows "\<exists>rv ts parts ms mx. built = Ok rv \<and>
    rv_txt_lookup rv (fqdn (txt_host (cd_domain d))) = Answers ts \<and> TXT parts \<in> set ts \<and>
    trim (concat (map from_utf8_lossy parts)) = txt_value (cd_txt_token d) \<and>
    rv_mx_lookup rv (fqdn (cd_domain d)) = Answers ms \<and> MX mx \<in> set ms \<and>
    to_ascii_lowercase (trim_end_matches (CHR ''.'') mx) =
      to_ascii_lowercase (trim_end_matches (CHR ''.'') (smtp_hostname config))"
proof -
  have hit: "\<exists>vs v. res = Ok vs \<and> v \<in> set vs \<and> P v" if "dc_ok (check_record k e P res)" for k e P res
    using that by (auto simp: check_record_def list_ex_iff split: result.splits)
  from assms obtain rv where rv: "built = Ok rv"
    by (cases built) (auto simp: run_checks_def Let_def hickory_dns_def check_record_def)
  from assms rv obtain vs v hs h where
    t: "of_lookup txt_of (rv_txt_lookup rv (fqdn (txt_host (cd_domain d)))) = Ok vs" "v \<in> set vs"
      "trim v = txt_value (cd_txt_token d)" and
    mx: "of_lookup mx_of (rv_mx_lookup rv (fqdn (cd_domain d))) = Ok hs" "h \<in> set hs"
      "h = to_ascii_lowercase (trim_end_matches (CHR ''.'') (smtp_hostname config))"
    by (auto simp: run_checks_def Let_def hickory_dns_def dest!: hit)
  from of_lookup_Ok [OF t(1,2)] picked(1) obtain ts parts where
    "rv_txt_lookup rv (fqdn (txt_host (cd_domain d))) = Answers ts" "TXT parts \<in> set ts"
    "v = concat (map from_utf8_lossy parts)" by blast
  moreover from of_lookup_Ok [OF mx(1,2)] picked(2) obtain ms m where
    "rv_mx_lookup rv (fqdn (cd_domain d)) = Answers ms" "MX m \<in> set ms"
    "h = to_ascii_lowercase (trim_end_matches (CHR ''.'') m)" by blast
  ultimately show ?thesis using rv t(3) mx(3) by auto
qed

end
