(* ===== verification/Domain_Lifecycle.thy ===== *)
theory Domain_Lifecycle
  imports Custom_Domains Memory_Store_Correct
begin

text \<open>
  The life of a custom-domain claim: what a sequence of checks makes of its status, and what one
  tick of the background re-verification does to the store. The effect on a store is proved inside
  the contract locale, so it holds for every backend.
\<close>

definition apply_check :: "bool \<times> datetime \<Rightarrow> custom_domain \<Rightarrow> custom_domain" where
  "apply_check = (\<lambda>(all_ok, now) d. case next_status d all_ok now of
     (status, verified_at) \<Rightarrow> d\<lparr>cd_status := status, cd_verified_at := verified_at,
        cd_last_checked_at := Some now\<rparr>)"

subsection \<open>Status after a history of checks\<close>

definition last_success :: "(bool \<times> datetime) list \<Rightarrow> datetime option" where
  "last_success checks = map_option snd (find fst (rev checks))"

definition expected_status :: "(bool \<times> datetime) list \<Rightarrow> custom_domain_status" where
  "expected_status checks =
     (case last_success checks of
        None \<Rightarrow> Pending
      | Some s \<Rightarrow> if snd (last checks) - s \<le> hours GRACE_HOURS then Verified else Failed)"

lemma last_success_snoc:
  "last_success (cs @ [(ok, t)]) = (if ok then Some t else last_success cs)"
  by (simp add: last_success_def)

lemma hours_nonneg: "0 \<le> hours GRACE_HOURS"
  by (simp add: hours_def seconds_def GRACE_HOURS_def)

text \<open>C21: The status of a claim is a function of its check history. After checks in the order of time,
  a claim is \<open>pending\<close> iff no check ever succeeded, \<open>verified\<close> iff the last success is at most
  \<open>GRACE_HOURS\<close> older than the last check, and \<open>failed\<close> otherwise; \<open>verified_at\<close> is the time of the
  last success. So mail flow survives DNS trouble up to the grace window, never longer, and any later
  success restores it.\<close>

theorem domain_status_exact:
  assumes "cd_status d = Pending" "cd_verified_at d = None" "sorted (map snd checks)"
  shows "cd_status (fold apply_check checks d) = expected_status checks \<and>
    cd_verified_at (fold apply_check checks d) = last_success checks"
  using assms(3)
proof (induction checks rule: rev_induct)
  case Nil
  with assms show ?case by (simp add: expected_status_def last_success_def)
next
  case (snoc c checks)
  obtain ok t where c: "c = (ok, t)" by (cases c)
  have IH: "cd_status (fold apply_check checks d) = expected_status checks"
      "cd_verified_at (fold apply_check checks d) = last_success checks"
    using snoc by (auto simp: sorted_append)
  have late: "snd (last checks) \<le> t" if "checks \<noteq> []" using snoc.prems that c by (auto simp: sorted_append)
  have "checks \<noteq> []" if "last_success checks = Some s" for s
    using that by (auto simp: last_success_def)
  with late IH hours_nonneg show ?case
    by (auto simp: c apply_check_def next_status_def expected_status_def last_success_snoc Let_def
        split: option.splits if_splits)
qed

definition claim_1 :: custom_domain where
  "claim_1 = \<lparr>cd_domain = ''shop.org'', cd_status = Pending, cd_claim_token_hash = ''h'',
     cd_txt_token = ''t'', cd_created_at = 0, cd_verified_at = None, cd_last_checked_at = None\<rparr>"

theorem domain_status_exact_witness:
  "cd_status (fold apply_check [(False, 1), (True, 2), (False, hours 47), (False, hours 49)] claim_1) = Failed \<and>
   cd_verified_at (fold apply_check [(False, 1), (True, 2), (False, hours 47), (False, hours 49)] claim_1) = Some 2"
proof -
  have "sorted (map snd [(False, 1), (True, 2), (False, hours 47), (False, hours 49)])" by code_simp
  from domain_status_exact [OF _ _ this, of claim_1] show ?thesis
    by (simp add: claim_1_def expected_status_def last_success_def hours_def seconds_def GRACE_HOURS_def)
qed

subsection \<open>Re-verification\<close>

context store_contract
begin

lemma check_and_record_view:
  assumes "sinv (w_store w)" "check_and_record ops dns config d w = (r, w')" reliable
    "\<forall>j. T (w_clock w j)" "opt_in T (cd_verified_at d)"
    "v_domain (view (w_store w)) (cd_domain d) = Some d"
  shows "sinv (w_store w')" "w_clock w' = w_clock w" "w_ticks w' = Suc (w_ticks w)"
    "view (w_store w') = (view (w_store w))\<lparr>v_domain := (v_domain (view (w_store w)))
       (cd_domain d \<mapsto> apply_check (snd (run_checks dns config d), w_clock w (w_ticks w)) d)\<rparr>"
proof -
  obtain st va where ns: "next_status d (snd (run_checks dns config d)) (w_clock w (w_ticks w)) = (st, va)"
    by (cases "next_status d (snd (run_checks dns config d)) (w_clock w (w_ticks w))")
  obtain q s' where rec: "st_record_custom_domain_check ops (cd_domain d) st va (w_clock w (w_ticks w)) (w_store w) = (q, s')"
    by (cases "st_record_custom_domain_check ops (cd_domain d) st va (w_clock w (w_ticks w)) (w_store w)")
  have w': "w_store w' = s'" "w_clock w' = w_clock w" "w_ticks w' = Suc (w_ticks w)"
    using assms(2) ns rec
    by (auto simp: check_and_record_def utc_now_def Let_def split: prod.splits result.splits)
  have "opt_in T va" using ns assms(4,5) by (auto simp: next_status_def opt_in_iff Let_def split: if_splits custom_domain_status.splits)
  then have "op_refines True sinv view (w_store w) (q, s')
      (spec_record_custom_domain_check (cd_domain d) st va (w_clock w (w_ticks w)) (view (w_store w)))"
    using record_custom_domain_check [OF assms(1), of va "w_clock w (w_ticks w)" "cd_domain d" st] rec assms(3,4) by simp
  then have "sinv s'" "view s' = (view (w_store w))\<lparr>v_domain := (v_domain (view (w_store w)))
       (cd_domain d \<mapsto> d\<lparr>cd_status := st, cd_verified_at := va, cd_last_checked_at := Some (w_clock w (w_ticks w))\<rparr>)\<rparr>"
    using assms(6) by (auto simp: spec_record_custom_domain_check_def op_refines_reliable)
  with w' ns show "sinv (w_store w')" "w_clock w' = w_clock w" "w_ticks w' = Suc (w_ticks w)"
    "view (w_store w') = (view (w_store w))\<lparr>v_domain := (v_domain (view (w_store w)))
       (cd_domain d \<mapsto> apply_check (snd (run_checks dns config d), w_clock w (w_ticks w)) d)\<rparr>"
    by (auto simp: apply_check_def)
qed

text \<open>Every listed claim gets exactly one check, against its own answers, at a reading of the clock
  taken during the tick; everything else stays.\<close>

lemma recheck_all_view:
  assumes "sinv (w_store w)" reliable "distinct (map cd_domain ds)" "\<forall>j. T (w_clock w j)"
    "\<forall>d\<in>set ds. opt_in T (cd_verified_at d)"
    "\<forall>d\<in>set ds. v_domain (view (w_store w)) (cd_domain d) = Some d"
    and w': "w' = recheck_all ops dns config ds w"
  shows "sinv (w_store w') \<and>
    (\<forall>n. n \<notin> cd_domain ` set ds \<longrightarrow> v_domain (view (w_store w')) n = v_domain (view (w_store w)) n) \<and>
    (\<forall>d\<in>set ds. \<exists>k j. w_ticks w \<le> j \<and> v_domain (view (w_store w')) (cd_domain d) =
       Some (apply_check (snd (run_checks (dns k) config d), w_clock w j) d)) \<and>
    (view (w_store w'))\<lparr>v_domain := Map.empty\<rparr> = (view (w_store w))\<lparr>v_domain := Map.empty\<rparr>"
  using assms(1,3-6) unfolding w'
proof (induction ds arbitrary: w dns)
  case (Cons d ds)
  obtain r w1 where c: "check_and_record ops (dns 0) config d w = (r, w1)"
    by (cases "check_and_record ops (dns 0) config d w")
  have "opt_in T (cd_verified_at d)" "v_domain (view (w_store w)) (cd_domain d) = Some d" using Cons.prems(4,5) by simp_all
  note one = check_and_record_view [OF Cons.prems(1) c assms(2) Cons.prems(3) this]
  have "\<forall>e\<in>set ds. v_domain (view (w_store w1)) (cd_domain e) = Some e"
    using Cons.prems(2,5) one(4) by (auto simp: image_iff)
  note IH = Cons.IH [OF one(1) _ _ _ this, of "\<lambda>k. dns (Suc k)"]
  let ?w' = "recheck_all ops (\<lambda>k. dns (Suc k)) config ds w1"
  have ih: "sinv (w_store ?w')"
    "\<And>n. n \<notin> cd_domain ` set ds \<Longrightarrow> v_domain (view (w_store ?w')) n = v_domain (view (w_store w1)) n"
    "\<And>e. e \<in> set ds \<Longrightarrow> \<exists>k j. w_ticks w1 \<le> j \<and> v_domain (view (w_store ?w')) (cd_domain e) =
       Some (apply_check (snd (run_checks (dns (Suc k)) config e), w_clock w1 j) e)"
    "(view (w_store ?w'))\<lparr>v_domain := Map.empty\<rparr> = (view (w_store w1))\<lparr>v_domain := Map.empty\<rparr>"
    using IH Cons.prems(2-4) one(2) by auto
  have hd: "v_domain (view (w_store ?w')) (cd_domain d) =
      Some (apply_check (snd (run_checks (dns 0) config d), w_clock w (w_ticks w)) d)"
    using ih(2) [of "cd_domain d"] Cons.prems(2) one(4) by simp
  have "\<exists>k j. w_ticks w \<le> j \<and> v_domain (view (w_store ?w')) (cd_domain e) =
       Some (apply_check (snd (run_checks (dns k) config e), w_clock w j) e)" if "e \<in> set (d # ds)" for e
  proof (cases "e = d")
    case True
    with hd show ?thesis by blast
  next
    case False
    then have "e \<in> set ds" using that by simp
    from ih(3) [OF this] obtain k j where "Suc (w_ticks w) \<le> j" "v_domain (view (w_store ?w')) (cd_domain e) =
        Some (apply_check (snd (run_checks (dns (Suc k)) config e), w_clock w j) e)"
      using one(2,3) by auto
    then show ?thesis by (intro exI [of _ "Suc k"] exI [of _ j]) simp
  qed
  moreover have "v_domain (view (w_store ?w')) n = v_domain (view (w_store w)) n"
    if "n \<notin> cd_domain ` set (d # ds)" for n using that ih(2) one(4) by simp
  moreover have "(view (w_store ?w'))\<lparr>v_domain := Map.empty\<rparr> = (view (w_store w))\<lparr>v_domain := Map.empty\<rparr>"
    using ih(4) one(4) by simp
  ultimately show ?case using ih(1) c by simp
qed simp

lemma reverify_tick_view:
  assumes "sinv (w_store w)" reliable
    and T: "\<forall>j. T (w_clock w j)" "T (w_clock w (w_ticks w) - hours RECHECK_AFTER_HOURS)"
      "\<forall>n c. v_domain (view (w_store w)) n = Some c \<longrightarrow> opt_in T (cd_verified_at c)"
    and t: "w' = reverify_tick ops dns config w"
    and due: "due = (\<lambda>c. due_for_recheck (w_clock w (w_ticks w) - hours RECHECK_AFTER_HOURS) c)"
  shows "sinv (w_store w')"
    "v_domain (view (w_store w)) n = Some c \<Longrightarrow> due c \<Longrightarrow> \<exists>k j. w_ticks w < j \<and>
       v_domain (view (w_store w')) n = Some (apply_check (snd (run_checks (dns k) config c), w_clock w j) c)"
    "\<not> (\<exists>c. v_domain (view (w_store w)) n = Some c \<and> due c) \<Longrightarrow>
       v_domain (view (w_store w')) n = v_domain (view (w_store w)) n"
    "(view (w_store w'))\<lparr>v_domain := Map.empty\<rparr> = (view (w_store w))\<lparr>v_domain := Map.empty\<rparr>"
proof -
  let ?v = "view (w_store w)"
  obtain out where out: "st_list_custom_domains_to_recheck ops
      (w_clock w (w_ticks w) - hours RECHECK_AFTER_HOURS) (w_store w) = Ok out"
      "distinct out" "set out = {c \<in> ran (v_domain ?v). due c}"
    using list_custom_domains_to_recheck [OF assms(1)] assms(2) T(2) due by blast
  have key: "v_domain ?v (cd_domain c) = Some c" if "c \<in> ran (v_domain ?v)" for c
    using that domain_keys [OF assms(1)] by (auto simp: ran_def)
  have dist: "distinct (map cd_domain out)"
    using out(2,3) key by (auto simp: distinct_map inj_on_def) (metis option.inject)
  define w1 where "w1 = w\<lparr>w_ticks := Suc (w_ticks w)\<rparr>"
  have w': "w' = recheck_all ops dns config out w1"
    using t out(1) by (simp add: reverify_tick_def utc_now_def w1_def)
  have listed: "\<forall>d\<in>set out. v_domain (view (w_store w1)) (cd_domain d) = Some d"
    "\<forall>d\<in>set out. opt_in T (cd_verified_at d)" "\<forall>j. T (w_clock w1 j)"
    using out(3) key T(1,3) by (auto simp: w1_def ran_def)
  note all = recheck_all_view [OF _ assms(2) dist listed(3,2,1) w']
  have inv1: "sinv (w_store w1)" using assms(1) by (simp add: w1_def)
  note all = all [OF inv1]
  show "sinv (w_store w')" using all by blast
  show "v_domain ?v n = Some c \<Longrightarrow> due c \<Longrightarrow> \<exists>k j. w_ticks w < j \<and>
       v_domain (view (w_store w')) n = Some (apply_check (snd (run_checks (dns k) config c), w_clock w j) c)"
    using all out(3) domain_keys [OF assms(1), of n c] ranI [of "v_domain ?v" n c]
    by (fastforce simp: w1_def Suc_le_eq)
  show "\<not> (\<exists>c. v_domain ?v n = Some c \<and> due c) \<Longrightarrow> v_domain (view (w_store w')) n = v_domain ?v n"
    using all out(3) key by (force simp: w1_def)
  show "(view (w_store w'))\<lparr>v_domain := Map.empty\<rparr> = ?v\<lparr>v_domain := Map.empty\<rparr>"
    using all by (simp add: w1_def)
qed

end

text \<open>C22: One tick of the re-verification settles every claim that is due (last check more than
  \<open>RECHECK_AFTER_HOURS\<close> ago) on every reliable backend, whatever else is due: if the domain's records
  are in order during the tick it is \<open>verified\<close> afterwards, from \<open>failed\<close> as well, and mail for it is
  accepted; if they are wrong, the claim was verified, and the last success is older than the grace
  window, it is \<open>failed\<close> afterwards and mail for it is refused. Claims that are not due, mailboxes,
  messages, subscriptions and devices stay as they were. (The timestamps at hand are in the domain \<open>T\<close>
  of the backend.)\<close>

theorem reverify_settles:
  assumes contract: "store_contract ops q sinv view True T" and inv: "sinv (w_store w)"
    and T: "\<forall>j. T (w_clock w j)" "T (w_clock w (w_ticks w) - hours RECHECK_AFTER_HOURS)"
      "\<forall>n c. v_domain (view (w_store w)) n = Some c \<longrightarrow> opt_in T (cd_verified_at c)"
    and w': "w' = reverify_tick ops dns config w"
    and c: "v_domain (view (w_store w)) n = Some c"
    and due: "due_for_recheck (w_clock w (w_ticks w) - hours RECHECK_AFTER_HOURS) c"
    and clock: "mono (w_clock w)"
  shows "((\<forall>k. snd (run_checks (dns k) config c)) \<longrightarrow> spec_is_verified n (view (w_store w'))) \<and>
    ((\<forall>k. \<not> snd (run_checks (dns k) config c)) \<and> cd_status c = Verified \<and> cd_verified_at c = Some t \<and>
       w_clock w (w_ticks w) - t > hours GRACE_HOURS \<longrightarrow> \<not> spec_is_verified n (view (w_store w'))) \<and>
    (\<forall>m d. v_domain (view (w_store w)) m = Some d \<and>
       \<not> due_for_recheck (w_clock w (w_ticks w) - hours RECHECK_AFTER_HOURS) d \<longrightarrow>
       v_domain (view (w_store w')) m = Some d) \<and>
    (view (w_store w'))\<lparr>v_domain := Map.empty\<rparr> = (view (w_store w))\<lparr>v_domain := Map.empty\<rparr>"
proof -
  note tick = store_contract.reverify_tick_view [OF contract inv TrueI T w' refl]
  obtain k j where j: "w_ticks w < j" and c': "v_domain (view (w_store w')) n =
      Some (apply_check (snd (run_checks (dns k) config c), w_clock w j) c)"
    using tick(2) [OF c due] by blast
  have "w_clock w (w_ticks w) \<le> w_clock w j" using clock j by (simp add: mono_def)
  with c' have "(\<forall>k. snd (run_checks (dns k) config c)) \<longrightarrow> spec_is_verified n (view (w_store w'))"
    "(\<forall>k. \<not> snd (run_checks (dns k) config c)) \<and> cd_status c = Verified \<and> cd_verified_at c = Some t \<and>
       w_clock w (w_ticks w) - t > hours GRACE_HOURS \<longrightarrow> \<not> spec_is_verified n (view (w_store w'))"
    by (auto simp: spec_is_verified_def apply_check_def next_status_def)
  moreover have "v_domain (view (w_store w')) m = Some d"
    if "v_domain (view (w_store w)) m = Some d"
      "\<not> due_for_recheck (w_clock w (w_ticks w) - hours RECHECK_AFTER_HOURS) d" for m d
    using that tick(3) [of m] by simp
  ultimately show ?thesis using tick(4) by blast
qed

definition dns_good :: domain_dns where
  "dns_good = \<lparr>dns_txt_records = (\<lambda>_. Ok [''other'', txt_value ''t'']), dns_mx_hosts = (\<lambda>_. Ok [''example.com''])\<rparr>"

definition failed_claim :: custom_domain where
  "failed_claim = claim_1\<lparr>cd_status := Failed, cd_verified_at := Some 0, cd_last_checked_at := Some 5\<rparr>"

definition world_failed :: "inner world" where
  "world_failed = \<lparr>w_store = inner_default\<lparr>custom_domains := hm_insert ''shop.org'' failed_claim hm_empty\<rparr>,
     w_events = [], w_clock = (\<lambda>n. hours 100 + int n), w_ticks = 0, w_uuids = of_nat, w_drawn = 0\<rparr>"

theorem reverify_settles_witness:
  "\<not> spec_is_verified ''shop.org'' (mem_view (w_store world_failed)) \<and>
   spec_is_verified ''shop.org'' (mem_view (w_store (reverify_tick (memory_ops UNLIMITED) (\<lambda>_. dns_good)
     config_default world_failed)))"
proof -
  have inv: "mem_inv (w_store world_failed)"
    by (simp add: world_failed_def mem_inv_def inner_default_def hm_laws failed_claim_def claim_1_def)
  have c: "v_domain (mem_view (w_store world_failed)) ''shop.org'' = Some failed_claim"
    by (simp add: world_failed_def mem_view_def inner_default_def hm_laws)
  have due: "due_for_recheck (w_clock world_failed (w_ticks world_failed) - hours RECHECK_AFTER_HOURS) failed_claim"
    by code_simp
  have clock: "mono (w_clock world_failed)" by (simp add: world_failed_def mono_def)
  have good: "snd (run_checks dns_good config_default failed_claim)" by code_simp
  from reverify_settles [where q = UNLIMITED and dns = "\<lambda>_. dns_good" and config = config_default,
      OF mem.store_contract_axioms inv _ _ _ refl c due clock] good c
  show ?thesis by (auto simp: spec_is_verified_def failed_claim_def opt_in_iff)
qed

end
