(* ===== verification/Limits.thy ===== *)
theory Limits
  imports Rate_Limiter Config Auth
begin

text \<open>
  \<open>src/api/limits.rs\<close>: the in-process abuse limits of the HTTP side. The semaphore of the event
  streams is the number of permits left; a stream's guard records what it holds and dropping it
  gives that back. A \<open>NaiveDate\<close> is the number of days since the epoch.
\<close>

type_synonym naive_date = int

definition date_naive :: "datetime \<Rightarrow> naive_date" where
  "date_naive t = t div (86400 * 1000000000)"

type_synonym daily_table = "(ip_addr, naive_date \<times> u32) hmap"

record runtime_limits =
  sse_global :: "nat option"
  sse_per_ip_cap :: nat
  sse_per_ip :: "(ip_addr, nat) hmap"
  daily_create_cap :: u32
  created_today :: daily_table
  daily_domain_cap :: u32
  domains_today :: daily_table
  domain_verify_min_interval :: duration
  domain_verify_last :: "(string, instant) hmap"

record sse_guard =
  sg_permit :: bool
  sg_ip :: "ip_addr option"

definition limits_from_config :: "config \<Rightarrow> runtime_limits" where
  "limits_from_config c =
     \<lparr>sse_global = (if sse_max_concurrent c > 0 then Some (sse_max_concurrent c) else None),
      sse_per_ip_cap = sse_max_per_ip c, sse_per_ip = hm_empty,
      daily_create_cap = max_addresses_per_ip_per_day c, created_today = hm_empty,
      daily_domain_cap = max_custom_domains_per_ip_per_day c, domains_today = hm_empty,
      domain_verify_min_interval = custom_domain_verify_throttle c, domain_verify_last = hm_empty\<rparr>"

definition try_acquire_sse :: "ip_addr \<Rightarrow> runtime_limits \<Rightarrow> sse_guard option \<times> runtime_limits" where
  "try_acquire_sse ip l =
     (case (case sse_global l of
              None \<Rightarrow> Some (False, l)
            | Some n \<Rightarrow> if n = 0 then None else Some (True, l\<lparr>sse_global := Some (n - 1)\<rparr>)) of
        None \<Rightarrow> (None, l)
      | Some (permit, l1) \<Rightarrow>
          if sse_per_ip_cap l > 0 then
            let count = (case hm_get (sse_per_ip l) ip of Some c \<Rightarrow> c | None \<Rightarrow> 0)
            in if count \<ge> sse_per_ip_cap l
               then (None, l\<lparr>sse_per_ip := hm_insert ip count (sse_per_ip l)\<rparr>)
               else (Some \<lparr>sg_permit = permit, sg_ip = Some ip\<rparr>,
                     l1\<lparr>sse_per_ip := hm_insert ip (count + 1) (sse_per_ip l)\<rparr>)
          else (Some \<lparr>sg_permit = permit, sg_ip = None\<rparr>, l1))"

definition drop_guard :: "sse_guard \<Rightarrow> runtime_limits \<Rightarrow> runtime_limits" where
  "drop_guard g l =
     (let l1 = (case sg_ip g of None \<Rightarrow> l
                | Some ip \<Rightarrow>
                    (case hm_get (sse_per_ip l) ip of None \<Rightarrow> l
                     | Some count \<Rightarrow>
                         if count - 1 = 0 then l\<lparr>sse_per_ip := hm_remove ip (sse_per_ip l)\<rparr>
                         else l\<lparr>sse_per_ip := hm_insert ip (count - 1) (sse_per_ip l)\<rparr>))
      in if sg_permit g then l1\<lparr>sse_global := map_option Suc (sse_global l1)\<rparr> else l1)"

definition note_daily ::
  "u32 \<Rightarrow> ip_addr \<Rightarrow> naive_date \<Rightarrow> daily_table \<Rightarrow> bool \<times> daily_table" where
  "note_daily cap ip today table =
     (if cap = 0 then (True, table)
      else
        let counters = (if hm_len table > 100000 then hm_retain (\<lambda>_ (day, _). day = today) table else table);
            entry = (case hm_get counters ip of Some e \<Rightarrow> e | None \<Rightarrow> (today, 0));
            entry = (if fst entry \<noteq> today then (today, 0) else entry)
        in if snd entry \<ge> cap then (False, hm_insert ip entry counters)
           else (True, hm_insert ip (fst entry, snd entry + 1) counters))"

definition note_address_created ::
  "ip_addr \<Rightarrow> naive_date \<Rightarrow> runtime_limits \<Rightarrow> bool \<times> runtime_limits" where
  "note_address_created ip today l =
     (case note_daily (daily_create_cap l) ip today (created_today l) of
        (ok, t) \<Rightarrow> (ok, l\<lparr>created_today := t\<rparr>))"

definition note_domain_created ::
  "ip_addr \<Rightarrow> naive_date \<Rightarrow> runtime_limits \<Rightarrow> bool \<times> runtime_limits" where
  "note_domain_created ip today l =
     (case note_daily (daily_domain_cap l) ip today (domains_today l) of
        (ok, t) \<Rightarrow> (ok, l\<lparr>domains_today := t\<rparr>))"

definition try_begin_domain_verify ::
  "string \<Rightarrow> instant \<Rightarrow> runtime_limits \<Rightarrow> bool \<times> runtime_limits" where
  "try_begin_domain_verify domain now l =
     (if domain_verify_min_interval l = 0 then (True, l)
      else
        let last = (if hm_len (domain_verify_last l) > 10000
              then hm_retain (\<lambda>_ at. duration_since now at < domain_verify_min_interval l)
                     (domain_verify_last l)
              else domain_verify_last l);
            recent = (case hm_get last domain of None \<Rightarrow> False
              | Some at \<Rightarrow> duration_since now at < domain_verify_min_interval l)
        in if recent then (False, l\<lparr>domain_verify_last := last\<rparr>)
           else (True, l\<lparr>domain_verify_last := hm_insert domain now last\<rparr>))"

definition first_some :: "('a \<Rightarrow> 'b option) \<Rightarrow> 'a list \<Rightarrow> 'b option" where
  "first_some f xs = Option.bind (find (\<lambda>x. f x \<noteq> None) xs) f"

definition client_ip :: "headers \<Rightarrow> ip_addr \<Rightarrow> bool \<Rightarrow> ip_addr" where
  "client_ip h peer trust =
     (if \<not> trust then peer
      else
        let forwarded = Option.bind (Option.bind (h ''x-forwarded-for'') header_to_str)
              (\<lambda>s. first_some (\<lambda>part. parse_ip (trim part)) (split_at (CHR '','') s));
            real = Option.bind (Option.bind (h ''x-real-ip'') header_to_str) (\<lambda>s. parse_ip (trim s))
        in case forwarded of Some ip \<Rightarrow> ip
           | None \<Rightarrow> (case real of Some ip \<Rightarrow> ip | None \<Rightarrow> peer))"

subsection \<open>Concurrent event streams\<close>

text \<open>The server's side of a history of streams: one opens from an address, or the \<open>n\<close>-th live
  stream ends and drops its guard.\<close>

datatype sse_event = Open ip_addr | Close nat

fun sse_step :: "sse_event \<Rightarrow> runtime_limits \<times> (ip_addr \<times> sse_guard) list
    \<Rightarrow> runtime_limits \<times> (ip_addr \<times> sse_guard) list" where
  "sse_step (Open ip) (l, live) =
     (case try_acquire_sse ip l of (None, l') \<Rightarrow> (l', live) | (Some g, l') \<Rightarrow> (l', (ip, g) # live))"
| "sse_step (Close n) (l, live) =
     (if n < length live then (drop_guard (snd (live ! n)) l, take n live @ drop (Suc n) live)
      else (l, live))"

definition sse_run :: "config \<Rightarrow> sse_event list \<Rightarrow> runtime_limits \<times> (ip_addr \<times> sse_guard) list" where
  "sse_run c evs = fold sse_step evs (limits_from_config c, [])"

definition streams_of :: "ip_addr \<Rightarrow> (ip_addr \<times> sse_guard) list \<Rightarrow> nat" where
  "streams_of ip live = length (filter (\<lambda>p. fst p = ip) live)"

definition guards_ok :: "config \<Rightarrow> (ip_addr \<times> sse_guard) list \<Rightarrow> bool" where
  "guards_ok c live \<longleftrightarrow> (\<forall>(ip, g)\<in>set live. sg_permit g = (sse_max_concurrent c > 0) \<and>
     sg_ip g = (if sse_max_per_ip c > 0 then Some ip else None))"

definition global_ok :: "config \<Rightarrow> nat option \<Rightarrow> nat \<Rightarrow> bool" where
  "global_ok c permits n \<longleftrightarrow>
     (if sse_max_concurrent c > 0 then n \<le> sse_max_concurrent c \<and> permits = Some (sse_max_concurrent c - n)
      else permits = None)"

definition slot :: "nat \<Rightarrow> nat option" where
  "slot n = (if n = 0 then None else Some n)"

definition per_ip_ok :: "config \<Rightarrow> (ip_addr, nat) hmap \<Rightarrow> (ip_addr \<times> sse_guard) list \<Rightarrow> bool" where
  "per_ip_ok c m live \<longleftrightarrow> hm_invar m \<and> (sse_max_per_ip c > 0 \<longrightarrow>
     (\<forall>ip. streams_of ip live \<le> sse_max_per_ip c \<and> hm_get m ip = slot (streams_of ip live)))"

definition sse_inv :: "config \<Rightarrow> runtime_limits \<times> (ip_addr \<times> sse_guard) list \<Rightarrow> bool" where
  "sse_inv c = (\<lambda>(l, live). sse_per_ip_cap l = sse_max_per_ip c \<and> guards_ok c live \<and>
     global_ok c (sse_global l) (length live) \<and> per_ip_ok c (sse_per_ip l) live)"

lemma streams_of_Cons [simp]:
  "streams_of ip (p # live) = (if fst p = ip then 1 else 0) + streams_of ip live"
  by (simp add: streams_of_def)

lemma streams_of_remove:
  assumes "n < length live"
  shows "streams_of ip live = (if fst (live ! n) = ip then 1 else 0)
           + streams_of ip (take n live @ drop (Suc n) live)"
  by (subst id_take_nth_drop [OF assms]) (simp add: streams_of_def)

lemma case_slot: "(case slot n of Some k \<Rightarrow> k | None \<Rightarrow> 0) = n"
  by (simp add: slot_def)

lemma sse_open_granted_iff:
  assumes "sse_inv c (l, live)"
  shows "fst (try_acquire_sse ip l) \<noteq> None \<longleftrightarrow>
    (sse_max_concurrent c = 0 \<or> length live < sse_max_concurrent c) \<and>
    (sse_max_per_ip c = 0 \<or> streams_of ip live < sse_max_per_ip c)"
  using assms
  by (auto simp: sse_inv_def global_ok_def per_ip_ok_def try_acquire_sse_def Let_def case_slot
      split: if_splits)

text \<open>What a granted request changes.\<close>

lemma try_acquire_sse_Some:
  assumes "try_acquire_sse ip l = (Some g, l')"
  shows "sg_permit g = (sse_global l \<noteq> None)"
    "sg_ip g = (if sse_per_ip_cap l > 0 then Some ip else None)"
    "sse_global l' = map_option (\<lambda>n. n - 1) (sse_global l)"
    "sse_global l \<noteq> Some 0" "sse_per_ip_cap l' = sse_per_ip_cap l"
    "sse_per_ip l' = (if sse_per_ip_cap l > 0
       then hm_insert ip ((case hm_get (sse_per_ip l) ip of Some c \<Rightarrow> c | None \<Rightarrow> 0) + 1) (sse_per_ip l)
       else sse_per_ip l)"
  using assms by (auto simp: try_acquire_sse_def Let_def split: if_splits option.splits)

lemma try_acquire_sse_None:
  assumes "sse_inv c (l, live)" "try_acquire_sse ip l = (None, l')"
  shows "sse_inv c (l', live)"
proof -
  have g: "sse_global l' = sse_global l" "sse_per_ip_cap l' = sse_per_ip_cap l"
    using assms(2) by (auto simp: try_acquire_sse_def Let_def split: if_splits option.splits)
  have "sse_max_per_ip c > 0 \<Longrightarrow> (case hm_get (sse_per_ip l) ip of Some c \<Rightarrow> c | None \<Rightarrow> 0) = streams_of ip live"
    using assms(1) by (simp add: sse_inv_def per_ip_ok_def case_slot)
  then have "sse_per_ip l' = sse_per_ip l \<or> sse_max_per_ip c > 0 \<and> streams_of ip live \<ge> sse_max_per_ip c \<and>
      sse_per_ip l' = hm_insert ip (streams_of ip live) (sse_per_ip l)"
    using assms by (cases "sse_global l") (auto simp: try_acquire_sse_def Let_def sse_inv_def split: if_splits)
  then have "per_ip_ok c (sse_per_ip l') live"
    using assms(1) by (auto simp: sse_inv_def per_ip_ok_def hm_laws slot_def)
  with assms(1) g show ?thesis by (simp add: sse_inv_def)
qed

lemma sse_inv_open:
  assumes "sse_inv c (l, live)"
  shows "sse_inv c (sse_step (Open ip) (l, live))"
proof (cases "try_acquire_sse ip l")
  case (Pair r l')
  show ?thesis
  proof (cases r)
    case None
    with Pair assms try_acquire_sse_None show ?thesis by simp
  next
    case (Some g)
    note acq = try_acquire_sse_Some [OF Pair [unfolded Some]]
    have "fst (try_acquire_sse ip l) \<noteq> None" using Pair Some by simp
    note room = this [unfolded sse_open_granted_iff [OF assms]]
    have "guards_ok c ((ip, g) # live)"
      using assms acq(1,2) by (auto simp: sse_inv_def guards_ok_def global_ok_def split: if_splits)
    moreover have "global_ok c (sse_global l') (length ((ip, g) # live))"
      using assms acq(3) room by (auto simp: sse_inv_def global_ok_def)
    moreover have "per_ip_ok c (sse_per_ip l') ((ip, g) # live)"
      using assms acq(6) room by (auto simp: sse_inv_def per_ip_ok_def case_slot hm_laws slot_def)
    ultimately show ?thesis using assms acq(5) Pair Some by (simp add: sse_inv_def)
  qed
qed

lemma drop_guard_eq:
  "sse_global (drop_guard g l) = (if sg_permit g then map_option Suc (sse_global l) else sse_global l)"
  "sse_per_ip_cap (drop_guard g l) = sse_per_ip_cap l"
  "sse_per_ip (drop_guard g l) =
     (case sg_ip g of None \<Rightarrow> sse_per_ip l
      | Some ip \<Rightarrow> (case hm_get (sse_per_ip l) ip of None \<Rightarrow> sse_per_ip l
         | Some k \<Rightarrow> if k - 1 = 0 then hm_remove ip (sse_per_ip l)
                    else hm_insert ip (k - 1) (sse_per_ip l)))"
  by (auto simp: drop_guard_def Let_def split: option.splits)

lemma sse_inv_close:
  assumes "sse_inv c (l, live)"
  shows "sse_inv c (sse_step (Close n) (l, live))"
proof (cases "n < length live")
  case True
  let ?live = "take n live @ drop (Suc n) live"
  obtain ip g where g: "live ! n = (ip, g)" by (cases "live ! n")
  have "(ip, g) \<in> set live" using True g by (metis nth_mem)
  then have gok: "sg_permit g = (sse_max_concurrent c > 0)"
      "sg_ip g = (if sse_max_per_ip c > 0 then Some ip else None)"
    using assms by (auto simp: sse_inv_def guards_ok_def)
  have cnt: "streams_of i live = (if ip = i then 1 else 0) + streams_of i ?live" for i
    using streams_of_remove [OF True, of i] g by simp
  have len: "length live = Suc (length ?live)" using True by simp
  have "guards_ok c ?live"
    using assms by (auto simp: sse_inv_def guards_ok_def dest: in_set_takeD in_set_dropD)
  moreover have "global_ok c (sse_global (drop_guard g l)) (length ?live)"
    using assms gok(1) len by (auto simp: sse_inv_def global_ok_def drop_guard_eq)
  moreover have "per_ip_ok c (sse_per_ip (drop_guard g l)) ?live"
  proof (cases "sse_max_per_ip c = 0")
    case False
    have per: "hm_invar (sse_per_ip l)" "streams_of i live \<le> sse_max_per_ip c"
        "hm_get (sse_per_ip l) i = slot (streams_of i live)" for i
      using assms False by (auto simp: sse_inv_def per_ip_ok_def)
    have "streams_of i ?live \<le> sse_max_per_ip c" for i using per(2) [of i] cnt [of i] by simp
    moreover have "hm_get (sse_per_ip (drop_guard g l)) i = slot (streams_of i ?live)" for i
      using per(1) per(3) [of i] per(3) [of ip] cnt [of i] cnt [of ip] gok(2) False
      by (auto simp: drop_guard_eq hm_laws slot_def split: option.splits if_splits)
    moreover have "hm_invar (sse_per_ip (drop_guard g l))"
      using per(1) by (simp add: drop_guard_eq split: option.splits)
    ultimately show ?thesis by (simp add: per_ip_ok_def)
  next
    case True
    with assms gok(2) show ?thesis by (simp add: sse_inv_def per_ip_ok_def drop_guard_eq)
  qed
  ultimately show ?thesis
    using assms True g by (simp add: sse_inv_def drop_guard_eq)
qed (use assms in simp)

lemma sse_inv_step: "sse_inv c st \<Longrightarrow> sse_inv c (sse_step e st)"
  by (cases st; cases e) (simp_all only: sse_inv_open sse_inv_close)

lemma sse_inv_run: "sse_inv c (sse_run c evs)"
proof -
  have "sse_inv c (fold sse_step evs st)" if "sse_inv c st" for st
    using that by (induction evs arbitrary: st) (simp_all only: fold_simps sse_inv_step)
  moreover have "sse_inv c (limits_from_config c, [])"
    by (simp add: sse_inv_def guards_ok_def global_ok_def per_ip_ok_def limits_from_config_def
        streams_of_def slot_def hm_laws)
  ultimately show ?thesis by (simp add: sse_run_def)
qed

subsection \<open>Daily quotas\<close>

fun daily_run :: "u32 \<Rightarrow> daily_table \<Rightarrow> (ip_addr \<times> naive_date) list \<Rightarrow> bool list" where
  "daily_run cap t [] = []"
| "daily_run cap t ((ip, today) # calls) =
     (case note_daily cap ip today t of (ok, t') \<Rightarrow> ok # daily_run cap t' calls)"

text \<open>The count that an entry of the table stands for on a given day.\<close>

definition used_on :: "daily_table \<Rightarrow> ip_addr \<Rightarrow> naive_date \<Rightarrow> nat" where
  "used_on t ip d = (case hm_get t ip of None \<Rightarrow> 0 | Some (day, n) \<Rightarrow> if day = d then unat n else 0)"

lemma used_on_insert:
  "hm_invar t \<Longrightarrow> used_on (hm_insert ip (day, n) t) ip' d =
     (if ip' = ip then if day = d then unat n else 0 else used_on t ip' d)"
  by (simp add: used_on_def hm_laws)

lemma unat_suc_below: "n < (cap :: u32) \<Longrightarrow> unat (n + 1) = Suc (unat n)"
proof -
  assume "n < cap"
  moreover have "unat cap < 2 ^ LENGTH(32)" by (rule unsigned_less)
  ultimately show "unat (n + 1) = Suc (unat n)" by (simp add: word_less_nat_alt unat_word_ariths)
qed

lemma note_daily_effect:
  assumes "cap \<noteq> 0" "hm_invar t" "note_daily cap ip today t = (ok, t')"
  shows "hm_invar t'" "ok \<longleftrightarrow> used_on t ip today < unat cap"
    "used_on t' ip today = (if ok then Suc (used_on t ip today) else used_on t ip today)"
    "ip' \<noteq> ip \<Longrightarrow> used_on t' ip' today = used_on t ip' today"
    "d \<noteq> today \<Longrightarrow> used_on t' ip' d = used_on t ip' d \<or> used_on t' ip' d = 0"
proof -
  define t1 where "t1 = (if hm_len t > 100000 then hm_retain (\<lambda>_ (day, _). day = today) t else t)"
  define e where "e = (case hm_get t1 ip of Some e \<Rightarrow> if fst e \<noteq> today then (today, 0) else e
                       | None \<Rightarrow> (today, 0))"
  have inv1: "hm_invar t1" using assms(2) by (simp add: t1_def)
  have t1: "used_on t1 i today = used_on t i today" "used_on t1 i d = used_on t i d \<or> used_on t1 i d = 0"
    for i using assms(2)
    by (auto simp: t1_def used_on_def hm_laws split: option.splits)
  have e: "fst e = today" "unat (snd e) = used_on t ip today"
    using t1(1) [of ip] by (auto simp: e_def used_on_def split: option.splits)
  have step: "ok \<longleftrightarrow> snd e < cap" "t' = hm_insert ip (today, if ok then snd e + 1 else snd e) t1"
    using assms(1,3) e(1) word_neq_0_conv [of cap]
    by (auto simp: note_daily_def t1_def [symmetric] Let_def e_def split: if_splits option.splits prod.splits)
  show "hm_invar t'" using step(2) inv1 by simp
  show ok: "ok \<longleftrightarrow> used_on t ip today < unat cap"
    using step(1) e(2) by (simp add: word_less_nat_alt)
  show "used_on t' ip today = (if ok then Suc (used_on t ip today) else used_on t ip today)"
    using step e(2) inv1 unat_suc_below by (simp add: used_on_insert)
  show "ip' \<noteq> ip \<Longrightarrow> used_on t' ip' today = used_on t ip' today"
    using step(2) inv1 t1(1) by (simp add: used_on_insert)
  show "d \<noteq> today \<Longrightarrow> used_on t' ip' d = used_on t ip' d \<or> used_on t' ip' d = 0"
    using step(2) inv1 t1(2) [of ip'] by (simp add: used_on_insert)
qed

definition daily_inv :: "u32 \<Rightarrow> (ip_addr \<times> naive_date) list \<Rightarrow> naive_date \<Rightarrow> daily_table \<Rightarrow> bool" where
  "daily_inv cap past today t \<longleftrightarrow> hm_invar t \<and> (\<forall>(ip, d)\<in>set past. d \<le> today) \<and>
     (\<forall>ip d. d \<ge> today \<longrightarrow> used_on t ip d = min (unat cap) (count_list past (ip, d)))"

lemma daily_inv_step:
  assumes "cap \<noteq> 0" "daily_inv cap past day t" "day \<le> today" "note_daily cap ip today t = (ok, t')"
  shows "ok \<longleftrightarrow> count_list past (ip, today) < unat cap" "daily_inv cap (past @ [(ip, today)]) today t'"
proof -
  have inv: "hm_invar t" "\<And>i d. d \<ge> today \<Longrightarrow> used_on t i d = min (unat cap) (count_list past (i, d))"
    and le: "\<forall>(i, d)\<in>set past. d \<le> day" using assms(2,3) by (auto simp: daily_inv_def)
  note eff = note_daily_effect [OF assms(1) inv(1) assms(4)]
  show ok: "ok \<longleftrightarrow> count_list past (ip, today) < unat cap"
    using eff(2) inv(2) [of today ip] by auto
  have "used_on t' i d = min (unat cap) (count_list (past @ [(ip, today)]) (i, d))"
    if d: "d \<ge> today" for i d
  proof (cases "d = today")
    case True
    with eff(3) eff(4) [of i] inv(2) [of today i] ok show ?thesis by (cases "i = ip") auto
  next
    case False
    with d le assms(3) have "count_list past (i, d) = 0" by (auto simp: count_list_0_iff)
    with False eff(5) [of d i] inv(2) [OF d, of i] show ?thesis by auto
  qed
  with eff(1) le assms(3) show "daily_inv cap (past @ [(ip, today)]) today t'"
    by (auto simp: daily_inv_def)
qed

lemma daily_run_nth:
  assumes "cap \<noteq> 0" "daily_inv cap past day t" "sorted (day # map snd calls)" "i < length calls"
  shows "daily_run cap t calls ! i \<longleftrightarrow> count_list (past @ take i calls) (calls ! i) < unat cap"
  using assms(2-4)
proof (induction calls arbitrary: past day t i)
  case (Cons c calls)
  obtain ip today where c: "c = (ip, today)" by (cases c)
  obtain ok t' where nd: "note_daily cap ip today t = (ok, t')" by (cases "note_daily cap ip today t")
  have "day \<le> today" using Cons.prems(2) c by simp
  note step = daily_inv_step [OF assms(1) Cons.prems(1) this nd]
  show ?case
  proof (cases i)
    case 0
    with c nd step(1) show ?thesis by simp
  next
    case (Suc j)
    have "daily_run cap t' calls ! j \<longleftrightarrow> count_list ((past @ [(ip, today)]) @ take j calls) (calls ! j) < unat cap"
      using Cons.prems(2,3) Suc c by (intro Cons.IH [OF step(2)]) auto
    with Suc c nd show ?thesis by simp
  qed
qed simp

text \<open>The granted calls of a stretch.\<close>

definition granted :: "u32 \<Rightarrow> daily_table \<Rightarrow> (ip_addr \<times> naive_date) list \<Rightarrow> (ip_addr \<times> naive_date) list" where
  "granted cap t calls = map fst (filter snd (zip calls (daily_run cap t calls)))"

lemma granted_simps [simp]:
  "granted cap t [] = []"
  "granted cap t ((ip, today) # calls) =
     (case note_daily cap ip today t of (ok, t') \<Rightarrow> (if ok then [(ip, today)] else []) @ granted cap t' calls)"
  by (simp_all add: granted_def split: prod.split)

lemma granted_at_most:
  assumes "cap \<noteq> 0" "hm_invar t" "sorted (day # map snd calls)" "\<forall>x\<in>set past. snd x \<le> day"
    "\<And>ip. count_list past (ip, day) \<le> used_on t ip day" "\<And>x. count_list past x \<le> unat cap"
  shows "count_list (past @ granted cap t calls) x \<le> unat cap"
  using assms(2-6)
proof (induction calls arbitrary: past day t)
  case (Cons c calls)
  obtain ip today where c: "c = (ip, today)" by (cases c)
  obtain ok t' where nd: "note_daily cap ip today t = (ok, t')" by (cases "note_daily cap ip today t")
  note eff = note_daily_effect [OF assms(1) Cons.prems(1) nd]
  let ?past = "past @ (if ok then [(ip, today)] else [])"
  have le: "day \<le> today" using Cons.prems(2) c by simp
  have used: "count_list past (i, today) \<le> used_on t i today" for i
  proof (cases "today = day")
    case False
    then have "(i, today) \<notin> set past" using Cons.prems(3) le by auto
    then show ?thesis by (simp add: count_list_0_iff)
  qed (use Cons.prems(4) in simp)
  have "count_list ?past (i, today) \<le> used_on t' i today" for i
    using used [of i] eff(3) eff(4) [of i] by (cases "i = ip") auto
  moreover have "count_list ?past y \<le> unat cap" for y
    using Cons.prems(5) [of y] used [of ip] eff(2) by auto
  moreover have "\<forall>y\<in>set ?past. snd y \<le> today" using Cons.prems(3) le by force
  moreover have "sorted (today # map snd calls)" using Cons.prems(2) c by simp
  ultimately have "count_list (?past @ granted cap t' calls) x \<le> unat cap" by (intro Cons.IH [OF eff(1)])
  then show ?case using c nd by simp
qed simp

lemma daily_run_uncapped: "i < length calls \<Longrightarrow> daily_run 0 t calls ! i"
proof (induction calls arbitrary: i)
  case (Cons c calls)
  then show ?case by (cases c; cases i) (simp_all add: note_daily_def)
qed simp

subsection \<open>Properties\<close>

text \<open>C30: Over every history of event streams the live streams stay within the server-wide and the
  per-address cap (where the cap is not 0), and no slot leaks: the next stream from an address is
  refused only when one of the caps is reached by streams that are still live.\<close>

theorem sse_caps_exact:
  "case sse_run c evs of (l, live) \<Rightarrow>
     (sse_max_concurrent c = 0 \<or> length live \<le> sse_max_concurrent c) \<and>
     (sse_max_per_ip c = 0 \<or> streams_of ip live \<le> sse_max_per_ip c) \<and>
     (fst (try_acquire_sse ip l) \<noteq> None \<longleftrightarrow>
        (sse_max_concurrent c = 0 \<or> length live < sse_max_concurrent c) \<and>
        (sse_max_per_ip c = 0 \<or> streams_of ip live < sse_max_per_ip c))"
proof -
  obtain l live where run: "sse_run c evs = (l, live)" by (cases "sse_run c evs")
  have inv: "sse_inv c (l, live)" using sse_inv_run [of c evs] run by simp
  have "sse_max_concurrent c = 0 \<or> length live \<le> sse_max_concurrent c"
    using inv by (auto simp: sse_inv_def global_ok_def split: if_splits)
  moreover have "sse_max_per_ip c = 0 \<or> streams_of ip live \<le> sse_max_per_ip c"
    using inv by (auto simp: sse_inv_def per_ip_ok_def)
  ultimately show ?thesis using run sse_open_granted_iff [OF inv] by simp
qed

text \<open>C29: The daily quota, for calls whose days do not go backwards. A cap of 0 grants every call. With any
  other cap, whatever the table holds from before, no address is granted more than \<open>cap\<close> calls on one
  day; and from the empty table the quota is exact: the \<open>i\<close>-th call is granted iff fewer than \<open>cap\<close>
  earlier calls came from the same address on the same day, so the clean-up of a large table never
  gives a client a fresh budget and never costs one. The days are readings of the wall clock: when it is
  set back across midnight a new stretch begins, and with it a new budget for the day gone back to.\<close>

theorem daily_quota_exact:
  assumes "sorted (map snd calls)"
  shows "(cap = 0 \<longrightarrow> (\<forall>i<length calls. daily_run cap t calls ! i)) \<and>
    (cap \<noteq> 0 \<longrightarrow>
      (hm_invar t \<longrightarrow> count_list (granted cap t calls) (ip, d) \<le> unat cap) \<and>
      (\<forall>i<length calls. daily_run cap hm_empty calls ! i \<longleftrightarrow>
         count_list (take i calls) (calls ! i) < unat cap))"
proof (cases calls)
  case (Cons c cs)
  have "daily_inv cap [] (snd c) hm_empty" by (simp add: daily_inv_def used_on_def hm_laws)
  moreover have s: "sorted (snd c # map snd calls)" using assms Cons by simp
  ultimately have "daily_run cap hm_empty calls ! i \<longleftrightarrow> count_list (take i calls) (calls ! i) < unat cap"
    if "cap \<noteq> 0" "i < length calls" for i
    using daily_run_nth [OF that(1), of "[]"] that(2) by simp
  moreover have "count_list (granted cap t calls) (ip, d) \<le> unat cap" if "cap \<noteq> 0" "hm_invar t"
    using granted_at_most [OF that s, of "[]"] by simp
  ultimately show ?thesis using daily_run_uncapped by blast
qed simp

theorem daily_quota_exact_witness:
  "\<not> daily_run 2 hm_empty [(V4 1, 7), (V4 1, 7), (V4 2, 7), (V4 1, 7), (V4 1, 8)] ! 3 \<and>
   count_list (granted 2 hm_empty [(V4 1, 7), (V4 1, 7), (V4 2, 7), (V4 1, 7), (V4 1, 8)]) (V4 1, 7) \<le> 2"
  using daily_quota_exact [of "[(V4 1, 7), (V4 1, 7), (V4 2, 7), (V4 1, 7), (V4 1, 8)]" 2 hm_empty "V4 1" 7]
  by (auto simp del: granted_simps daily_run.simps)

end
