(* ===== verification/Push_Worker.thy ===== *)
theory Push_Worker
  imports World Memory_Store_Correct
begin

text \<open>
  \<open>src/push.rs\<close>: what a notification carries, the two senders, and the worker that delivers an event to
  every subscription of its mailbox and prunes the dead ones. The crates \<open>web-push\<close> and \<open>a2\<close>, JSON
  encoding and the network are parameters (\<open>web_push_lib\<close>, \<open>apns_lib\<close>); the event bus is the sequence
  of what \<open>recv\<close> returns. The senders that a configuration starts are those of \<open>run\<close> in \<open>src/lib.rs\<close>.
\<close>

subsection \<open>Payload and outcome\<close>

datatype push_outcome = Delivered | Gone | TransientFailure

record push_payload =
  pp_address :: string
  pp_id :: uuid
  pp_from :: string
  pp_subject :: "string option"
  pp_code :: "string option"

text \<open>The em dash of the alert text is three bytes of UTF-8.\<close>

definition EM_DASH :: string where
  "EM_DASH = [CHR 0xE2, CHR 0x80, CHR 0x94]"

definition alert :: "push_payload \<Rightarrow> string \<times> string" where
  "alert p =
     (let title = (case pp_subject p of
            Some s \<Rightarrow> if trim s \<noteq> [] then s else ''New mail''
          | None \<Rightarrow> ''New mail'');
          body = (case pp_code p of
            Some code \<Rightarrow> ''Code '' @ code @ '' '' @ EM_DASH @ '' '' @ pp_from p
          | None \<Rightarrow> ''From '' @ pp_from p)
      in (title, body))"

subsection \<open>Senders\<close>

type_synonym push_sender = "push_subscription \<Rightarrow> push_payload \<Rightarrow> push_outcome"

record senders =
  sn_webpush :: "push_sender option"
  sn_apns :: "push_sender option"

definition senders_default :: senders where
  "senders_default = \<lparr>sn_webpush = None, sn_apns = None\<rparr>"

fun for_kind :: "senders \<Rightarrow> subscription_kind \<Rightarrow> push_sender option" where
  "for_kind s WebPush = sn_webpush s"
| "for_kind s Apns = sn_apns s"

definition senders_is_empty :: "senders \<Rightarrow> bool" where
  "senders_is_empty s \<longleftrightarrow> sn_webpush s = None \<and> sn_apns s = None"

datatype web_push_error = EndpointNotFound | EndpointNotValid | OtherWebPushError string

text \<open>\<open>'k\<close> is a parsed VAPID key, \<open>'g\<close> a signature, \<open>'m\<close> an encrypted message. The subscription
  information is the endpoint with its two keys.\<close>

record ('k, 'g, 'm) web_push_lib =
  wl_from_base64 :: "string \<Rightarrow> 'k option"
  wl_to_json :: "push_payload \<Rightarrow> bytes option"
  wl_sign :: "'k \<Rightarrow> string \<times> string \<times> string \<Rightarrow> string \<Rightarrow> 'g option"
  wl_build :: "string \<times> string \<times> string \<Rightarrow> 'g \<Rightarrow> bytes \<Rightarrow> 'm option"
  wl_send :: "'m \<Rightarrow> (unit, web_push_error) result"

record 'k web_push_sender =
  ws_signature_builder :: 'k
  ws_subject :: string

definition web_push_from_config ::
  "('k, 'g, 'm) web_push_lib \<Rightarrow> config \<Rightarrow> 'k web_push_sender option" where
  "web_push_from_config lib c =
     (case vapid_private_key c of
        None \<Rightarrow> None
      | Some private_key \<Rightarrow>
          (case wl_from_base64 lib private_key of
             None \<Rightarrow> None
           | Some b \<Rightarrow> Some \<lparr>ws_signature_builder = b, ws_subject = vapid_subject c\<rparr>))"

definition web_push_send ::
  "('k, 'g, 'm) web_push_lib \<Rightarrow> 'k web_push_sender \<Rightarrow> push_subscription \<Rightarrow> push_payload \<Rightarrow> push_outcome" where
  "web_push_send lib self sub payload =
     (case wl_to_json lib payload of
        None \<Rightarrow> TransientFailure
      | Some json \<Rightarrow>
          (let sub_info = (ps_endpoint sub, ps_p256dh sub, ps_auth sub) in
           case wl_sign lib (ws_signature_builder self) sub_info (ws_subject self) of
             None \<Rightarrow> Gone
           | Some signature \<Rightarrow>
               (case wl_build lib sub_info signature json of
                  None \<Rightarrow> Gone
                | Some message \<Rightarrow>
                    (case wl_send lib message of
                       Ok _ \<Rightarrow> Delivered
                     | Err EndpointNotFound \<Rightarrow> Gone
                     | Err EndpointNotValid \<Rightarrow> Gone
                     | Err (OtherWebPushError _) \<Rightarrow> TransientFailure))))"

datatype apns_endpoint = Sandbox | Production

datatype apns_reason = Unregistered | BadDeviceToken | OtherReason string

datatype apns_error = ResponseError "apns_reason option" | OtherApnsError string

datatype push_type = AlertPush | BackgroundPush

record notification_options =
  no_apns_topic :: "string option"
  no_apns_push_type :: "push_type option"
  no_apns_collapse_id :: "string option"

text \<open>\<open>'c\<close> is a connected client, \<open>'p\<close> a notification payload under construction. \<open>apl_collapse_id\<close> is
  \<open>CollapseId::new(..).ok()\<close>, \<open>apl_uuid\<close> is \<open>Uuid::to_string\<close>.\<close>

record ('c, 'p) apns_lib =
  apl_token :: "string \<Rightarrow> string \<Rightarrow> string \<Rightarrow> apns_endpoint \<Rightarrow> 'c option"
  apl_uuid :: "uuid \<Rightarrow> string"
  apl_collapse_id :: "string \<Rightarrow> string option"
  apl_build :: "string \<Rightarrow> string \<Rightarrow> string \<Rightarrow> string \<Rightarrow> notification_options \<Rightarrow> 'p"
  apl_add_custom_data :: "'p \<Rightarrow> string \<Rightarrow> push_payload \<Rightarrow> 'p option"
  apl_send :: "'c \<Rightarrow> 'p \<Rightarrow> (unit, apns_error) result"

record 'c apns_sender =
  as_client :: 'c
  as_topic :: string

definition apns_from_config :: "('c, 'p) apns_lib \<Rightarrow> config \<Rightarrow> 'c apns_sender option" where
  "apns_from_config lib c =
     (case (apns_private_key c, apns_key_id c, apns_team_id c, apns_topic c) of
        (Some key, Some key_id, Some team_id, Some topic) \<Rightarrow>
          (case apl_token lib key key_id team_id (if apns_sandbox c then Sandbox else Production) of
             None \<Rightarrow> None
           | Some client \<Rightarrow> Some \<lparr>as_client = client, as_topic = topic\<rparr>)
      | _ \<Rightarrow> None)"

definition apns_notification_options :: "('c, 'p) apns_lib \<Rightarrow> string \<Rightarrow> string \<Rightarrow> notification_options" where
  "apns_notification_options lib topic collapse_id =
     \<lparr>no_apns_topic = Some topic, no_apns_push_type = Some AlertPush,
      no_apns_collapse_id = apl_collapse_id lib collapse_id\<rparr>"

definition apns_send ::
  "('c, 'p) apns_lib \<Rightarrow> 'c apns_sender \<Rightarrow> push_subscription \<Rightarrow> push_payload \<Rightarrow> push_outcome" where
  "apns_send lib self sub payload =
     (let (title, body) = alert payload;
          options = apns_notification_options lib (as_topic self) (apl_uuid lib (pp_id payload));
          built = apl_build lib title body ''default'' (ps_endpoint sub) options
      in case apl_add_custom_data lib built ''anonymail'' payload of
           None \<Rightarrow> TransientFailure
         | Some apns_payload \<Rightarrow>
             (case apl_send lib (as_client self) apns_payload of
                Ok _ \<Rightarrow> Delivered
              | Err (ResponseError reason) \<Rightarrow>
                  if reason = Some Unregistered \<or> reason = Some BadDeviceToken then Gone else TransientFailure
              | Err (OtherApnsError _) \<Rightarrow> TransientFailure))"

text \<open>The senders that \<open>run\<close> of \<open>src/lib.rs\<close> builds; the worker is spawned unless there is none.\<close>

definition start_senders ::
  "('k, 'g, 'm) web_push_lib \<Rightarrow> ('c, 'p) apns_lib \<Rightarrow> config \<Rightarrow> senders" where
  "start_senders wl al c =
     \<lparr>sn_webpush = (if push_configured c then map_option (web_push_send wl) (web_push_from_config wl c) else None),
      sn_apns = (if apns_configured c then map_option (apns_send al) (apns_from_config al c) else None)\<rparr>"

subsection \<open>The worker\<close>

definition payload_of :: "mail_event \<Rightarrow> push_payload" where
  "payload_of event =
     \<lparr>pp_address = me_address event, pp_id = me_id event, pp_from = me_mail_from event,
      pp_subject = me_subject event, pp_code = me_code event\<rparr>"

text \<open>The sends of one event, one per subscription whose kind has a sender.\<close>

definition send_all :: "senders \<Rightarrow> push_payload \<Rightarrow> push_subscription list \<Rightarrow> (push_subscription \<times> push_outcome) list" where
  "send_all ss payload subs =
     List.map_filter (\<lambda>sub. map_option (\<lambda>send. (sub, send sub payload)) (for_kind ss (ps_kind sub))) subs"

fun prune_gone :: "'s store_ops \<Rightarrow> (push_subscription \<times> push_outcome) list \<Rightarrow> 's \<Rightarrow> 's" where
  "prune_gone ops [] s = s"
| "prune_gone ops ((sub, outcome) # results) s =
     prune_gone ops results
       (if outcome = Gone then snd (st_delete_subscription ops (ps_mailbox_address sub) (ps_endpoint sub) s) else s)"

definition deliver :: "'s store_ops \<Rightarrow> senders \<Rightarrow> mail_event \<Rightarrow> 's \<Rightarrow> 's" where
  "deliver ops ss event s =
     (case st_list_subscriptions ops (me_address event) s of
        Err _ \<Rightarrow> s
      | Ok [] \<Rightarrow> s
      | Ok subs \<Rightarrow> prune_gone ops (send_all ss (payload_of event) subs) s)"

text \<open>What \<open>recv\<close> of the broadcast channel returns. The senders may answer differently at every event,
  and other tasks may use the store between two events: \<open>between\<close> is their effect.\<close>

datatype recv = Received mail_event | Lagged nat | Closed

fun push_run :: "'s store_ops \<Rightarrow> (nat \<Rightarrow> senders) \<Rightarrow> (nat \<Rightarrow> 's \<Rightarrow> 's) \<Rightarrow> nat \<Rightarrow> recv list \<Rightarrow> 's \<Rightarrow> 's" where
  "push_run ops ss between n [] s = s"
| "push_run ops ss between n (Received event # rx) s =
     push_run ops ss between (Suc n) rx (deliver ops (ss n) event (between n s))"
| "push_run ops ss between n (Lagged skipped # rx) s = push_run ops ss between (Suc n) rx (between n s)"
| "push_run ops ss between n (Closed # rx) s = s"

subsection \<open>What a delivery does to the subscriptions\<close>

text \<open>The push service reported the subscription as gone.\<close>

definition reported_gone :: "senders \<Rightarrow> mail_event \<Rightarrow> push_subscription \<Rightarrow> bool" where
  "reported_gone ss event sub \<longleftrightarrow>
     (case for_kind ss (ps_kind sub) of None \<Rightarrow> False | Some send \<Rightarrow> send sub (payload_of event) = Gone)"

lemma send_all_Gone:
  "{sub. (sub, Gone) \<in> set (send_all ss (payload_of event) subs)} = {sub \<in> set subs. reported_gone ss event sub}"
  by (auto simp: send_all_def List.map_filter_def reported_gone_def image_iff split: option.splits)

lemma send_all_subset: "(sub, oc) \<in> set (send_all ss p subs) \<Longrightarrow> sub \<in> set subs"
  by (auto simp: send_all_def List.map_filter_def split: option.splits)

text \<open>The view without the subscriptions of \<open>a\<close> whose endpoint is in \<open>E\<close>.\<close>

definition without_subs :: "string \<Rightarrow> string set \<Rightarrow> sview \<Rightarrow> sview" where
  "without_subs a E v = v\<lparr>v_sub := (v_sub v)(a := (\<lambda>ep. if ep \<in> E then None else v_sub v a ep))\<rparr>"

lemma without_subs_empty [simp]: "without_subs a {} v = v"
  by (simp add: without_subs_def)

lemma without_subs_insert:
  "without_subs a E (without_subs a {ep} v) = without_subs a (insert ep E) v"
  by (auto simp: without_subs_def fun_eq_iff intro!: sview.equality)

lemma spec_delete_subscription_without:
  "snd (spec_delete_subscription a ep v) = without_subs a {ep} v"
  unfolding without_subs_def
  by (auto simp: spec_delete_subscription_def fun_eq_iff split: option.splits intro!: sview.equality)

context store_contract
begin

lemma prune_gone_view:
  assumes "sinv s" reliable "\<forall>(sub, oc) \<in> set rs. ps_mailbox_address sub = a"
  shows "sinv (prune_gone ops rs s) \<and>
    view (prune_gone ops rs s) = without_subs a {ps_endpoint sub |sub. (sub, Gone) \<in> set rs} (view s)"
  using assms(1,3)
proof (induction rs arbitrary: s)
  case (Cons r rs)
  obtain sub oc where r: "r = (sub, oc)" by (cases r)
  show ?case
  proof (cases "oc = Gone")
    case True
    let ?s = "snd (st_delete_subscription ops a (ps_endpoint sub) s)"
    have "sinv ?s" "view ?s = without_subs a {ps_endpoint sub} (view s)"
      using op_refines_exact [OF delete_subscription [OF Cons.prems(1)] assms(2)]
      unfolding spec_delete_subscription_without by blast+
    moreover have "prune_gone ops (r # rs) s = prune_gone ops rs ?s"
      using True r Cons.prems(2) by simp
    moreover have "{ps_endpoint sub |sub. (sub, Gone) \<in> set (r # rs)} =
        insert (ps_endpoint sub) {ps_endpoint sub |sub. (sub, Gone) \<in> set rs}"
      using True r by auto
    ultimately show ?thesis
      using Cons.IH [of ?s] Cons.prems(2) by (auto simp: without_subs_insert)
  next
    case False
    then have "{ps_endpoint sub |sub. (sub, Gone) \<in> set (r # rs)} = {ps_endpoint sub |sub. (sub, Gone) \<in> set rs}"
      using r by auto
    with False Cons.IH [OF Cons.prems(1)] Cons.prems(2) r show ?thesis by simp
  qed
qed simp

lemma deliver_view:
  assumes "sinv s" reliable
  shows "sinv (deliver ops ss event s) \<and> view (deliver ops ss event s) = (view s)\<lparr>v_sub :=
    (v_sub (view s))(me_address event := (\<lambda>ep. case v_sub (view s) (me_address event) ep of
       None \<Rightarrow> None | Some sub \<Rightarrow> if reported_gone ss event sub then None else Some sub))\<rparr>"
proof -
  let ?a = "me_address event"
  obtain subs where subs: "st_list_subscriptions ops ?a s = Ok subs" "set subs = ran (v_sub (view s) ?a)"
    using list_subscriptions [OF assms(1), of ?a] assms(2) by blast
  have key: "ps_mailbox_address sub = ?a \<and> v_sub (view s) ?a (ps_endpoint sub) = Some sub" if "sub \<in> set subs" for sub
    using that sub_keys [OF assms(1)] unfolding subs(2) ran_def by blast
  have run: "deliver ops ss event s = prune_gone ops (send_all ss (payload_of event) subs) s"
    using subs(1) by (cases subs) (simp_all add: deliver_def send_all_def List.map_filter_def)
  have gone: "ep \<in> {ps_endpoint sub |sub. (sub, Gone) \<in> set (send_all ss (payload_of event) subs)} \<longleftrightarrow>
      (\<exists>sub. v_sub (view s) ?a ep = Some sub \<and> reported_gone ss event sub)" for ep
  proof -
    have "(sub, Gone) \<in> set (send_all ss (payload_of event) subs) \<longleftrightarrow> sub \<in> set subs \<and> reported_gone ss event sub" for sub
      using send_all_Gone [of ss event subs] by blast
    moreover have "sub \<in> set subs \<and> ps_endpoint sub = ep \<longleftrightarrow> v_sub (view s) ?a ep = Some sub" for sub
      using key [of sub] sub_keys [OF assms(1), of ?a ep sub] subs(2) by (auto simp: ran_def)
    ultimately show ?thesis unfolding mem_Collect_eq by metis
  qed
  have "\<forall>(sub, oc) \<in> set (send_all ss (payload_of event) subs). ps_mailbox_address sub = ?a"
    using send_all_subset key by fast
  note pruned = prune_gone_view [OF assms this]
  have "without_subs ?a {ps_endpoint sub |sub. (sub, Gone) \<in> set (send_all ss (payload_of event) subs)} (view s) =
      (view s)\<lparr>v_sub := (v_sub (view s))(?a := (\<lambda>ep. case v_sub (view s) ?a ep of
        None \<Rightarrow> None | Some sub \<Rightarrow> if reported_gone ss event sub then None else Some sub))\<rparr>"
    unfolding without_subs_def gone
    by (auto simp: fun_eq_iff split: option.splits intro!: sview.equality)
  with pruned run show ?thesis by simp
qed

end

text \<open>C31: The push worker prunes exactly the dead subscriptions. Delivering an event on a reliable backend
  removes, from the mailbox of the event, the subscriptions for which the sender of their kind
  answered \<open>Gone\<close>, and changes nothing else: transient failures, kinds without a sender, other
  mailboxes, mail and claims are left alone.\<close>

theorem push_prunes_gone:
  assumes "store_contract ops q sinv view True T" "sinv s"
  shows "sinv (deliver ops ss event s) \<and>
    view (deliver ops ss event s) = (view s)\<lparr>v_sub :=
    (v_sub (view s))(me_address event := (\<lambda>ep. case v_sub (view s) (me_address event) ep of
       None \<Rightarrow> None | Some sub \<Rightarrow> if reported_gone ss event sub then None else Some sub))\<rparr>"
  by (rule store_contract.deliver_view [OF assms TrueI])

definition push_sub :: "subscription_kind \<Rightarrow> string \<Rightarrow> push_subscription" where
  "push_sub kind endpoint = \<lparr>ps_id = 1, ps_mailbox_address = ''u@d'', ps_kind = kind, ps_endpoint = endpoint,
     ps_p256dh = [], ps_auth = [], ps_created_at = 0\<rparr>"

definition push_store :: inner where
  "push_store = inner_default\<lparr>subscriptions := [push_sub WebPush ''https://gone'', push_sub Apns ''token'']\<rparr>"

definition gone_senders :: senders where
  "gone_senders = \<lparr>sn_webpush = Some (\<lambda>_ _. Gone), sn_apns = Some (\<lambda>_ _. TransientFailure)\<rparr>"

definition mail_1 :: mail_event where
  "mail_1 = \<lparr>me_address = ''u@d'', me_id = 9, me_mail_from = ''x@y'', me_subject = None, me_received_at = 0,
     me_has_attachments = False, me_code = None\<rparr>"

theorem push_prunes_gone_witness:
  "v_sub (mem_view push_store) ''u@d'' ''https://gone'' = Some (push_sub WebPush ''https://gone'') \<and>
   v_sub (mem_view (deliver (memory_ops UNLIMITED) gone_senders mail_1 push_store)) ''u@d'' ''https://gone'' = None \<and>
   v_sub (mem_view (deliver (memory_ops UNLIMITED) gone_senders mail_1 push_store)) ''u@d'' ''token'' =
     Some (push_sub Apns ''token'')"
proof -
  have "mem_inv push_store"
    by (simp add: push_store_def mem_inv_def inner_default_def hm_laws push_sub_def sub_key_def)
  note pruned = conjunct2 [OF push_prunes_gone [OF mem.store_contract_axioms this, of UNLIMITED gone_senders mail_1]]
  have subs: "v_sub (mem_view push_store) ''u@d'' ''https://gone'' = Some (push_sub WebPush ''https://gone'')"
    "v_sub (mem_view push_store) ''u@d'' ''token'' = Some (push_sub Apns ''token'')"
    by (simp_all add: push_store_def push_sub_def find_sub_def)
  have "reported_gone gone_senders mail_1 (push_sub WebPush ''https://gone'')"
    "\<not> reported_gone gone_senders mail_1 (push_sub Apns ''token'')"
    by (simp_all add: reported_gone_def gone_senders_def push_sub_def)
  with subs show ?thesis unfolding pruned by (simp add: mail_1_def)
qed

end
