(* ===== verification/Background.thy ===== *)
theory Background
  imports Custom_Domains Limits Memory_Store_Correct Push_Worker
begin

text \<open>
  The cleanup task (\<open>src/cleanup.rs\<close>) and the event stream of a mailbox (\<open>src/api/sse.rs\<close> over the bus of
  \<open>src/events.rs\<close>). The bus delivers to a subscriber what was published after it subscribed, or tells
  it how many events it missed.
\<close>

subsection \<open>Cleanup\<close>

definition DEVICE_IDLE_WINDOW :: duration where
  "DEVICE_IDLE_WINDOW = hours (180 * 24)"

text \<open>One turn of the loop. Failures are logged and the turn goes on.\<close>

definition cleanup_tick :: "'s store_ops \<Rightarrow> ('s, 'x) world_scheme \<Rightarrow> ('s, 'x) world_scheme" where
  "cleanup_tick ops w =
     (let (now, w1) = utc_now w;
          w2 = w1\<lparr>w_store := snd (st_purge_expired ops now (w_store w1))\<rparr>;
          (now', w3) = utc_now w2;
          w4 = w3\<lparr>w_store := snd (st_prune_attested_devices ops (now' - DEVICE_IDLE_WINDOW) (w_store w3))\<rparr>
      in w4\<lparr>w_store := snd (st_run_maintenance ops (w_store w4))\<rparr>)"

subsection \<open>Event streams\<close>

text \<open>\<open>filter_map\<close> over the broadcast stream: events of the address pass, everything else is dropped.\<close>

definition sse_item :: "string \<Rightarrow> recv \<Rightarrow> mail_event option" where
  "sse_item address res =
     (case res of Received ev \<Rightarrow> if me_address ev = address then Some ev else None | _ \<Rightarrow> None)"

definition sse_stream :: "string \<Rightarrow> recv list \<Rightarrow> mail_event list" where
  "sse_stream address rx = List.map_filter (sse_item (to_ascii_lowercase address)) rx"

text \<open>\<open>events\<close>: the slot is taken before the subscription; without one the answer is 429.\<close>

definition sse_open ::
  "config \<Rightarrow> string \<Rightarrow> ip_addr \<Rightarrow> headers \<Rightarrow> runtime_limits \<Rightarrow> (string \<times> sse_guard, string) result \<times> runtime_limits" where
  "sse_open c address peer h l =
     (case try_acquire_sse (client_ip h peer (api_trust_proxy_headers c)) l of
        (None, l') \<Rightarrow> (Err ''too many concurrent event streams'', l')
      | (Some guard, l') \<Rightarrow> (Ok (to_ascii_lowercase address, guard), l'))"

subsection \<open>A turn of the cleanup task\<close>

context store_contract
begin

lemma cleanup_tick_view:
  assumes "sinv (w_store w)" reliable "T (w_clock w (w_ticks w))" "T (w_clock w (Suc (w_ticks w)) - DEVICE_IDLE_WINDOW)"
  shows "sinv (w_store (cleanup_tick ops w)) \<and>
    view (w_store (cleanup_tick ops w)) =
      snd (spec_prune_attested_devices (w_clock w (Suc (w_ticks w)) - DEVICE_IDLE_WINDOW)
        (snd (spec_purge_expired (w_clock w (w_ticks w)) (view (w_store w)))))"
proof -
  let ?now = "w_clock w (w_ticks w)" and ?now' = "w_clock w (Suc (w_ticks w)) - DEVICE_IDLE_WINDOW"
  let ?s1 = "snd (st_purge_expired ops ?now (w_store w))"
  let ?s2 = "snd (st_prune_attested_devices ops ?now' ?s1)"
  note 1 = op_refines_exact [OF purge_expired [OF assms(1)], OF conjI [OF assms(2,3)]]
  note 2 = op_refines_exact [OF prune_attested_devices [OF conjunct1 [OF 1]], OF conjI [OF assms(2,4)]]
  note 3 = run_maintenance [OF conjunct1 [OF 2]]
  have "w_store (cleanup_tick ops w) = snd (st_run_maintenance ops ?s2)"
    by (simp add: cleanup_tick_def utc_now_def Let_def)
  with 1 2 3 show ?thesis by simp
qed

end

text \<open>A turn of the cleanup task forgets exactly what is due. On a reliable backend, with \<open>t\<close> and \<open>t'\<close>
  the two readings of the clock it takes: a mailbox is gone with its mail and its subscriptions when
  its expiry is at or before \<open>t\<close>, and untouched with everything in it otherwise; a device is gone when it
  was last seen more than 180 days before \<open>t'\<close> and untouched otherwise; claims are untouched.\<close>

theorem cleanup_forgets_due:
  assumes "store_contract ops q sinv view True T" "sinv (w_store w)"
    and "T (w_clock w (w_ticks w))" "T (w_clock w (Suc (w_ticks w)) - DEVICE_IDLE_WINDOW)"
  shows "let v = view (w_store w); w' = cleanup_tick ops w; v' = view (w_store w');
      t = w_clock w (w_ticks w); t' = w_clock w (Suc (w_ticks w)) in
    sinv (w_store w') \<and>
    (\<forall>a mb. v_mailbox v a = Some mb \<longrightarrow>
       (if mb_expires_at mb \<le> t
        then v_mailbox v' a = None \<and> v_entry v' a = Map.empty \<and> v_sub v' a = Map.empty
        else v_mailbox v' a = Some mb \<and> v_entry v' a = v_entry v a \<and> v_sub v' a = v_sub v a)) \<and>
    (\<forall>k d. v_device v k = Some d \<longrightarrow>
       v_device v' k = (if ad_last_seen_at d < t' - seconds (180 * 24 * 3600) then None else Some d)) \<and>
    v_domain v' = v_domain v \<and> dom (v_mailbox v') \<subseteq> dom (v_mailbox v) \<and> dom (v_device v') \<subseteq> dom (v_device v)"
proof -
  note tick = store_contract.cleanup_tick_view [OF assms(1,2) TrueI assms(3,4)]
  show ?thesis
    unfolding Let_def conjunct2 [OF tick]
    using tick
    by (auto simp: spec_prune_attested_devices_def spec_purge_expired_def forget_mailboxes_def expired_mailboxes_def
        idle_devices_def DEVICE_IDLE_WINDOW_def hours_def dom_def split: if_splits)
qed

definition stale_world :: "inner world" where
  "stale_world = \<lparr>w_store = snd (mem_create_mailbox 0 ''u@d'' ''d'' 100 None None inner_default), w_events = [],
     w_clock = (\<lambda>n. 100 + int n), w_ticks = 0, w_uuids = of_nat, w_drawn = 0\<rparr>"

theorem cleanup_forgets_due_witness:
  "v_mailbox (mem_view (w_store stale_world)) ''u@d'' \<noteq> None \<and>
   v_mailbox (mem_view (w_store (cleanup_tick (memory_ops UNLIMITED) stale_world))) ''u@d'' = None"
proof -
  have inv: "mem_inv (w_store stale_world)"
    using mem.create_mailbox [OF mem_inv_default, of UNLIMITED 0 "''u@d''" "''d''" 100]
    by (simp add: stale_world_def op_refines_def memory_ops_def)
  obtain mb where mb: "v_mailbox (mem_view (w_store stale_world)) ''u@d'' = Some mb" "mb_expires_at mb = 100"
    by (simp add: stale_world_def mem_create_mailbox_def inner_default_def hm_laws mem_view_def
        hm_contains_key_get Let_def)
  have "w_clock stale_world (w_ticks stale_world) = 100" by (simp add: stale_world_def)
  with cleanup_forgets_due [OF mem.store_contract_axioms inv TrueI TrueI, of UNLIMITED, unfolded Let_def] mb show ?thesis
    by (metis option.distinct(1) order_refl)
qed

end
