(* ===== verification/Sql_Engine.thy ===== *)
theory Sql_Engine
  imports Store_Trait
begin

text \<open>
  The part of SQL that \<open>src/store/sqlite.rs\<close> and \<open>src/store/postgres.rs\<close> use, over the tables of
  \<open>migrations/\<close>. A table is a list of rows; a statement is a function on the database. Columns that
  hold an identifier or a timestamp have a type variable (\<open>'i\<close>, \<open>'t\<close>): SQLite stores both as TEXT,
  PostgreSQL as UUID and TIMESTAMPTZ. How \<open>sqlx\<close> binds and reads such a column is a \<open>codec\<close>, a
  parameter of the stores. What SQL promises is modelled: PRIMARY KEY, UNIQUE and FOREIGN KEY
  constraints of an INSERT, ON DELETE CASCADE of a DELETE, \<open>rows_affected\<close>, ORDER BY, LIMIT, and a
  transaction that is rolled back when a statement in it fails. A method runs alone: interleavings
  of two methods inside the database are not modelled.
\<close>

subsection \<open>Column codecs\<close>

record 't time_codec =
  bind_time :: "datetime \<Rightarrow> 't"
  read_time :: "'t \<Rightarrow> datetime option"

record ('t, 'i) codec = "'t time_codec" +
  bind_id :: "uuid \<Rightarrow> 'i"
  read_id :: "'i \<Rightarrow> uuid option"

subsection \<open>Tables\<close>

record 't mailbox_rec =
  mr_address :: string
  mr_domain :: string
  mr_created_at :: 't
  mr_expires_at :: 't
  mr_owner_token_hash :: "string option"
  mr_creator_device_hash :: "string option"

record ('t, 'i) message_rec =
  mg_id :: 'i
  mg_mailbox_address :: string
  mg_mail_from :: string
  mg_subject :: "string option"
  mg_message_date :: "'t option"
  mg_text_body :: "string option"
  mg_html_body :: "string option"
  mg_raw_size :: int
  mg_received_at :: 't
  mg_seen :: bool
  mg_raw_content :: "bytes option"

record 'i attachment_rec =
  ac_id :: 'i
  ac_message_id :: 'i
  ac_filename :: "string option"
  ac_content_type :: string
  ac_size :: int
  ac_content :: bytes

record ('t, 'i) subscription_rec =
  sr_id :: 'i
  sr_mailbox_address :: string
  sr_kind :: string
  sr_endpoint :: string
  sr_p256dh :: string
  sr_auth :: string
  sr_created_at :: 't

record 't domain_rec =
  dr_domain :: string
  dr_claim_token_hash :: string
  dr_txt_token :: string
  dr_status :: string
  dr_created_at :: 't
  dr_verified_at :: "'t option"
  dr_last_checked_at :: "'t option"

record 't device_rec =
  vr_key_id :: string
  vr_public_key :: bytes
  vr_counter :: int
  vr_created_at :: 't
  vr_last_seen_at :: 't

record ('t, 'i) database =
  t_mailboxes :: "'t mailbox_rec list"
  t_messages :: "('t, 'i) message_rec list"
  t_attachments :: "'i attachment_rec list"
  t_push_subscriptions :: "('t, 'i) subscription_rec list"
  t_custom_domains :: "'t domain_rec list"
  t_attested_devices :: "'t device_rec list"

definition empty_database :: "('t, 'i) database" where
  "empty_database = \<lparr>t_mailboxes = [], t_messages = [], t_attachments = [], t_push_subscriptions = [],
     t_custom_domains = [], t_attested_devices = []\<rparr>"

subsection \<open>Queries\<close>

definition fetch_optional :: "'r list \<Rightarrow> 'r option" where
  "fetch_optional rows = (case rows of [] \<Rightarrow> None | r # _ \<Rightarrow> Some r)"

definition sql_exists :: "('r \<Rightarrow> bool) \<Rightarrow> 'r list \<Rightarrow> bool" where
  "sql_exists P rows \<longleftrightarrow> filter P rows \<noteq> []"

definition sql_count :: "('r \<Rightarrow> bool) \<Rightarrow> 'r list \<Rightarrow> int" where
  "sql_count P rows = int (length (filter P rows))"

definition order_by :: "('r \<Rightarrow> 'k::linorder) \<Rightarrow> 'r list \<Rightarrow> 'r list" where
  "order_by k rows = sort_key k rows"

definition order_by_desc :: "('r \<Rightarrow> 'k::linorder) \<Rightarrow> 'r list \<Rightarrow> 'r list" where
  "order_by_desc k rows = rev (sort_key k rows)"

text \<open>\<open>(received_at, id)\<close> as a row value.\<close>

definition message_key :: "('t, 'i) message_rec \<Rightarrow> 't \<times> 'i" where
  "message_key m = (mg_received_at m, mg_id m)"

text \<open>\<open>SUM(raw_size) OVER (ORDER BY received_at DESC, id DESC)\<close>: the rows from the newest down to
  this one.\<close>

definition running_size ::
  "('t::linorder, 'i::linorder) message_rec list \<Rightarrow> ('t, 'i) message_rec \<Rightarrow> int" where
  "running_size rows m = sum_list (map mg_raw_size (filter (\<lambda>r. message_key m \<le> message_key r) rows))"

subsection \<open>Statements\<close>

type_synonym ('s, 'a) stmt = "'s \<Rightarrow> ('a, store_error) result \<times> 's"

definition sql_return :: "'a \<Rightarrow> ('s, 'a) stmt" where
  "sql_return x s = (Ok x, s)"

definition sql_then :: "('s, 'a) stmt \<Rightarrow> ('a \<Rightarrow> ('s, 'b) stmt) \<Rightarrow> ('s, 'b) stmt" where
  "sql_then m k s = (case m s of (Ok x, s') \<Rightarrow> k x s' | (Err e, s') \<Rightarrow> (Err e, s'))"

definition sql_tx :: "('s, 'a) stmt \<Rightarrow> ('s, 'a) stmt" where
  "sql_tx m s = (case m s of (Ok x, s') \<Rightarrow> (Ok x, s') | (Err e, s') \<Rightarrow> (Err e, s))"

definition sql_update :: "('r \<Rightarrow> bool) \<Rightarrow> ('r \<Rightarrow> 'r) \<Rightarrow> 'r list \<Rightarrow> nat \<times> 'r list" where
  "sql_update P f rows = (length (filter P rows), map (\<lambda>r. if P r then f r else r) rows)"

definition sql_delete :: "('r \<Rightarrow> bool) \<Rightarrow> 'r list \<Rightarrow> nat \<times> 'r list" where
  "sql_delete P rows = (length (filter P rows), filter (\<lambda>r. \<not> P r) rows)"

definition delete_messages ::
  "(('t, 'i) message_rec \<Rightarrow> bool) \<Rightarrow> ('t, 'i) database \<Rightarrow> nat \<times> ('t, 'i) database" where
  "delete_messages P s =
     (let gone = mg_id ` set (filter P (t_messages s));
          (n, kept) = sql_delete P (t_messages s)
      in (n, s\<lparr>t_messages := kept,
               t_attachments := filter (\<lambda>x. ac_message_id x \<notin> gone) (t_attachments s)\<rparr>))"

definition delete_mailboxes ::
  "('t mailbox_rec \<Rightarrow> bool) \<Rightarrow> ('t, 'i) database \<Rightarrow> nat \<times> ('t, 'i) database" where
  "delete_mailboxes P s =
     (let gone = mr_address ` set (filter P (t_mailboxes s));
          (n, kept) = sql_delete P (t_mailboxes s);
          s1 = snd (delete_messages (\<lambda>m. mg_mailbox_address m \<in> gone) s)
      in (n, s1\<lparr>t_mailboxes := kept,
                t_push_subscriptions :=
                  filter (\<lambda>p. sr_mailbox_address p \<notin> gone) (t_push_subscriptions s1)\<rparr>))"

definition insert_mailbox :: "'t mailbox_rec \<Rightarrow> (('t, 'i) database, unit) stmt" where
  "insert_mailbox row s =
     (if mr_address row \<in> mr_address ` set (t_mailboxes s)
      then (Err (UniqueViolation ''mailboxes.address''), s)
      else (Ok (), s\<lparr>t_mailboxes := t_mailboxes s @ [row]\<rparr>))"

definition insert_message :: "('t, 'i) message_rec \<Rightarrow> (('t, 'i) database, unit) stmt" where
  "insert_message row s =
     (if mg_id row \<in> mg_id ` set (t_messages s) then (Err (UniqueViolation ''messages.id''), s)
      else if mg_mailbox_address row \<notin> mr_address ` set (t_mailboxes s)
      then (Err (ForeignKeyViolation ''messages.mailbox_address''), s)
      else (Ok (), s\<lparr>t_messages := t_messages s @ [row]\<rparr>))"

definition insert_attachment :: "'i attachment_rec \<Rightarrow> (('t, 'i) database, unit) stmt" where
  "insert_attachment row s =
     (if ac_id row \<in> ac_id ` set (t_attachments s) then (Err (UniqueViolation ''attachments.id''), s)
      else if ac_message_id row \<notin> mg_id ` set (t_messages s)
      then (Err (ForeignKeyViolation ''attachments.message_id''), s)
      else (Ok (), s\<lparr>t_attachments := t_attachments s @ [row]\<rparr>))"

definition sr_key :: "('t, 'i) subscription_rec \<Rightarrow> string \<times> string" where
  "sr_key p = (sr_mailbox_address p, sr_endpoint p)"

definition insert_subscription :: "('t, 'i) subscription_rec \<Rightarrow> (('t, 'i) database, unit) stmt" where
  "insert_subscription row s =
     (if sr_id row \<in> sr_id ` set (t_push_subscriptions s)
      then (Err (UniqueViolation ''push_subscriptions.id''), s)
      else if sr_key row \<in> sr_key ` set (t_push_subscriptions s)
      then (Err (UniqueViolation ''push_subscriptions.mailbox_address, push_subscriptions.endpoint''), s)
      else if sr_mailbox_address row \<notin> mr_address ` set (t_mailboxes s)
      then (Err (ForeignKeyViolation ''push_subscriptions.mailbox_address''), s)
      else (Ok (), s\<lparr>t_push_subscriptions := t_push_subscriptions s @ [row]\<rparr>))"

definition insert_domain :: "'t domain_rec \<Rightarrow> (('t, 'i) database, unit) stmt" where
  "insert_domain row s =
     (if dr_domain row \<in> dr_domain ` set (t_custom_domains s)
      then (Err (UniqueViolation ''custom_domains.domain''), s)
      else (Ok (), s\<lparr>t_custom_domains := t_custom_domains s @ [row]\<rparr>))"

text \<open>\<open>INSERT ... ON CONFLICT (key_id) DO UPDATE ... RETURNING\<close>: the row as it is afterwards.\<close>

definition upsert_device ::
  "'t device_rec \<Rightarrow> ('t device_rec \<Rightarrow> 't device_rec) \<Rightarrow> ('t, 'i) database
   \<Rightarrow> 't device_rec \<times> ('t, 'i) database" where
  "upsert_device row f s =
     (case fetch_optional (filter (\<lambda>r. vr_key_id r = vr_key_id row) (t_attested_devices s)) of
        None \<Rightarrow> (row, s\<lparr>t_attested_devices := t_attested_devices s @ [row]\<rparr>)
      | Some old \<Rightarrow> (f old, s\<lparr>t_attested_devices :=
          snd (sql_update (\<lambda>r. vr_key_id r = vr_key_id row) f (t_attested_devices s))\<rparr>))"

text \<open>The same with \<open>ON CONFLICT (mailbox_address, endpoint)\<close>; the other constraints are checked only
  when a row is inserted.\<close>

definition upsert_subscription ::
  "('t, 'i) subscription_rec \<Rightarrow> (('t, 'i) subscription_rec \<Rightarrow> ('t, 'i) subscription_rec)
   \<Rightarrow> (('t, 'i) database, ('t, 'i) subscription_rec) stmt" where
  "upsert_subscription row f s =
     (case fetch_optional (filter (\<lambda>r. sr_key r = sr_key row) (t_push_subscriptions s)) of
        None \<Rightarrow> sql_then (insert_subscription row) (\<lambda>_. sql_return row) s
      | Some old \<Rightarrow> (Ok (f old), s\<lparr>t_push_subscriptions :=
          snd (sql_update (\<lambda>r. sr_key r = sr_key row) f (t_push_subscriptions s))\<rparr>))"

subsection \<open>Reading rows\<close>

fun and_then :: "('a, 'e) result \<Rightarrow> ('a \<Rightarrow> ('b, 'e) result) \<Rightarrow> ('b, 'e) result" where
  "and_then (Ok x) f = f x"
| "and_then (Err e) f = Err e"

fun collect_results :: "('a, 'e) result list \<Rightarrow> ('a list, 'e) result" where
  "collect_results [] = Ok []"
| "collect_results (Ok x # rs) = map_ok (Cons x) (collect_results rs)"
| "collect_results (Err e # rs) = Err e"

fun transpose_option :: "('a, 'e) result option \<Rightarrow> ('a option, 'e) result" where
  "transpose_option None = Ok None"
| "transpose_option (Some (Ok x)) = Ok (Some x)"
| "transpose_option (Some (Err e)) = Err e"

text \<open>A column value that cannot be decoded fails the query.\<close>

definition decode_time :: "('t, 'z) time_codec_scheme \<Rightarrow> 't \<Rightarrow> (datetime, store_error) result" where
  "decode_time c x = ok_or (BackendError ''error occurred while decoding a timestamp column'') (read_time c x)"

definition decode_time_opt ::
  "('t, 'z) time_codec_scheme \<Rightarrow> 't option \<Rightarrow> (datetime option, store_error) result" where
  "decode_time_opt c x = transpose_option (map_option (decode_time c) x)"

end
