(* ===== verification/Postgres_Store.thy ===== *)
theory Postgres_Store
  imports Sql_Engine
begin

text \<open>
  \<open>src/store/postgres.rs\<close>: one definition per method of \<open>impl Store for PostgresStore\<close>. Identifiers are
  native UUID columns and TIMESTAMPTZ columns have the type variable \<open>'t\<close> (\<open>tc\<close> is how \<open>sqlx\<close> binds and
  reads them). Where the schema supplies \<open>gen_random_uuid()\<close> or \<open>now()\<close> as a column default, the value
  drawn is the identifier or clock argument, and the method takes it from the RETURNING clause as the
  code does.
\<close>

subsection \<open>Row types\<close>

definition pg_mailbox :: "('t, 'z) time_codec_scheme \<Rightarrow> 't mailbox_rec \<Rightarrow> (mailbox, store_error) result" where
  "pg_mailbox tc r =
     and_then (decode_time tc (mr_created_at r)) (\<lambda>created_at.
     and_then (decode_time tc (mr_expires_at r)) (\<lambda>expires_at.
       Ok \<lparr>mb_address = mr_address r, mb_domain = mr_domain r, mb_created_at = created_at,
           mb_expires_at = expires_at, mb_owner_token_hash = mr_owner_token_hash r,
           mb_creator_device_hash = mr_creator_device_hash r\<rparr>))"

definition pg_attested_device ::
  "('t, 'z) time_codec_scheme \<Rightarrow> 't device_rec \<Rightarrow> (attested_device, store_error) result" where
  "pg_attested_device tc r =
     and_then (decode_time tc (vr_created_at r)) (\<lambda>created_at.
     and_then (decode_time tc (vr_last_seen_at r)) (\<lambda>last_seen_at.
       Ok \<lparr>ad_key_id = vr_key_id r, ad_public_key = vr_public_key r, ad_counter = vr_counter r,
           ad_created_at = created_at, ad_last_seen_at = last_seen_at\<rparr>))"

definition pg_summary ::
  "('t, 'z) time_codec_scheme \<Rightarrow> ('t, uuid) database \<Rightarrow> ('t, uuid) message_rec
   \<Rightarrow> (message_summary, store_error) result" where
  "pg_summary tc s m =
     and_then (decode_time tc (mg_received_at m)) (\<lambda>received_at.
       Ok \<lparr>su_id = mg_id m, su_mail_from = mg_mail_from m, su_subject = mg_subject m,
           su_received_at = received_at,
           su_has_attachments = sql_exists (\<lambda>a. ac_message_id a = mg_id m) (t_attachments s),
           su_seen = mg_seen m\<rparr>)"

definition pg_attachment_meta :: "uuid attachment_rec \<Rightarrow> attachment_meta" where
  "pg_attachment_meta a = \<lparr>am_id = ac_id a, am_filename = ac_filename a,
     am_content_type = ac_content_type a, am_size = ac_size a\<rparr>"

definition pg_message ::
  "('t, 'z) time_codec_scheme \<Rightarrow> ('t, uuid) message_rec \<Rightarrow> attachment_meta list
   \<Rightarrow> (stored_message, store_error) result" where
  "pg_message tc m attachments =
     and_then (decode_time_opt tc (mg_message_date m)) (\<lambda>message_date.
     and_then (decode_time tc (mg_received_at m)) (\<lambda>received_at.
       Ok \<lparr>sm_id = mg_id m, sm_mailbox_address = mg_mailbox_address m, sm_mail_from = mg_mail_from m,
           sm_subject = mg_subject m, sm_message_date = message_date, sm_text_body = mg_text_body m,
           sm_html_body = mg_html_body m, sm_raw_size = mg_raw_size m, sm_received_at = received_at,
           sm_seen = mg_seen m, sm_attachments = attachments\<rparr>))"

definition pg_push_subscription ::
  "('t, 'z) time_codec_scheme \<Rightarrow> ('t, uuid) subscription_rec \<Rightarrow> (push_subscription, store_error) result" where
  "pg_push_subscription tc r =
     and_then (decode_time tc (sr_created_at r)) (\<lambda>created_at.
     and_then (map_err BackendError (kind_from_str (sr_kind r))) (\<lambda>kind.
       Ok \<lparr>ps_id = sr_id r, ps_mailbox_address = sr_mailbox_address r, ps_kind = kind,
           ps_endpoint = sr_endpoint r, ps_p256dh = sr_p256dh r, ps_auth = sr_auth r,
           ps_created_at = created_at\<rparr>))"

definition pg_custom_domain ::
  "('t, 'z) time_codec_scheme \<Rightarrow> 't domain_rec \<Rightarrow> (custom_domain, store_error) result" where
  "pg_custom_domain tc r =
     and_then (decode_time tc (dr_created_at r)) (\<lambda>created_at.
     and_then (decode_time_opt tc (dr_verified_at r)) (\<lambda>verified_at.
     and_then (decode_time_opt tc (dr_last_checked_at r)) (\<lambda>last_checked_at.
     and_then (map_err BackendError (status_from_str (dr_status r))) (\<lambda>status.
       Ok \<lparr>cd_domain = dr_domain r, cd_status = status, cd_claim_token_hash = dr_claim_token_hash r,
           cd_txt_token = dr_txt_token r, cd_created_at = created_at, cd_verified_at = verified_at,
           cd_last_checked_at = last_checked_at\<rparr>))))"

subsection \<open>Mailboxes\<close>

text \<open>\<open>fetch_one\<close> of a statement with RETURNING: the returned row is decoded; the statement is its own
  transaction, so its effect stays when decoding fails.\<close>

definition pg_create_mailbox ::
  "('t, 'z) time_codec_scheme \<Rightarrow> datetime \<Rightarrow> string \<Rightarrow> string \<Rightarrow> datetime \<Rightarrow> string option \<Rightarrow> string option
   \<Rightarrow> (('t, uuid) database, mailbox) stmt" where
  "pg_create_mailbox tc now address domain expires_at owner_token_hash creator_device_hash =
     (let row = \<lparr>mr_address = address, mr_domain = domain, mr_created_at = bind_time tc now,
            mr_expires_at = bind_time tc expires_at, mr_owner_token_hash = owner_token_hash,
            mr_creator_device_hash = creator_device_hash\<rparr>
      in sql_then (insert_mailbox row) (\<lambda>_ s. (pg_mailbox tc row, s)))"

definition pg_get_mailbox ::
  "('t, 'z) time_codec_scheme \<Rightarrow> string \<Rightarrow> ('t, uuid) database \<Rightarrow> (mailbox option, store_error) result" where
  "pg_get_mailbox tc address s =
     transpose_option (map_option (pg_mailbox tc)
       (fetch_optional (filter (\<lambda>r. mr_address r = address) (t_mailboxes s))))"

definition pg_mailbox_is_active ::
  "('t::linorder, 'z) time_codec_scheme \<Rightarrow> string \<Rightarrow> datetime \<Rightarrow> ('t, uuid) database
   \<Rightarrow> (bool, store_error) result" where
  "pg_mailbox_is_active tc address now s =
     Ok (sql_exists (\<lambda>r. mr_address r = address \<and> mr_expires_at r > bind_time tc now) (t_mailboxes s))"

text \<open>\<open>UPDATE ... RETURNING\<close>: the rows matched, as they are afterwards.\<close>

definition pg_extend_mailbox ::
  "('t, 'z) time_codec_scheme \<Rightarrow> string \<Rightarrow> datetime \<Rightarrow> (('t, uuid) database, mailbox option) stmt" where
  "pg_extend_mailbox tc address new_expires_at s =
     (let set_expiry = (\<lambda>r. r\<lparr>mr_expires_at := bind_time tc new_expires_at\<rparr>);
          returned = map set_expiry (filter (\<lambda>r. mr_address r = address) (t_mailboxes s));
          rows = snd (sql_update (\<lambda>r. mr_address r = address) set_expiry (t_mailboxes s))
      in (transpose_option (map_option (pg_mailbox tc) (fetch_optional returned)), s\<lparr>t_mailboxes := rows\<rparr>))"

definition pg_delete_mailbox :: "string \<Rightarrow> (('t, uuid) database, bool) stmt" where
  "pg_delete_mailbox address s =
     (let (n, s') = delete_mailboxes (\<lambda>r. mr_address r = address) s in (Ok (n > 0), s'))"

definition pg_rotate_owner_token :: "string \<Rightarrow> string \<Rightarrow> (('t, uuid) database, bool) stmt" where
  "pg_rotate_owner_token address new_hash s =
     (let (n, rows) = sql_update (\<lambda>r. mr_address r = address)
            (\<lambda>r. r\<lparr>mr_owner_token_hash := Some new_hash\<rparr>) (t_mailboxes s)
      in (Ok (n > 0), s\<lparr>t_mailboxes := rows\<rparr>))"

definition pg_purge_expired ::
  "('t::linorder, 'z) time_codec_scheme \<Rightarrow> datetime \<Rightarrow> (('t, uuid) database, nat) stmt" where
  "pg_purge_expired tc now s =
     (let (n, s') = delete_mailboxes (\<lambda>r. mr_expires_at r \<le> bind_time tc now) s in (Ok n, s'))"

definition pg_count_active_mailboxes_by_device ::
  "('t::linorder, 'z) time_codec_scheme \<Rightarrow> string \<Rightarrow> datetime \<Rightarrow> ('t, uuid) database
   \<Rightarrow> (nat, store_error) result" where
  "pg_count_active_mailboxes_by_device tc creator_device_hash now s =
     Ok (nat (max (sql_count (\<lambda>r. mr_creator_device_hash r = Some creator_device_hash \<and>
                                mr_expires_at r > bind_time tc now) (t_mailboxes s)) 0))"

subsection \<open>Messages\<close>

fun pg_insert_attachments ::
  "(nat \<Rightarrow> uuid) \<Rightarrow> uuid \<Rightarrow> nat \<Rightarrow> new_attachment list \<Rightarrow> (('t, uuid) database, attachment_meta list) stmt" where
  "pg_insert_attachments aids mid k [] s = (Ok [], s)"
| "pg_insert_attachments aids mid k (att # atts) s =
     (let size = as_i32 (length (na_content att)) in
      sql_then (insert_attachment \<lparr>ac_id = aids k, ac_message_id = mid, ac_filename = na_filename att,
          ac_content_type = na_content_type att, ac_size = size, ac_content = na_content att\<rparr>)
        (\<lambda>_. sql_then (pg_insert_attachments aids mid (Suc k) atts)
          (\<lambda>attachments. sql_return (\<lparr>am_id = aids k, am_filename = na_filename att,
             am_content_type = na_content_type att, am_size = size\<rparr> # attachments))) s)"

text \<open>\<open>LIMIT $n\<close>: NULL means no limit; the bounds bound here are never negative.\<close>

definition pg_limit :: "int option \<Rightarrow> 'r list \<Rightarrow> 'r list" where
  "pg_limit n rows = (case n of None \<Rightarrow> rows | Some k \<Rightarrow> take (nat k) rows)"

definition pg_count_quota ::
  "mailbox_quotas \<Rightarrow> string \<Rightarrow> (('t::linorder, uuid) database, nat) stmt" where
  "pg_count_quota quotas address s =
     (if q_max_messages quotas > 0
      then let newest = pg_limit (Some (uint (q_max_messages quotas))) (order_by_desc message_key
                 (filter (\<lambda>m. mg_mailbox_address m = address) (t_messages s)));
               (n, s') = delete_messages (\<lambda>m. mg_mailbox_address m = address \<and>
                 mg_id m \<notin> mg_id ` set newest) s
           in (Ok n, s')
      else (Ok 0, s))"

definition pg_byte_quota ::
  "mailbox_quotas \<Rightarrow> string \<Rightarrow> uuid \<Rightarrow> (('t::linorder, uuid) database, nat) stmt" where
  "pg_byte_quota quotas address mid s =
     (if q_max_bytes quotas > 0
      then let t = filter (\<lambda>m. mg_mailbox_address m = address) (t_messages s);
               over = filter (\<lambda>m. running_size t m > as_i64 (q_max_bytes quotas) \<and> mg_id m \<noteq> mid) t;
               (n, s') = delete_messages (\<lambda>m. mg_mailbox_address m = address \<and>
                 mg_id m \<in> mg_id ` set over) s
           in (Ok n, s')
      else (Ok 0, s))"

definition pg_message_rec ::
  "('t, 'z) time_codec_scheme \<Rightarrow> datetime \<Rightarrow> uuid \<Rightarrow> string \<Rightarrow> new_message \<Rightarrow> ('t, uuid) message_rec" where
  "pg_message_rec tc now mid address message =
     \<lparr>mg_id = mid, mg_mailbox_address = address, mg_mail_from = nm_mail_from message,
      mg_subject = nm_subject message, mg_message_date = map_option (bind_time tc) (nm_message_date message),
      mg_text_body = nm_text_body message, mg_html_body = nm_html_body message,
      mg_raw_size = nm_raw_size message, mg_received_at = bind_time tc now, mg_seen = False,
      mg_raw_content = nm_raw_content message\<rparr>"

definition pg_save_message ::
  "('t::linorder, 'z) time_codec_scheme \<Rightarrow> mailbox_quotas \<Rightarrow> datetime \<Rightarrow> uuid \<Rightarrow> (nat \<Rightarrow> uuid) \<Rightarrow> string
   \<Rightarrow> new_message \<Rightarrow> (('t, uuid) database, stored_message) stmt" where
  "pg_save_message tc quotas now mid aids address message =
     (let row = pg_message_rec tc now mid address message in
      sql_tx
       (sql_then (insert_message row) (\<lambda>_.
        sql_then (\<lambda>s. (decode_time tc (mg_received_at row), s)) (\<lambda>received_at.
        sql_then (pg_insert_attachments aids mid 0 (nm_attachments message)) (\<lambda>attachments.
        sql_then (pg_count_quota quotas address) (\<lambda>_.
        sql_then (pg_byte_quota quotas address mid) (\<lambda>_.
        sql_return \<lparr>sm_id = mg_id row, sm_mailbox_address = address, sm_mail_from = nm_mail_from message,
          sm_subject = nm_subject message, sm_message_date = nm_message_date message,
          sm_text_body = nm_text_body message, sm_html_body = nm_html_body message,
          sm_raw_size = nm_raw_size message, sm_received_at = received_at, sm_seen = False,
          sm_attachments = attachments\<rparr>)))))))"

definition pg_list_messages ::
  "('t::linorder, 'z) time_codec_scheme \<Rightarrow> string \<Rightarrow> u32 \<Rightarrow> uuid option \<Rightarrow> ('t, uuid) database
   \<Rightarrow> (message_summary list, store_error) result" where
  "pg_list_messages tc address limit since s =
     (let newer = (\<lambda>m. case since of None \<Rightarrow> True
            | Some since_id \<Rightarrow>
              (case fetch_optional (filter (\<lambda>r. mg_mailbox_address r = address \<and> mg_id r = since_id)
                      (t_messages s)) of
                 None \<Rightarrow> True
               | Some anchor \<Rightarrow> message_key m > message_key anchor));
          rows = pg_limit (if limit = 0 then None else Some (uint limit)) (order_by_desc message_key
            (filter (\<lambda>m. mg_mailbox_address m = address \<and> newer m) (t_messages s)))
      in collect_results (map (pg_summary tc s) rows))"

definition pg_get_message ::
  "('t, 'z) time_codec_scheme \<Rightarrow> string \<Rightarrow> uuid \<Rightarrow> ('t, uuid) database
   \<Rightarrow> (stored_message option, store_error) result" where
  "pg_get_message tc address mid s =
     (case fetch_optional (filter (\<lambda>m. mg_mailbox_address m = address \<and> mg_id m = mid) (t_messages s)) of
        None \<Rightarrow> Ok None
      | Some row \<Rightarrow>
          map_ok Some (pg_message tc row (map pg_attachment_meta
            (order_by ac_id (filter (\<lambda>a. ac_message_id a = mid) (t_attachments s))))))"

definition pg_get_raw_message ::
  "string \<Rightarrow> uuid \<Rightarrow> ('t, uuid) database \<Rightarrow> (bytes option, store_error) result" where
  "pg_get_raw_message address mid s =
     Ok (Option.bind (fetch_optional (filter (\<lambda>m. mg_mailbox_address m = address \<and> mg_id m = mid)
           (t_messages s))) mg_raw_content)"

definition pg_get_attachment ::
  "string \<Rightarrow> uuid \<Rightarrow> uuid \<Rightarrow> ('t, uuid) database \<Rightarrow> (attachment option, store_error) result" where
  "pg_get_attachment address message_id attachment_id s =
     Ok (map_option (\<lambda>(a, m). \<lparr>at_filename = ac_filename a, at_content_type = ac_content_type a,
             at_content = ac_content a\<rparr>)
       (fetch_optional (filter (\<lambda>(a, m). mg_id m = ac_message_id a \<and>
           mg_mailbox_address m = address \<and> ac_message_id a = message_id \<and> ac_id a = attachment_id)
         (List.product (t_attachments s) (t_messages s)))))"

definition pg_delete_message :: "string \<Rightarrow> uuid \<Rightarrow> (('t, uuid) database, bool) stmt" where
  "pg_delete_message address mid s =
     (let (n, s') = delete_messages (\<lambda>m. mg_mailbox_address m = address \<and> mg_id m = mid) s
      in (Ok (n > 0), s'))"

definition pg_mark_seen :: "string \<Rightarrow> uuid \<Rightarrow> (('t, uuid) database, bool) stmt" where
  "pg_mark_seen address mid s =
     (let (n, rows) = sql_update (\<lambda>m. mg_mailbox_address m = address \<and> mg_id m = mid)
            (\<lambda>m. m\<lparr>mg_seen := True\<rparr>) (t_messages s)
      in (Ok (n > 0), s\<lparr>t_messages := rows\<rparr>))"

definition pg_delete_all_messages :: "string \<Rightarrow> (('t, uuid) database, nat) stmt" where
  "pg_delete_all_messages address s =
     (let (n, s') = delete_messages (\<lambda>m. mg_mailbox_address m = address) s in (Ok n, s'))"

definition pg_ping :: "('t, uuid) database \<Rightarrow> (unit, store_error) result" where
  "pg_ping s = Ok ()"

subsection \<open>Push subscriptions\<close>

definition pg_add_subscription ::
  "('t, 'z) time_codec_scheme \<Rightarrow> datetime \<Rightarrow> uuid \<Rightarrow> string \<Rightarrow> subscription_kind \<Rightarrow> string \<Rightarrow> string \<Rightarrow> string
   \<Rightarrow> u32 \<Rightarrow> (('t, uuid) database, push_subscription) stmt" where
  "pg_add_subscription tc now sid address kind endpoint p256dh auth max_per_mailbox s =
     (if max_per_mailbox > 0 \<and>
         sql_count (\<lambda>r. sr_mailbox_address r = address \<and> sr_endpoint r \<noteq> endpoint)
           (t_push_subscriptions s) \<ge> uint max_per_mailbox
      then (Err (SubscriptionLimit max_per_mailbox), s)
      else sql_then
        (sql_tx (sql_then
          (upsert_subscription \<lparr>sr_id = sid, sr_mailbox_address = address, sr_kind = kind_as_str kind,
             sr_endpoint = endpoint, sr_p256dh = p256dh, sr_auth = auth, sr_created_at = bind_time tc now\<rparr>
             (\<lambda>r. r\<lparr>sr_kind := kind_as_str kind, sr_p256dh := p256dh, sr_auth := auth\<rparr>))
          (\<lambda>row s'. (map_ok (\<lambda>_. row) (decode_time tc (sr_created_at row)), s'))))
        (\<lambda>row s'. (pg_push_subscription tc row, s')) s)"

definition pg_list_subscriptions ::
  "('t::linorder, 'z) time_codec_scheme \<Rightarrow> string \<Rightarrow> ('t, uuid) database
   \<Rightarrow> (push_subscription list, store_error) result" where
  "pg_list_subscriptions tc address s =
     collect_results (map (pg_push_subscription tc) (order_by sr_created_at
       (filter (\<lambda>r. sr_mailbox_address r = address) (t_push_subscriptions s))))"

definition pg_delete_subscription :: "string \<Rightarrow> string \<Rightarrow> (('t, uuid) database, bool) stmt" where
  "pg_delete_subscription address endpoint s =
     (let (n, rows) = sql_delete (\<lambda>r. sr_mailbox_address r = address \<and> sr_endpoint r = endpoint)
            (t_push_subscriptions s)
      in (Ok (n > 0), s\<lparr>t_push_subscriptions := rows\<rparr>))"

subsection \<open>Custom domains\<close>

definition pg_create_custom_domain ::
  "('t, 'z) time_codec_scheme \<Rightarrow> datetime \<Rightarrow> string \<Rightarrow> string \<Rightarrow> string
   \<Rightarrow> (('t, uuid) database, custom_domain) stmt" where
  "pg_create_custom_domain tc created_at domain claim_token_hash txt_token =
     sql_then (insert_domain \<lparr>dr_domain = domain, dr_claim_token_hash = claim_token_hash,
         dr_txt_token = txt_token, dr_status = ''pending'', dr_created_at = bind_time tc created_at,
         dr_verified_at = None, dr_last_checked_at = None\<rparr>)
       (\<lambda>_. sql_return \<lparr>cd_domain = domain, cd_status = Pending, cd_claim_token_hash = claim_token_hash,
         cd_txt_token = txt_token, cd_created_at = created_at, cd_verified_at = None,
         cd_last_checked_at = None\<rparr>)"

definition pg_get_custom_domain ::
  "('t, 'z) time_codec_scheme \<Rightarrow> string \<Rightarrow> ('t, uuid) database \<Rightarrow> (custom_domain option, store_error) result" where
  "pg_get_custom_domain tc domain s =
     transpose_option (map_option (pg_custom_domain tc)
       (fetch_optional (filter (\<lambda>r. dr_domain r = domain) (t_custom_domains s))))"

definition pg_delete_custom_domain :: "string \<Rightarrow> (('t, uuid) database, bool) stmt" where
  "pg_delete_custom_domain domain s =
     (let (n, rows) = sql_delete (\<lambda>r. dr_domain r = domain) (t_custom_domains s)
      in (Ok (n > 0), s\<lparr>t_custom_domains := rows\<rparr>))"

definition pg_custom_domain_is_verified :: "string \<Rightarrow> ('t, uuid) database \<Rightarrow> (bool, store_error) result" where
  "pg_custom_domain_is_verified domain s =
     Ok (sql_exists (\<lambda>r. dr_domain r = domain \<and> dr_status r = ''verified'') (t_custom_domains s))"

definition pg_record_custom_domain_check ::
  "('t, 'z) time_codec_scheme \<Rightarrow> string \<Rightarrow> custom_domain_status \<Rightarrow> datetime option \<Rightarrow> datetime
   \<Rightarrow> (('t, uuid) database, bool) stmt" where
  "pg_record_custom_domain_check tc domain status verified_at checked_at s =
     (let (n, rows) = sql_update (\<lambda>r. dr_domain r = domain)
            (\<lambda>r. r\<lparr>dr_status := status_as_str status,
               dr_verified_at := map_option (bind_time tc) verified_at,
               dr_last_checked_at := Some (bind_time tc checked_at)\<rparr>) (t_custom_domains s)
      in (Ok (n > 0), s\<lparr>t_custom_domains := rows\<rparr>))"

definition pg_list_custom_domains_to_recheck ::
  "('t::linorder, 'z) time_codec_scheme \<Rightarrow> datetime \<Rightarrow> ('t, uuid) database
   \<Rightarrow> (custom_domain list, store_error) result" where
  "pg_list_custom_domains_to_recheck tc cutoff s =
     collect_results (map (pg_custom_domain tc)
       (filter (\<lambda>r. dr_status r \<in> {''verified'', ''failed''} \<and>
            (case dr_last_checked_at r of None \<Rightarrow> True | Some t \<Rightarrow> t \<le> bind_time tc cutoff))
         (t_custom_domains s)))"

subsection \<open>Attested devices\<close>

definition pg_upsert_attested_device ::
  "('t, 'z) time_codec_scheme \<Rightarrow> string \<Rightarrow> bytes \<Rightarrow> datetime \<Rightarrow> (('t, uuid) database, attested_device) stmt" where
  "pg_upsert_attested_device tc key_id public_key now s =
     (let (row, s') = upsert_device \<lparr>vr_key_id = key_id, vr_public_key = public_key, vr_counter = 0,
            vr_created_at = bind_time tc now, vr_last_seen_at = bind_time tc now\<rparr>
            (\<lambda>r. r\<lparr>vr_last_seen_at := bind_time tc now\<rparr>) s
      in (pg_attested_device tc row, s'))"

definition pg_get_attested_device ::
  "('t, 'z) time_codec_scheme \<Rightarrow> string \<Rightarrow> ('t, uuid) database \<Rightarrow> (attested_device option, store_error) result" where
  "pg_get_attested_device tc key_id s =
     transpose_option (map_option (pg_attested_device tc)
       (fetch_optional (filter (\<lambda>r. vr_key_id r = key_id) (t_attested_devices s))))"

definition pg_advance_attested_device_counter ::
  "('t, 'z) time_codec_scheme \<Rightarrow> string \<Rightarrow> int \<Rightarrow> datetime \<Rightarrow> (('t, uuid) database, bool) stmt" where
  "pg_advance_attested_device_counter tc key_id counter seen_at s =
     (let (n, rows) = sql_update (\<lambda>r. vr_key_id r = key_id \<and> vr_counter r < counter)
            (\<lambda>r. r\<lparr>vr_counter := counter, vr_last_seen_at := bind_time tc seen_at\<rparr>) (t_attested_devices s)
      in (Ok (n > 0), s\<lparr>t_attested_devices := rows\<rparr>))"

definition pg_prune_attested_devices ::
  "('t::linorder, 'z) time_codec_scheme \<Rightarrow> datetime \<Rightarrow> (('t, uuid) database, nat) stmt" where
  "pg_prune_attested_devices tc idle_before s =
     (let (n, rows) = sql_delete (\<lambda>r. vr_last_seen_at r < bind_time tc idle_before) (t_attested_devices s)
      in (Ok n, s\<lparr>t_attested_devices := rows\<rparr>))"

subsection \<open>The method table of \<open>PostgresStore\<close>\<close>

text \<open>\<open>run_maintenance\<close> is the trait's default.\<close>

definition postgres_ops ::
  "('t::linorder, 'z) time_codec_scheme \<Rightarrow> mailbox_quotas \<Rightarrow> ('t, uuid) database store_ops" where
  "postgres_ops tc quotas = \<lparr>
     st_create_mailbox = pg_create_mailbox tc,
     st_get_mailbox = pg_get_mailbox tc,
     st_mailbox_is_active = pg_mailbox_is_active tc,
     st_extend_mailbox = pg_extend_mailbox tc,
     st_delete_mailbox = pg_delete_mailbox,
     st_rotate_owner_token = pg_rotate_owner_token,
     st_save_message = pg_save_message tc quotas,
     st_list_messages = pg_list_messages tc,
     st_get_message = pg_get_message tc,
     st_get_raw_message = pg_get_raw_message,
     st_get_attachment = pg_get_attachment,
     st_delete_message = pg_delete_message,
     st_mark_seen = pg_mark_seen,
     st_delete_all_messages = pg_delete_all_messages,
     st_purge_expired = pg_purge_expired tc,
     st_add_subscription = pg_add_subscription tc,
     st_list_subscriptions = pg_list_subscriptions tc,
     st_delete_subscription = pg_delete_subscription,
     st_create_custom_domain = pg_create_custom_domain tc,
     st_get_custom_domain = pg_get_custom_domain tc,
     st_delete_custom_domain = pg_delete_custom_domain,
     st_custom_domain_is_verified = pg_custom_domain_is_verified,
     st_record_custom_domain_check = pg_record_custom_domain_check tc,
     st_list_custom_domains_to_recheck = pg_list_custom_domains_to_recheck tc,
     st_upsert_attested_device = pg_upsert_attested_device tc,
     st_get_attested_device = pg_get_attested_device tc,
     st_advance_attested_device_counter = pg_advance_attested_device_counter tc,
     st_prune_attested_devices = pg_prune_attested_devices tc,
     st_count_active_mailboxes_by_device = pg_count_active_mailboxes_by_device tc,
     st_run_maintenance = default_run_maintenance,
     st_ping = pg_ping\<rparr>"

end
