(* ===== verification/Sqlite_Store.thy ===== *)
theory Sqlite_Store
  imports Sql_Engine
begin

text \<open>
  \<open>src/store/sqlite.rs\<close>: one definition per method of \<open>impl Store for SqliteStore\<close>, over the tables
  of theory \<open>Sql_Engine\<close>. \<open>c\<close> is the column codec (\<open>id.to_string()\<close> and \<open>parse_uuid\<close>, and how
  \<open>sqlx\<close> writes and reads a \<open>DateTime<Utc>\<close> as text); identifiers and clock readings are arguments as
  in the in-memory store.
\<close>

subsection \<open>Row types\<close>

definition sqlite_parse_uuid :: "('t, 'i) codec \<Rightarrow> 'i \<Rightarrow> (uuid, store_error) result" where
  "sqlite_parse_uuid c x = ok_or (BackendError ''invalid uuid stored in database'') (read_id c x)"

definition sqlite_mailbox :: "('t, 'i) codec \<Rightarrow> 't mailbox_rec \<Rightarrow> (mailbox, store_error) result" where
  "sqlite_mailbox c r =
     and_then (decode_time c (mr_created_at r)) (\<lambda>created_at.
     and_then (decode_time c (mr_expires_at r)) (\<lambda>expires_at.
       Ok \<lparr>mb_address = mr_address r, mb_domain = mr_domain r, mb_created_at = created_at,
           mb_expires_at = expires_at, mb_owner_token_hash = mr_owner_token_hash r,
           mb_creator_device_hash = mr_creator_device_hash r\<rparr>))"

definition sqlite_attested_device ::
  "('t, 'i) codec \<Rightarrow> 't device_rec \<Rightarrow> (attested_device, store_error) result" where
  "sqlite_attested_device c r =
     and_then (decode_time c (vr_created_at r)) (\<lambda>created_at.
     and_then (decode_time c (vr_last_seen_at r)) (\<lambda>last_seen_at.
       Ok \<lparr>ad_key_id = vr_key_id r, ad_public_key = vr_public_key r, ad_counter = vr_counter r,
           ad_created_at = created_at, ad_last_seen_at = last_seen_at\<rparr>))"

definition sqlite_summary ::
  "('t, 'i) codec \<Rightarrow> ('t, 'i) database \<Rightarrow> ('t, 'i) message_rec \<Rightarrow> (message_summary, store_error) result" where
  "sqlite_summary c s m =
     and_then (decode_time c (mg_received_at m)) (\<lambda>received_at.
     and_then (sqlite_parse_uuid c (mg_id m)) (\<lambda>mid.
       Ok \<lparr>su_id = mid, su_mail_from = mg_mail_from m, su_subject = mg_subject m,
           su_received_at = received_at,
           su_has_attachments = sql_exists (\<lambda>a. ac_message_id a = mg_id m) (t_attachments s),
           su_seen = mg_seen m\<rparr>))"

definition sqlite_attachment_meta ::
  "('t, 'i) codec \<Rightarrow> 'i attachment_rec \<Rightarrow> (attachment_meta, store_error) result" where
  "sqlite_attachment_meta c a =
     and_then (sqlite_parse_uuid c (ac_id a)) (\<lambda>aid.
       Ok \<lparr>am_id = aid, am_filename = ac_filename a, am_content_type = ac_content_type a,
           am_size = ac_size a\<rparr>)"

definition sqlite_message ::
  "('t, 'i) codec \<Rightarrow> ('t, 'i) message_rec \<Rightarrow> attachment_meta list \<Rightarrow> (stored_message, store_error) result" where
  "sqlite_message c m attachments =
     and_then (decode_time_opt c (mg_message_date m)) (\<lambda>message_date.
     and_then (decode_time c (mg_received_at m)) (\<lambda>received_at.
     and_then (sqlite_parse_uuid c (mg_id m)) (\<lambda>mid.
       Ok \<lparr>sm_id = mid, sm_mailbox_address = mg_mailbox_address m, sm_mail_from = mg_mail_from m,
           sm_subject = mg_subject m, sm_message_date = message_date, sm_text_body = mg_text_body m,
           sm_html_body = mg_html_body m, sm_raw_size = mg_raw_size m, sm_received_at = received_at,
           sm_seen = mg_seen m, sm_attachments = attachments\<rparr>)))"

definition sqlite_push_subscription ::
  "('t, 'i) codec \<Rightarrow> ('t, 'i) subscription_rec \<Rightarrow> (push_subscription, store_error) result" where
  "sqlite_push_subscription c r =
     and_then (decode_time c (sr_created_at r)) (\<lambda>created_at.
     and_then (sqlite_parse_uuid c (sr_id r)) (\<lambda>sid.
     and_then (map_err BackendError (kind_from_str (sr_kind r))) (\<lambda>kind.
       Ok \<lparr>ps_id = sid, ps_mailbox_address = sr_mailbox_address r, ps_kind = kind,
           ps_endpoint = sr_endpoint r, ps_p256dh = sr_p256dh r, ps_auth = sr_auth r,
           ps_created_at = created_at\<rparr>)))"

definition sqlite_custom_domain ::
  "('t, 'i) codec \<Rightarrow> 't domain_rec \<Rightarrow> (custom_domain, store_error) result" where
  "sqlite_custom_domain c r =
     and_then (decode_time c (dr_created_at r)) (\<lambda>created_at.
     and_then (decode_time_opt c (dr_verified_at r)) (\<lambda>verified_at.
     and_then (decode_time_opt c (dr_last_checked_at r)) (\<lambda>last_checked_at.
     and_then (map_err BackendError (status_from_str (dr_status r))) (\<lambda>status.
       Ok \<lparr>cd_domain = dr_domain r, cd_status = status, cd_claim_token_hash = dr_claim_token_hash r,
           cd_txt_token = dr_txt_token r, cd_created_at = created_at, cd_verified_at = verified_at,
           cd_last_checked_at = last_checked_at\<rparr>))))"

subsection \<open>Mailboxes\<close>

definition sqlite_create_mailbox ::
  "('t, 'i) codec \<Rightarrow> datetime \<Rightarrow> string \<Rightarrow> string \<Rightarrow> datetime \<Rightarrow> string option \<Rightarrow> string option
   \<Rightarrow> (('t, 'i) database, mailbox) stmt" where
  "sqlite_create_mailbox c created_at address domain expires_at owner_token_hash creator_device_hash =
     sql_then (insert_mailbox \<lparr>mr_address = address, mr_domain = domain,
         mr_created_at = bind_time c created_at, mr_expires_at = bind_time c expires_at,
         mr_owner_token_hash = owner_token_hash, mr_creator_device_hash = creator_device_hash\<rparr>)
       (\<lambda>_. sql_return \<lparr>mb_address = address, mb_domain = domain, mb_created_at = created_at,
         mb_expires_at = expires_at, mb_owner_token_hash = owner_token_hash,
         mb_creator_device_hash = creator_device_hash\<rparr>)"

definition sqlite_get_mailbox ::
  "('t, 'i) codec \<Rightarrow> string \<Rightarrow> ('t, 'i) database \<Rightarrow> (mailbox option, store_error) result" where
  "sqlite_get_mailbox c address s =
     transpose_option (map_option (sqlite_mailbox c)
       (fetch_optional (filter (\<lambda>r. mr_address r = address) (t_mailboxes s))))"

definition sqlite_mailbox_is_active ::
  "('t::linorder, 'i) codec \<Rightarrow> string \<Rightarrow> datetime \<Rightarrow> ('t, 'i) database \<Rightarrow> (bool, store_error) result" where
  "sqlite_mailbox_is_active c address now s =
     Ok (sql_exists (\<lambda>r. mr_address r = address \<and> mr_expires_at r > bind_time c now) (t_mailboxes s))"

definition sqlite_extend_mailbox ::
  "('t, 'i) codec \<Rightarrow> string \<Rightarrow> datetime \<Rightarrow> (('t, 'i) database, mailbox option) stmt" where
  "sqlite_extend_mailbox c address new_expires_at s =
     (let (n, rows) = sql_update (\<lambda>r. mr_address r = address)
            (\<lambda>r. r\<lparr>mr_expires_at := bind_time c new_expires_at\<rparr>) (t_mailboxes s);
          s' = s\<lparr>t_mailboxes := rows\<rparr>
      in if n = 0 then (Ok None, s') else (sqlite_get_mailbox c address s', s'))"

definition sqlite_delete_mailbox :: "string \<Rightarrow> (('t, 'i) database, bool) stmt" where
  "sqlite_delete_mailbox address s =
     (let (n, s') = delete_mailboxes (\<lambda>r. mr_address r = address) s in (Ok (n > 0), s'))"

definition sqlite_rotate_owner_token :: "string \<Rightarrow> string \<Rightarrow> (('t, 'i) database, bool) stmt" where
  "sqlite_rotate_owner_token address new_hash s =
     (let (n, rows) = sql_update (\<lambda>r. mr_address r = address)
            (\<lambda>r. r\<lparr>mr_owner_token_hash := Some new_hash\<rparr>) (t_mailboxes s)
      in (Ok (n > 0), s\<lparr>t_mailboxes := rows\<rparr>))"

definition sqlite_purge_expired ::
  "('t::linorder, 'i) codec \<Rightarrow> datetime \<Rightarrow> (('t, 'i) database, nat) stmt" where
  "sqlite_purge_expired c now s =
     (let (n, s') = delete_mailboxes (\<lambda>r. mr_expires_at r \<le> bind_time c now) s in (Ok n, s'))"

definition sqlite_count_active_mailboxes_by_device ::
  "('t::linorder, 'i) codec \<Rightarrow> string \<Rightarrow> datetime \<Rightarrow> ('t, 'i) database \<Rightarrow> (nat, store_error) result" where
  "sqlite_count_active_mailboxes_by_device c creator_device_hash now s =
     Ok (nat (max (sql_count (\<lambda>r. mr_creator_device_hash r = Some creator_device_hash \<and>
                                mr_expires_at r > bind_time c now) (t_mailboxes s)) 0))"

subsection \<open>Messages\<close>

text \<open>The loop over \<open>message.attachments\<close>: the insert and the metadata pushed for it.\<close>

fun sqlite_insert_attachments ::
  "('t, 'i) codec \<Rightarrow> (nat \<Rightarrow> uuid) \<Rightarrow> uuid \<Rightarrow> nat \<Rightarrow> new_attachment list
   \<Rightarrow> (('t, 'i) database, attachment_meta list) stmt" where
  "sqlite_insert_attachments c aids mid k [] s = (Ok [], s)"
| "sqlite_insert_attachments c aids mid k (att # atts) s =
     (let size = as_i32 (length (na_content att)) in
      sql_then (insert_attachment \<lparr>ac_id = bind_id c (aids k), ac_message_id = bind_id c mid,
          ac_filename = na_filename att, ac_content_type = na_content_type att, ac_size = size,
          ac_content = na_content att\<rparr>)
        (\<lambda>_. sql_then (sqlite_insert_attachments c aids mid (Suc k) atts)
          (\<lambda>attachments. sql_return (\<lparr>am_id = aids k, am_filename = na_filename att,
             am_content_type = na_content_type att, am_size = size\<rparr> # attachments))) s)"

text \<open>\<open>LIMIT ?\<close>: a negative bound means no limit.\<close>

definition sqlite_limit :: "int \<Rightarrow> 'r list \<Rightarrow> 'r list" where
  "sqlite_limit n rows = (if n < 0 then rows else take (nat n) rows)"

definition sqlite_count_quota ::
  "mailbox_quotas \<Rightarrow> string \<Rightarrow> (('t::linorder, 'i::linorder) database, nat) stmt" where
  "sqlite_count_quota quotas address s =
     (if q_max_messages quotas > 0
      then let newest = sqlite_limit (uint (q_max_messages quotas)) (order_by_desc message_key
                 (filter (\<lambda>m. mg_mailbox_address m = address) (t_messages s)));
               (n, s') = delete_messages (\<lambda>m. mg_mailbox_address m = address \<and>
                 mg_id m \<notin> mg_id ` set newest) s
           in (Ok n, s')
      else (Ok 0, s))"

definition sqlite_byte_quota ::
  "('t::linorder, 'i::linorder) codec \<Rightarrow> mailbox_quotas \<Rightarrow> string \<Rightarrow> uuid \<Rightarrow> (('t, 'i) database, nat) stmt" where
  "sqlite_byte_quota c quotas address mid s =
     (if q_max_bytes quotas > 0
      then let t = filter (\<lambda>m. mg_mailbox_address m = address) (t_messages s);
               over = filter (\<lambda>m. running_size t m > as_i64 (q_max_bytes quotas) \<and>
                 mg_id m \<noteq> bind_id c mid) t;
               (n, s') = delete_messages (\<lambda>m. mg_mailbox_address m = address \<and>
                 mg_id m \<in> mg_id ` set over) s
           in (Ok n, s')
      else (Ok 0, s))"

definition sqlite_message_rec ::
  "('t, 'i) codec \<Rightarrow> datetime \<Rightarrow> uuid \<Rightarrow> string \<Rightarrow> new_message \<Rightarrow> ('t, 'i) message_rec" where
  "sqlite_message_rec c received_at mid address message =
     \<lparr>mg_id = bind_id c mid, mg_mailbox_address = address, mg_mail_from = nm_mail_from message,
      mg_subject = nm_subject message, mg_message_date = map_option (bind_time c) (nm_message_date message),
      mg_text_body = nm_text_body message, mg_html_body = nm_html_body message,
      mg_raw_size = nm_raw_size message, mg_received_at = bind_time c received_at, mg_seen = False,
      mg_raw_content = nm_raw_content message\<rparr>"

definition sqlite_save_message ::
  "('t::linorder, 'i::linorder) codec \<Rightarrow> mailbox_quotas \<Rightarrow> datetime \<Rightarrow> uuid \<Rightarrow> (nat \<Rightarrow> uuid) \<Rightarrow> string
   \<Rightarrow> new_message \<Rightarrow> (('t, 'i) database, stored_message) stmt" where
  "sqlite_save_message c quotas received_at mid aids address message =
     sql_tx
       (sql_then (insert_message (sqlite_message_rec c received_at mid address message)) (\<lambda>_.
        sql_then (sqlite_insert_attachments c aids mid 0 (nm_attachments message)) (\<lambda>attachments.
        sql_then (sqlite_count_quota quotas address) (\<lambda>_.
        sql_then (sqlite_byte_quota c quotas address mid) (\<lambda>_.
        sql_return \<lparr>sm_id = mid, sm_mailbox_address = address, sm_mail_from = nm_mail_from message,
          sm_subject = nm_subject message, sm_message_date = nm_message_date message,
          sm_text_body = nm_text_body message, sm_html_body = nm_html_body message,
          sm_raw_size = nm_raw_size message, sm_received_at = received_at, sm_seen = False,
          sm_attachments = attachments\<rparr>)))))"

definition sqlite_list_messages ::
  "('t::linorder, 'i::linorder) codec \<Rightarrow> string \<Rightarrow> u32 \<Rightarrow> uuid option \<Rightarrow> ('t, 'i) database
   \<Rightarrow> (message_summary list, store_error) result" where
  "sqlite_list_messages c address limit since s =
     (let newer = (\<lambda>m. case map_option (bind_id c) since of None \<Rightarrow> True
            | Some since_id \<Rightarrow>
              (case fetch_optional (filter (\<lambda>r. mg_mailbox_address r = address \<and> mg_id r = since_id)
                      (t_messages s)) of
                 None \<Rightarrow> True
               | Some anchor \<Rightarrow> message_key m > message_key anchor));
          rows = sqlite_limit (if limit = 0 then -1 else uint limit) (order_by_desc message_key
            (filter (\<lambda>m. mg_mailbox_address m = address \<and> newer m) (t_messages s)))
      in collect_results (map (sqlite_summary c s) rows))"

definition sqlite_get_message ::
  "('t, 'i::linorder) codec \<Rightarrow> string \<Rightarrow> uuid \<Rightarrow> ('t, 'i) database
   \<Rightarrow> (stored_message option, store_error) result" where
  "sqlite_get_message c address mid s =
     (case fetch_optional (filter (\<lambda>m. mg_mailbox_address m = address \<and> mg_id m = bind_id c mid)
             (t_messages s)) of
        None \<Rightarrow> Ok None
      | Some row \<Rightarrow>
          and_then (collect_results (map (sqlite_attachment_meta c)
              (order_by ac_id (filter (\<lambda>a. ac_message_id a = bind_id c mid) (t_attachments s)))))
            (\<lambda>attachments. map_ok Some (sqlite_message c row attachments)))"

definition sqlite_get_raw_message ::
  "('t, 'i) codec \<Rightarrow> string \<Rightarrow> uuid \<Rightarrow> ('t, 'i) database \<Rightarrow> (bytes option, store_error) result" where
  "sqlite_get_raw_message c address mid s =
     Ok (Option.bind (fetch_optional (filter (\<lambda>m. mg_mailbox_address m = address \<and>
           mg_id m = bind_id c mid) (t_messages s))) mg_raw_content)"

definition sqlite_get_attachment ::
  "('t, 'i) codec \<Rightarrow> string \<Rightarrow> uuid \<Rightarrow> uuid \<Rightarrow> ('t, 'i) database \<Rightarrow> (attachment option, store_error) result" where
  "sqlite_get_attachment c address message_id attachment_id s =
     Ok (map_option (\<lambda>(a, m). \<lparr>at_filename = ac_filename a, at_content_type = ac_content_type a,
             at_content = ac_content a\<rparr>)
       (fetch_optional (filter (\<lambda>(a, m). mg_id m = ac_message_id a \<and>
           mg_mailbox_address m = address \<and> ac_message_id a = bind_id c message_id \<and>
           ac_id a = bind_id c attachment_id)
         (List.product (t_attachments s) (t_messages s)))))"

definition sqlite_delete_message ::
  "('t, 'i) codec \<Rightarrow> string \<Rightarrow> uuid \<Rightarrow> (('t, 'i) database, bool) stmt" where
  "sqlite_delete_message c address mid s =
     (let (n, s') = delete_messages (\<lambda>m. mg_mailbox_address m = address \<and> mg_id m = bind_id c mid) s
      in (Ok (n > 0), s'))"

definition sqlite_mark_seen ::
  "('t, 'i) codec \<Rightarrow> string \<Rightarrow> uuid \<Rightarrow> (('t, 'i) database, bool) stmt" where
  "sqlite_mark_seen c address mid s =
     (let (n, rows) = sql_update (\<lambda>m. mg_mailbox_address m = address \<and> mg_id m = bind_id c mid)
            (\<lambda>m. m\<lparr>mg_seen := True\<rparr>) (t_messages s)
      in (Ok (n > 0), s\<lparr>t_messages := rows\<rparr>))"

definition sqlite_delete_all_messages :: "string \<Rightarrow> (('t, 'i) database, nat) stmt" where
  "sqlite_delete_all_messages address s =
     (let (n, s') = delete_messages (\<lambda>m. mg_mailbox_address m = address) s in (Ok n, s'))"

definition sqlite_run_maintenance :: "(('t, 'i) database, unit) stmt" where
  "sqlite_run_maintenance s = (Ok (), s)"

definition sqlite_ping :: "('t, 'i) database \<Rightarrow> (unit, store_error) result" where
  "sqlite_ping s = Ok ()"

subsection \<open>Push subscriptions\<close>

text \<open>The transaction commits before the refreshed row is converted; a failed insert rolls back.\<close>

definition sqlite_add_subscription ::
  "('t, 'i) codec \<Rightarrow> datetime \<Rightarrow> uuid \<Rightarrow> string \<Rightarrow> subscription_kind \<Rightarrow> string \<Rightarrow> string \<Rightarrow> string
   \<Rightarrow> u32 \<Rightarrow> (('t, 'i) database, push_subscription) stmt" where
  "sqlite_add_subscription c created_at sid address kind endpoint p256dh auth max_per_mailbox s =
     (case fetch_optional (filter (\<lambda>r. sr_mailbox_address r = address \<and> sr_endpoint r = endpoint)
             (t_push_subscriptions s)) of
        Some row \<Rightarrow>
          (map_ok (\<lambda>p. p\<lparr>ps_kind := kind, ps_p256dh := p256dh, ps_auth := auth\<rparr>)
             (sqlite_push_subscription c row),
           s\<lparr>t_push_subscriptions := snd (sql_update (\<lambda>r. sr_id r = sr_id row)
               (\<lambda>r. r\<lparr>sr_kind := kind_as_str kind, sr_p256dh := p256dh, sr_auth := auth\<rparr>)
               (t_push_subscriptions s))\<rparr>)
      | None \<Rightarrow>
          if max_per_mailbox > 0 \<and>
             sql_count (\<lambda>r. sr_mailbox_address r = address) (t_push_subscriptions s) \<ge> uint max_per_mailbox
          then (Err (SubscriptionLimit max_per_mailbox), s)
          else sql_tx (sql_then (insert_subscription \<lparr>sr_id = bind_id c sid, sr_mailbox_address = address,
                 sr_kind = kind_as_str kind, sr_endpoint = endpoint, sr_p256dh = p256dh, sr_auth = auth,
                 sr_created_at = bind_time c created_at\<rparr>)
               (\<lambda>_. sql_return \<lparr>ps_id = sid, ps_mailbox_address = address, ps_kind = kind,
                 ps_endpoint = endpoint, ps_p256dh = p256dh, ps_auth = auth,
                 ps_created_at = created_at\<rparr>)) s)"

definition sqlite_list_subscriptions ::
  "('t::linorder, 'i) codec \<Rightarrow> string \<Rightarrow> ('t, 'i) database \<Rightarrow> (push_subscription list, store_error) result" where
  "sqlite_list_subscriptions c address s =
     collect_results (map (sqlite_push_subscription c) (order_by sr_created_at
       (filter (\<lambda>r. sr_mailbox_address r = address) (t_push_subscriptions s))))"

definition sqlite_delete_subscription :: "string \<Rightarrow> string \<Rightarrow> (('t, 'i) database, bool) stmt" where
  "sqlite_delete_subscription address endpoint s =
     (let (n, rows) = sql_delete (\<lambda>r. sr_mailbox_address r = address \<and> sr_endpoint r = endpoint)
            (t_push_subscriptions s)
      in (Ok (n > 0), s\<lparr>t_push_subscriptions := rows\<rparr>))"

subsection \<open>Custom domains\<close>

definition sqlite_create_custom_domain ::
  "('t, 'i) codec \<Rightarrow> datetime \<Rightarrow> string \<Rightarrow> string \<Rightarrow> string \<Rightarrow> (('t, 'i) database, custom_domain) stmt" where
  "sqlite_create_custom_domain c created_at domain claim_token_hash txt_token =
     sql_then (insert_domain \<lparr>dr_domain = domain, dr_claim_token_hash = claim_token_hash,
         dr_txt_token = txt_token, dr_status = ''pending'', dr_created_at = bind_time c created_at,
         dr_verified_at = None, dr_last_checked_at = None\<rparr>)
       (\<lambda>_. sql_return \<lparr>cd_domain = domain, cd_status = Pending, cd_claim_token_hash = claim_token_hash,
         cd_txt_token = txt_token, cd_created_at = created_at, cd_verified_at = None,
         cd_last_checked_at = None\<rparr>)"

definition sqlite_get_custom_domain ::
  "('t, 'i) codec \<Rightarrow> string \<Rightarrow> ('t, 'i) database \<Rightarrow> (custom_domain option, store_error) result" where
  "sqlite_get_custom_domain c domain s =
     transpose_option (map_option (sqlite_custom_domain c)
       (fetch_optional (filter (\<lambda>r. dr_domain r = domain) (t_custom_domains s))))"

definition sqlite_delete_custom_domain :: "string \<Rightarrow> (('t, 'i) database, bool) stmt" where
  "sqlite_delete_custom_domain domain s =
     (let (n, rows) = sql_delete (\<lambda>r. dr_domain r = domain) (t_custom_domains s)
      in (Ok (n > 0), s\<lparr>t_custom_domains := rows\<rparr>))"

definition sqlite_custom_domain_is_verified ::
  "string \<Rightarrow> ('t, 'i) database \<Rightarrow> (bool, store_error) result" where
  "sqlite_custom_domain_is_verified domain s =
     Ok (sql_exists (\<lambda>r. dr_domain r = domain \<and> dr_status r = ''verified'') (t_custom_domains s))"

definition sqlite_record_custom_domain_check ::
  "('t, 'i) codec \<Rightarrow> string \<Rightarrow> custom_domain_status \<Rightarrow> datetime option \<Rightarrow> datetime
   \<Rightarrow> (('t, 'i) database, bool) stmt" where
  "sqlite_record_custom_domain_check c domain status verified_at checked_at s =
     (let (n, rows) = sql_update (\<lambda>r. dr_domain r = domain)
            (\<lambda>r. r\<lparr>dr_status := status_as_str status,
               dr_verified_at := map_option (bind_time c) verified_at,
               dr_last_checked_at := Some (bind_time c checked_at)\<rparr>) (t_custom_domains s)
      in (Ok (n > 0), s\<lparr>t_custom_domains := rows\<rparr>))"

definition sqlite_list_custom_domains_to_recheck ::
  "('t::linorder, 'i) codec \<Rightarrow> datetime \<Rightarrow> ('t, 'i) database \<Rightarrow> (custom_domain list, store_error) result" where
  "sqlite_list_custom_domains_to_recheck c cutoff s =
     collect_results (map (sqlite_custom_domain c)
       (filter (\<lambda>r. dr_status r \<in> {''verified'', ''failed''} \<and>
            (case dr_last_checked_at r of None \<Rightarrow> True | Some t \<Rightarrow> t \<le> bind_time c cutoff))
         (t_custom_domains s)))"

subsection \<open>Attested devices\<close>

definition sqlite_upsert_attested_device ::
  "('t, 'i) codec \<Rightarrow> string \<Rightarrow> bytes \<Rightarrow> datetime \<Rightarrow> (('t, 'i) database, attested_device) stmt" where
  "sqlite_upsert_attested_device c key_id public_key now s =
     (let (row, s') = upsert_device \<lparr>vr_key_id = key_id, vr_public_key = public_key, vr_counter = 0,
            vr_created_at = bind_time c now, vr_last_seen_at = bind_time c now\<rparr>
            (\<lambda>r. r\<lparr>vr_last_seen_at := bind_time c now\<rparr>) s
      in (sqlite_attested_device c row, s'))"

definition sqlite_get_attested_device ::
  "('t, 'i) codec \<Rightarrow> string \<Rightarrow> ('t, 'i) database \<Rightarrow> (attested_device option, store_error) result" where
  "sqlite_get_attested_device c key_id s =
     transpose_option (map_option (sqlite_attested_device c)
       (fetch_optional (filter (\<lambda>r. vr_key_id r = key_id) (t_attested_devices s))))"

definition sqlite_advance_attested_device_counter ::
  "('t, 'i) codec \<Rightarrow> string \<Rightarrow> int \<Rightarrow> datetime \<Rightarrow> (('t, 'i) database, bool) stmt" where
  "sqlite_advance_attested_device_counter c key_id counter seen_at s =
     (let (n, rows) = sql_update (\<lambda>r. vr_key_id r = key_id \<and> vr_counter r < counter)
            (\<lambda>r. r\<lparr>vr_counter := counter, vr_last_seen_at := bind_time c seen_at\<rparr>) (t_attested_devices s)
      in (Ok (n > 0), s\<lparr>t_attested_devices := rows\<rparr>))"

definition sqlite_prune_attested_devices ::
  "('t::linorder, 'i) codec \<Rightarrow> datetime \<Rightarrow> (('t, 'i) database, nat) stmt" where
  "sqlite_prune_attested_devices c idle_before s =
     (let (n, rows) = sql_delete (\<lambda>r. vr_last_seen_at r < bind_time c idle_before) (t_attested_devices s)
      in (Ok n, s\<lparr>t_attested_devices := rows\<rparr>))"

subsection \<open>The method table of \<open>SqliteStore\<close>\<close>

definition sqlite_ops ::
  "('t::linorder, 'i::linorder) codec \<Rightarrow> mailbox_quotas \<Rightarrow> ('t, 'i) database store_ops" where
  "sqlite_ops c quotas = \<lparr>
     st_create_mailbox = sqlite_create_mailbox c,
     st_get_mailbox = sqlite_get_mailbox c,
     st_mailbox_is_active = sqlite_mailbox_is_active c,
     st_extend_mailbox = sqlite_extend_mailbox c,
     st_delete_mailbox = sqlite_delete_mailbox,
     st_rotate_owner_token = sqlite_rotate_owner_token,
     st_save_message = sqlite_save_message c quotas,
     st_list_messages = sqlite_list_messages c,
     st_get_message = sqlite_get_message c,
     st_get_raw_message = sqlite_get_raw_message c,
     st_get_attachment = sqlite_get_attachment c,
     st_delete_message = sqlite_delete_message c,
     st_mark_seen = sqlite_mark_seen c,
     st_delete_all_messages = sqlite_delete_all_messages,
     st_purge_expired = sqlite_purge_expired c,
     st_add_subscription = sqlite_add_subscription c,
     st_list_subscriptions = sqlite_list_subscriptions c,
     st_delete_subscription = sqlite_delete_subscription,
     st_create_custom_domain = sqlite_create_custom_domain c,
     st_get_custom_domain = sqlite_get_custom_domain c,
     st_delete_custom_domain = sqlite_delete_custom_domain,
     st_custom_domain_is_verified = sqlite_custom_domain_is_verified,
     st_record_custom_domain_check = sqlite_record_custom_domain_check c,
     st_list_custom_domains_to_recheck = sqlite_list_custom_domains_to_recheck c,
     st_upsert_attested_device = sqlite_upsert_attested_device c,
     st_get_attested_device = sqlite_get_attested_device c,
     st_advance_attested_device_counter = sqlite_advance_attested_device_counter c,
     st_prune_attested_devices = sqlite_prune_attested_devices c,
     st_count_active_mailboxes_by_device = sqlite_count_active_mailboxes_by_device c,
     st_run_maintenance = sqlite_run_maintenance,
     st_ping = sqlite_ping\<rparr>"

end
