(* ===== verification/Sql_View.thy ===== *)
theory Sql_View
  imports Sqlite_Store Store_Contract
begin

text \<open>
  What a database means: the invariant \<open>db_inv\<close> that the schema's constraints maintain (keys are
  unique, references point to rows, every column holds a value that was bound by the store) and the
  view \<open>db_view\<close> of the stored data, with the effect of each statement on both.

  \<open>codec_ok T c\<close> says what the stores rely on in the driver: a bound timestamp of the domain \<open>T\<close> reads
  back as it was and the column orders timestamps as time does; the same for identifiers.
\<close>

definition codec_ok :: "(datetime \<Rightarrow> bool) \<Rightarrow> ('t::linorder, 'i::linorder) codec \<Rightarrow> bool" where
  "codec_ok T c \<longleftrightarrow>
     (\<forall>t. T t \<longrightarrow> read_time c (bind_time c t) = Some t) \<and>
     (\<forall>t u. T t \<longrightarrow> T u \<longrightarrow> (bind_time c t < bind_time c u \<longleftrightarrow> t < u)) \<and>
     (\<forall>i. read_id c (bind_id c i) = Some i) \<and>
     (\<forall>i j. bind_id c i < bind_id c j \<longleftrightarrow> i < j)"

subsection \<open>Decoded rows\<close>

definition dec_time :: "('t, 'i) codec \<Rightarrow> 't \<Rightarrow> datetime" where
  "dec_time c x = the (read_time c x)"

definition dec_id :: "('t, 'i) codec \<Rightarrow> 'i \<Rightarrow> uuid" where
  "dec_id c x = the (read_id c x)"

definition dec_mailbox :: "('t, 'i) codec \<Rightarrow> 't mailbox_rec \<Rightarrow> mailbox" where
  "dec_mailbox c r = \<lparr>mb_address = mr_address r, mb_domain = mr_domain r,
     mb_created_at = dec_time c (mr_created_at r), mb_expires_at = dec_time c (mr_expires_at r),
     mb_owner_token_hash = mr_owner_token_hash r, mb_creator_device_hash = mr_creator_device_hash r\<rparr>"

definition dec_meta :: "('t, 'i) codec \<Rightarrow> 'i attachment_rec \<Rightarrow> attachment_meta" where
  "dec_meta c a = \<lparr>am_id = dec_id c (ac_id a), am_filename = ac_filename a,
     am_content_type = ac_content_type a, am_size = ac_size a\<rparr>"

definition dec_message ::
  "('t, 'i) codec \<Rightarrow> ('t, 'i) message_rec \<Rightarrow> attachment_meta list \<Rightarrow> stored_message" where
  "dec_message c m metas = \<lparr>sm_id = dec_id c (mg_id m), sm_mailbox_address = mg_mailbox_address m,
     sm_mail_from = mg_mail_from m, sm_subject = mg_subject m,
     sm_message_date = map_option (dec_time c) (mg_message_date m), sm_text_body = mg_text_body m,
     sm_html_body = mg_html_body m, sm_raw_size = mg_raw_size m,
     sm_received_at = dec_time c (mg_received_at m), sm_seen = mg_seen m, sm_attachments = metas\<rparr>"

definition attachments_of :: "'i attachment_rec list \<Rightarrow> ('t, 'i) message_rec \<Rightarrow> 'i attachment_rec list" where
  "attachments_of atts m = filter (\<lambda>x. ac_message_id x = mg_id m) atts"

definition dec_entry :: "('t, 'i) codec \<Rightarrow> 'i attachment_rec list \<Rightarrow> ('t, 'i) message_rec \<Rightarrow> ventry" where
  "dec_entry c atts m =
     \<lparr>ve_message = canon_message (dec_message c m (map (dec_meta c) (attachments_of atts m))),
      ve_content = (\<lambda>j. map_option ac_content (find (\<lambda>x. ac_id x = bind_id c j) (attachments_of atts m))),
      ve_raw = mg_raw_content m\<rparr>"

definition dec_sub :: "('t, 'i) codec \<Rightarrow> ('t, 'i) subscription_rec \<Rightarrow> push_subscription" where
  "dec_sub c r = \<lparr>ps_id = dec_id c (sr_id r), ps_mailbox_address = sr_mailbox_address r,
     ps_kind = (if sr_kind r = ''apns'' then Apns else WebPush), ps_endpoint = sr_endpoint r,
     ps_p256dh = sr_p256dh r, ps_auth = sr_auth r, ps_created_at = dec_time c (sr_created_at r)\<rparr>"

definition dec_domain :: "('t, 'i) codec \<Rightarrow> 't domain_rec \<Rightarrow> custom_domain" where
  "dec_domain c r = \<lparr>cd_domain = dr_domain r,
     cd_status = (if dr_status r = ''verified'' then Verified else if dr_status r = ''failed'' then Failed
       else Pending),
     cd_claim_token_hash = dr_claim_token_hash r, cd_txt_token = dr_txt_token r,
     cd_created_at = dec_time c (dr_created_at r),
     cd_verified_at = map_option (dec_time c) (dr_verified_at r),
     cd_last_checked_at = map_option (dec_time c) (dr_last_checked_at r)\<rparr>"

definition dec_device :: "('t, 'i) codec \<Rightarrow> 't device_rec \<Rightarrow> attested_device" where
  "dec_device c r = \<lparr>ad_key_id = vr_key_id r, ad_public_key = vr_public_key r,
     ad_counter = vr_counter r, ad_created_at = dec_time c (vr_created_at r),
     ad_last_seen_at = dec_time c (vr_last_seen_at r)\<rparr>"

definition find_message ::
  "('t, 'i) codec \<Rightarrow> string \<Rightarrow> uuid \<Rightarrow> ('t, 'i) message_rec list \<Rightarrow> ('t, 'i) message_rec option" where
  "find_message c a i ms = find (\<lambda>m. mg_mailbox_address m = a \<and> mg_id m = bind_id c i) ms"

definition find_srec ::
  "string \<Rightarrow> string \<Rightarrow> ('t, 'i) subscription_rec list \<Rightarrow> ('t, 'i) subscription_rec option" where
  "find_srec a ep rs = find (\<lambda>r. sr_mailbox_address r = a \<and> sr_endpoint r = ep) rs"

definition db_view :: "('t, 'i) codec \<Rightarrow> ('t, 'i) database \<Rightarrow> sview" where
  "db_view c s = \<lparr>
     v_mailbox = (\<lambda>a. map_option (dec_mailbox c) (find (\<lambda>r. mr_address r = a) (t_mailboxes s))),
     v_entry = (\<lambda>a i. map_option (dec_entry c (t_attachments s)) (find_message c a i (t_messages s))),
     v_sub = (\<lambda>a ep. map_option (dec_sub c) (find_srec a ep (t_push_subscriptions s))),
     v_domain = (\<lambda>d. map_option (dec_domain c) (find (\<lambda>r. dr_domain r = d) (t_custom_domains s))),
     v_device = (\<lambda>k. map_option (dec_device c) (find (\<lambda>r. vr_key_id r = k) (t_attested_devices s)))\<rparr>"

lemma db_view_simps [simp]:
  "v_mailbox (db_view c s) a = map_option (dec_mailbox c) (find (\<lambda>r. mr_address r = a) (t_mailboxes s))"
  "v_entry (db_view c s) a i = map_option (dec_entry c (t_attachments s)) (find_message c a i (t_messages s))"
  "v_sub (db_view c s) a ep = map_option (dec_sub c) (find_srec a ep (t_push_subscriptions s))"
  "v_domain (db_view c s) d = map_option (dec_domain c) (find (\<lambda>r. dr_domain r = d) (t_custom_domains s))"
  "v_device (db_view c s) k = map_option (dec_device c) (find (\<lambda>r. vr_key_id r = k) (t_attested_devices s))"
  by (simp_all add: db_view_def)

subsection \<open>The invariant\<close>

definition time_col :: "(datetime \<Rightarrow> bool) \<Rightarrow> ('t, 'i) codec \<Rightarrow> 't \<Rightarrow> bool" where
  "time_col T c x \<longleftrightarrow> (\<exists>t. T t \<and> x = bind_time c t)"

definition opt_time_col :: "(datetime \<Rightarrow> bool) \<Rightarrow> ('t, 'i) codec \<Rightarrow> 't option \<Rightarrow> bool" where
  "opt_time_col T c x \<longleftrightarrow> (\<forall>y. x = Some y \<longrightarrow> time_col T c y)"

definition id_col :: "('t, 'i) codec \<Rightarrow> 'i \<Rightarrow> bool" where
  "id_col c x \<longleftrightarrow> (\<exists>i. x = bind_id c i)"

definition mailbox_wf :: "(datetime \<Rightarrow> bool) \<Rightarrow> ('t, 'i) codec \<Rightarrow> 't mailbox_rec \<Rightarrow> bool" where
  "mailbox_wf T c r \<longleftrightarrow> time_col T c (mr_created_at r) \<and> time_col T c (mr_expires_at r)"

definition message_wf :: "(datetime \<Rightarrow> bool) \<Rightarrow> ('t, 'i) codec \<Rightarrow> ('t, 'i) message_rec \<Rightarrow> bool" where
  "message_wf T c m \<longleftrightarrow> id_col c (mg_id m) \<and> opt_time_col T c (mg_message_date m) \<and>
     time_col T c (mg_received_at m) \<and> mg_raw_size m \<ge> 0"

definition sub_wf :: "(datetime \<Rightarrow> bool) \<Rightarrow> ('t, 'i) codec \<Rightarrow> ('t, 'i) subscription_rec \<Rightarrow> bool" where
  "sub_wf T c r \<longleftrightarrow> id_col c (sr_id r) \<and> time_col T c (sr_created_at r) \<and>
     sr_kind r \<in> {''webpush'', ''apns''}"

definition domain_wf :: "(datetime \<Rightarrow> bool) \<Rightarrow> ('t, 'i) codec \<Rightarrow> 't domain_rec \<Rightarrow> bool" where
  "domain_wf T c r \<longleftrightarrow> time_col T c (dr_created_at r) \<and> opt_time_col T c (dr_verified_at r) \<and>
     opt_time_col T c (dr_last_checked_at r) \<and> dr_status r \<in> {''pending'', ''verified'', ''failed''}"

definition device_wf :: "(datetime \<Rightarrow> bool) \<Rightarrow> ('t, 'i) codec \<Rightarrow> 't device_rec \<Rightarrow> bool" where
  "device_wf T c r \<longleftrightarrow> time_col T c (vr_created_at r) \<and> time_col T c (vr_last_seen_at r)"

definition keys_ok :: "('t, 'i) database \<Rightarrow> bool" where
  "keys_ok s \<longleftrightarrow> distinct (map mr_address (t_mailboxes s)) \<and> distinct (map mg_id (t_messages s)) \<and>
     distinct (map ac_id (t_attachments s)) \<and> distinct (map sr_id (t_push_subscriptions s)) \<and>
     distinct (map sr_key (t_push_subscriptions s)) \<and> distinct (map dr_domain (t_custom_domains s)) \<and>
     distinct (map vr_key_id (t_attested_devices s))"

definition refs_ok :: "('t, 'i) database \<Rightarrow> bool" where
  "refs_ok s \<longleftrightarrow>
     (\<forall>m\<in>set (t_messages s). mg_mailbox_address m \<in> mr_address ` set (t_mailboxes s)) \<and>
     (\<forall>a\<in>set (t_attachments s). ac_message_id a \<in> mg_id ` set (t_messages s)) \<and>
     (\<forall>p\<in>set (t_push_subscriptions s). sr_mailbox_address p \<in> mr_address ` set (t_mailboxes s))"

definition rows_ok :: "(datetime \<Rightarrow> bool) \<Rightarrow> ('t, 'i) codec \<Rightarrow> ('t, 'i) database \<Rightarrow> bool" where
  "rows_ok T c s \<longleftrightarrow> (\<forall>r\<in>set (t_mailboxes s). mailbox_wf T c r) \<and>
     (\<forall>m\<in>set (t_messages s). message_wf T c m) \<and>
     (\<forall>a\<in>set (t_attachments s). id_col c (ac_id a)) \<and>
     (\<forall>p\<in>set (t_push_subscriptions s). sub_wf T c p) \<and>
     (\<forall>r\<in>set (t_custom_domains s). domain_wf T c r) \<and>
     (\<forall>r\<in>set (t_attested_devices s). device_wf T c r)"

definition db_inv :: "(datetime \<Rightarrow> bool) \<Rightarrow> ('t, 'i) codec \<Rightarrow> ('t, 'i) database \<Rightarrow> bool" where
  "db_inv T c s \<longleftrightarrow> keys_ok s \<and> refs_ok s \<and> rows_ok T c s"

lemmas db_inv_defs = db_inv_def keys_ok_def refs_ok_def rows_ok_def

lemma db_inv_empty: "db_inv T c empty_database"
  by (simp add: db_inv_defs empty_database_def)

subsection \<open>Codecs\<close>

lemma codec_okD:
  assumes "codec_ok T c"
  shows "T t \<Longrightarrow> read_time c (bind_time c t) = Some t" "read_id c (bind_id c i) = Some i"
    "T t \<Longrightarrow> dec_time c (bind_time c t) = t" "dec_id c (bind_id c i) = i"
    "bind_id c i = bind_id c j \<longleftrightarrow> i = j" "bind_id c i < bind_id c j \<longleftrightarrow> i < j"
    "bind_id c i \<le> bind_id c j \<longleftrightarrow> i \<le> j"
    "T t \<Longrightarrow> T u \<Longrightarrow> bind_time c t < bind_time c u \<longleftrightarrow> t < u"
    "T t \<Longrightarrow> T u \<Longrightarrow> bind_time c t \<le> bind_time c u \<longleftrightarrow> t \<le> u"
    "T t \<Longrightarrow> T u \<Longrightarrow> bind_time c t = bind_time c u \<longleftrightarrow> t = u"
proof -
  show "T t \<Longrightarrow> read_time c (bind_time c t) = Some t" "read_id c (bind_id c i) = Some i"
    "T t \<Longrightarrow> dec_time c (bind_time c t) = t" "dec_id c (bind_id c i) = i"
    and lt: "bind_id c i < bind_id c j \<longleftrightarrow> i < j" for i j
    using assms by (auto simp: codec_ok_def dec_time_def dec_id_def)
  show ti: "T t \<Longrightarrow> T u \<Longrightarrow> bind_time c t < bind_time c u \<longleftrightarrow> t < u" for t u
    using assms by (simp add: codec_ok_def)
  show "T t \<Longrightarrow> T u \<Longrightarrow> bind_time c t = bind_time c u \<longleftrightarrow> t = u"
    by (metis ti less_irrefl linorder_neqE)
  show "T t \<Longrightarrow> T u \<Longrightarrow> bind_time c t \<le> bind_time c u \<longleftrightarrow> t \<le> u"
    using ti [of u t] by (simp add: linorder_not_less [symmetric])
  show "bind_id c i = bind_id c j \<longleftrightarrow> i = j" by (metis lt less_irrefl linorder_neqE)
  show "bind_id c i \<le> bind_id c j \<longleftrightarrow> i \<le> j" using lt [of j i] by (simp add: linorder_not_less [symmetric])
qed

lemma time_colI: "T t \<Longrightarrow> time_col T c (bind_time c t)"
  by (auto simp: time_col_def)

lemma id_colI: "id_col c (bind_id c i)"
  by (auto simp: id_col_def)

lemma opt_time_col_simps [simp]:
  "opt_time_col T c None" "opt_time_col T c (Some x) \<longleftrightarrow> time_col T c x"
  by (simp_all add: opt_time_col_def)

lemma opt_time_col_bind: "(\<And>t. x = Some t \<Longrightarrow> T t) \<Longrightarrow> opt_time_col T c (map_option (bind_time c) x)"
  by (cases x) (auto intro: time_colI)

lemma decode_time_col: "codec_ok T c \<Longrightarrow> time_col T c x \<Longrightarrow> decode_time c x = Ok (dec_time c x)"
  by (auto simp: time_col_def decode_time_def codec_okD ok_or_def)

lemma decode_time_opt_col:
  "codec_ok T c \<Longrightarrow> opt_time_col T c x \<Longrightarrow> decode_time_opt c x = Ok (map_option (dec_time c) x)"
  by (cases x) (auto simp: decode_time_opt_def decode_time_col)

lemma parse_id_col: "codec_ok T c \<Longrightarrow> id_col c x \<Longrightarrow> sqlite_parse_uuid c x = Ok (dec_id c x)"
  by (auto simp: id_col_def sqlite_parse_uuid_def codec_okD ok_or_def)

lemma id_col_dec: "codec_ok T c \<Longrightarrow> id_col c x \<Longrightarrow> bind_id c (dec_id c x) = x"
  by (auto simp: id_col_def codec_okD)

lemma dec_id_eq: "codec_ok T c \<Longrightarrow> id_col c x \<Longrightarrow> dec_id c x = i \<longleftrightarrow> x = bind_id c i"
  by (auto simp: id_col_def codec_okD)

lemma dec_id_order:
  assumes "codec_ok T c" "id_col c x" "id_col c y"
  shows "dec_id c x < dec_id c y \<longleftrightarrow> x < y" "dec_id c x \<le> dec_id c y \<longleftrightarrow> x \<le> y" "dec_id c x = dec_id c y \<longleftrightarrow> x = y"
  using assms by (auto simp: id_col_def codec_okD)

lemma dec_time_order:
  assumes "codec_ok T c" "time_col T c x" "time_col T c y"
  shows "dec_time c x < dec_time c y \<longleftrightarrow> x < y" "dec_time c x \<le> dec_time c y \<longleftrightarrow> x \<le> y"
    "dec_time c x = dec_time c y \<longleftrightarrow> x = y"
  using assms by (auto simp: time_col_def codec_okD)

lemma dec_time_cmp:
  assumes "codec_ok T c" "time_col T c x" "T t"
  shows "x < bind_time c t \<longleftrightarrow> dec_time c x < t" "bind_time c t < x \<longleftrightarrow> t < dec_time c x"
    "x \<le> bind_time c t \<longleftrightarrow> dec_time c x \<le> t"
  using assms by (auto simp: time_col_def codec_okD)

subsection \<open>Queries and row conversions\<close>

lemma fetch_optional_filter: "fetch_optional (filter P rows) = find P rows"
  by (induction rows) (auto simp: fetch_optional_def)

lemma sql_exists_find: "sql_exists P rows \<longleftrightarrow> find P rows \<noteq> None"
  by (simp add: sql_exists_def find_None_filter)

lemma collect_results_map:
  "(\<And>x. x \<in> set xs \<Longrightarrow> f x = Ok (g x)) \<Longrightarrow> collect_results (map f xs) = Ok (map g xs)"
  by (induction xs) auto

lemma transpose_find:
  "(\<And>x. x \<in> set xs \<Longrightarrow> f x = Ok (g x)) \<Longrightarrow>
   transpose_option (map_option f (find P xs)) = Ok (map_option g (find P xs))"
  by (cases "find P xs") (auto dest: find_SomeD)

lemma mailbox_conv: "codec_ok T c \<Longrightarrow> mailbox_wf T c r \<Longrightarrow> sqlite_mailbox c r = Ok (dec_mailbox c r)"
  by (simp add: sqlite_mailbox_def dec_mailbox_def mailbox_wf_def decode_time_col)

lemma device_conv:
  "codec_ok T c \<Longrightarrow> device_wf T c r \<Longrightarrow> sqlite_attested_device c r = Ok (dec_device c r)"
  by (simp add: sqlite_attested_device_def dec_device_def device_wf_def decode_time_col)

lemma meta_conv:
  "codec_ok T c \<Longrightarrow> id_col c (ac_id a) \<Longrightarrow> sqlite_attachment_meta c a = Ok (dec_meta c a)"
  by (simp add: sqlite_attachment_meta_def dec_meta_def parse_id_col)

lemma message_conv:
  "codec_ok T c \<Longrightarrow> message_wf T c m \<Longrightarrow> sqlite_message c m metas = Ok (dec_message c m metas)"
  by (simp add: sqlite_message_def dec_message_def message_wf_def decode_time_col decode_time_opt_col
      parse_id_col)

lemma sub_conv: "codec_ok T c \<Longrightarrow> sub_wf T c r \<Longrightarrow> sqlite_push_subscription c r = Ok (dec_sub c r)"
  by (auto simp: sqlite_push_subscription_def dec_sub_def sub_wf_def decode_time_col parse_id_col
      kind_from_str_def)

lemma domain_conv: "codec_ok T c \<Longrightarrow> domain_wf T c r \<Longrightarrow> sqlite_custom_domain c r = Ok (dec_domain c r)"
  by (auto simp: sqlite_custom_domain_def dec_domain_def domain_wf_def decode_time_col
      decode_time_opt_col status_from_str_def)

lemma dec_sub_simps [simp]:
  "ps_mailbox_address (dec_sub c r) = sr_mailbox_address r" "ps_endpoint (dec_sub c r) = sr_endpoint r"
  "ps_id (dec_sub c r) = dec_id c (sr_id r)"
  by (simp_all add: dec_sub_def)

lemma dec_mailbox_simps [simp]:
  "mb_address (dec_mailbox c r) = mr_address r" "mb_expires_at (dec_mailbox c r) = dec_time c (mr_expires_at r)"
  "mb_creator_device_hash (dec_mailbox c r) = mr_creator_device_hash r"
  by (simp_all add: dec_mailbox_def)

lemma dec_domain_simps [simp]: "cd_domain (dec_domain c r) = dr_domain r"
  by (simp add: dec_domain_def)

lemma dec_message_simps [simp]:
  "sm_id (dec_message c m ms) = dec_id c (mg_id m)"
  "sm_mailbox_address (dec_message c m ms) = mg_mailbox_address m"
  "sm_received_at (dec_message c m ms) = dec_time c (mg_received_at m)"
  "sm_raw_size (dec_message c m ms) = mg_raw_size m"
  "sm_attachments (dec_message c m ms) = ms"
  by (simp_all add: dec_message_def)

lemma ve_message_dec_entry [simp]:
  "ve_message (dec_entry c atts m) = canon_message (dec_message c m (map (dec_meta c) (attachments_of atts m)))"
  by (simp add: dec_entry_def)

subsection \<open>Looking up rows\<close>

lemma find_key:
  "distinct (map k rows) \<Longrightarrow> find (\<lambda>r. k r = x) rows = Some r \<longleftrightarrow> r \<in> set rows \<and> k r = x"
  by (rule find_unique_eq_Some) (auto dest: distinct_mapD)

lemma find_key_filter:
  "distinct (map k rows) \<Longrightarrow> find (\<lambda>r. k r = x) (filter P rows) =
    (case find (\<lambda>r. k r = x) rows of None \<Rightarrow> None | Some r \<Rightarrow> if P r then Some r else None)"
  by (rule find_filter_unique) (auto dest: distinct_mapD)

lemma find_none_key: "find (\<lambda>r. k r = x) rows = None \<longleftrightarrow> x \<notin> k ` set rows"
  by (auto simp: find_None_iff)

lemma find_conj_key:
  assumes "distinct (map k rows)"
  shows "find (\<lambda>r. k r = x \<and> Q r) rows =
    (case find (\<lambda>r. k r = x) rows of None \<Rightarrow> None | Some r \<Rightarrow> if Q r then Some r else None)"
  using assms
proof (induction rows)
  case (Cons r rows)
  then have "find (\<lambda>y. k y = k r) rows = None" by (simp add: find_none_key)
  with Cons show ?case by auto
qed simp

lemma find_update:
  "(\<And>r. R (f r) \<longleftrightarrow> R r) \<Longrightarrow>
   find R (snd (sql_update P f rows)) = map_option (\<lambda>r. if P r then f r else r) (find R rows)"
  unfolding sql_update_def snd_conv by (rule find_map_preserving) simp

lemma map_key_update: "(\<And>r. k (f r) = k r) \<Longrightarrow> map k (snd (sql_update P f rows)) = map k rows"
  by (simp add: sql_update_def)

lemma set_update:
  "r \<in> set (snd (sql_update P f rows)) \<longleftrightarrow> (\<exists>x\<in>set rows. r = (if P x then f x else x))"
  by (auto simp: sql_update_def)

lemma update_affected:
  "fst (sql_update P f rows) > 0 \<longleftrightarrow> find P rows \<noteq> None"
  "fst (sql_update P f rows) = 0 \<longleftrightarrow> find P rows = None"
  by (simp_all add: sql_update_def find_None_filter)

lemma sql_delete_simps [simp]:
  "fst (sql_delete P rows) = length (filter P rows)" "snd (sql_delete P rows) = filter (\<lambda>r. \<not> P r) rows"
  by (simp_all add: sql_delete_def)

lemma delete_affected: "length (filter P rows) > 0 \<longleftrightarrow> find P rows \<noteq> None"
  by (simp add: find_None_filter)

lemma card_keys:
  assumes "distinct (map k rows)"
  shows "card {x. \<exists>r. find (\<lambda>r. k r = x) rows = Some r \<and> P r} = length (filter P rows)"
proof -
  have "{x. \<exists>r. find (\<lambda>r. k r = x) rows = Some r \<and> P r} = set (map k (filter P rows))"
    using find_key [OF assms] by (auto simp: image_iff)
  then show ?thesis using assms by (metis distinct_card distinct_map_filter length_map)
qed

lemma db_inv_keys:
  assumes "db_inv T c s"
  shows "distinct (map mr_address (t_mailboxes s))" "distinct (map mg_id (t_messages s))"
    "distinct (map ac_id (t_attachments s))" "distinct (map sr_id (t_push_subscriptions s))"
    "distinct (map sr_key (t_push_subscriptions s))" "distinct (map dr_domain (t_custom_domains s))"
    "distinct (map vr_key_id (t_attested_devices s))"
  using assms by (simp_all add: db_inv_def keys_ok_def)

lemma db_inv_rows:
  assumes "db_inv T c s"
  shows "r \<in> set (t_mailboxes s) \<Longrightarrow> mailbox_wf T c r" "m \<in> set (t_messages s) \<Longrightarrow> message_wf T c m"
    "a \<in> set (t_attachments s) \<Longrightarrow> id_col c (ac_id a)" "p \<in> set (t_push_subscriptions s) \<Longrightarrow> sub_wf T c p"
    "d \<in> set (t_custom_domains s) \<Longrightarrow> domain_wf T c d" "v \<in> set (t_attested_devices s) \<Longrightarrow> device_wf T c v"
  using assms by (simp_all add: db_inv_def rows_ok_def)

lemma find_message_D:
  "find_message c a i ms = Some m \<Longrightarrow> m \<in> set ms \<and> mg_mailbox_address m = a \<and> mg_id m = bind_id c i"
  unfolding find_message_def by (drule find_SomeD) simp

lemma find_message_Some:
  "distinct (map mg_id ms) \<Longrightarrow>
   find_message c a i ms = Some m \<longleftrightarrow> m \<in> set ms \<and> mg_mailbox_address m = a \<and> mg_id m = bind_id c i"
  unfolding find_message_def by (rule find_unique_eq_Some) (auto dest: distinct_mapD)

lemma find_message_filter:
  "distinct (map mg_id ms) \<Longrightarrow> find_message c a i (filter P ms) =
    (case find_message c a i ms of None \<Rightarrow> None | Some m \<Rightarrow> if P m then Some m else None)"
  unfolding find_message_def by (rule find_filter_unique) (auto dest: distinct_mapD)

lemma find_srec_D: "find_srec a ep rs = Some r \<Longrightarrow> r \<in> set rs \<and> sr_mailbox_address r = a \<and> sr_endpoint r = ep"
  unfolding find_srec_def by (drule find_SomeD) simp

lemma find_srec_Some:
  "distinct (map sr_key rs) \<Longrightarrow>
   find_srec a ep rs = Some r \<longleftrightarrow> r \<in> set rs \<and> sr_mailbox_address r = a \<and> sr_endpoint r = ep"
  unfolding find_srec_def by (rule find_unique_eq_Some) (auto dest: distinct_mapD simp: sr_key_def)

lemma find_srec_filter:
  "distinct (map sr_key rs) \<Longrightarrow> find_srec a ep (filter P rs) =
    (case find_srec a ep rs of None \<Rightarrow> None | Some r \<Rightarrow> if P r then Some r else None)"
  unfolding find_srec_def by (rule find_filter_unique) (auto dest: distinct_mapD simp: sr_key_def)

subsection \<open>Deleting\<close>

lemma snd_delete_messages:
  "snd (delete_messages P s) = s\<lparr>t_messages := filter (\<lambda>m. \<not> P m) (t_messages s),
     t_attachments := filter (\<lambda>x. ac_message_id x \<notin> mg_id ` {m \<in> set (t_messages s). P m}) (t_attachments s)\<rparr>"
  by (simp add: delete_messages_def sql_delete_def Let_def)

lemma fst_delete_messages: "fst (delete_messages P s) = length (filter P (t_messages s))"
  by (simp add: delete_messages_def sql_delete_def Let_def)

lemma snd_delete_mailboxes:
  "snd (delete_mailboxes P s) =
    (let gone = mr_address ` {r \<in> set (t_mailboxes s). P r};
         s1 = snd (delete_messages (\<lambda>m. mg_mailbox_address m \<in> gone) s)
     in s1\<lparr>t_mailboxes := filter (\<lambda>r. \<not> P r) (t_mailboxes s),
           t_push_subscriptions := filter (\<lambda>p. sr_mailbox_address p \<notin> gone) (t_push_subscriptions s)\<rparr>)"
  by (simp add: delete_mailboxes_def sql_delete_def Let_def snd_delete_messages)

lemma fst_delete_mailboxes: "fst (delete_mailboxes P s) = length (filter P (t_mailboxes s))"
  by (simp add: delete_mailboxes_def sql_delete_def Let_def)

lemma attachments_of_kept:
  assumes "distinct (map mg_id ms)" "m \<in> set ms" "\<not> P m"
  shows "attachments_of (filter (\<lambda>x. ac_message_id x \<notin> mg_id ` {m \<in> set ms. P m}) atts) m = attachments_of atts m"
  using assms unfolding attachments_of_def filter_filter
  by (intro filter_cong) (auto dest: distinct_mapD)

lemma dec_entry_kept:
  assumes "distinct (map mg_id ms)" "m \<in> set ms" "\<not> P m"
  shows "dec_entry c (filter (\<lambda>x. ac_message_id x \<notin> mg_id ` {m \<in> set ms. P m}) atts) m = dec_entry c atts m"
  by (simp add: dec_entry_def attachments_of_kept [of ms m P, OF assms])

lemma image_left:
  "x \<in> k ` set rows \<Longrightarrow> x \<notin> k ` {r \<in> set rows. P r} \<Longrightarrow> x \<in> k ` set (filter (\<lambda>r. \<not> P r) rows)"
  by auto

lemma delete_messages_inv:
  assumes "db_inv T c s"
  shows "db_inv T c (snd (delete_messages P s))"
proof -
  have "ac_message_id a \<in> mg_id ` set (filter (\<lambda>m. \<not> P m) (t_messages s))"
    if "a \<in> set (t_attachments s)" "ac_message_id a \<notin> mg_id ` {m \<in> set (t_messages s). P m}" for a
    using that assms by (intro image_left) (auto simp: db_inv_def refs_ok_def)
  then show ?thesis
    using assms unfolding snd_delete_messages db_inv_def keys_ok_def rows_ok_def
    by (auto simp: distinct_map_filter refs_ok_def)
qed

lemma delete_messages_entry:
  assumes "db_inv T c s"
  shows "v_entry (db_view c (snd (delete_messages P s))) a i =
    (case find_message c a i (t_messages s) of None \<Rightarrow> None
     | Some m \<Rightarrow> if P m then None else Some (dec_entry c (t_attachments s) m))"
  using dec_entry_kept [OF db_inv_keys(2) [OF assms], of _ P c "t_attachments s"]
  by (auto simp: snd_delete_messages find_message_filter [OF db_inv_keys(2) [OF assms]]
      dest: find_message_D split: option.split)

lemma delete_messages_other [simp]:
  "t_mailboxes (snd (delete_messages P s)) = t_mailboxes s"
  "t_push_subscriptions (snd (delete_messages P s)) = t_push_subscriptions s"
  "t_custom_domains (snd (delete_messages P s)) = t_custom_domains s"
  "t_attested_devices (snd (delete_messages P s)) = t_attested_devices s"
  by (simp_all add: snd_delete_messages)

lemma delete_mailboxes_inv:
  assumes inv: "db_inv T c s"
  shows "db_inv T c (snd (delete_mailboxes P s))"
proof -
  let ?gone = "mr_address ` {r \<in> set (t_mailboxes s). P r}"
  let ?s1 = "snd (delete_messages (\<lambda>m. mg_mailbox_address m \<in> ?gone) s)"
  let ?s2 = "snd (delete_mailboxes P s)"
  have inv1: "db_inv T c ?s1" by (rule delete_messages_inv [OF inv])
  have eqs: "t_messages ?s2 = t_messages ?s1" "t_attachments ?s2 = t_attachments ?s1"
    "t_mailboxes ?s2 = filter (\<lambda>r. \<not> P r) (t_mailboxes s)"
    "t_push_subscriptions ?s2 = filter (\<lambda>p. sr_mailbox_address p \<notin> ?gone) (t_push_subscriptions s)"
    "t_custom_domains ?s2 = t_custom_domains s" "t_attested_devices ?s2 = t_attested_devices s"
    by (simp_all add: snd_delete_mailboxes Let_def)
  have "\<forall>m\<in>set (t_messages ?s1). mg_mailbox_address m \<in> mr_address ` set (t_mailboxes ?s2)"
    using inv image_left [of _ mr_address "t_mailboxes s" P] unfolding eqs
    by (auto simp: snd_delete_messages db_inv_def refs_ok_def)
  moreover have "\<forall>p\<in>set (t_push_subscriptions ?s2). sr_mailbox_address p \<in> mr_address ` set (t_mailboxes ?s2)"
    using inv image_left [of _ mr_address "t_mailboxes s" P] unfolding eqs
    by (auto simp: db_inv_def refs_ok_def)
  ultimately have "refs_ok ?s2" using inv1 by (simp add: db_inv_def refs_ok_def eqs(1,2))
  moreover have "keys_ok ?s2" "rows_ok T c ?s2"
    using inv inv1 unfolding db_inv_def keys_ok_def rows_ok_def eqs by (auto simp: distinct_map_filter)
  ultimately show ?thesis by (simp add: db_inv_def)
qed

lemma delete_mailboxes_view:
  assumes inv: "db_inv T c s"
  shows "db_view c (snd (delete_mailboxes P s)) =
    forget_mailboxes (mr_address ` {r \<in> set (t_mailboxes s). P r}) (db_view c s)"
    (is "_ = forget_mailboxes ?gone _")
proof (rule sview_eqI)
  show "v_mailbox (db_view c (snd (delete_mailboxes P s))) = v_mailbox (forget_mailboxes ?gone (db_view c s))"
  proof
    fix a
    show "v_mailbox (db_view c (snd (delete_mailboxes P s))) a = v_mailbox (forget_mailboxes ?gone (db_view c s)) a"
    proof (cases "find (\<lambda>r. mr_address r = a) (t_mailboxes s)")
      case (Some r)
      then have "a \<in> ?gone \<longleftrightarrow> P r"
        by (auto dest!: find_SomeD dest: distinct_mapD [OF db_inv_keys(1) [OF inv]])
      with Some show ?thesis
        by (simp add: snd_delete_mailboxes Let_def find_key_filter [OF db_inv_keys(1) [OF inv]]
            forget_mailboxes_def)
    qed (simp add: snd_delete_mailboxes Let_def find_key_filter [OF db_inv_keys(1) [OF inv]]
            forget_mailboxes_def)
  qed
next
  fix a i
  let ?s1 = "snd (delete_messages (\<lambda>m. mg_mailbox_address m \<in> ?gone) s)"
  have "v_entry (db_view c (snd (delete_mailboxes P s))) a i = v_entry (db_view c ?s1) a i"
    by (simp add: snd_delete_mailboxes Let_def)
  then show "v_entry (db_view c (snd (delete_mailboxes P s))) a i = v_entry (forget_mailboxes ?gone (db_view c s)) a i"
    unfolding delete_messages_entry [OF inv]
    by (cases "find_message c a i (t_messages s)") (auto simp: forget_mailboxes_def dest: find_message_D)
next
  fix a ep
  show "v_sub (db_view c (snd (delete_mailboxes P s))) a ep = v_sub (forget_mailboxes ?gone (db_view c s)) a ep"
    by (cases "find_srec a ep (t_push_subscriptions s)")
      (auto simp: snd_delete_mailboxes Let_def forget_mailboxes_def find_srec_filter [OF db_inv_keys(5) [OF inv]]
        dest: find_srec_D)
qed (simp_all add: snd_delete_mailboxes Let_def forget_mailboxes_def db_view_def)

end
