(* ===== verification/Sql_Store_Correct.thy ===== *)
theory Sql_Store_Correct
  imports Sql_View
begin

text \<open>
  Every method of the SQLite store does on the view what its specification says, for timestamps in
  the codec's domain \<open>T\<close> and messages whose \<open>raw_size\<close> is not negative. The lemmas are about any
  column types, so that the PostgreSQL store (same tables, other column types) can use them too.
\<close>

subsection \<open>Statements keep the invariant\<close>

lemma refs_image: "f ` A = f ` B \<Longrightarrow> \<forall>x\<in>B. f x \<in> S \<Longrightarrow> \<forall>x\<in>A. f x \<in> S"
  by (metis imageE imageI)

lemma db_inv_update_mailboxes:
  assumes "db_inv T c s" "\<And>r. mr_address (f r) = mr_address r" "\<And>r. mailbox_wf T c r \<Longrightarrow> mailbox_wf T c (f r)"
  shows "db_inv T c (s\<lparr>t_mailboxes := snd (sql_update P f (t_mailboxes s))\<rparr>)"
proof -
  have "mr_address ` set (snd (sql_update P f (t_mailboxes s))) = mr_address ` set (t_mailboxes s)"
    using map_key_update [of mr_address f P "t_mailboxes s", OF assms(2)] by (metis list.set_map)
  moreover have "map mr_address (snd (sql_update P f (t_mailboxes s))) = map mr_address (t_mailboxes s)"
    by (rule map_key_update) (rule assms(2))
  moreover have "\<forall>r\<in>set (snd (sql_update P f (t_mailboxes s))). mailbox_wf T c r"
    using assms(1,3) by (auto simp: set_update db_inv_def rows_ok_def)
  ultimately show ?thesis using assms(1) by (simp add: db_inv_defs)
qed

lemma db_inv_update_messages:
  assumes "db_inv T c s" "\<And>m. mg_id (f m) = mg_id m" "\<And>m. mg_mailbox_address (f m) = mg_mailbox_address m"
    "\<And>m. message_wf T c m \<Longrightarrow> message_wf T c (f m)"
  shows "db_inv T c (s\<lparr>t_messages := snd (sql_update P f (t_messages s))\<rparr>)"
proof -
  let ?ms = "snd (sql_update P f (t_messages s))"
  have "map mg_id ?ms = map mg_id (t_messages s)" by (rule map_key_update) (rule assms(2))
  moreover from this have "mg_id ` set ?ms = mg_id ` set (t_messages s)" by (metis list.set_map)
  moreover have "mg_mailbox_address ` set ?ms = mg_mailbox_address ` set (t_messages s)"
    using map_key_update [of mg_mailbox_address f P "t_messages s", OF assms(3)] by (metis list.set_map)
  then have "\<forall>m\<in>set ?ms. mg_mailbox_address m \<in> mr_address ` set (t_mailboxes s)"
    by (rule refs_image) (use assms(1) in \<open>simp add: db_inv_def refs_ok_def\<close>)
  moreover have "\<forall>m\<in>set ?ms. message_wf T c m"
    using assms(1,4) by (auto simp: set_update db_inv_def rows_ok_def)
  ultimately show ?thesis using assms(1) by (simp add: db_inv_defs)
qed

lemma db_inv_update_subs:
  assumes "db_inv T c s" "\<And>p. sr_id (f p) = sr_id p" "\<And>p. sr_key (f p) = sr_key p"
    "\<And>p. sub_wf T c p \<Longrightarrow> sub_wf T c (f p)"
  shows "db_inv T c (s\<lparr>t_push_subscriptions := snd (sql_update P f (t_push_subscriptions s))\<rparr>)"
proof -
  let ?ps = "snd (sql_update P f (t_push_subscriptions s))"
  have "map sr_id ?ps = map sr_id (t_push_subscriptions s)" by (rule map_key_update) (rule assms(2))
  moreover have "map sr_key ?ps = map sr_key (t_push_subscriptions s)" by (rule map_key_update) (rule assms(3))
  moreover from this have "sr_key ` set ?ps = sr_key ` set (t_push_subscriptions s)" by (metis list.set_map)
  then have "(fst \<circ> sr_key) ` set ?ps = (fst \<circ> sr_key) ` set (t_push_subscriptions s)" by (metis image_comp)
  then have "sr_mailbox_address ` set ?ps = sr_mailbox_address ` set (t_push_subscriptions s)"
    by (simp add: sr_key_def comp_def)
  then have "\<forall>p\<in>set ?ps. sr_mailbox_address p \<in> mr_address ` set (t_mailboxes s)"
    by (rule refs_image) (use assms(1) in \<open>simp add: db_inv_def refs_ok_def\<close>)
  moreover have "\<forall>p\<in>set ?ps. sub_wf T c p"
    using assms(1,4) by (auto simp: set_update db_inv_def rows_ok_def)
  ultimately show ?thesis using assms(1) by (simp add: db_inv_defs)
qed

lemma db_inv_update_domains:
  assumes "db_inv T c s" "\<And>r. dr_domain (f r) = dr_domain r" "\<And>r. domain_wf T c r \<Longrightarrow> domain_wf T c (f r)"
  shows "db_inv T c (s\<lparr>t_custom_domains := snd (sql_update P f (t_custom_domains s))\<rparr>)"
  using assms map_key_update [of dr_domain f P "t_custom_domains s", OF assms(2)]
  by (auto simp: db_inv_defs set_update)

lemma db_inv_update_devices:
  assumes "db_inv T c s" "\<And>r. vr_key_id (f r) = vr_key_id r" "\<And>r. device_wf T c r \<Longrightarrow> device_wf T c (f r)"
  shows "db_inv T c (s\<lparr>t_attested_devices := snd (sql_update P f (t_attested_devices s))\<rparr>)"
  using assms map_key_update [of vr_key_id f P "t_attested_devices s", OF assms(2)]
  by (auto simp: db_inv_defs set_update)

lemma db_inv_filter:
  assumes "db_inv T c s"
  shows "db_inv T c (s\<lparr>t_push_subscriptions := filter P (t_push_subscriptions s)\<rparr>)"
    "db_inv T c (s\<lparr>t_custom_domains := filter Q (t_custom_domains s)\<rparr>)"
    "db_inv T c (s\<lparr>t_attested_devices := filter R (t_attested_devices s)\<rparr>)"
  using assms by (auto simp: db_inv_defs distinct_map_filter)

lemmas db_inv_update = db_inv_update_mailboxes db_inv_update_messages db_inv_update_subs
  db_inv_update_domains db_inv_update_devices db_inv_filter

subsection \<open>Mailboxes\<close>

lemma sqlite_create_mailbox_refines:
  assumes ok: "codec_ok T c" and inv: "db_inv T c s" and t: "T now" "T ex"
  shows "op_refines True (db_inv T c) (db_view c) s (sqlite_create_mailbox c now a d ex ow dv s)
    (spec_create_mailbox now a d ex ow dv (db_view c s))"
proof (cases "a \<in> mr_address ` set (t_mailboxes s)")
  case True
  then have "find (\<lambda>r. mr_address r = a) (t_mailboxes s) \<noteq> None" by (simp add: find_none_key)
  with True inv show ?thesis
    by (simp add: sqlite_create_mailbox_def sql_then_def insert_mailbox_def spec_create_mailbox_def op_refines_def)
next
  case False
  let ?row = "\<lparr>mr_address = a, mr_domain = d, mr_created_at = bind_time c now, mr_expires_at = bind_time c ex,
    mr_owner_token_hash = ow, mr_creator_device_hash = dv\<rparr>"
  have none: "find (\<lambda>r. mr_address r = a) (t_mailboxes s) = None" using False by (simp add: find_none_key)
  have "db_inv T c (s\<lparr>t_mailboxes := t_mailboxes s @ [?row]\<rparr>)"
    using inv False t by (auto simp: db_inv_defs mailbox_wf_def intro: time_colI)
  moreover have "dec_mailbox c ?row = \<lparr>mb_address = a, mb_domain = d, mb_created_at = now, mb_expires_at = ex,
    mb_owner_token_hash = ow, mb_creator_device_hash = dv\<rparr>"
    using codec_okD(3) [OF ok] t by (simp add: dec_mailbox_def)
  ultimately show ?thesis
    using False none
    by (auto simp: sqlite_create_mailbox_def sql_then_def insert_mailbox_def sql_return_def
        spec_create_mailbox_def op_refines_def Let_def find_append_single split: option.split intro!: sview_eqI)
qed

lemma sqlite_get_mailbox_refines:
  "codec_ok T c \<Longrightarrow> db_inv T c s \<Longrightarrow> sqlite_get_mailbox c a s = Ok (v_mailbox (db_view c s) a)"
  by (simp add: sqlite_get_mailbox_def fetch_optional_filter)
    (rule transpose_find, auto intro: mailbox_conv db_inv_rows)

lemma sqlite_mailbox_is_active_refines:
  assumes "codec_ok T c" "db_inv T c s" "T now"
  shows "sqlite_mailbox_is_active c a now s = Ok (spec_is_active a now (db_view c s))"
  using dec_time_cmp(2) [OF assms(1) _ assms(3)] db_inv_rows(1) [OF assms(2)]
  by (auto simp: sqlite_mailbox_is_active_def sql_exists_find spec_is_active_def mailbox_wf_def
      find_conj_key [OF db_inv_keys(1) [OF assms(2)]] dest!: find_SomeD split: option.splits)

lemma update_mailbox_view:
  assumes "\<And>r. mr_address (f r) = mr_address r"
  shows "db_view c (s\<lparr>t_mailboxes := snd (sql_update (\<lambda>r. mr_address r = a) f (t_mailboxes s))\<rparr>) =
    (db_view c s)\<lparr>v_mailbox := (v_mailbox (db_view c s))
      (a := map_option (\<lambda>r. dec_mailbox c (f r)) (find (\<lambda>r. mr_address r = a) (t_mailboxes s)))\<rparr>"
  by (rule sview_eqI)
    (auto simp: find_update assms fun_eq_iff option.map_comp comp_def dest!: find_SomeD intro!: option.map_cong)

lemma sqlite_extend_mailbox_refines:
  assumes ok: "codec_ok T c" and inv: "db_inv T c s" and t: "T ex"
  shows "op_refines True (db_inv T c) (db_view c) s (sqlite_extend_mailbox c a ex s)
    (spec_extend_mailbox a ex (db_view c s))"
proof -
  let ?f = "\<lambda>r. r\<lparr>mr_expires_at := bind_time c ex\<rparr>"
  let ?s' = "s\<lparr>t_mailboxes := snd (sql_update (\<lambda>r. mr_address r = a) ?f (t_mailboxes s))\<rparr>"
  have inv': "db_inv T c ?s'"
    by (rule db_inv_update_mailboxes [OF inv]) (auto simp: mailbox_wf_def intro: time_colI t)
  have dec: "dec_mailbox c (?f r) = (dec_mailbox c r)\<lparr>mb_expires_at := ex\<rparr>" for r
    using codec_okD(3) [OF ok t] by (simp add: dec_mailbox_def)
  have view: "db_view c ?s' = (db_view c s)\<lparr>v_mailbox := (v_mailbox (db_view c s))
      (a := map_option (\<lambda>r. (dec_mailbox c r)\<lparr>mb_expires_at := ex\<rparr>)
        (find (\<lambda>r. mr_address r = a) (t_mailboxes s)))\<rparr>"
    by (subst update_mailbox_view) (simp_all add: dec)
  have "sqlite_extend_mailbox c a ex s =
      (if find (\<lambda>r. mr_address r = a) (t_mailboxes s) = None then (Ok None, ?s')
       else (Ok (v_mailbox (db_view c ?s') a), ?s'))"
    using sqlite_get_mailbox_refines [OF ok inv', of a]
    by (simp add: sqlite_extend_mailbox_def Let_def case_prod_beta update_affected)
  then show ?thesis
    using inv' view
    by (cases "find (\<lambda>r. mr_address r = a) (t_mailboxes s)")
      (auto simp: op_refines_def spec_extend_mailbox_def simp del: db_view_simps(1) simp: db_view_simps(1)
        intro!: sview_eqI)
qed

lemma sqlite_rotate_owner_token_refines:
  assumes inv: "db_inv T c s"
  shows "op_refines True (db_inv T c) (db_view c) s (sqlite_rotate_owner_token a h s)
    (spec_rotate_owner_token a h (db_view c s))"
proof -
  let ?f = "\<lambda>r. r\<lparr>mr_owner_token_hash := Some h\<rparr>"
  let ?s' = "s\<lparr>t_mailboxes := snd (sql_update (\<lambda>r. mr_address r = a) ?f (t_mailboxes s))\<rparr>"
  have inv': "db_inv T c ?s'"
    by (rule db_inv_update_mailboxes [OF inv]) (auto simp: mailbox_wf_def)
  have dec: "dec_mailbox c (?f r) = (dec_mailbox c r)\<lparr>mb_owner_token_hash := Some h\<rparr>" for r
    by (simp add: dec_mailbox_def)
  have view: "db_view c ?s' = (db_view c s)\<lparr>v_mailbox := (v_mailbox (db_view c s))
      (a := map_option (\<lambda>r. (dec_mailbox c r)\<lparr>mb_owner_token_hash := Some h\<rparr>)
        (find (\<lambda>r. mr_address r = a) (t_mailboxes s)))\<rparr>"
    by (subst update_mailbox_view) (simp_all add: dec)
  have "sqlite_rotate_owner_token a h s = (Ok (find (\<lambda>r. mr_address r = a) (t_mailboxes s) \<noteq> None), ?s')"
    by (simp add: sqlite_rotate_owner_token_def Let_def case_prod_beta update_affected)
  then show ?thesis
    using inv' view
    by (cases "find (\<lambda>r. mr_address r = a) (t_mailboxes s)")
      (auto simp: op_refines_def spec_rotate_owner_token_def intro!: sview_eqI)
qed

lemma sqlite_delete_mailbox_refines:
  assumes inv: "db_inv T c s"
  shows "op_refines True (db_inv T c) (db_view c) s (sqlite_delete_mailbox a s)
    (spec_delete_mailbox a (db_view c s))"
proof -
  let ?P = "\<lambda>r. mr_address r = a"
  have gone: "mr_address ` {r \<in> set (t_mailboxes s). ?P r} =
      (if find ?P (t_mailboxes s) = None then {} else {a})"
    by (auto simp: find_none_key)
  have orphan: "forget_mailboxes {} (db_view c s) = forget_mailboxes {a} (db_view c s)"
    if none: "find ?P (t_mailboxes s) = None"
  proof (rule sview_eqI)
    show "v_mailbox (forget_mailboxes {} (db_view c s)) = v_mailbox (forget_mailboxes {a} (db_view c s))"
      using none by (auto simp: forget_mailboxes_def)
    fix b i
    show "v_entry (forget_mailboxes {} (db_view c s)) b i = v_entry (forget_mailboxes {a} (db_view c s)) b i"
      using none inv
      by (cases "find_message c b i (t_messages s)")
        (auto simp: forget_mailboxes_def find_none_key db_inv_def refs_ok_def dest!: find_message_D)
    fix b ep
    show "v_sub (forget_mailboxes {} (db_view c s)) b ep = v_sub (forget_mailboxes {a} (db_view c s)) b ep"
      using none inv
      by (cases "find_srec b ep (t_push_subscriptions s)")
        (auto simp: forget_mailboxes_def find_none_key db_inv_def refs_ok_def dest!: find_srec_D)
  qed (simp_all add: forget_mailboxes_def)
  have "sqlite_delete_mailbox a s = (Ok (find ?P (t_mailboxes s) \<noteq> None), snd (delete_mailboxes ?P s))"
    using delete_affected [of ?P "t_mailboxes s"]
    by (simp add: sqlite_delete_mailbox_def case_prod_beta fst_delete_mailboxes)
  moreover have "db_view c (snd (delete_mailboxes ?P s)) = forget_mailboxes {a} (db_view c s)"
    unfolding delete_mailboxes_view [OF inv] gone using orphan by simp
  ultimately show ?thesis
    using delete_mailboxes_inv [OF inv, of ?P] by (simp add: op_refines_def spec_delete_mailbox_def)
qed

lemma sqlite_purge_expired_refines:
  assumes ok: "codec_ok T c" and inv: "db_inv T c s" and t: "T now"
  shows "op_refines True (db_inv T c) (db_view c) s (sqlite_purge_expired c now s)
    (spec_purge_expired now (db_view c s))"
proof -
  let ?P = "\<lambda>r. mr_expires_at r \<le> bind_time c now"
  note keys = db_inv_keys(1) [OF inv]
  have P: "?P r \<longleftrightarrow> mb_expires_at (dec_mailbox c r) \<le> now" if "r \<in> set (t_mailboxes s)" for r
    using dec_time_cmp(3) [OF ok _ t] db_inv_rows(1) [OF inv that] by (simp add: mailbox_wf_def)
  have ex: "expired_mailboxes now (db_view c s) =
      {a. \<exists>r. find (\<lambda>r. mr_address r = a) (t_mailboxes s) = Some r \<and> ?P r}"
    using P find_key [OF keys] by (auto simp: expired_mailboxes_def)
  then have gone: "mr_address ` {r \<in> set (t_mailboxes s). ?P r} = expired_mailboxes now (db_view c s)"
    using find_key [OF keys] by auto
  have "sqlite_purge_expired c now s = (Ok (card (expired_mailboxes now (db_view c s))), snd (delete_mailboxes ?P s))"
    by (simp add: sqlite_purge_expired_def case_prod_beta fst_delete_mailboxes ex card_keys [OF keys])
  then show ?thesis
    using delete_mailboxes_inv [OF inv] delete_mailboxes_view [OF inv, of ?P]
    by (simp add: op_refines_def spec_purge_expired_def gone)
qed

lemma sqlite_count_active_refines:
  assumes ok: "codec_ok T c" and inv: "db_inv T c s" and t: "T now"
  shows "sqlite_count_active_mailboxes_by_device c h now s = Ok (card (device_mailboxes h now (db_view c s)))"
proof -
  let ?P = "\<lambda>r. mr_creator_device_hash r = Some h \<and> bind_time c now < mr_expires_at r"
  note keys = db_inv_keys(1) [OF inv]
  have P: "?P r \<longleftrightarrow> mb_creator_device_hash (dec_mailbox c r) = Some h \<and> now < mb_expires_at (dec_mailbox c r)"
    if "r \<in> set (t_mailboxes s)" for r
    using dec_time_cmp(2) [OF ok _ t] db_inv_rows(1) [OF inv that] by (simp add: mailbox_wf_def)
  have "device_mailboxes h now (db_view c s) =
      {a. \<exists>r. find (\<lambda>r. mr_address r = a) (t_mailboxes s) = Some r \<and> ?P r}"
    using P find_key [OF keys] by (fastforce simp: device_mailboxes_def)
  then show ?thesis
    by (simp add: sqlite_count_active_mailboxes_by_device_def sql_count_def card_keys [OF keys])
qed

end
