(* ===== verification/Sql_Messages_Correct.thy ===== *)
theory Sql_Messages_Correct
  imports Sql_Store_Correct
begin

text \<open>
  The message methods of the SQLite store: the inserts of \<open>save_message\<close>, its two quota statements
  (a LIMIT over the newest rows, a running SUM) against the declarative quota of theory \<open>Quota\<close>, the
  newest-first listing with its keyset cursor, and the reads.
\<close>

subsection \<open>Inserting a message with its attachments\<close>

definition att_recs :: "('t, 'i) codec \<Rightarrow> (nat \<Rightarrow> uuid) \<Rightarrow> uuid \<Rightarrow> nat \<Rightarrow> new_attachment list \<Rightarrow> 'i attachment_rec list" where
  "att_recs c aids mid k atts = map (\<lambda>(j, a). \<lparr>ac_id = bind_id c (aids j), ac_message_id = bind_id c mid,
     ac_filename = na_filename a, ac_content_type = na_content_type a,
     ac_size = as_i32 (length (na_content a)), ac_content = na_content a\<rparr>) (enumerate k atts)"

lemma att_recs_simps [simp]:
  "att_recs c aids mid k [] = []"
  "att_recs c aids mid k (a # as) = \<lparr>ac_id = bind_id c (aids k), ac_message_id = bind_id c mid,
     ac_filename = na_filename a, ac_content_type = na_content_type a,
     ac_size = as_i32 (length (na_content a)), ac_content = na_content a\<rparr> # att_recs c aids mid (Suc k) as"
  by (simp_all add: att_recs_def)

lemma att_recs_ids: "map ac_id (att_recs c aids mid k atts) = map (\<lambda>j. bind_id c (aids j)) [k..<k + length atts]"
  by (induction atts arbitrary: k) (simp_all add: upt_conv_Cons del: upt_Suc)

lemma att_recs_message: "x \<in> set (att_recs c aids mid k atts) \<Longrightarrow> ac_message_id x = bind_id c mid"
  by (auto simp: att_recs_def)

lemma att_recs_metas:
  assumes "codec_ok T c"
  shows "map (dec_meta c) (att_recs c aids mid k atts) = map (\<lambda>(j, a). \<lparr>am_id = aids j,
    am_filename = na_filename a, am_content_type = na_content_type a, am_size = as_i32 (length (na_content a))\<rparr>)
    (enumerate k atts)"
  by (induction atts arbitrary: k) (simp_all add: dec_meta_def codec_okD(4) [OF assms])

lemma att_recs_content:
  assumes "codec_ok T c"
  shows "map_option ac_content (find (\<lambda>x. ac_id x = bind_id c j) (att_recs c aids mid k atts)) =
    map_of (map (\<lambda>(i, a). (aids i, na_content a)) (enumerate k atts)) j"
  by (induction atts arbitrary: k) (auto simp: codec_okD(5) [OF assms])

lemma insert_attachments_run:
  assumes "codec_ok T c" "bind_id c mid \<in> mg_id ` set (t_messages s)" "inj_on aids {k..<k + length atts}"
    "\<And>j. k \<le> j \<Longrightarrow> j < k + length atts \<Longrightarrow> bind_id c (aids j) \<notin> ac_id ` set (t_attachments s)"
  shows "sqlite_insert_attachments c aids mid k atts s =
    (Ok (map (dec_meta c) (att_recs c aids mid k atts)),
     s\<lparr>t_attachments := t_attachments s @ att_recs c aids mid k atts\<rparr>)"
  using assms(2-4)
proof (induction atts arbitrary: k s)
  case (Cons a atts)
  let ?row = "\<lparr>ac_id = bind_id c (aids k), ac_message_id = bind_id c mid, ac_filename = na_filename a,
    ac_content_type = na_content_type a, ac_size = as_i32 (length (na_content a)), ac_content = na_content a\<rparr>"
  let ?s' = "s\<lparr>t_attachments := t_attachments s @ [?row]\<rparr>"
  have "aids j \<noteq> aids k" if "Suc k \<le> j" "j < Suc k + length atts" for j
    using inj_onD [OF Cons.prems(2), of j k] that by auto
  then have "sqlite_insert_attachments c aids mid (Suc k) atts ?s' =
      (Ok (map (dec_meta c) (att_recs c aids mid (Suc k) atts)),
       ?s'\<lparr>t_attachments := t_attachments ?s' @ att_recs c aids mid (Suc k) atts\<rparr>)"
    using Cons.prems by (intro Cons.IH) (auto simp: codec_okD(5) [OF assms(1)] inj_on_def)
  moreover have "dec_meta c ?row = \<lparr>am_id = aids k, am_filename = na_filename a,
      am_content_type = na_content_type a, am_size = as_i32 (length (na_content a))\<rparr>"
    by (simp add: dec_meta_def codec_okD(4) [OF assms(1)])
  ultimately show ?case
    using Cons.prems(1) Cons.prems(3) [of k]
    by (simp add: sql_then_def insert_attachment_def sql_return_def Let_def)
qed simp

lemma fresh_ids_db:
  assumes ok: "codec_ok T c" and inv: "db_inv T c s" and fresh: "fresh_ids mid aids m (db_view c s)"
  shows "bind_id c mid \<notin> mg_id ` set (t_messages s)"
    "j < length (nm_attachments m) \<Longrightarrow> bind_id c (aids j) \<notin> ac_id ` set (t_attachments s)"
    "x \<in> set (t_attachments s) \<Longrightarrow> ac_message_id x \<noteq> bind_id c mid"
proof -
  have none: "find_message c a mid (t_messages s) = None" for a using fresh by (simp add: fresh_ids_def)
  show no: "bind_id c mid \<notin> mg_id ` set (t_messages s)"
  proof
    assume "bind_id c mid \<in> mg_id ` set (t_messages s)"
    then obtain r where "r \<in> set (t_messages s)" "mg_id r = bind_id c mid" by auto
    with none [of "mg_mailbox_address r"] show False by (auto simp: find_message_def find_None_iff)
  qed
  show "ac_message_id x \<noteq> bind_id c mid" if "x \<in> set (t_attachments s)"
  proof -
    from inv that have "ac_message_id x \<in> mg_id ` set (t_messages s)" by (simp add: db_inv_def refs_ok_def)
    with no show ?thesis by metis
  qed
  assume j: "j < length (nm_attachments m)"
  show "bind_id c (aids j) \<notin> ac_id ` set (t_attachments s)"
  proof
    assume "bind_id c (aids j) \<in> ac_id ` set (t_attachments s)"
    then obtain x where x: "x \<in> set (t_attachments s)" "ac_id x = bind_id c (aids j)" by auto
    then obtain r where r: "r \<in> set (t_messages s)" "mg_id r = ac_message_id x"
      using inv unfolding db_inv_def refs_ok_def by (metis imageE)
    obtain i where i: "mg_id r = bind_id c i" using db_inv_rows(2) [OF inv r(1)] by (auto simp: message_wf_def id_col_def)
    have "find_message c (mg_mailbox_address r) i (t_messages s) = Some r"
      using find_message_Some [OF db_inv_keys(2) [OF inv]] r(1) i by auto
    then have "v_entry (db_view c s) (mg_mailbox_address r) i = Some (dec_entry c (t_attachments s) r)" by simp
    with fresh j have "ve_content (dec_entry c (t_attachments s) r) (aids j) = None"
      unfolding fresh_ids_def by blast
    then have "find (\<lambda>x. ac_id x = bind_id c (aids j)) (attachments_of (t_attachments s) r) = None"
      by (simp add: dec_entry_def)
    with x r show False by (auto simp: find_None_iff attachments_of_def)
  qed
qed

lemma dec_message_rec:
  assumes "codec_ok T c" "T now" "\<And>t. nm_message_date m = Some t \<Longrightarrow> T t"
  shows "dec_message c (sqlite_message_rec c now mid a m) (map (dec_meta c) (att_recs c aids mid 0 (nm_attachments m))) =
    stored_of_new now mid aids a m"
  using assms by (cases "nm_message_date m")
    (simp_all add: dec_message_def sqlite_message_rec_def stored_of_new_def store_attachments_def
      att_recs_metas [OF assms(1)] codec_okD [OF assms(1)])

text \<open>The database with the new message and its attachments, before the quotas.\<close>

definition with_message ::
  "('t, 'i) codec \<Rightarrow> datetime \<Rightarrow> uuid \<Rightarrow> (nat \<Rightarrow> uuid) \<Rightarrow> string \<Rightarrow> new_message \<Rightarrow> ('t, 'i) database \<Rightarrow> ('t, 'i) database" where
  "with_message c now mid aids a m s =
     s\<lparr>t_messages := t_messages s @ [sqlite_message_rec c now mid a m],
       t_attachments := t_attachments s @ att_recs c aids mid 0 (nm_attachments m)\<rparr>"

lemma with_message_inv:
  assumes ok: "codec_ok T c" and inv: "db_inv T c s" and fresh: "fresh_ids mid aids m (db_view c s)"
    and t: "T now" "\<And>t. nm_message_date m = Some t \<Longrightarrow> T t" and sz: "nm_raw_size m \<ge> 0"
    and box: "a \<in> mr_address ` set (t_mailboxes s)"
  shows "db_inv T c (with_message c now mid aids a m s)"
proof -
  note f = fresh_ids_db [OF ok inv fresh]
  have row: "message_wf T c (sqlite_message_rec c now mid a m)"
    using t sz by (auto simp: message_wf_def sqlite_message_rec_def intro: id_colI time_colI opt_time_col_bind)
  have ids: "ac_id ` set (att_recs c aids mid 0 (nm_attachments m)) = (\<lambda>j. bind_id c (aids j)) ` {..<length (nm_attachments m)}"
    unfolding list.set_map [symmetric] att_recs_ids by (simp add: lessThan_atLeast0)
  have d: "distinct (map ac_id (att_recs c aids mid 0 (nm_attachments m)))"
    unfolding att_recs_ids using fresh
    by (auto simp: distinct_map fresh_ids_def inj_on_def codec_okD(5) [OF ok])
  have disj: "ac_id ` set (t_attachments s) \<inter> ac_id ` set (att_recs c aids mid 0 (nm_attachments m)) = {}"
    unfolding ids disjoint_iff using f(2) by (blast elim: imageE)
  have idc: "\<forall>x\<in>set (att_recs c aids mid 0 (nm_attachments m)). id_col c (ac_id x)"
    by (auto simp: att_recs_def intro: id_colI)
  have keys: "mg_id (sqlite_message_rec c now mid a m) = bind_id c mid"
    "mg_mailbox_address (sqlite_message_rec c now mid a m) = a" by (simp_all add: sqlite_message_rec_def)
  have "keys_ok (with_message c now mid aids a m s)"
    using inv f(1) d disj by (simp add: with_message_def keys_ok_def db_inv_def keys)
  moreover have "refs_ok (with_message c now mid aids a m s)"
    using inv box att_recs_message [of _ c aids mid 0 "nm_attachments m"]
    by (auto simp: with_message_def refs_ok_def db_inv_def keys)
  moreover have "rows_ok T c (with_message c now mid aids a m s)"
    using inv row idc by (simp add: with_message_def rows_ok_def db_inv_def ball_Un)
  ultimately show ?thesis by (simp add: db_inv_def)
qed

lemma with_message_entry:
  assumes ok: "codec_ok T c" and inv: "db_inv T c s" and fresh: "fresh_ids mid aids m (db_view c s)"
    and t: "T now" "\<And>t. nm_message_date m = Some t \<Longrightarrow> T t"
  shows "v_entry (db_view c (with_message c now mid aids a m s)) =
    (v_entry (db_view c s))(a := (v_entry (db_view c s) a)(mid \<mapsto> new_ventry now mid aids a m))"
proof (intro ext)
  fix b i
  let ?row = "sqlite_message_rec c now mid a m" and ?new = "att_recs c aids mid 0 (nm_attachments m)"
  let ?atts = "t_attachments s @ ?new"
  note f = fresh_ids_db [OF ok inv fresh]
  have row: "mg_id ?row = bind_id c mid" "mg_mailbox_address ?row = a" by (simp_all add: sqlite_message_rec_def)
  have new: "attachments_of ?atts ?row = ?new"
    using f(3) att_recs_message [of _ c aids mid 0 "nm_attachments m"]
    by (simp add: attachments_of_def row filter_empty_conv)
  have "dec_entry c ?atts ?row = new_ventry now mid aids a m"
    using dec_message_rec [OF ok t] att_recs_content [OF ok]
    by (simp add: dec_entry_def new new_ventry_def store_attachments_def)
      (simp add: sqlite_message_rec_def)
  moreover have "dec_entry c ?atts r = dec_entry c (t_attachments s) r" if "r \<in> set (t_messages s)" for r
  proof -
    have "attachments_of ?new r = []"
      using f(1) that att_recs_message [of _ c aids mid 0 "nm_attachments m"]
      by (force simp: attachments_of_def filter_empty_conv)
    then show ?thesis by (simp add: dec_entry_def attachments_of_def)
  qed
  moreover have "find_message c b i (t_messages s @ [?row]) =
      (if b = a \<and> i = mid then Some ?row else find_message c b i (t_messages s))"
    using fresh codec_okD(5) [OF ok]
    by (auto simp: find_message_def find_append_single row fresh_ids_def split: option.split)
  ultimately show "v_entry (db_view c (with_message c now mid aids a m s)) b i =
      ((v_entry (db_view c s))(a := (v_entry (db_view c s) a)(mid \<mapsto> new_ventry now mid aids a m))) b i"
    by (auto simp: with_message_def dest: find_message_D intro!: option.map_cong)
qed

subsection \<open>The quota statements\<close>

definition dec_row :: "('t, 'i) codec \<Rightarrow> ('t, 'i) message_rec \<Rightarrow> quota_row" where
  "dec_row c m = (dec_time c (mg_received_at m), dec_id c (mg_id m), nat (mg_raw_size m))"

lemma row_size_dec_row [simp]: "row_size (dec_row c m) = nat (mg_raw_size m)"
  by (simp add: row_size_def dec_row_def)

lemma row_id_dec_row [simp]: "row_id (dec_row c m) = dec_id c (mg_id m)"
  by (simp add: row_id_def dec_row_def)

lemma message_row_dec_entry:
  "message_wf T c m \<Longrightarrow> message_row (ve_message (dec_entry c atts m)) = dec_row c m"
  by (simp add: message_wf_def) (simp add: message_row_def dec_row_def)

lemma row_key_dec_row:
  assumes "codec_ok T c" "message_wf T c m" "message_wf T c m'"
  shows "row_key (dec_row c m') < row_key (dec_row c m) \<longleftrightarrow> message_key m < message_key m'"
    "row_key (dec_row c m') \<le> row_key (dec_row c m) \<longleftrightarrow> message_key m \<le> message_key m'"
proof -
  note o = dec_id_order [OF assms(1)] dec_time_order [OF assms(1)]
  show "row_key (dec_row c m') < row_key (dec_row c m) \<longleftrightarrow> message_key m < message_key m'"
    using assms(2,3)
    by (auto simp: row_key_def dec_row_def row_id_def message_key_def message_wf_def less_prod_def' o
        word_less_def [symmetric])
  show "row_key (dec_row c m') \<le> row_key (dec_row c m) \<longleftrightarrow> message_key m \<le> message_key m'"
    using assms(2,3)
    by (auto simp: row_key_def dec_row_def row_id_def message_key_def message_wf_def less_eq_prod_def o
        word_le_def [symmetric])
qed

lemma message_key_inj: "message_key m = message_key m' \<Longrightarrow> mg_id m = mg_id m'"
  by (simp add: message_key_def)

lemma distinct_message_keys: "distinct (map mg_id ms) \<Longrightarrow> distinct (map message_key ms)"
  by (induction ms) (auto simp: image_iff dest: message_key_inj)

lemma in_newest:
  fixes k :: "'a \<Rightarrow> 'k::linorder"
  assumes d: "distinct (map k ms)" and m: "m \<in> set ms"
  shows "m \<in> set (take n (order_by_desc k ms)) \<longleftrightarrow> length (filter (\<lambda>x. k m < k x) ms) < n"
proof -
  let ?xs = "order_by_desc k ms"
  have s: "sorted_wrt (\<lambda>x y. k y < k x) ?xs"
    using sorted_wrt_less_sort_key [OF d] by (simp add: order_by_desc_def sorted_wrt_rev)
  have dx: "distinct ?xs" using d by (simp add: order_by_desc_def distinct_map)
  from m obtain i where i: "i < length ?xs" "?xs ! i = m"
    by (metis in_set_conv_nth order_by_desc_def set_rev set_sort)
  have "filter (\<lambda>x. k m < k x) ?xs = take i ?xs"
  proof (rule filter_nth_take)
    fix j assume j: "j < length ?xs"
    show "k m < k (?xs ! j) \<longleftrightarrow> j < i"
      using sorted_wrt_nth_less [OF s, of j i] sorted_wrt_nth_less [OF s, of i j] i j
      by (metis less_asym nat_neq_iff)
  qed
  moreover have "length (filter (\<lambda>x. k m < k x) ?xs) = length (filter (\<lambda>x. k m < k x) ms)"
    by (metis mset_filter mset_rev mset_sort order_by_desc_def size_mset)
  ultimately have "length (filter (\<lambda>x. k m < k x) ms) = i" using i(1) by simp
  moreover have "m \<in> set (take n ?xs) \<longleftrightarrow> i < n"
    using i dx by (auto simp: in_set_conv_nth nth_eq_iff_index_eq)
  ultimately show ?thesis by simp
qed

lemma delete_messages_delete_messages:
  "snd (delete_messages Q (snd (delete_messages P s))) = snd (delete_messages (\<lambda>m. P m \<or> Q m) s)"
proof -
  have "mg_id ` {m \<in> set (t_messages s). P m \<or> Q m} = mg_id ` {m \<in> set (t_messages s). P m} \<union>
      mg_id ` {m \<in> set (t_messages s). \<not> P m \<and> Q m}" by auto
  then show ?thesis unfolding snd_delete_messages by simp
qed

lemma delete_messages_cong:
  "(\<And>m. m \<in> set (t_messages s) \<Longrightarrow> P m \<longleftrightarrow> Q m) \<Longrightarrow> snd (delete_messages P s) = snd (delete_messages Q s)"
  unfolding snd_delete_messages
  by (simp cong: filter_cong conj_cong)

lemma delete_no_messages: "snd (delete_messages (\<lambda>m. False) s) = s"
  by (simp add: snd_delete_messages)

definition mailbox_recs :: "string \<Rightarrow> ('t, 'i) database \<Rightarrow> ('t, 'i) message_rec list" where
  "mailbox_recs a s = filter (\<lambda>m. mg_mailbox_address m = a) (t_messages s)"

definition db_rows :: "('t, 'i) codec \<Rightarrow> string \<Rightarrow> ('t, 'i) database \<Rightarrow> quota_row list" where
  "db_rows c a s = map (dec_row c) (mailbox_recs a s)"

lemma mailbox_recs_ids: "db_inv T c s \<Longrightarrow> distinct (map mg_id (mailbox_recs a s))"
  by (simp add: mailbox_recs_def distinct_map_filter db_inv_keys)

lemma mailbox_recs_wf: "db_inv T c s \<Longrightarrow> m \<in> set (mailbox_recs a s) \<Longrightarrow> message_wf T c m"
  by (auto simp: mailbox_recs_def intro: db_inv_rows)

lemma newer_count_db:
  assumes "codec_ok T c" "db_inv T c s" "m \<in> set (mailbox_recs a s)"
  shows "newer_count (db_rows c a s) (dec_row c m) =
    length (filter (\<lambda>x. message_key m < message_key x) (mailbox_recs a s))"
proof -
  have "filter (\<lambda>x. row_key (dec_row c x) < row_key (dec_row c m)) (mailbox_recs a s) =
      filter (\<lambda>x. message_key m < message_key x) (mailbox_recs a s)"
    using row_key_dec_row(1) [OF assms(1)] mailbox_recs_wf [OF assms(2)] assms(3)
    by (intro filter_cong) auto
  then show ?thesis by (simp add: newer_count_def db_rows_def filter_map comp_def)
qed

lemma sum_nat_sizes:
  "(\<And>x. x \<in> set xs \<Longrightarrow> f x \<ge> 0) \<Longrightarrow> int (sum_list (map (\<lambda>x. nat (f x)) xs)) = sum_list (map f xs)"
  by (induction xs) auto

lemma bytes_down_to_db:
  assumes "codec_ok T c" "db_inv T c s" "m \<in> set (mailbox_recs a s)"
  shows "int (bytes_down_to (db_rows c a s) (dec_row c m)) = running_size (mailbox_recs a s) m"
proof -
  have f: "filter (\<lambda>x. row_key (dec_row c x) \<le> row_key (dec_row c m)) (mailbox_recs a s) =
      filter (\<lambda>x. message_key m \<le> message_key x) (mailbox_recs a s)"
    using row_key_dec_row(2) [OF assms(1)] mailbox_recs_wf [OF assms(2)] assms(3)
    by (intro filter_cong) auto
  show ?thesis
    using mailbox_recs_wf [OF assms(2)]
    by (simp add: bytes_down_to_def db_rows_def filter_map comp_def f running_size_def)
      (rule sum_nat_sizes, auto simp: message_wf_def)
qed

lemma count_quota_state:
  assumes ok: "codec_ok T c" and inv: "db_inv T c s"
  shows "\<exists>n. sqlite_count_quota q a s = (Ok n, snd (delete_messages (\<lambda>m. mg_mailbox_address m = a \<and>
    \<not> (q_max_messages q = 0 \<or> newer_count (db_rows c a s) (dec_row c m) < unat (q_max_messages q))) s))"
proof (cases "q_max_messages q = 0")
  case True
  then show ?thesis by (simp add: sqlite_count_quota_def delete_no_messages)
next
  case False
  let ?n = "unat (q_max_messages q)"
  let ?newest = "take ?n (order_by_desc message_key (mailbox_recs a s))"
  have lim: "sqlite_limit (uint (q_max_messages q)) xs = take ?n xs" for xs :: "('a, 'b) message_rec list"
    by (simp only: sqlite_limit_def unat_eq_nat_uint) simp
  have iff: "mg_id m \<notin> mg_id ` set ?newest \<longleftrightarrow> \<not> newer_count (db_rows c a s) (dec_row c m) < ?n"
    if m: "m \<in> set (mailbox_recs a s)" for m
  proof -
    have "set ?newest \<subseteq> set (order_by_desc message_key (mailbox_recs a s))" by (rule set_take_subset)
    then have "set ?newest \<subseteq> set (mailbox_recs a s)" by (simp add: order_by_desc_def)
    then have "mg_id m \<in> mg_id ` set ?newest \<longleftrightarrow> m \<in> set ?newest"
      using distinct_mapD [OF mailbox_recs_ids [OF inv] m] by blast
    then show ?thesis
      using in_newest [OF distinct_message_keys [OF mailbox_recs_ids [OF inv]] m, of ?n]
        newer_count_db [OF ok inv m] by simp
  qed
  have "snd (delete_messages (\<lambda>m. mg_mailbox_address m = a \<and> mg_id m \<notin> mg_id ` set ?newest) s) =
      snd (delete_messages (\<lambda>m. mg_mailbox_address m = a \<and>
        \<not> (q_max_messages q = 0 \<or> newer_count (db_rows c a s) (dec_row c m) < ?n)) s)"
    using iff False by (intro delete_messages_cong) (auto simp: mailbox_recs_def)
  then show ?thesis
    using False
    by (simp add: sqlite_count_quota_def lim word_gt_0 Let_def mailbox_recs_def case_prod_beta)
qed

lemma as_i64_small:
  assumes "unat w < 2 ^ 63"
  shows "as_i64 w = int (unat w)"
proof -
  have "uint w < 2 ^ 63" using assms by (simp only: unat_eq_nat_uint nat_less_iff uint_ge_0) simp
  then have "signed_take_bit 63 (uint w) = uint w"
    by (intro signed_take_bit_int_eq_self) (use uint_ge_0 [of w] in linarith)+
  then show ?thesis by (simp add: as_i64_def sint_uint)
qed

lemma running_size_kept:
  assumes "\<And>x. x \<in> set ms \<Longrightarrow> message_key m \<le> message_key x \<Longrightarrow> K x"
  shows "running_size (filter K ms) m = running_size ms m"
proof -
  have "filter (\<lambda>r. message_key m \<le> message_key r) (filter K ms) = filter (\<lambda>r. message_key m \<le> message_key r) ms"
    unfolding filter_filter using assms by (intro filter_cong) auto
  then show ?thesis by (simp only: running_size_def)
qed

lemma byte_quota_state:
  assumes ok: "codec_ok T c" and inv: "db_inv T c s" and q: "unat (q_max_bytes q) < 2 ^ 63"
    and s1: "s1 = snd (delete_messages (\<lambda>m. mg_mailbox_address m = a \<and> \<not> K m) s)"
    and up: "\<And>m x. m \<in> set (mailbox_recs a s) \<Longrightarrow> x \<in> set (mailbox_recs a s) \<Longrightarrow> K m \<Longrightarrow>
      message_key m \<le> message_key x \<Longrightarrow> K x"
  shows "\<exists>n. sqlite_byte_quota c q a mid s1 = (Ok n, snd (delete_messages (\<lambda>m. mg_mailbox_address m = a \<and>
    \<not> (q_max_bytes q = 0 \<or> dec_id c (mg_id m) = mid \<or>
       min (bytes_down_to (db_rows c a s) (dec_row c m)) u64_max \<le> unat (q_max_bytes q))) s1))"
proof (cases "q_max_bytes q = 0")
  case True
  then show ?thesis by (simp add: sqlite_byte_quota_def delete_no_messages)
next
  case False
  let ?cap = "unat (q_max_bytes q)"
  have inv1: "db_inv T c s1" unfolding s1 by (rule delete_messages_inv [OF inv])
  have recs: "mailbox_recs a s1 = filter K (mailbox_recs a s)"
    by (auto simp: mailbox_recs_def s1 snd_delete_messages intro: filter_cong)
  have over: "running_size (mailbox_recs a s1) m > as_i64 (q_max_bytes q) \<longleftrightarrow>
      \<not> min (bytes_down_to (db_rows c a s) (dec_row c m)) u64_max \<le> ?cap"
    if m: "m \<in> set (mailbox_recs a s1)" for m
  proof -
    have m': "m \<in> set (mailbox_recs a s)" "K m" using m by (simp_all add: recs)
    have run: "running_size (mailbox_recs a s1) m = int (bytes_down_to (db_rows c a s) (dec_row c m))"
      unfolding bytes_down_to_db [OF ok inv m'(1)] recs using up m' by (intro running_size_kept) blast
    show ?thesis
      unfolding run as_i64_small [OF q] of_nat_less_iff using q by (simp add: min_le_iff_disj u64_max_def not_le)
  qed
  have own: "mg_id m \<noteq> bind_id c mid \<longleftrightarrow> dec_id c (mg_id m) \<noteq> mid" if "m \<in> set (mailbox_recs a s1)" for m
    using mailbox_recs_wf [OF inv1 that] by (auto simp: message_wf_def id_col_def codec_okD [OF ok])
  let ?over = "filter (\<lambda>m. running_size (mailbox_recs a s1) m > as_i64 (q_max_bytes q) \<and>
    mg_id m \<noteq> bind_id c mid) (mailbox_recs a s1)"
  have mem: "mg_id m \<in> mg_id ` set ?over \<longleftrightarrow> m \<in> set ?over" if "m \<in> set (mailbox_recs a s1)" for m
    using distinct_mapD [OF mailbox_recs_ids [OF inv1] that] by auto
  have "snd (delete_messages (\<lambda>m. mg_mailbox_address m = a \<and> mg_id m \<in> mg_id ` set ?over) s1) =
      snd (delete_messages (\<lambda>m. mg_mailbox_address m = a \<and> \<not> (q_max_bytes q = 0 \<or> dec_id c (mg_id m) = mid \<or>
       min (bytes_down_to (db_rows c a s) (dec_row c m)) u64_max \<le> ?cap)) s1)"
  proof (intro delete_messages_cong conj_cong refl)
    fix m assume "m \<in> set (t_messages s1)" "mg_mailbox_address m = a"
    then have m: "m \<in> set (mailbox_recs a s1)" by (simp add: mailbox_recs_def)
    show "mg_id m \<in> mg_id ` set ?over \<longleftrightarrow> \<not> (q_max_bytes q = 0 \<or> dec_id c (mg_id m) = mid \<or>
        min (bytes_down_to (db_rows c a s) (dec_row c m)) u64_max \<le> ?cap)"
      unfolding mem [OF m] using False m over [OF m] own [OF m] by auto
  qed
  then show ?thesis
    using False by (simp add: sqlite_byte_quota_def word_gt_0 Let_def case_prod_beta mailbox_recs_def [symmetric])
qed

lemma quota_statements:
  assumes ok: "codec_ok T c" and inv: "db_inv T c s" and q: "unat (q_max_bytes q) < 2 ^ 63"
  shows "\<exists>n n' s1. sqlite_count_quota q a s = (Ok n, s1) \<and> sqlite_byte_quota c q a mid s1 =
    (Ok n', snd (delete_messages (\<lambda>m. mg_mailbox_address m = a \<and>
       \<not> quota_keeps q mid (db_rows c a s) (dec_row c m)) s))"
proof -
  let ?K = "\<lambda>m. q_max_messages q = 0 \<or> newer_count (db_rows c a s) (dec_row c m) < unat (q_max_messages q)"
  let ?s1 = "snd (delete_messages (\<lambda>m. mg_mailbox_address m = a \<and> \<not> ?K m) s)"
  obtain n where cq: "sqlite_count_quota q a s = (Ok n, ?s1)" using count_quota_state [OF ok inv] by blast
  have up: "?K x" if "m \<in> set (mailbox_recs a s)" "x \<in> set (mailbox_recs a s)" "?K m"
    "message_key m \<le> message_key x" for m x
  proof -
    have "row_key (dec_row c x) \<le> row_key (dec_row c m)"
      using row_key_dec_row(2) [OF ok] mailbox_recs_wf [OF inv] that by blast
    from newer_count_mono [OF this, of "db_rows c a s"] that(3) show ?thesis by auto
  qed
  obtain n' where "sqlite_byte_quota c q a mid ?s1 = (Ok n', snd (delete_messages (\<lambda>m. mg_mailbox_address m = a \<and>
    \<not> (q_max_bytes q = 0 \<or> dec_id c (mg_id m) = mid \<or>
       min (bytes_down_to (db_rows c a s) (dec_row c m)) u64_max \<le> unat (q_max_bytes q))) ?s1))"
    using byte_quota_state [where K = ?K and a = a and mid = mid, OF ok inv q refl] up by blast
  also have "snd (delete_messages (\<lambda>m. mg_mailbox_address m = a \<and>
      \<not> (q_max_bytes q = 0 \<or> dec_id c (mg_id m) = mid \<or>
       min (bytes_down_to (db_rows c a s) (dec_row c m)) u64_max \<le> unat (q_max_bytes q))) ?s1) =
      snd (delete_messages (\<lambda>m. mg_mailbox_address m = a \<and> \<not> quota_keeps q mid (db_rows c a s) (dec_row c m)) s)"
    unfolding delete_messages_delete_messages by (intro delete_messages_cong) (auto simp: quota_keeps_def)
  finally show ?thesis using cq by blast
qed

subsection \<open>\<open>save_message\<close>\<close>

lemma ran_db_entries:
  assumes "codec_ok T c" "db_inv T c s"
  shows "ran (v_entry (db_view c s) a) = dec_entry c (t_attachments s) ` set (mailbox_recs a s)"
proof -
  have "(\<exists>i. find_message c a i (t_messages s) = Some m) \<longleftrightarrow> m \<in> set (mailbox_recs a s)" for m
    using find_message_Some [OF db_inv_keys(2) [OF assms(2)], of c a _ m] mailbox_recs_wf [OF assms(2), of m a]
    by (auto simp: mailbox_recs_def message_wf_def id_col_def)
  then have "set (mailbox_recs a s) = {m. \<exists>i. find_message c a i (t_messages s) = Some m}" by auto
  then show ?thesis by (auto simp: ran_def)
qed

lemma rows_of_db:
  assumes "codec_ok T c" "db_inv T c s"
  shows "rows_of_entries (v_entry (db_view c s) a) (db_rows c a s)"
proof -
  have "distinct (map (\<lambda>m. dec_id c (mg_id m)) (mailbox_recs a s))"
    using mailbox_recs_ids [OF assms(2), of a] mailbox_recs_wf [OF assms(2), of _ a] dec_id_order(3) [OF assms(1)]
    by (auto simp: distinct_map inj_on_def message_wf_def)
  moreover have "dec_row c ` set (mailbox_recs a s) =
      (\<lambda>m. message_row (ve_message (dec_entry c (t_attachments s) m))) ` set (mailbox_recs a s)"
    using mailbox_recs_wf [OF assms(2)] by (intro image_cong refl message_row_dec_entry [where T = T, symmetric])
  ultimately show ?thesis
    unfolding rows_of_entries_def ran_db_entries [OF assms] by (simp add: db_rows_def comp_def image_image)
qed

lemma quota_delete_entry:
  assumes inv: "db_inv T c s"
  shows "v_entry (db_view c (snd (delete_messages (\<lambda>m. mg_mailbox_address m = a \<and>
      \<not> quota_keeps q mid rows (dec_row c m)) s))) =
    (v_entry (db_view c s))(a := keep_entries q mid rows (v_entry (db_view c s) a))"
proof (intro ext)
  fix b i
  show "v_entry (db_view c (snd (delete_messages (\<lambda>m. mg_mailbox_address m = a \<and>
      \<not> quota_keeps q mid rows (dec_row c m)) s))) b i =
    ((v_entry (db_view c s))(a := keep_entries q mid rows (v_entry (db_view c s) a))) b i"
  proof (cases "find_message c b i (t_messages s)")
    case (Some x)
    then have "x \<in> set (t_messages s)" "mg_mailbox_address x = b" by (auto dest: find_message_D)
    then show ?thesis
      unfolding delete_messages_entry [OF inv]
      using Some message_row_dec_entry [OF db_inv_rows(2) [OF inv], of x "t_attachments s"]
      by (auto simp: keep_entries_def)
  qed (unfold delete_messages_entry [OF inv], auto simp: keep_entries_def)
qed

lemma sqlite_save_message_refines:
  assumes ok: "codec_ok T c" and inv: "db_inv T c s" and fresh: "fresh_ids mid aids m (db_view c s)"
    and t: "T now" "\<And>t. nm_message_date m = Some t \<Longrightarrow> T t" and sz: "nm_raw_size m \<ge> 0"
    and q: "unat (q_max_bytes q) < 2 ^ 63"
    and run: "sqlite_save_message c q now mid aids a m s = (r, s')"
  shows "db_inv T c s' \<and> (r = Ok (stored_of_new now mid aids a m) \<and>
      spec_save_message q now mid aids a m (db_view c s) (db_view c s') \<or>
    (\<exists>e. r = Err e) \<and> s' = s \<and> v_mailbox (db_view c s) a = None)"
proof (cases "a \<in> mr_address ` set (t_mailboxes s)")
  case False
  have "insert_message (sqlite_message_rec c now mid a m) s = (Err (ForeignKeyViolation ''messages.mailbox_address''), s)"
    using False fresh_ids_db(1) [OF ok inv fresh] by (simp add: insert_message_def sqlite_message_rec_def)
  then have "r = Err (ForeignKeyViolation ''messages.mailbox_address'') \<and> s' = s"
    using run by (simp add: sqlite_save_message_def sql_tx_def sql_then_def)
  with False inv show ?thesis by (simp add: find_none_key)
next
  case True
  let ?s1 = "s\<lparr>t_messages := t_messages s @ [sqlite_message_rec c now mid a m]\<rparr>"
  let ?s2 = "with_message c now mid aids a m s"
  note f = fresh_ids_db [OF ok inv fresh]
  have inv2: "db_inv T c ?s2" by (rule with_message_inv [OF ok inv fresh t sz True])
  have ins: "insert_message (sqlite_message_rec c now mid a m) s = (Ok (), ?s1)"
    using True f(1) by (simp add: insert_message_def sqlite_message_rec_def)
  have att: "sqlite_insert_attachments c aids mid 0 (nm_attachments m) ?s1 =
      (Ok (map (dec_meta c) (att_recs c aids mid 0 (nm_attachments m))), ?s2)"
    using insert_attachments_run [OF ok, of mid ?s1 aids 0 "nm_attachments m"] f(2) fresh
    by (simp add: with_message_def sqlite_message_rec_def fresh_ids_def lessThan_atLeast0)
  obtain n n' s3 where quota: "sqlite_count_quota q a ?s2 = (Ok n, s3)"
    "sqlite_byte_quota c q a mid s3 = (Ok n', snd (delete_messages (\<lambda>x. mg_mailbox_address x = a \<and>
       \<not> quota_keeps q mid (db_rows c a ?s2) (dec_row c x)) ?s2))"
    using quota_statements [OF ok inv2 q] by blast
  have run': "r = Ok (stored_of_new now mid aids a m)"
    "s' = snd (delete_messages (\<lambda>x. mg_mailbox_address x = a \<and>
       \<not> quota_keeps q mid (db_rows c a ?s2) (dec_row c x)) ?s2)"
    using run dec_message_rec [where mid = mid and a = a and aids = aids, OF ok t]
    by (simp_all add: sqlite_save_message_def sql_tx_def sql_then_def ins att quota sql_return_def
        stored_of_new_def dec_message_def)
  let ?ents = "(v_entry (db_view c s) a)(mid \<mapsto> new_ventry now mid aids a m)"
  have ent: "v_entry (db_view c ?s2) = (v_entry (db_view c s))(a := ?ents)"
    by (rule with_message_entry [OF ok inv fresh t])
  have "v_entry (db_view c s') = (v_entry (db_view c s))(a := keep_entries q mid (db_rows c a ?s2) ?ents)"
    unfolding run'(2) quota_delete_entry [OF inv2] ent by simp
  then have "db_view c s' = (db_view c s)\<lparr>v_entry := (v_entry (db_view c s))
      (a := keep_entries q mid (db_rows c a ?s2) ?ents)\<rparr>"
    by (intro sview_eqI) (simp_all add: run'(2) with_message_def db_view_def)
  moreover have "rows_of_entries ?ents (db_rows c a ?s2)"
    using rows_of_db [OF ok inv2, of a] unfolding ent by simp
  moreover have "db_inv T c s'" unfolding run'(2) by (rule delete_messages_inv [OF inv2])
  ultimately show ?thesis using run'(1) by (auto simp: spec_save_message_def Let_def)
qed

subsection \<open>Listing and reading\<close>

lemma summary_conv:
  assumes "codec_ok T c" "message_wf T c m"
  shows "sqlite_summary c s m = Ok (summary_of (ve_message (dec_entry c (t_attachments s) m)))"
  using assms by (simp add: message_wf_def)
    (simp add: sqlite_summary_def decode_time_col parse_id_col summary_of_def dec_message_def
      sql_exists_def attachments_of_def)

lemma summary_key_dec_entry:
  "message_wf T c m \<Longrightarrow> summary_key (summary_of (ve_message (dec_entry c atts m))) = row_key (dec_row c m)"
  by (metis message_row_dec_entry summary_key_message_row)

lemma sorted_order_by_desc:
  fixes k :: "'a \<Rightarrow> 'k::linorder"
  shows "distinct (map k xs) \<Longrightarrow> sorted_wrt (\<lambda>x y. k y < k x) (order_by_desc k xs)"
  using sorted_wrt_less_sort_key [of k xs] by (simp add: order_by_desc_def sorted_wrt_rev)

lemma sqlite_limit_page:
  "sqlite_limit (if limit = 0 then -1 else uint limit) xs = (if limit = 0 then xs else take (unat limit) xs)"
  by (simp only: sqlite_limit_def unat_eq_nat_uint) simp

lemma newer_db:
  assumes ok: "codec_ok T c" and inv: "db_inv T c s" and m: "message_wf T c m"
  shows "(case map_option (bind_id c) since of None \<Rightarrow> True
      | Some since_id \<Rightarrow>
        (case fetch_optional (filter (\<lambda>r. mg_mailbox_address r = a \<and> mg_id r = since_id) (t_messages s)) of
           None \<Rightarrow> True
         | Some anchor \<Rightarrow> message_key m > message_key anchor)) \<longleftrightarrow>
    newer_than since (v_entry (db_view c s) a) (ve_message (dec_entry c (t_attachments s) m))"
proof (cases since)
  case (Some i)
  show ?thesis
  proof (cases "find_message c a i (t_messages s)")
    case (Some r)
    then have "message_wf T c r" using db_inv_rows(2) [OF inv] by (auto dest: find_message_D)
    then show ?thesis
      using Some \<open>since = Some i\<close> row_key_dec_row(1) [OF ok \<open>message_wf T c r\<close> m]
        summary_key_dec_entry [OF m, of "t_attachments s"]
        summary_key_dec_entry [OF \<open>message_wf T c r\<close>, of "t_attachments s"]
      by (simp add: newer_than_def fetch_optional_filter find_message_def)
  qed (use Some in \<open>simp add: newer_than_def fetch_optional_filter find_message_def\<close>)
qed (simp add: newer_than_def)

lemma sqlite_list_messages_refines:
  assumes ok: "codec_ok T c" and inv: "db_inv T c s"
  shows "\<exists>out. sqlite_list_messages c a limit since s = Ok out \<and>
    spec_list_messages a limit since (db_view c s) out"
proof -
  let ?view = "\<lambda>m. ve_message (dec_entry c (t_attachments s) m)"
  let ?newer = "\<lambda>m. newer_than since (v_entry (db_view c s) a) (?view m)"
  let ?rows = "order_by_desc message_key (filter ?newer (mailbox_recs a s))"
  let ?full = "map (\<lambda>m. summary_of (?view m)) ?rows"
  have wf: "message_wf T c m" if "m \<in> set ?rows" for m
    using that mailbox_recs_wf [OF inv] by (auto simp: order_by_desc_def)
  have rows: "filter (\<lambda>m. mg_mailbox_address m = a \<and>
      (case map_option (bind_id c) since of None \<Rightarrow> True
       | Some since_id \<Rightarrow>
         (case fetch_optional (filter (\<lambda>r. mg_mailbox_address r = a \<and> mg_id r = since_id) (t_messages s)) of
            None \<Rightarrow> True | Some anchor \<Rightarrow> message_key m > message_key anchor))) (t_messages s) =
      filter ?newer (mailbox_recs a s)"
    unfolding mailbox_recs_def filter_filter
    by (intro filter_cong refl conj_cong newer_db [OF ok inv db_inv_rows(2) [OF inv]])
  have "distinct (map message_key (filter ?newer (mailbox_recs a s)))"
    by (intro distinct_message_keys distinct_map_filter mailbox_recs_ids [OF inv])
  then have sorted_rows: "sorted_wrt (\<lambda>x y. message_key y < message_key x) ?rows"
    by (rule sorted_order_by_desc)
  have "sorted_wrt (\<lambda>x y. summary_key x < summary_key y) ?full"
    unfolding sorted_wrt_map
  proof (rule sorted_wrt_mono_rel [OF _ sorted_rows])
    fix x y assume "x \<in> set ?rows" "y \<in> set ?rows" and lt: "message_key y < message_key x"
    then have w: "message_wf T c x" "message_wf T c y" using wf by blast+
    show "summary_key (summary_of (?view x)) < summary_key (summary_of (?view y))"
      unfolding summary_key_dec_entry [OF w(1)] summary_key_dec_entry [OF w(2)]
      using row_key_dec_row(1) [OF ok w(2) w(1)] lt by simp
  qed
  moreover have "set ?full = {summary_of (ve_message e) | e. e \<in> ran (v_entry (db_view c s) a) \<and>
      newer_than since (v_entry (db_view c s) a) (ve_message e)}"
    unfolding ran_db_entries [OF ok inv] by (auto simp: order_by_desc_def simp del: ve_message_dec_entry)
  moreover have "sqlite_list_messages c a limit since s =
      Ok (if limit = 0 then ?full else take (unat limit) ?full)"
  proof -
    have "collect_results (map (sqlite_summary c s) rs) = Ok (map (\<lambda>m. summary_of (?view m)) rs)"
      if "set rs \<subseteq> set ?rows" for rs
      by (rule collect_results_map) (use that wf summary_conv [OF ok] in blast)
    then show ?thesis
      unfolding sqlite_list_messages_def Let_def rows sqlite_limit_page
      using set_take_subset [of "unat limit" ?rows] by (simp add: take_map)
  qed
  ultimately show ?thesis unfolding spec_list_messages_def by blast
qed

lemma attachments_of_ids:
  assumes "codec_ok T c" "db_inv T c s"
  shows "distinct (map am_id (map (dec_meta c) (attachments_of (t_attachments s) m)))"
  using db_inv_keys(3) [OF assms(2)] db_inv_rows(3) [OF assms(2)] dec_id_order(3) [OF assms(1)]
  by (auto simp: distinct_map attachments_of_def inj_on_def dec_meta_def)

lemma sort_key_mset_eq:
  assumes "mset xs = mset ys" "distinct (map f xs)"
  shows "sort_key f xs = sort_key f ys"
  using assms by (intro sort_key_inj_key_eq) (auto simp: distinct_map)

lemma sqlite_get_message_refines:
  assumes ok: "codec_ok T c" and inv: "db_inv T c s"
  shows "map_ok (map_option canon_message) (sqlite_get_message c a i s) =
    Ok (map_option ve_message (v_entry (db_view c s) a i))"
proof (cases "find_message c a i (t_messages s)")
  case None
  then show ?thesis by (simp add: sqlite_get_message_def fetch_optional_filter find_message_def)
next
  case (Some m)
  then have m: "m \<in> set (t_messages s)" "mg_id m = bind_id c i" by (auto dest: find_message_D)
  let ?atts = "attachments_of (t_attachments s) m"
  let ?metas = "map (dec_meta c) (sort_key ac_id ?atts)"
  have "collect_results (map (sqlite_attachment_meta c) (order_by ac_id ?atts)) = Ok ?metas"
    unfolding order_by_def
    by (rule collect_results_map) (auto simp: attachments_of_def intro: meta_conv [OF ok] db_inv_rows(3) [OF inv])
  then have "sqlite_get_message c a i s = Ok (Some (dec_message c m ?metas))"
    using Some message_conv [OF ok db_inv_rows(2) [OF inv m(1)]] m(2)
    by (simp add: sqlite_get_message_def fetch_optional_filter find_message_def attachments_of_def)
  moreover have "sort_key am_id ?metas = sort_key am_id (map (dec_meta c) ?atts)"
    by (rule sort_key_mset_eq [symmetric]) (simp_all only: mset_map mset_sort attachments_of_ids [OF ok inv])
  ultimately show ?thesis
    using Some by (simp add: canon_message_def) (simp add: dec_message_def)
qed

lemma sqlite_get_raw_message_refines:
  "sqlite_get_raw_message c a i s = Ok (Option.bind (v_entry (db_view c s) a i) ve_raw)"
  by (cases "find_message c a i (t_messages s)")
    (simp_all add: sqlite_get_raw_message_def fetch_optional_filter find_message_def dec_entry_def)

lemma find_dec_meta:
  assumes "codec_ok T c" "\<And>x. x \<in> set xs \<Longrightarrow> id_col c (ac_id x)"
  shows "find (\<lambda>x. am_id x = j) (map (dec_meta c) xs) = map_option (dec_meta c) (find (\<lambda>x. ac_id x = bind_id c j) xs)"
  using assms(2)
proof (induction xs)
  case (Cons x xs)
  then have "am_id (dec_meta c x) = j \<longleftrightarrow> ac_id x = bind_id c j"
    by (simp add: dec_meta_def dec_id_eq [OF assms(1)])
  with Cons show ?case by simp
qed simp

lemma find_join:
  assumes "distinct (map mg_id ms)" "distinct (map ac_id as)"
  shows "map_option fst (find (\<lambda>(x, m). mg_id m = ac_message_id x \<and> mg_mailbox_address m = a \<and>
      ac_message_id x = bind_id c i \<and> ac_id x = bind_id c j) (List.product as ms)) =
    (case find_message c a i ms of None \<Rightarrow> None
     | Some m \<Rightarrow> find (\<lambda>x. ac_id x = bind_id c j) (attachments_of as m))"
proof -
  let ?P = "\<lambda>(x, m). mg_id m = ac_message_id x \<and> mg_mailbox_address m = a \<and>
      ac_message_id x = bind_id c i \<and> ac_id x = bind_id c j"
  have join: "find ?P (List.product as ms) = Some p \<longleftrightarrow> p \<in> set as \<times> set ms \<and> ?P p" for p
    by (subst find_unique_eq_Some)
      (auto dest: distinct_mapD [OF assms(1)] distinct_mapD [OF assms(2)])
  have att: "find (\<lambda>x. ac_id x = bind_id c j) (attachments_of as m) = Some x \<longleftrightarrow>
      x \<in> set as \<and> ac_message_id x = mg_id m \<and> ac_id x = bind_id c j" for m x
    by (subst find_key) (auto simp: attachments_of_def distinct_map_filter assms(2))
  show ?thesis
  proof (cases "find_message c a i ms")
    case None
    then have "\<not> (mg_mailbox_address m = a \<and> mg_id m = bind_id c i)" if "m \<in> set ms" for m
      using that by (auto simp: find_message_def find_None_iff)
    then have "find ?P (List.product as ms) = None" by (fastforce simp: find_None_iff)
    with None show ?thesis by simp
  next
    case (Some m)
    then have m: "m \<in> set ms" "mg_mailbox_address m = a" "mg_id m = bind_id c i" by (auto dest: find_message_D)
    have "map_option fst (find ?P (List.product as ms)) = Some x \<longleftrightarrow>
        find (\<lambda>x. ac_id x = bind_id c j) (attachments_of as m) = Some x" for x
      unfolding att map_option_eq_Some join m(3) using m by (auto intro!: exI [of _ x] exI [of _ m])
    with Some show ?thesis by (metis (no_types, lifting) option.exhaust option.simps(5))
  qed
qed

lemma sqlite_get_attachment_refines:
  assumes ok: "codec_ok T c" and inv: "db_inv T c s"
  shows "sqlite_get_attachment c a i j s = Ok (spec_get_attachment a i j (db_view c s))"
proof -
  let ?of = "\<lambda>x. \<lparr>at_filename = ac_filename x, at_content_type = ac_content_type x, at_content = ac_content x\<rparr>"
  have "sqlite_get_attachment c a i j s = Ok (map_option ?of (case find_message c a i (t_messages s) of
      None \<Rightarrow> None | Some m \<Rightarrow> find (\<lambda>x. ac_id x = bind_id c j) (attachments_of (t_attachments s) m)))"
    unfolding find_join [OF db_inv_keys(2,3) [OF inv], symmetric]
    by (simp add: sqlite_get_attachment_def fetch_optional_filter option.map_comp comp_def case_prod_unfold)
  moreover have "spec_get_attachment a i j (db_view c s) =
      map_option ?of (find (\<lambda>x. ac_id x = bind_id c j) (attachments_of (t_attachments s) m))"
    if "find_message c a i (t_messages s) = Some m" for m
  proof -
    have "find (\<lambda>x. am_id x = j) (sort_key am_id (map (dec_meta c) (attachments_of (t_attachments s) m))) =
        map_option (dec_meta c) (find (\<lambda>x. ac_id x = bind_id c j) (attachments_of (t_attachments s) m))"
      unfolding find_sort_key [OF attachments_of_ids [OF ok inv]]
      by (rule find_dec_meta [OF ok]) (auto simp: attachments_of_def intro: db_inv_rows(3) [OF inv])
    then show ?thesis
      using that by (cases "find (\<lambda>x. ac_id x = bind_id c j) (attachments_of (t_attachments s) m)")
        (simp_all add: spec_get_attachment_def dec_entry_def canon_message_def dec_meta_def)
  qed
  ultimately show ?thesis
    by (cases "find_message c a i (t_messages s)") (simp_all add: spec_get_attachment_def)
qed

subsection \<open>Deleting and marking\<close>

lemma sqlite_delete_message_refines:
  assumes ok: "codec_ok T c" and inv: "db_inv T c s"
  shows "op_refines True (db_inv T c) (db_view c) s (sqlite_delete_message c a i s)
    (spec_delete_message a i (db_view c s))"
proof -
  let ?P = "\<lambda>m. mg_mailbox_address m = a \<and> mg_id m = bind_id c i"
  have "sqlite_delete_message c a i s = (Ok (find_message c a i (t_messages s) \<noteq> None), snd (delete_messages ?P s))"
    using delete_affected [of ?P "t_messages s"]
    by (simp add: sqlite_delete_message_def case_prod_beta fst_delete_messages find_message_def)
  moreover have "v_entry (db_view c (snd (delete_messages ?P s))) b j =
      v_entry (snd (spec_delete_message a i (db_view c s))) b j" for b j
    unfolding delete_messages_entry [OF inv] spec_delete_message_def
    using find_message_D [of c b j "t_messages s"]
    by (cases "find_message c b j (t_messages s)") (auto simp: codec_okD(5) [OF ok])
  ultimately show ?thesis
    using delete_messages_inv [OF inv]
    by (simp add: op_refines_def spec_delete_message_def) (intro sview_eqI, simp_all add: db_view_def)
qed

lemma sqlite_delete_all_messages_refines:
  assumes ok: "codec_ok T c" and inv: "db_inv T c s"
  shows "op_refines True (db_inv T c) (db_view c) s (sqlite_delete_all_messages a s)
    (spec_delete_all_messages a (db_view c s))"
proof -
  let ?P = "\<lambda>m. mg_mailbox_address m = a"
  have "dom (v_entry (db_view c s) a) = set (map (\<lambda>m. dec_id c (mg_id m)) (filter ?P (t_messages s)))"
  proof -
    have "dom (v_entry (db_view c s) a) = {i. \<exists>m\<in>set (filter ?P (t_messages s)). mg_id m = bind_id c i}"
      using find_message_Some [OF db_inv_keys(2) [OF inv], of c a] by (auto simp: dom_def)
    moreover have "mg_id m = bind_id c i \<longleftrightarrow> dec_id c (mg_id m) = i" if "m \<in> set (t_messages s)" for m i
      using dec_id_eq [OF ok] db_inv_rows(2) [OF inv that] by (simp add: message_wf_def)
    ultimately show ?thesis by auto
  qed
  moreover have "distinct (map (\<lambda>m. dec_id c (mg_id m)) (filter ?P (t_messages s)))"
    using rows_of_db [OF ok inv, of a]
    by (simp add: rows_of_entries_def db_rows_def mailbox_recs_def comp_def)
  ultimately have "card (dom (v_entry (db_view c s) a)) = length (filter ?P (t_messages s))"
    by (metis distinct_card length_map)
  then have "sqlite_delete_all_messages a s = (Ok (card (dom (v_entry (db_view c s) a))), snd (delete_messages ?P s))"
    by (simp add: sqlite_delete_all_messages_def case_prod_beta fst_delete_messages)
  moreover have "v_entry (db_view c (snd (delete_messages ?P s))) b j =
      v_entry (snd (spec_delete_all_messages a (db_view c s))) b j" for b j
    unfolding delete_messages_entry [OF inv] spec_delete_all_messages_def
    by (cases "find_message c b j (t_messages s)") (auto dest!: find_message_D)
  ultimately show ?thesis
    using delete_messages_inv [OF inv]
    by (simp add: op_refines_def spec_delete_all_messages_def) (intro sview_eqI, simp_all add: db_view_def)
qed

lemma sqlite_mark_seen_refines:
  assumes ok: "codec_ok T c" and inv: "db_inv T c s"
  shows "op_refines True (db_inv T c) (db_view c) s (sqlite_mark_seen c a i s)
    (spec_mark_seen a i (db_view c s))"
proof -
  let ?P = "\<lambda>m. mg_mailbox_address m = a \<and> mg_id m = bind_id c i" and ?f = "\<lambda>m. m\<lparr>mg_seen := True\<rparr>"
  let ?s' = "s\<lparr>t_messages := snd (sql_update ?P ?f (t_messages s))\<rparr>"
  have inv': "db_inv T c ?s'"
    by (rule db_inv_update_messages [OF inv]) (auto simp: message_wf_def)
  have find': "find_message c b j (t_messages ?s') =
      map_option (\<lambda>m. if ?P m then ?f m else m) (find_message c b j (t_messages s))" for b j
    unfolding find_message_def by simp (rule find_update, simp)
  have dec: "dec_entry c atts (?f m) = mark_entry (dec_entry c atts m)" for atts m
    by (simp add: dec_entry_def mark_entry_def attachments_of_def canon_message_def dec_message_def)
  have "v_entry (db_view c ?s') b j = v_entry (snd (spec_mark_seen a i (db_view c s))) b j" for b j
    unfolding db_view_simps(2) [of c ?s'] find'
    by (cases "find_message c b j (t_messages s)")
      (auto simp: spec_mark_seen_def dec codec_okD(5) [OF ok] dest: find_message_D)
  moreover have "sqlite_mark_seen c a i s = (Ok (find_message c a i (t_messages s) \<noteq> None), ?s')"
    by (simp add: sqlite_mark_seen_def Let_def case_prod_beta update_affected find_message_def)
  ultimately show ?thesis
    using inv' by (simp add: op_refines_def spec_mark_seen_def) (intro sview_eqI, simp_all add: db_view_def)
qed

end
