(* ===== verification/Sql_Tables_Correct.thy ===== *)
theory Sql_Tables_Correct
  imports Sql_Messages_Correct
begin

text \<open>
  The remaining methods of the SQLite store: push subscriptions (upsert under a cap, foreign key),
  custom domains and attested devices.
\<close>

subsection \<open>Push subscriptions\<close>

lemma dom_db_subs:
  assumes "db_inv T c s"
  shows "dom (v_sub (db_view c s) a) = sr_endpoint ` {r \<in> set (t_push_subscriptions s). sr_mailbox_address r = a}"
proof -
  have "e \<in> dom (v_sub (db_view c s) a) \<longleftrightarrow> (\<exists>r. find_srec a e (t_push_subscriptions s) = Some r)" for e by auto
  then show ?thesis unfolding find_srec_Some [OF db_inv_keys(5) [OF assms]] by (intro set_eqI) auto
qed

lemma card_db_subs:
  assumes inv: "db_inv T c s"
  shows "card (dom (v_sub (db_view c s) a)) = length (filter (\<lambda>r. sr_mailbox_address r = a) (t_push_subscriptions s))"
    "card (dom (v_sub (db_view c s) a) - {ep}) =
      length (filter (\<lambda>r. sr_mailbox_address r = a \<and> sr_endpoint r \<noteq> ep) (t_push_subscriptions s))"
proof -
  have d: "distinct (map sr_endpoint (filter (\<lambda>r. sr_mailbox_address r = a \<and> P r) (t_push_subscriptions s)))" for P
    using db_inv_keys(5) [OF inv] by (auto simp: distinct_map inj_on_def sr_key_def)
  show "card (dom (v_sub (db_view c s) a)) = length (filter (\<lambda>r. sr_mailbox_address r = a) (t_push_subscriptions s))"
    unfolding dom_db_subs [OF inv] using distinct_card [OF d [of "\<lambda>_. True"]] by simp
  have "sr_endpoint ` {r \<in> set (t_push_subscriptions s). sr_mailbox_address r = a} - {ep} =
      sr_endpoint ` {r \<in> set (t_push_subscriptions s). sr_mailbox_address r = a \<and> sr_endpoint r \<noteq> ep}" by auto
  then show "card (dom (v_sub (db_view c s) a) - {ep}) =
      length (filter (\<lambda>r. sr_mailbox_address r = a \<and> sr_endpoint r \<noteq> ep) (t_push_subscriptions s))"
    unfolding dom_db_subs [OF inv] using distinct_card [OF d [of "\<lambda>r. sr_endpoint r \<noteq> ep"]] by simp
qed

lemma cap_reached: "uint cap \<le> sql_count P rows \<longleftrightarrow> unat cap \<le> length (filter P rows)"
  by (simp only: sql_count_def unat_eq_nat_uint nat_le_iff)

definition refresh_rec ::
  "subscription_kind \<Rightarrow> string \<Rightarrow> string \<Rightarrow> ('t, 'i) subscription_rec \<Rightarrow> ('t, 'i) subscription_rec" where
  "refresh_rec kd p au r = r\<lparr>sr_kind := kind_as_str kd, sr_p256dh := p, sr_auth := au\<rparr>"

lemma refresh_rec_simps [simp]:
  "sr_id (refresh_rec kd p au r) = sr_id r" "sr_key (refresh_rec kd p au r) = sr_key r"
  "sr_mailbox_address (refresh_rec kd p au r) = sr_mailbox_address r"
  "sr_endpoint (refresh_rec kd p au r) = sr_endpoint r"
  "sub_wf T c r \<Longrightarrow> sub_wf T c (refresh_rec kd p au r)"
  by (simp_all add: refresh_rec_def sr_key_def sub_wf_def) (cases kd, simp_all)

lemma refresh_rec_eta: "(\<lambda>r. r\<lparr>sr_kind := kind_as_str kd, sr_p256dh := p, sr_auth := au\<rparr>) = refresh_rec kd p au"
  by (simp add: fun_eq_iff refresh_rec_def)

lemma dec_refresh_rec:
  "dec_sub c (refresh_rec kd p au r) = (dec_sub c r)\<lparr>ps_kind := kd, ps_p256dh := p, ps_auth := au\<rparr>"
  by (cases kd) (simp_all add: dec_sub_def refresh_rec_def)

lemma refresh_view:
  fixes kd :: subscription_kind and p au :: string
  assumes inv: "db_inv T c s" and row: "find_srec a ep (t_push_subscriptions s) = Some row"
  defines "s' \<equiv> s\<lparr>t_push_subscriptions :=
    snd (sql_update (\<lambda>r. sr_id r = sr_id row) (refresh_rec kd p au) (t_push_subscriptions s))\<rparr>"
  shows "db_inv T c s'" "db_view c s' = (db_view c s)\<lparr>v_sub := (v_sub (db_view c s))(a := (v_sub (db_view c s) a)
    (ep \<mapsto> (dec_sub c row)\<lparr>ps_kind := kd, ps_p256dh := p, ps_auth := au\<rparr>))\<rparr>"
proof -
  show "db_inv T c s'" unfolding s'_def by (rule db_inv_update_subs [OF inv]) simp_all
  have r: "row \<in> set (t_push_subscriptions s)" "sr_mailbox_address row = a" "sr_endpoint row = ep"
    using find_srec_D [OF row] by auto
  have f: "find_srec b e (t_push_subscriptions s') =
      map_option (\<lambda>r. if sr_id r = sr_id row then refresh_rec kd p au r else r) (find_srec b e (t_push_subscriptions s))"
    for b e unfolding find_srec_def s'_def by simp (rule find_update, simp)
  have "v_sub (db_view c s') b e = ((v_sub (db_view c s))(a := (v_sub (db_view c s) a)
      (ep \<mapsto> (dec_sub c row)\<lparr>ps_kind := kd, ps_p256dh := p, ps_auth := au\<rparr>))) b e" for b e
  proof (cases "find_srec b e (t_push_subscriptions s)")
    case (Some x)
    then have x: "x \<in> set (t_push_subscriptions s)" "sr_mailbox_address x = b" "sr_endpoint x = e"
      using find_srec_D [OF Some] by auto
    have "sr_id x = sr_id row \<longleftrightarrow> b = a \<and> e = ep"
    proof
      assume "sr_id x = sr_id row"
      then have "x = row" by (rule distinct_mapD [OF db_inv_keys(4) [OF inv] x(1) r(1)])
      then show "b = a \<and> e = ep" using x r by simp
    next
      assume "b = a \<and> e = ep"
      then show "sr_id x = sr_id row" using Some row by simp
    qed
    then show ?thesis using Some row f [of b e] by (auto simp: dec_refresh_rec)
  qed (use f row in auto)
  then show "db_view c s' = (db_view c s)\<lparr>v_sub := (v_sub (db_view c s))(a := (v_sub (db_view c s) a)
    (ep \<mapsto> (dec_sub c row)\<lparr>ps_kind := kd, ps_p256dh := p, ps_auth := au\<rparr>))\<rparr>"
    by (intro sview_eqI) (simp_all add: s'_def db_view_def)
qed

definition new_srec ::
  "('t, 'i) codec \<Rightarrow> datetime \<Rightarrow> uuid \<Rightarrow> string \<Rightarrow> subscription_kind \<Rightarrow> string \<Rightarrow> string \<Rightarrow> string
   \<Rightarrow> ('t, 'i) subscription_rec" where
  "new_srec c now sid a kd ep p au = \<lparr>sr_id = bind_id c sid, sr_mailbox_address = a, sr_kind = kind_as_str kd,
     sr_endpoint = ep, sr_p256dh = p, sr_auth = au, sr_created_at = bind_time c now\<rparr>"

lemma dec_new_srec:
  assumes "codec_ok T c" "T now"
  shows "dec_sub c (new_srec c now sid a kd ep p au) = \<lparr>ps_id = sid, ps_mailbox_address = a, ps_kind = kd,
    ps_endpoint = ep, ps_p256dh = p, ps_auth = au, ps_created_at = now\<rparr>"
  using assms by (cases kd) (simp_all add: dec_sub_def new_srec_def codec_okD [OF assms(1)])

lemma insert_subscription_view:
  assumes ok: "codec_ok T c" and inv: "db_inv T c s" and t: "T now"
    and none: "find_srec a ep (t_push_subscriptions s) = None"
    and run: "insert_subscription (new_srec c now sid a kd ep p au) s = (r, s')"
  shows "r = Ok () \<and> db_inv T c s' \<and> db_view c s' = (db_view c s)\<lparr>v_sub := (v_sub (db_view c s))
      (a := (v_sub (db_view c s) a)(ep \<mapsto> dec_sub c (new_srec c now sid a kd ep p au)))\<rparr> \<or>
    (\<exists>e. r = Err e) \<and> s' = s \<and> sub_refusable sid a ep cap (db_view c s)"
proof -
  let ?row = "new_srec c now sid a kd ep p au" and ?ps = "t_push_subscriptions s"
  have row: "sr_id ?row = bind_id c sid" "sr_key ?row = (a, ep)" "sr_mailbox_address ?row = a"
    "sr_endpoint ?row = ep" "sub_wf T c ?row"
    using t by (simp_all add: new_srec_def sr_key_def sub_wf_def id_colI time_colI) (cases kd, simp_all)
  have key: "(a, ep) \<notin> sr_key ` set ?ps"
    using none by (auto simp: find_srec_def find_None_iff sr_key_def)
  consider (taken) "bind_id c sid \<in> sr_id ` set ?ps" | (orphan) "a \<notin> mr_address ` set (t_mailboxes s)"
    | (fresh) "bind_id c sid \<notin> sr_id ` set ?ps" "a \<in> mr_address ` set (t_mailboxes s)" by blast
  then show ?thesis
  proof cases
    case taken
    then obtain x where x: "x \<in> set ?ps" "sr_id x = bind_id c sid" by auto
    then have "find_srec (sr_mailbox_address x) (sr_endpoint x) ?ps = Some x"
      using find_srec_Some [OF db_inv_keys(5) [OF inv]] by blast
    then have "v_sub (db_view c s) (sr_mailbox_address x) (sr_endpoint x) = Some (dec_sub c x)" by simp
    moreover have "ps_id (dec_sub c x) = sid" using x(2) by (simp add: codec_okD [OF ok])
    ultimately have "sub_refusable sid a ep cap (db_view c s)" unfolding sub_refusable_def by blast
    then show ?thesis using run taken by (auto simp: insert_subscription_def row)
  next
    case orphan
    then have "v_mailbox (db_view c s) a = None" by (simp add: find_none_key)
    then have "sub_refusable sid a ep cap (db_view c s)" by (simp add: sub_refusable_def)
    then show ?thesis using run orphan key by (auto simp: insert_subscription_def row split: if_splits)
  next
    case fresh
    then have s': "r = Ok ()" "s' = s\<lparr>t_push_subscriptions := ?ps @ [?row]\<rparr>"
      using run key by (simp_all add: insert_subscription_def row)
    have "db_inv T c s'"
      using inv fresh key row(5) unfolding s'(2) db_inv_def
      by (auto simp: keys_ok_def refs_ok_def rows_ok_def row)
    moreover have "find_srec b e (?ps @ [?row]) = (if b = a \<and> e = ep then Some ?row else find_srec b e ?ps)" for b e
      using none by (auto simp: find_srec_def find_append_single row split: option.split)
    then have "db_view c s' = (db_view c s)\<lparr>v_sub := (v_sub (db_view c s))
        (a := (v_sub (db_view c s) a)(ep \<mapsto> dec_sub c ?row))\<rparr>"
      unfolding s'(2) by (intro sview_eqI) (simp_all add: db_view_def)
    ultimately show ?thesis using s'(1) by blast
  qed
qed

lemma sqlite_add_new:
  assumes "db_inv T c s" "find_srec a ep (t_push_subscriptions s) = None"
  shows "sqlite_add_subscription c now sid a kd ep p au cap s =
    (if cap > 0 \<and> unat cap \<le> card (dom (v_sub (db_view c s) a)) then (Err (SubscriptionLimit cap), s)
     else case insert_subscription (new_srec c now sid a kd ep p au) s of
        (Ok _, s1) \<Rightarrow> (Ok \<lparr>ps_id = sid, ps_mailbox_address = a, ps_kind = kd, ps_endpoint = ep, ps_p256dh = p,
           ps_auth = au, ps_created_at = now\<rparr>, s1)
      | (Err e, _) \<Rightarrow> (Err e, s))"
  using assms(2) unfolding card_db_subs(1) [OF assms(1)]
  by (simp add: sqlite_add_subscription_def fetch_optional_filter find_srec_def cap_reached sql_tx_def
      sql_then_def sql_return_def new_srec_def split: prod.split result.splits)

lemma sqlite_add_subscription_refines:
  assumes ok: "codec_ok T c" and inv: "db_inv T c s" and t: "T now"
    and run: "sqlite_add_subscription c now sid a kd ep p au cap s = (r, s')"
  shows "op_refines True (db_inv T c) (db_view c) s (r, s') (spec_add_subscription now sid a kd ep p au cap (db_view c s)) \<or>
    db_inv T c s' \<and> (\<exists>e. r = Err e) \<and> db_view c s' = db_view c s \<and> sub_refusable sid a ep cap (db_view c s)"
proof (cases "find_srec a ep (t_push_subscriptions s)")
  case (Some row)
  have "sub_wf T c row" using find_srec_D [OF Some] db_inv_rows(4) [OF inv] by blast
  then have "r = Ok ((dec_sub c row)\<lparr>ps_kind := kd, ps_p256dh := p, ps_auth := au\<rparr>)"
    "s' = s\<lparr>t_push_subscriptions := snd (sql_update (\<lambda>r. sr_id r = sr_id row) (refresh_rec kd p au) (t_push_subscriptions s))\<rparr>"
    using run Some sub_conv [OF ok]
    by (auto simp: sqlite_add_subscription_def fetch_optional_filter find_srec_def refresh_rec_eta)
  with refresh_view [OF inv Some, of kd p au] Some show ?thesis
    by (simp add: op_refines_def spec_add_subscription_def Let_def)
next
  case None
  let ?row = "new_srec c now sid a kd ep p au"
  have sub: "\<lparr>ps_id = sid, ps_mailbox_address = a, ps_kind = kd, ps_endpoint = ep, ps_p256dh = p, ps_auth = au,
      ps_created_at = now\<rparr> = dec_sub c ?row" by (simp add: dec_new_srec [OF ok t])
  show ?thesis
  proof (cases "cap > 0 \<and> unat cap \<le> card (dom (v_sub (db_view c s) a))")
    case True
    then have "r = Err (SubscriptionLimit cap) \<and> s' = s"
      using run unfolding sqlite_add_new [OF inv None] by simp
    with True None inv show ?thesis by (simp add: op_refines_def spec_add_subscription_def)
  next
    case False
    obtain r1 s1 where ins: "insert_subscription ?row s = (r1, s1)" by fastforce
    have run': "(r, s') = (case r1 of Ok _ \<Rightarrow> (Ok (dec_sub c ?row), s1) | Err e \<Rightarrow> (Err e, s))"
      using run unfolding sqlite_add_new [OF inv None] if_not_P [OF False] ins sub
      by (simp split: result.splits)
    from insert_subscription_view [OF ok inv t None ins, of cap] show ?thesis
    proof (elim disjE conjE exE)
      assume "r1 = Ok ()" "db_inv T c s1" "db_view c s1 = (db_view c s)\<lparr>v_sub := (v_sub (db_view c s))
        (a := (v_sub (db_view c s) a)(ep \<mapsto> dec_sub c ?row))\<rparr>"
      then show ?thesis
        using run' False None
        by (simp add: op_refines_def spec_add_subscription_def Let_def sub not_le)
    next
      fix e assume "r1 = Err e" "sub_refusable sid a ep cap (db_view c s)"
      then show ?thesis using run' inv by simp
    qed
  qed
qed

lemma sqlite_list_subscriptions_refines:
  assumes ok: "codec_ok T c" and inv: "db_inv T c s"
  shows "\<exists>out. sqlite_list_subscriptions c a s = Ok out \<and> distinct out \<and>
    set out = ran (v_sub (db_view c s) a)"
proof -
  let ?rows = "filter (\<lambda>r. sr_mailbox_address r = a) (t_push_subscriptions s)"
  have wf: "sub_wf T c r" if "r \<in> set ?rows" for r using that db_inv_rows(4) [OF inv] by auto
  have "sqlite_list_subscriptions c a s = Ok (map (dec_sub c) (sort_key sr_created_at ?rows))"
    unfolding sqlite_list_subscriptions_def order_by_def
    by (rule collect_results_map) (use wf sub_conv [OF ok] in auto)
  moreover have "distinct (map (dec_sub c) (sort_key sr_created_at ?rows))"
  proof -
    have "distinct ?rows" using db_inv_keys(4) [OF inv] by (simp add: distinct_map)
    moreover have "inj_on (dec_sub c) (set ?rows)"
    proof (rule inj_onI)
      fix x y assume xy: "x \<in> set ?rows" "y \<in> set ?rows" "dec_sub c x = dec_sub c y"
      then have "ps_id (dec_sub c x) = ps_id (dec_sub c y)" by simp
      then have "sr_id x = sr_id y"
        using dec_id_order(3) [OF ok] wf [OF xy(1)] wf [OF xy(2)] by (simp add: sub_wf_def)
      then show "x = y" using distinct_mapD [OF db_inv_keys(4) [OF inv]] xy(1,2) by auto
    qed
    ultimately show ?thesis by (simp add: distinct_map)
  qed
  moreover have "ran (v_sub (db_view c s) a) = dec_sub c ` set ?rows"
  proof -
    have "set ?rows = {r. \<exists>e. find_srec a e (t_push_subscriptions s) = Some r}"
      unfolding find_srec_Some [OF db_inv_keys(5) [OF inv]] by auto
    then show ?thesis by (auto simp: ran_def)
  qed
  ultimately show ?thesis by simp
qed

lemma sqlite_delete_subscription_refines:
  assumes inv: "db_inv T c s"
  shows "op_refines True (db_inv T c) (db_view c) s (sqlite_delete_subscription a ep s)
    (spec_delete_subscription a ep (db_view c s))"
proof -
  let ?P = "\<lambda>r. sr_mailbox_address r = a \<and> sr_endpoint r = ep"
  let ?s' = "s\<lparr>t_push_subscriptions := filter (\<lambda>r. \<not> ?P r) (t_push_subscriptions s)\<rparr>"
  have "sqlite_delete_subscription a ep s = (Ok (find_srec a ep (t_push_subscriptions s) \<noteq> None), ?s')"
    using delete_affected [of ?P "t_push_subscriptions s"]
    by (simp add: sqlite_delete_subscription_def case_prod_beta find_srec_def)
  moreover have "v_sub (db_view c ?s') b e = v_sub (snd (spec_delete_subscription a ep (db_view c s))) b e" for b e
    using find_srec_D [of b e "t_push_subscriptions s"]
    by (cases "find_srec b e (t_push_subscriptions s)")
      (auto simp: spec_delete_subscription_def find_srec_filter [OF db_inv_keys(5) [OF inv]])
  ultimately show ?thesis
    using db_inv_filter(1) [OF inv]
    by (simp add: op_refines_def spec_delete_subscription_def) (intro sview_eqI, simp_all add: db_view_def)
qed

subsection \<open>Custom domains\<close>

lemma sqlite_create_custom_domain_refines:
  assumes ok: "codec_ok T c" and inv: "db_inv T c s" and t: "T now"
  shows "op_refines True (db_inv T c) (db_view c) s (sqlite_create_custom_domain c now d h tok s)
    (spec_create_custom_domain now d h tok (db_view c s))"
proof (cases "d \<in> dr_domain ` set (t_custom_domains s)")
  case True
  then have "find (\<lambda>r. dr_domain r = d) (t_custom_domains s) \<noteq> None" by (simp add: find_none_key)
  with True inv show ?thesis
    by (simp add: sqlite_create_custom_domain_def sql_then_def insert_domain_def spec_create_custom_domain_def
        op_refines_def)
next
  case False
  let ?row = "\<lparr>dr_domain = d, dr_claim_token_hash = h, dr_txt_token = tok, dr_status = ''pending'',
    dr_created_at = bind_time c now, dr_verified_at = None, dr_last_checked_at = None\<rparr>"
  have none: "find (\<lambda>r. dr_domain r = d) (t_custom_domains s) = None" using False by (simp add: find_none_key)
  have "db_inv T c (s\<lparr>t_custom_domains := t_custom_domains s @ [?row]\<rparr>)"
    using inv False t by (auto simp: db_inv_defs domain_wf_def intro: time_colI)
  moreover have "dec_domain c ?row = \<lparr>cd_domain = d, cd_status = Pending, cd_claim_token_hash = h,
      cd_txt_token = tok, cd_created_at = now, cd_verified_at = None, cd_last_checked_at = None\<rparr>"
    using codec_okD(3) [OF ok t] by (simp add: dec_domain_def)
  ultimately show ?thesis
    using False none
    by (auto simp: sqlite_create_custom_domain_def sql_then_def insert_domain_def sql_return_def
        spec_create_custom_domain_def op_refines_def Let_def find_append_single fun_eq_iff
        split: option.split intro!: sview_eqI)
qed

lemma sqlite_get_custom_domain_refines:
  "codec_ok T c \<Longrightarrow> db_inv T c s \<Longrightarrow> sqlite_get_custom_domain c d s = Ok (v_domain (db_view c s) d)"
  by (simp add: sqlite_get_custom_domain_def fetch_optional_filter)
    (rule transpose_find, auto intro: domain_conv db_inv_rows)

lemma sqlite_delete_custom_domain_refines:
  assumes inv: "db_inv T c s"
  shows "op_refines True (db_inv T c) (db_view c) s (sqlite_delete_custom_domain d s)
    (spec_delete_custom_domain d (db_view c s))"
proof -
  let ?s' = "s\<lparr>t_custom_domains := filter (\<lambda>r. dr_domain r \<noteq> d) (t_custom_domains s)\<rparr>"
  have "sqlite_delete_custom_domain d s = (Ok (find (\<lambda>r. dr_domain r = d) (t_custom_domains s) \<noteq> None), ?s')"
    using delete_affected [of "\<lambda>r. dr_domain r = d" "t_custom_domains s"]
    by (simp add: sqlite_delete_custom_domain_def case_prod_beta)
  moreover have "v_domain (db_view c ?s') = v_domain (snd (spec_delete_custom_domain d (db_view c s)))"
    by (auto simp: spec_delete_custom_domain_def fun_eq_iff find_key_filter [OF db_inv_keys(6) [OF inv]]
        dest: find_SomeD split: option.split)
  ultimately show ?thesis
    using db_inv_filter(2) [OF inv]
    by (simp add: op_refines_def spec_delete_custom_domain_def) (intro sview_eqI, simp_all add: db_view_def)
qed

lemma sqlite_custom_domain_is_verified_refines:
  assumes inv: "db_inv T c s"
  shows "sqlite_custom_domain_is_verified d s = Ok (spec_is_verified d (db_view c s))"
  by (auto simp: sqlite_custom_domain_is_verified_def sql_exists_find spec_is_verified_def dec_domain_def
      find_conj_key [OF db_inv_keys(6) [OF inv]] split: option.splits)

lemma update_domain_view:
  assumes "\<And>r. dr_domain (f r) = dr_domain r"
  shows "db_view c (s\<lparr>t_custom_domains := snd (sql_update (\<lambda>r. dr_domain r = d) f (t_custom_domains s))\<rparr>) =
    (db_view c s)\<lparr>v_domain := (v_domain (db_view c s))
      (d := map_option (\<lambda>r. dec_domain c (f r)) (find (\<lambda>r. dr_domain r = d) (t_custom_domains s)))\<rparr>"
  by (rule sview_eqI)
    (auto simp: find_update assms fun_eq_iff option.map_comp comp_def dest!: find_SomeD intro!: option.map_cong)

lemma sqlite_record_check_refines:
  assumes ok: "codec_ok T c" and inv: "db_inv T c s" and t: "\<And>t. va = Some t \<Longrightarrow> T t" "T ca"
  shows "op_refines True (db_inv T c) (db_view c) s (sqlite_record_custom_domain_check c d st va ca s)
    (spec_record_custom_domain_check d st va ca (db_view c s))"
proof -
  let ?f = "\<lambda>r. r\<lparr>dr_status := status_as_str st, dr_verified_at := map_option (bind_time c) va,
    dr_last_checked_at := Some (bind_time c ca)\<rparr>"
  let ?s' = "s\<lparr>t_custom_domains := snd (sql_update (\<lambda>r. dr_domain r = d) ?f (t_custom_domains s))\<rparr>"
  have inv': "db_inv T c ?s'"
    by (rule db_inv_update_domains [OF inv])
      (cases st; auto simp: domain_wf_def intro: time_colI opt_time_col_bind t)+
  have va: "map_option (dec_time c) (map_option (bind_time c) va) = va"
    using t(1) by (cases va) (simp_all add: codec_okD [OF ok])
  have dec: "dec_domain c (?f r) = (dec_domain c r)\<lparr>cd_status := st, cd_verified_at := va, cd_last_checked_at := Some ca\<rparr>" for r
    using va codec_okD(3) [OF ok t(2)] by (cases st) (simp_all add: dec_domain_def)
  have "db_view c ?s' = (db_view c s)\<lparr>v_domain := (v_domain (db_view c s))(d := map_option
      (\<lambda>r. (dec_domain c r)\<lparr>cd_status := st, cd_verified_at := va, cd_last_checked_at := Some ca\<rparr>)
      (find (\<lambda>r. dr_domain r = d) (t_custom_domains s)))\<rparr>"
    by (subst update_domain_view, simp) (simp only: dec)
  moreover have "sqlite_record_custom_domain_check c d st va ca s =
      (Ok (find (\<lambda>r. dr_domain r = d) (t_custom_domains s) \<noteq> None), ?s')"
    by (simp add: sqlite_record_custom_domain_check_def Let_def case_prod_beta update_affected)
  ultimately show ?thesis
    using inv' by (cases "find (\<lambda>r. dr_domain r = d) (t_custom_domains s)")
      (auto simp: op_refines_def spec_record_custom_domain_check_def intro!: sview_eqI)
qed

lemma sqlite_list_recheck_refines:
  assumes ok: "codec_ok T c" and inv: "db_inv T c s" and t: "T cutoff"
  shows "\<exists>out. sqlite_list_custom_domains_to_recheck c cutoff s = Ok out \<and> distinct out \<and>
    set out = {d \<in> ran (v_domain (db_view c s)). due_for_recheck cutoff d}"
proof -
  let ?P = "\<lambda>r. dr_status r \<in> {''verified'', ''failed''} \<and>
    (case dr_last_checked_at r of None \<Rightarrow> True | Some t \<Rightarrow> t \<le> bind_time c cutoff)"
  let ?rows = "filter ?P (t_custom_domains s)"
  have P: "?P r \<longleftrightarrow> due_for_recheck cutoff (dec_domain c r)" if "r \<in> set (t_custom_domains s)" for r
    using db_inv_rows(5) [OF inv that] dec_time_cmp(3) [OF ok _ t]
    by (cases "dr_last_checked_at r") (auto simp: due_for_recheck_def dec_domain_def domain_wf_def)
  have "sqlite_list_custom_domains_to_recheck c cutoff s = Ok (map (dec_domain c) ?rows)"
    unfolding sqlite_list_custom_domains_to_recheck_def
    by (rule collect_results_map) (use db_inv_rows(5) [OF inv] domain_conv [OF ok] in auto)
  moreover have "distinct (map (dec_domain c) ?rows)"
  proof -
    have "distinct (map cd_domain (map (dec_domain c) ?rows))"
      using db_inv_keys(6) [OF inv] by (simp add: comp_def distinct_map_filter)
    then show ?thesis using distinct_map [of cd_domain "map (dec_domain c) ?rows"] by blast
  qed
  moreover have "ran (v_domain (db_view c s)) = dec_domain c ` set (t_custom_domains s)"
    using find_key [OF db_inv_keys(6) [OF inv]] by (auto simp: ran_def)
  then have "set (map (dec_domain c) ?rows) = {d \<in> ran (v_domain (db_view c s)). due_for_recheck cutoff d}"
    using P by auto
  ultimately show ?thesis by blast
qed

subsection \<open>Attested devices\<close>

lemma sqlite_upsert_device_refines:
  assumes ok: "codec_ok T c" and inv: "db_inv T c s" and t: "T now"
  shows "op_refines True (db_inv T c) (db_view c) s (sqlite_upsert_attested_device c k pk now s)
    (spec_upsert_attested_device k pk now (db_view c s))"
proof (cases "find (\<lambda>r. vr_key_id r = k) (t_attested_devices s)")
  case None
  let ?row = "\<lparr>vr_key_id = k, vr_public_key = pk, vr_counter = 0, vr_created_at = bind_time c now,
    vr_last_seen_at = bind_time c now\<rparr>"
  let ?s' = "s\<lparr>t_attested_devices := t_attested_devices s @ [?row]\<rparr>"
  have wf: "device_wf T c ?row" using t by (auto simp: device_wf_def intro: time_colI)
  have inv': "db_inv T c ?s'"
    using inv None wf by (auto simp: db_inv_defs find_none_key)
  have dec: "dec_device c ?row = \<lparr>ad_key_id = k, ad_public_key = pk, ad_counter = 0, ad_created_at = now,
      ad_last_seen_at = now\<rparr>"
    using codec_okD(3) [OF ok t] by (simp add: dec_device_def)
  have "sqlite_upsert_attested_device c k pk now s = (Ok (dec_device c ?row), ?s')"
    using None device_conv [OF ok wf]
    by (simp add: sqlite_upsert_attested_device_def upsert_device_def fetch_optional_filter Let_def)
  then show ?thesis
    using inv' None dec
    by (auto simp: op_refines_def spec_upsert_attested_device_def Let_def find_append_single fun_eq_iff
        split: option.split intro!: sview_eqI)
next
  case (Some d)
  let ?f = "\<lambda>r. r\<lparr>vr_last_seen_at := bind_time c now\<rparr>"
  let ?s' = "s\<lparr>t_attested_devices := snd (sql_update (\<lambda>r. vr_key_id r = k) ?f (t_attested_devices s))\<rparr>"
  have wf: "device_wf T c d" using db_inv_rows(6) [OF inv] find_SomeD [OF Some] by blast
  have wf': "device_wf T c r \<Longrightarrow> device_wf T c (?f r)" for r using t by (auto simp: device_wf_def intro: time_colI)
  have inv': "db_inv T c ?s'" by (rule db_inv_update_devices [OF inv]) (simp_all add: wf')
  have dec: "dec_device c (?f r) = (dec_device c r)\<lparr>ad_last_seen_at := now\<rparr>" for r
    using codec_okD(3) [OF ok t] by (simp add: dec_device_def)
  have "find (\<lambda>r. vr_key_id r = x) (snd (sql_update (\<lambda>r. vr_key_id r = k) ?f (t_attested_devices s))) =
      map_option (\<lambda>r. if vr_key_id r = k then ?f r else r) (find (\<lambda>r. vr_key_id r = x) (t_attested_devices s))" for x
    by (rule find_update) simp
  then have "v_device (db_view c ?s') x = v_device (snd (spec_upsert_attested_device k pk now (db_view c s))) x" for x
    using Some by (cases "find (\<lambda>r. vr_key_id r = x) (t_attested_devices s)")
      (auto simp: spec_upsert_attested_device_def Let_def dec dest: find_SomeD)
  moreover have "sqlite_upsert_attested_device c k pk now s = (Ok ((dec_device c d)\<lparr>ad_last_seen_at := now\<rparr>), ?s')"
    using Some device_conv [OF ok wf' [OF wf]] dec
    by (simp add: sqlite_upsert_attested_device_def upsert_device_def fetch_optional_filter Let_def)
  ultimately show ?thesis
    using inv' Some
    by (auto simp: op_refines_def spec_upsert_attested_device_def Let_def fun_eq_iff db_view_def intro!: sview_eqI)
qed

lemma sqlite_get_attested_device_refines:
  "codec_ok T c \<Longrightarrow> db_inv T c s \<Longrightarrow> sqlite_get_attested_device c k s = Ok (v_device (db_view c s) k)"
  by (simp add: sqlite_get_attested_device_def fetch_optional_filter)
    (rule transpose_find, auto intro: device_conv db_inv_rows)

lemma update_device_view:
  assumes "\<And>r. vr_key_id (f r) = vr_key_id r"
  shows "db_view c (s\<lparr>t_attested_devices := snd (sql_update (\<lambda>r. vr_key_id r = k \<and> Q r) f (t_attested_devices s))\<rparr>) =
    (db_view c s)\<lparr>v_device := (v_device (db_view c s))
      (k := map_option (\<lambda>r. dec_device c (if Q r then f r else r)) (find (\<lambda>r. vr_key_id r = k) (t_attested_devices s)))\<rparr>"
  by (rule sview_eqI)
    (auto simp: find_update assms fun_eq_iff option.map_comp comp_def dest!: find_SomeD intro!: option.map_cong)

lemma sqlite_advance_counter_refines:
  assumes ok: "codec_ok T c" and inv: "db_inv T c s" and t: "T seen"
  shows "op_refines True (db_inv T c) (db_view c) s (sqlite_advance_attested_device_counter c k cnt seen s)
    (spec_advance_attested_device_counter k cnt seen (db_view c s))"
proof -
  let ?P = "\<lambda>r. vr_key_id r = k \<and> vr_counter r < cnt"
  let ?f = "\<lambda>r. r\<lparr>vr_counter := cnt, vr_last_seen_at := bind_time c seen\<rparr>"
  let ?s' = "s\<lparr>t_attested_devices := snd (sql_update ?P ?f (t_attested_devices s))\<rparr>"
  have inv': "db_inv T c ?s'"
    by (rule db_inv_update_devices [OF inv]) (auto simp: device_wf_def intro: time_colI t)
  have dec: "dec_device c (?f r) = (dec_device c r)\<lparr>ad_counter := cnt, ad_last_seen_at := seen\<rparr>" for r
    using codec_okD(3) [OF ok t] by (simp add: dec_device_def)
  have cnt: "ad_counter (dec_device c r) = vr_counter r" for r by (simp add: dec_device_def)
  have "db_view c ?s' = (db_view c s)\<lparr>v_device := (v_device (db_view c s))(k := map_option
      (\<lambda>r. if vr_counter r < cnt then (dec_device c r)\<lparr>ad_counter := cnt, ad_last_seen_at := seen\<rparr> else dec_device c r)
      (find (\<lambda>r. vr_key_id r = k) (t_attested_devices s)))\<rparr>"
    by (subst update_device_view, simp) (simp only: dec if_distrib [of "dec_device c"])
  moreover have "sqlite_advance_attested_device_counter c k cnt seen s = (Ok (find ?P (t_attested_devices s) \<noteq> None), ?s')"
    by (simp add: sqlite_advance_attested_device_counter_def Let_def case_prod_beta update_affected)
  ultimately show ?thesis
    using inv' by (cases "find (\<lambda>r. vr_key_id r = k) (t_attested_devices s)")
      (auto simp: op_refines_def spec_advance_attested_device_counter_def cnt
        find_conj_key [OF db_inv_keys(7) [OF inv]] intro!: sview_eqI)
qed

lemma sqlite_prune_devices_refines:
  assumes ok: "codec_ok T c" and inv: "db_inv T c s" and t: "T idle"
  shows "op_refines True (db_inv T c) (db_view c) s (sqlite_prune_attested_devices c idle s)
    (spec_prune_attested_devices idle (db_view c s))"
proof -
  let ?P = "\<lambda>r. vr_last_seen_at r < bind_time c idle"
  let ?s' = "s\<lparr>t_attested_devices := filter (\<lambda>r. \<not> ?P r) (t_attested_devices s)\<rparr>"
  note keys = db_inv_keys(7) [OF inv]
  have P: "?P r \<longleftrightarrow> ad_last_seen_at (dec_device c r) < idle" if "r \<in> set (t_attested_devices s)" for r
    using dec_time_cmp(1) [OF ok _ t] db_inv_rows(6) [OF inv that] by (simp add: device_wf_def dec_device_def)
  have idle: "idle_devices idle (db_view c s) =
      {k. \<exists>r. find (\<lambda>r. vr_key_id r = k) (t_attested_devices s) = Some r \<and> ?P r}"
    using P find_key [OF keys] by (fastforce simp: idle_devices_def)
  have "v_device (db_view c ?s') x = v_device (snd (spec_prune_attested_devices idle (db_view c s))) x" for x
    by (cases "find (\<lambda>r. vr_key_id r = x) (t_attested_devices s)")
      (auto simp: spec_prune_attested_devices_def idle find_key_filter [OF keys])
  moreover have "sqlite_prune_attested_devices c idle s = (Ok (card (idle_devices idle (db_view c s))), ?s')"
    by (simp add: sqlite_prune_attested_devices_def case_prod_beta idle card_keys [OF keys])
  ultimately show ?thesis
    using db_inv_filter(3) [OF inv]
    by (simp add: op_refines_def spec_prune_attested_devices_def) (intro sview_eqI, simp_all add: fun_eq_iff db_view_def)
qed

end
