(* ===== verification/Sql_Contract.thy ===== *)
theory Sql_Contract
  imports Sql_Tables_Correct
begin

text \<open>
  The SQLite store meets the store contract. \<open>within_domain T ops\<close> is the store restricted to the
  calls the codec is good for: a call with a timestamp outside \<open>T\<close>, or with a message whose
  \<open>raw_size\<close> is negative, is a backend error that changes nothing; every other call is the store's own
  method. So everything that is proved from the contract (the SMTP session, the HTTP handlers, the
  background tasks) holds for the SQL stores on those calls.
\<close>

definition guarded :: "bool \<Rightarrow> ('s, 'a) stmt \<Rightarrow> ('s, 'a) stmt" where
  "guarded ok m s = (if ok then m s else (Err (BackendError ''value outside the supported range''), s))"

definition guarded_read :: "bool \<Rightarrow> ('a, store_error) result \<Rightarrow> ('a, store_error) result" where
  "guarded_read ok r = (if ok then r else Err (BackendError ''value outside the supported range''))"

definition within_domain :: "(datetime \<Rightarrow> bool) \<Rightarrow> 's store_ops \<Rightarrow> 's store_ops" where
  "within_domain T ops = ops\<lparr>
     st_create_mailbox := \<lambda>now a d ex ow dv. guarded (T now \<and> T ex) (st_create_mailbox ops now a d ex ow dv),
     st_mailbox_is_active := \<lambda>a now s. guarded_read (T now) (st_mailbox_is_active ops a now s),
     st_extend_mailbox := \<lambda>a ex. guarded (T ex) (st_extend_mailbox ops a ex),
     st_save_message := \<lambda>now mid aids a m.
       guarded (T now \<and> message_in T m) (st_save_message ops now mid aids a m),
     st_purge_expired := \<lambda>now. guarded (T now) (st_purge_expired ops now),
     st_add_subscription := \<lambda>now sid a kd ep p au cap.
       guarded (T now) (st_add_subscription ops now sid a kd ep p au cap),
     st_create_custom_domain := \<lambda>now d h tok. guarded (T now) (st_create_custom_domain ops now d h tok),
     st_record_custom_domain_check := \<lambda>d st va ca.
       guarded (opt_in T va \<and> T ca) (st_record_custom_domain_check ops d st va ca),
     st_list_custom_domains_to_recheck := \<lambda>cutoff s.
       guarded_read (T cutoff) (st_list_custom_domains_to_recheck ops cutoff s),
     st_upsert_attested_device := \<lambda>k pk now. guarded (T now) (st_upsert_attested_device ops k pk now),
     st_advance_attested_device_counter := \<lambda>k cnt now.
       guarded (T now) (st_advance_attested_device_counter ops k cnt now),
     st_prune_attested_devices := \<lambda>idle. guarded (T idle) (st_prune_attested_devices ops idle),
     st_count_active_mailboxes_by_device := \<lambda>h now s.
       guarded_read (T now) (st_count_active_mailboxes_by_device ops h now s)\<rparr>"

lemma guarded_simps [simp]: "guarded True m = m" "guarded_read True r = r"
  by (simp_all add: guarded_def guarded_read_def fun_eq_iff)

lemma guarded_refines:
  assumes "sinv s" "ok \<Longrightarrow> op_refines True sinv view s (m s) spec"
  shows "op_refines ok sinv view s (guarded ok m s) spec"
  using assms by (cases ok) (auto simp: op_refines_def guarded_def backend_failed_def)

lemma guarded_reads: "(ok \<Longrightarrow> r = Ok x) \<Longrightarrow> guarded_read ok r = Ok x \<or> \<not> ok \<and> backend_failed (guarded_read ok r)"
  by (simp add: guarded_read_def backend_failed_def)

lemma db_view_keys:
  "v_mailbox (db_view c s) a = Some mb \<Longrightarrow> mb_address mb = a"
  "v_domain (db_view c s) d = Some cd \<Longrightarrow> cd_domain cd = d"
  "v_sub (db_view c s) a ep = Some sub \<Longrightarrow> ps_mailbox_address sub = a \<and> ps_endpoint sub = ep"
  "codec_ok T c \<Longrightarrow> v_entry (db_view c s) a i = Some e \<Longrightarrow>
     sm_id (ve_message e) = i \<and> sm_mailbox_address (ve_message e) = a"
  using find_SomeD [of "\<lambda>r. mr_address r = a" "t_mailboxes s"] find_SomeD [of "\<lambda>r. dr_domain r = d" "t_custom_domains s"]
    find_srec_D [of a ep "t_push_subscriptions s"] find_message_D [of c a i "t_messages s"]
  by (auto simp: codec_okD)

text \<open>What a store over these tables promises: one name per method, the SQLite methods first.\<close>

lemmas sqlite_codec_refines = sqlite_create_mailbox_refines sqlite_extend_mailbox_refines
  sqlite_purge_expired_refines sqlite_delete_message_refines sqlite_mark_seen_refines
  sqlite_delete_all_messages_refines sqlite_create_custom_domain_refines
  sqlite_upsert_device_refines sqlite_advance_counter_refines sqlite_prune_devices_refines

lemmas sqlite_refines = sqlite_delete_mailbox_refines sqlite_rotate_owner_token_refines
  sqlite_delete_subscription_refines sqlite_delete_custom_domain_refines

lemmas sqlite_codec_reads = sqlite_get_mailbox_refines sqlite_mailbox_is_active_refines
  sqlite_get_message_refines sqlite_get_attachment_refines sqlite_get_custom_domain_refines
  sqlite_get_attested_device_refines sqlite_count_active_refines

lemmas sqlite_reads = sqlite_get_raw_message_refines sqlite_custom_domain_is_verified_refines

lemma sqlite_contract:
  assumes ok: "codec_ok T c" and q: "unat (q_max_bytes q) < 2 ^ 63"
  shows "store_contract (within_domain T (sqlite_ops c q)) q (db_inv T c) (db_view c) True T"
proof (unfold_locales, goal_cases)
  case (7 s mid aids m now a r s')
  then show ?case
    using sqlite_save_message_refines [OF ok 7(1,2) _ _ _ q, of now a r s']
    by (auto simp: within_domain_def sqlite_ops_def guarded_def opt_in_iff message_in_def split: if_splits)
next
  case (8 s a limit since)
  then show ?case
    using sqlite_list_messages_refines [OF ok, of s a limit since] by (simp add: within_domain_def sqlite_ops_def)
next
  case (16 s now sid a kd ep p au cap rs s')
  then show ?case
    using sqlite_add_subscription_refines [OF ok, of s now sid a kd ep p au cap rs s']
    by (auto simp: within_domain_def sqlite_ops_def guarded_def op_refines_def backend_failed_def split: if_splits)
next
  case (17 s a)
  then show ?case
    using sqlite_list_subscriptions_refines [OF ok, of s a] by (simp add: within_domain_def sqlite_ops_def)
next
  case (23 s d stat va ca)
  then show ?case
    by (simp add: within_domain_def sqlite_ops_def)
      (intro guarded_refines, simp_all add: opt_in_iff sqlite_record_check_refines [OF ok])
next
  case (24 s cutoff)
  then show ?case
    using sqlite_list_recheck_refines [OF ok, of s cutoff]
    by (auto simp: within_domain_def sqlite_ops_def guarded_read_def backend_failed_def)
next
  case (30 s)
  then show ?case by (simp add: within_domain_def sqlite_ops_def sqlite_run_maintenance_def)
qed (simp_all add: within_domain_def sqlite_ops_def guarded_refines guarded_reads
    sqlite_codec_refines [OF ok] sqlite_refines sqlite_codec_reads [OF ok] sqlite_reads read_refines_def db_view_keys(1-3)
    db_view_keys(4) [OF ok] del: db_view_simps)

end
