(* ===== verification/Postgres_Correct.thy ===== *)
theory Postgres_Correct
  imports Postgres_Store Sql_Contract
begin

text \<open>
  The PostgreSQL store against the same contract. Most of its statements are those of the SQLite
  store at the codec \<open>pg_codec\<close> (native identifiers), which the equations below say, so the refinement
  lemmas carry over; \<open>add_subscription\<close> is written differently and has its own proof.
\<close>

definition pg_codec :: "'t time_codec \<Rightarrow> ('t, uuid) codec" where
  "pg_codec tc = \<lparr>bind_time = bind_time tc, read_time = read_time tc, bind_id = (\<lambda>i. i), read_id = Some\<rparr>"

lemma pg_codec_simps [simp]:
  "bind_time (pg_codec tc) = bind_time tc" "read_time (pg_codec tc) = read_time tc"
  "bind_id (pg_codec tc) i = i" "read_id (pg_codec tc) i = Some i"
  by (simp_all add: pg_codec_def)

lemma pg_codec_decode [simp]:
  "decode_time (pg_codec tc) = decode_time tc" "decode_time_opt (pg_codec tc) = decode_time_opt tc"
  "sqlite_parse_uuid (pg_codec tc) i = Ok i"
proof -
  show d: "decode_time (pg_codec tc) = decode_time tc" by (simp add: decode_time_def fun_eq_iff)
  show "decode_time_opt (pg_codec tc) = decode_time_opt tc" by (simp add: decode_time_opt_def fun_eq_iff d)
  show "sqlite_parse_uuid (pg_codec tc) i = Ok i" by (simp add: sqlite_parse_uuid_def ok_or_def)
qed

lemma pg_codec_ok:
  "codec_ok T (pg_codec tc) \<longleftrightarrow>
     (\<forall>t. T t \<longrightarrow> read_time tc (bind_time tc t) = Some t) \<and>
     (\<forall>t u. T t \<longrightarrow> T u \<longrightarrow> (bind_time tc t < bind_time tc u \<longleftrightarrow> t < u))"
  by (simp add: codec_ok_def)

subsection \<open>Statements shared with SQLite\<close>

lemma pg_row_conversions:
  "pg_mailbox tc = sqlite_mailbox (pg_codec tc)"
  "pg_attested_device tc = sqlite_attested_device (pg_codec tc)"
  "pg_summary tc = sqlite_summary (pg_codec tc)"
  "sqlite_attachment_meta (pg_codec tc) = (\<lambda>a. Ok (pg_attachment_meta a))"
  "pg_message tc = sqlite_message (pg_codec tc)"
  "pg_push_subscription tc = sqlite_push_subscription (pg_codec tc)"
  "pg_custom_domain tc = sqlite_custom_domain (pg_codec tc)"
  by (simp_all add: fun_eq_iff pg_mailbox_def sqlite_mailbox_def pg_attested_device_def sqlite_attested_device_def
      pg_summary_def sqlite_summary_def sqlite_attachment_meta_def pg_attachment_meta_def pg_message_def
      sqlite_message_def pg_push_subscription_def sqlite_push_subscription_def pg_custom_domain_def
      sqlite_custom_domain_def)

lemma pg_limits:
  "pg_limit (Some (uint w)) = sqlite_limit (uint w)"
  "pg_limit (if limit = 0 then None else Some (uint limit)) = sqlite_limit (if limit = 0 then -1 else uint limit)"
  by (simp_all add: fun_eq_iff pg_limit_def sqlite_limit_def)

lemma collect_results_Ok: "collect_results (map (\<lambda>x. Ok (f x)) xs) = Ok (map f xs)"
  by (rule collect_results_map) simp

lemma pg_reads:
  "pg_get_mailbox tc = sqlite_get_mailbox (pg_codec tc)"
  "pg_mailbox_is_active tc = sqlite_mailbox_is_active (pg_codec tc)"
  "pg_list_messages tc = sqlite_list_messages (pg_codec tc)"
  "pg_get_message tc = sqlite_get_message (pg_codec tc)"
  "pg_get_raw_message = sqlite_get_raw_message (pg_codec tc)"
  "pg_get_attachment = sqlite_get_attachment (pg_codec tc)"
  "pg_list_subscriptions tc = sqlite_list_subscriptions (pg_codec tc)"
  "pg_get_custom_domain tc = sqlite_get_custom_domain (pg_codec tc)"
  "pg_custom_domain_is_verified = sqlite_custom_domain_is_verified"
  "pg_list_custom_domains_to_recheck tc = sqlite_list_custom_domains_to_recheck (pg_codec tc)"
  "pg_get_attested_device tc = sqlite_get_attested_device (pg_codec tc)"
  "pg_count_active_mailboxes_by_device tc = sqlite_count_active_mailboxes_by_device (pg_codec tc)"
  by (simp_all add: fun_eq_iff pg_get_mailbox_def sqlite_get_mailbox_def pg_mailbox_is_active_def
      sqlite_mailbox_is_active_def pg_list_messages_def sqlite_list_messages_def pg_get_message_def
      sqlite_get_message_def pg_get_raw_message_def sqlite_get_raw_message_def pg_get_attachment_def
      sqlite_get_attachment_def pg_list_subscriptions_def sqlite_list_subscriptions_def
      pg_get_custom_domain_def sqlite_get_custom_domain_def pg_custom_domain_is_verified_def
      sqlite_custom_domain_is_verified_def pg_list_custom_domains_to_recheck_def
      sqlite_list_custom_domains_to_recheck_def pg_get_attested_device_def sqlite_get_attested_device_def
      pg_count_active_mailboxes_by_device_def sqlite_count_active_mailboxes_by_device_def
      pg_row_conversions pg_limits collect_results_Ok option.map_ident split: option.split)

lemma pg_updates:
  "pg_delete_mailbox = sqlite_delete_mailbox"
  "pg_rotate_owner_token = sqlite_rotate_owner_token"
  "pg_purge_expired tc = sqlite_purge_expired (pg_codec tc)"
  "pg_delete_message = sqlite_delete_message (pg_codec tc)"
  "pg_mark_seen = sqlite_mark_seen (pg_codec tc)"
  "pg_delete_all_messages = sqlite_delete_all_messages"
  "pg_delete_subscription = sqlite_delete_subscription"
  "pg_create_custom_domain tc = sqlite_create_custom_domain (pg_codec tc)"
  "pg_delete_custom_domain = sqlite_delete_custom_domain"
  "pg_record_custom_domain_check tc = sqlite_record_custom_domain_check (pg_codec tc)"
  "pg_upsert_attested_device tc = sqlite_upsert_attested_device (pg_codec tc)"
  "pg_advance_attested_device_counter tc = sqlite_advance_attested_device_counter (pg_codec tc)"
  "pg_prune_attested_devices tc = sqlite_prune_attested_devices (pg_codec tc)"
  by (simp_all add: fun_eq_iff pg_delete_mailbox_def sqlite_delete_mailbox_def pg_rotate_owner_token_def
      sqlite_rotate_owner_token_def pg_purge_expired_def sqlite_purge_expired_def pg_delete_message_def
      sqlite_delete_message_def pg_mark_seen_def sqlite_mark_seen_def pg_delete_all_messages_def
      sqlite_delete_all_messages_def pg_delete_subscription_def sqlite_delete_subscription_def
      pg_create_custom_domain_def sqlite_create_custom_domain_def pg_delete_custom_domain_def
      sqlite_delete_custom_domain_def pg_record_custom_domain_check_def sqlite_record_custom_domain_check_def
      pg_upsert_attested_device_def sqlite_upsert_attested_device_def pg_advance_attested_device_counter_def
      sqlite_advance_attested_device_counter_def pg_prune_attested_devices_def sqlite_prune_attested_devices_def
      pg_row_conversions)

subsection \<open>Statements with RETURNING\<close>

lemma pg_create_mailbox_eq:
  assumes "codec_ok T (pg_codec tc)" "T now" "T ex"
  shows "pg_create_mailbox tc now a d ex ow dv = sqlite_create_mailbox (pg_codec tc) now a d ex ow dv"
  using assms
  by (simp add: fun_eq_iff pg_create_mailbox_def sqlite_create_mailbox_def sql_then_def sql_return_def
      pg_row_conversions sqlite_mailbox_def decode_time_def ok_or_def pg_codec_ok Let_def
      split: prod.split result.split)

lemma fetch_optional_map: "fetch_optional (map f xs) = map_option f (fetch_optional xs)"
  by (cases xs) (simp_all add: fetch_optional_def)

lemma pg_extend_mailbox_eq: "pg_extend_mailbox tc = sqlite_extend_mailbox (pg_codec tc)"
proof (intro ext)
  fix a ex and s :: "('a, uuid) database"
  let ?f = "\<lambda>r. r\<lparr>mr_expires_at := bind_time tc ex\<rparr>" and ?P = "\<lambda>r :: 'a mailbox_rec. mr_address r = a"
  have "find ?P (snd (sql_update ?P ?f (t_mailboxes s))) =
      map_option (\<lambda>r. if ?P r then ?f r else r) (find ?P (t_mailboxes s))"
    by (rule find_update) simp
  then have "find ?P (snd (sql_update ?P ?f (t_mailboxes s))) = map_option ?f (find ?P (t_mailboxes s))"
    by (cases "find ?P (t_mailboxes s)") (auto dest: find_SomeD)
  then show "pg_extend_mailbox tc a ex s = sqlite_extend_mailbox (pg_codec tc) a ex s"
    by (simp add: pg_extend_mailbox_def sqlite_extend_mailbox_def sqlite_get_mailbox_def Let_def case_prod_beta
        update_affected fetch_optional_map fetch_optional_filter pg_row_conversions)
qed

lemma pg_insert_attachments_eq: "pg_insert_attachments aids mid k atts = sqlite_insert_attachments (pg_codec tc) aids mid k atts"
proof (induction atts arbitrary: k)
  case (Cons a atts)
  then have "pg_insert_attachments aids mid (Suc k) atts = sqlite_insert_attachments (pg_codec tc) aids mid (Suc k) atts" .
  then show ?case by (intro ext) simp
qed (simp add: fun_eq_iff)

lemma sql_then_Pair: "sql_then (Pair (Ok x)) k = k x"
  by (simp add: fun_eq_iff sql_then_def)

lemma pg_save_message_eq:
  assumes "codec_ok T (pg_codec tc)" "T now"
  shows "pg_save_message tc q now mid aids a m = sqlite_save_message (pg_codec tc) q now mid aids a m"
proof -
  have rec: "pg_message_rec tc now mid a m = sqlite_message_rec (pg_codec tc) now mid a m"
    by (simp add: pg_message_rec_def sqlite_message_rec_def)
  have quotas: "pg_count_quota q a = sqlite_count_quota q a" "pg_byte_quota q a mid = sqlite_byte_quota (pg_codec tc) q a mid"
    by (simp_all add: fun_eq_iff pg_count_quota_def sqlite_count_quota_def pg_limits pg_byte_quota_def sqlite_byte_quota_def)
  have "decode_time tc (mg_received_at (sqlite_message_rec (pg_codec tc) now mid a m)) = Ok now"
    using assms by (simp add: decode_time_def pg_codec_ok sqlite_message_rec_def ok_or_def)
  then show ?thesis
    by (simp add: pg_save_message_def sqlite_save_message_def rec quotas pg_insert_attachments_eq [of _ _ _ _ tc]
        sql_then_Pair)
      (simp add: sqlite_message_rec_def)
qed

subsection \<open>Subscriptions\<close>

lemma upsert_by_key:
  assumes "db_inv T c s" "find_srec a ep (t_push_subscriptions s) = Some row"
  shows "sql_update (\<lambda>r. sr_key r = (a, ep)) f (t_push_subscriptions s) =
    sql_update (\<lambda>r. sr_id r = sr_id row) f (t_push_subscriptions s)"
proof -
  have row: "row \<in> set (t_push_subscriptions s)" "sr_key row = (a, ep)"
    using find_srec_D [OF assms(2)] by (auto simp: sr_key_def)
  have "sr_key r = (a, ep) \<longleftrightarrow> sr_id r = sr_id row" if r: "r \<in> set (t_push_subscriptions s)" for r
    using distinct_mapD [OF db_inv_keys(4) [OF assms(1)] r row(1)]
      distinct_mapD [OF db_inv_keys(5) [OF assms(1)] r row(1)] row(2) by metis
  then show ?thesis unfolding sql_update_def by (auto cong: filter_cong)
qed

lemma pg_add_subscription_refines:
  assumes ok: "codec_ok T (pg_codec tc)" and inv: "db_inv T (pg_codec tc) s" and t: "T now"
    and run: "pg_add_subscription tc now sid a kd ep p au cap s = (r, s')"
  shows "op_refines True (db_inv T (pg_codec tc)) (db_view (pg_codec tc)) s (r, s')
      (spec_add_subscription now sid a kd ep p au cap (db_view (pg_codec tc) s)) \<or>
    db_inv T (pg_codec tc) s' \<and> (\<exists>e. r = Err e) \<and> db_view (pg_codec tc) s' = db_view (pg_codec tc) s \<and>
      sub_refusable sid a ep cap (db_view (pg_codec tc) s)"
    (is "?ok \<or> ?refused")
proof (cases "cap > 0 \<and> unat cap \<le> card (dom (v_sub (db_view (pg_codec tc) s) a) - {ep})")
  case True
  then have "r = Err (SubscriptionLimit cap) \<and> s' = s"
    using run unfolding card_db_subs(2) [OF inv] by (simp add: pg_add_subscription_def cap_reached)
  with True inv have ?refused by (simp add: sub_refusable_def)
  then show ?thesis ..
next
  case False
  let ?c = "pg_codec tc" and ?row = "new_srec (pg_codec tc) now sid a kd ep p au"
  have key: "sr_key ?row = (a, ep)" by (simp add: new_srec_def sr_key_def)
  have find_key: "fetch_optional (filter (\<lambda>r. sr_key r = (a, ep)) (t_push_subscriptions s)) =
      find_srec a ep (t_push_subscriptions s)"
    by (simp add: fetch_optional_filter find_srec_def sr_key_def)
  have run': "(r, s') = sql_then
      (sql_tx (sql_then (upsert_subscription ?row (refresh_rec kd p au))
        (\<lambda>row s'. (map_ok (\<lambda>_. row) (decode_time tc (sr_created_at row)), s'))))
      (\<lambda>row s'. (sqlite_push_subscription ?c row, s')) s"
    using run False unfolding card_db_subs(2) [OF inv]
    by (auto simp: pg_add_subscription_def cap_reached new_srec_def refresh_rec_eta pg_row_conversions split: if_splits)
  show ?thesis
  proof (cases "find_srec a ep (t_push_subscriptions s)")
    case (Some row)
    let ?s' = "s\<lparr>t_push_subscriptions := snd (sql_update (\<lambda>r. sr_id r = sr_id row) (refresh_rec kd p au) (t_push_subscriptions s))\<rparr>"
    have wf: "sub_wf T ?c (refresh_rec kd p au row)"
      using find_srec_D [OF Some] db_inv_rows(4) [OF inv] by auto
    then have "decode_time tc (sr_created_at (refresh_rec kd p au row)) \<noteq> Err e" for e
      using decode_time_col [OF ok] by (simp add: sub_wf_def)
    then obtain x where dec: "decode_time tc (sr_created_at (refresh_rec kd p au row)) = Ok x" by (metis result.exhaust)
    have "upsert_subscription ?row (refresh_rec kd p au) s = (Ok (refresh_rec kd p au row), ?s')"
      by (simp add: upsert_subscription_def key find_key Some upsert_by_key [OF inv Some])
    then have "r = Ok ((dec_sub ?c row)\<lparr>ps_kind := kd, ps_p256dh := p, ps_auth := au\<rparr>)" "s' = ?s'"
      using run' dec sub_conv [OF ok wf] by (simp_all add: sql_then_def sql_tx_def dec_refresh_rec)
    with refresh_view [OF inv Some, of kd p au] Some have ?ok
      by (simp add: op_refines_def spec_add_subscription_def Let_def)
    then show ?thesis ..
  next
    case None
    obtain r1 s1 where ins: "insert_subscription ?row s = (r1, s1)" by fastforce
    have dom: "dom (v_sub (db_view ?c s) a) - {ep} = dom (v_sub (db_view ?c s) a)" using None by auto
    have wf: "sub_wf T ?c ?row"
      using t by (simp add: new_srec_def sub_wf_def id_colI time_colI [of T now ?c, simplified]) (cases kd, simp_all add: id_col_def)
    have dec: "decode_time tc (sr_created_at ?row) = Ok now"
      using ok t by (simp add: new_srec_def decode_time_def pg_codec_ok ok_or_def)
    have run2: "(r, s') = (case r1 of Ok _ \<Rightarrow> (Ok (dec_sub ?c ?row), s1) | Err e \<Rightarrow> (Err e, s))"
      using run' ins dec sub_conv [OF ok wf]
      by (simp add: upsert_subscription_def key find_key None sql_then_def sql_tx_def sql_return_def split: result.splits)
    from insert_subscription_view [OF ok inv t None ins, of cap] show ?thesis
    proof (elim disjE conjE exE)
      assume "r1 = Ok ()" "db_inv T ?c s1" "db_view ?c s1 = (db_view ?c s)\<lparr>v_sub := (v_sub (db_view ?c s))
        (a := (v_sub (db_view ?c s) a)(ep \<mapsto> dec_sub ?c ?row))\<rparr>"
      then show ?thesis
        using run2 False None unfolding dom
        by (simp add: op_refines_def spec_add_subscription_def Let_def dec_new_srec [OF ok t] not_le)
    next
      fix e assume "r1 = Err e" "sub_refusable sid a ep cap (db_view ?c s)"
      then show ?thesis using run2 inv by simp
    qed
  qed
qed

subsection \<open>The contract\<close>

lemma guarded_cong: "(ok \<Longrightarrow> m = m') \<Longrightarrow> guarded ok m = guarded ok m'"
  by (simp add: guarded_def fun_eq_iff)

lemma pg_within_domain:
  assumes ok: "codec_ok T (pg_codec tc)"
  shows "within_domain T (postgres_ops tc q) = (within_domain T (sqlite_ops (pg_codec tc) q))
    \<lparr>st_add_subscription := \<lambda>now sid a kd ep p au cap. guarded (T now) (pg_add_subscription tc now sid a kd ep p au cap)\<rparr>"
proof -
  have "guarded (T now \<and> T ex) (pg_create_mailbox tc now a d ex ow dv) =
      guarded (T now \<and> T ex) (sqlite_create_mailbox (pg_codec tc) now a d ex ow dv)" for now a d ex ow dv
    by (rule guarded_cong) (simp add: pg_create_mailbox_eq [OF ok])
  moreover have "guarded (T now \<and> message_in T m) (pg_save_message tc q now mid aids a m) =
      guarded (T now \<and> message_in T m)
        (sqlite_save_message (pg_codec tc) q now mid aids a m)" for now mid aids a m
    by (rule guarded_cong) (simp add: pg_save_message_eq [OF ok])
  ultimately show ?thesis
    unfolding within_domain_def postgres_ops_def sqlite_ops_def
    by (simp add: pg_reads(1-4,7-12) pg_reads(5,6) [of tc] pg_updates(1-3,6-13) pg_updates(4,5) [of tc] pg_extend_mailbox_eq default_run_maintenance_def
        sqlite_run_maintenance_def pg_ping_def sqlite_ping_def fun_eq_iff)
qed

lemma store_contract_add_subscription:
  assumes "store_contract ops q sinv view reliable T"
    "\<And>s now sid a kd ep p au cap rs s'. sinv s \<Longrightarrow> f now sid a kd ep p au cap s = (rs, s') \<Longrightarrow>
      op_refines (reliable \<and> T now) sinv view s (rs, s') (spec_add_subscription now sid a kd ep p au cap (view s)) \<or>
      sinv s' \<and> (\<exists>e. rs = Err e) \<and> view s' = view s \<and> sub_refusable sid a ep cap (view s)"
  shows "store_contract (ops\<lparr>st_add_subscription := f\<rparr>) q sinv view reliable T"
  using assms(1) unfolding store_contract_def by (simp add: assms(2))

lemma postgres_contract:
  assumes ok: "codec_ok T (pg_codec tc)" and q: "unat (q_max_bytes q) < 2 ^ 63"
  shows "store_contract (within_domain T (postgres_ops tc q)) q (db_inv T (pg_codec tc)) (db_view (pg_codec tc)) True T"
  unfolding pg_within_domain [OF ok]
proof (rule store_contract_add_subscription [OF sqlite_contract [OF ok q]])
  fix s now sid a kd ep p au cap rs s'
  assume inv: "db_inv T (pg_codec tc) s"
    and run: "guarded (T now) (pg_add_subscription tc now sid a kd ep p au cap) s = (rs, s')"
  show "op_refines (True \<and> T now) (db_inv T (pg_codec tc)) (db_view (pg_codec tc)) s (rs, s')
      (spec_add_subscription now sid a kd ep p au cap (db_view (pg_codec tc) s)) \<or>
    db_inv T (pg_codec tc) s' \<and> (\<exists>e. rs = Err e) \<and> db_view (pg_codec tc) s' = db_view (pg_codec tc) s \<and>
      sub_refusable sid a ep cap (db_view (pg_codec tc) s)"
    using run inv pg_add_subscription_refines [OF ok inv, of now sid a kd ep p au cap rs s']
    by (auto simp: guarded_def op_refines_def backend_failed_def split: if_splits)
qed

end
