(* ===== verification/Entitlements.thy ===== *)
theory Entitlements
  imports Config Rate_Limiter
begin

text \<open>
  \<open>src/entitlements.rs\<close>: the client token's claims, minting and verification over the HS256
  implementation (parameters \<open>encode\<close> and \<open>decode\<close>; \<open>decode leeway now key token\<close> validates the
  signature and the expiry at Unix time \<open>now\<close>), and the RevenueCat verifier with its cache. The HTTP
  exchange with RevenueCat is a parameter: a send failure, or a status with the parsed body.
  Every \<open>Instant\<close> and \<open>Utc::now()\<close> reading is an argument; the readings that \<open>remember\<close> takes while
  it trims the cache are one reading. \<open>rc_is_pro\<close> takes the reply that \<open>rc_upstream\<close> gives when it is asked.
\<close>

definition CLIENT_TOKEN_TTL_SECONDS :: int where
  "CLIENT_TOKEN_TTL_SECONDS = 12 * 3600"

definition KIND_UNATTESTED :: string where
  "KIND_UNATTESTED = ''unattested''"

definition KIND_IOS :: string where
  "KIND_IOS = ''ios''"

definition RC_CACHE_TTL :: duration where
  "RC_CACHE_TTL = seconds 600"

record client_claims =
  cc_kind :: string
  cc_kid :: "string option"
  cc_tier :: tier
  cc_iat :: int
  cc_exp :: int

definition is_attested :: "client_claims \<Rightarrow> bool" where
  "is_attested c \<longleftrightarrow> cc_kind c \<noteq> KIND_UNATTESTED"

text \<open>\<open>DateTime::timestamp\<close>: whole seconds since the epoch.\<close>

definition timestamp :: "datetime \<Rightarrow> int" where
  "timestamp t = t div 1000000000"

definition mint_client_token ::
  "(bytes \<Rightarrow> client_claims \<Rightarrow> string option) \<Rightarrow> bytes \<Rightarrow> string \<Rightarrow> string option \<Rightarrow> tier \<Rightarrow> duration
   \<Rightarrow> datetime \<Rightarrow> (string \<times> datetime, string) result" where
  "mint_client_token encode key kind kid tier ttl now =
     (let expires_at = now + ttl;
          claims = \<lparr>cc_kind = kind, cc_kid = kid, cc_tier = tier, cc_iat = timestamp now,
                    cc_exp = timestamp expires_at\<rparr>
      in case encode key claims of
           None \<Rightarrow> Err ''signing client token''
         | Some token \<Rightarrow> Ok (token, expires_at))"

datatype jwt_error = ExpiredSignature | OtherJwtError

datatype token_error = Expired | Invalid

definition verify_client_token ::
  "(int \<Rightarrow> int \<Rightarrow> bytes \<Rightarrow> string \<Rightarrow> (client_claims, jwt_error) result) \<Rightarrow> int \<Rightarrow> bytes \<Rightarrow> string
   \<Rightarrow> (client_claims, token_error) result" where
  "verify_client_token decode now key token =
     (case decode 5 now key token of
        Ok claims \<Rightarrow> Ok claims
      | Err ExpiredSignature \<Rightarrow> Err Expired
      | Err OtherJwtError \<Rightarrow> Err Invalid)"

subsection \<open>RevenueCat\<close>

text \<open>The entitlements of a subscriber: name to lapse date, \<open>None\<close> for a lifetime purchase.\<close>

type_synonym subscriber = "(string, datetime option) hmap"

datatype rc_reply = RcUrlError string | RcSendError string | RcReply nat "subscriber option"

text \<open>What the verifier uses of \<open>reqwest\<close>: building a client with a timeout, parsing a URL, pushing path
  segments onto it (\<open>None\<close>: the URL cannot be a base), and the \<open>k\<close>-th exchange of the process.\<close>

record ('c, 'u) rc_lib =
  rcl_build :: "duration \<Rightarrow> ('c, string) result"
  rcl_parse_url :: "string \<Rightarrow> ('u, string) result"
  rcl_extend :: "'u \<Rightarrow> string list \<Rightarrow> 'u option"
  rcl_get :: "'c \<Rightarrow> 'u \<Rightarrow> string \<Rightarrow> nat \<Rightarrow> rc_reply"

record 'c rc_verifier =
  rv_http :: 'c
  rv_base_url :: string
  rv_secret_key :: string
  rv_entitlement_id :: string

definition rc_with_base_url ::
  "('c, 'u) rc_lib \<Rightarrow> string \<Rightarrow> string \<Rightarrow> string \<Rightarrow> ('c rc_verifier, string) result" where
  "rc_with_base_url lib secret_key entitlement_id base_url =
     (case rcl_build lib (seconds 10) of
        Err e \<Rightarrow> Err (''building RevenueCat HTTP client: '' @ e)
      | Ok http \<Rightarrow> Ok \<lparr>rv_http = http, rv_base_url = trim_end_matches (CHR ''/'') base_url,
                       rv_secret_key = secret_key, rv_entitlement_id = entitlement_id\<rparr>)"

definition rc_verifier_new ::
  "('c, 'u) rc_lib \<Rightarrow> string \<Rightarrow> string \<Rightarrow> ('c rc_verifier, string) result" where
  "rc_verifier_new lib secret_key entitlement_id =
     rc_with_base_url lib secret_key entitlement_id ''https://api.revenuecat.com''"

text \<open>The part of \<open>is_pro\<close> that talks to RevenueCat, from the URL to the reply.\<close>

definition rc_upstream :: "('c, 'u) rc_lib \<Rightarrow> 'c rc_verifier \<Rightarrow> nat \<Rightarrow> string \<Rightarrow> rc_reply" where
  "rc_upstream lib v k rc_app_user_id =
     (case rcl_parse_url lib (rv_base_url v) of
        Err e \<Rightarrow> RcUrlError (''parsing RevenueCat base url: '' @ e)
      | Ok base \<Rightarrow>
          (case rcl_extend lib base [''v1'', ''subscribers'', rc_app_user_id] of
             None \<Rightarrow> RcUrlError ''RevenueCat base url cannot be a base''
           | Some url \<Rightarrow> rcl_get lib (rv_http v) url (rv_secret_key v) k))"

type_synonym rc_cache = "(string, bool \<times> instant) hmap"

definition entitlement_active :: "subscriber \<Rightarrow> string \<Rightarrow> datetime \<Rightarrow> bool" where
  "entitlement_active body entitlement_id now =
     (case hm_get body entitlement_id of
        None \<Rightarrow> False
      | Some expires \<Rightarrow> (case expires of None \<Rightarrow> True | Some d \<Rightarrow> d > now))"

definition rc_cached :: "string \<Rightarrow> instant \<Rightarrow> rc_cache \<Rightarrow> bool option" where
  "rc_cached rc_id now cache =
     (case hm_get cache rc_id of
        None \<Rightarrow> None
      | Some (pro, at) \<Rightarrow> if duration_since now at < RC_CACHE_TTL then Some pro else None)"

definition rc_remember :: "string \<Rightarrow> bool \<Rightarrow> instant \<Rightarrow> instant \<Rightarrow> rc_cache \<Rightarrow> rc_cache" where
  "rc_remember rc_id pro trim_now now cache =
     (let kept = (if hm_len cache \<ge> 10000
            then hm_retain (\<lambda>_ (_, at). duration_since trim_now at < RC_CACHE_TTL) cache else cache)
      in hm_insert rc_id (pro, now) kept)"

definition rc_is_pro ::
  "string \<Rightarrow> rc_reply \<Rightarrow> string \<Rightarrow> instant \<Rightarrow> datetime \<Rightarrow> instant \<Rightarrow> instant \<Rightarrow> rc_cache
   \<Rightarrow> (bool, string) result \<times> rc_cache" where
  "rc_is_pro entitlement_id reply rc_id now1 utc now2 now3 cache =
     (case rc_cached rc_id now1 cache of
        Some pro \<Rightarrow> (Ok pro, cache)
      | None \<Rightarrow>
          (case reply of
             RcUrlError e \<Rightarrow> (Err e, cache)
           | RcSendError e \<Rightarrow> (Err (''calling RevenueCat: '' @ e), cache)
           | RcReply status body \<Rightarrow>
               if \<not> (200 \<le> status \<and> status < 300)
               then (Err (''RevenueCat returned '' @ show_nat status), cache)
               else case body of
                      None \<Rightarrow> (Err ''parsing RevenueCat response'', cache)
                    | Some subscriber \<Rightarrow>
                        let pro = entitlement_active subscriber entitlement_id utc
                        in (Ok pro, rc_remember rc_id pro now2 now3 cache)))"

subsection \<open>Verdicts are recent\<close>

record rc_call =
  rq_id :: string
  rq_now1 :: instant
  rq_utc :: datetime
  rq_now2 :: instant
  rq_now3 :: instant
  rq_reply :: rc_reply

definition rc_step :: "string \<Rightarrow> rc_call \<Rightarrow> rc_cache \<Rightarrow> (bool, string) result \<times> rc_cache" where
  "rc_step ent q cache =
     rc_is_pro ent (rq_reply q) (rq_id q) (rq_now1 q) (rq_utc q) (rq_now2 q) (rq_now3 q) cache"

fun rc_run :: "string \<Rightarrow> rc_cache \<Rightarrow> rc_call list \<Rightarrow> rc_cache" where
  "rc_run ent cache [] = cache"
| "rc_run ent cache (q # qs) = rc_run ent (snd (rc_step ent q cache)) qs"

text \<open>RevenueCat itself answered \<open>pro\<close> for the id of this call.\<close>

definition rc_answers :: "string \<Rightarrow> rc_call \<Rightarrow> bool \<Rightarrow> bool" where
  "rc_answers ent q pro \<longleftrightarrow> (\<exists>status body. rq_reply q = RcReply status (Some body) \<and>
     200 \<le> status \<and> status < 300 \<and> entitlement_active body ent (rq_utc q) = pro)"

definition cache_sound :: "string \<Rightarrow> rc_call set \<Rightarrow> rc_cache \<Rightarrow> bool" where
  "cache_sound ent past cache \<longleftrightarrow> hm_invar cache \<and>
     (\<forall>i pro at. hm_get cache i = Some (pro, at) \<longrightarrow>
        (\<exists>q\<in>past. rq_id q = i \<and> rq_now3 q = at \<and> rc_answers ent q pro))"

lemma rc_remember_get:
  "hm_invar cache \<Longrightarrow> hm_invar (rc_remember i pro t now cache) \<and>
   (hm_get (rc_remember i pro t now cache) j = Some e \<longrightarrow>
      j = i \<and> e = (pro, now) \<or> hm_get cache j = Some e)"
  by (auto simp: rc_remember_def Let_def hm_laws split: option.splits if_splits)

lemma rc_step_cases:
  obtains (cached) pro at where "hm_get cache (rq_id q) = Some (pro, at)"
      "duration_since (rq_now1 q) at < RC_CACHE_TTL" "rc_step ent q cache = (Ok pro, cache)"
  | (failed) e where "rc_step ent q cache = (Err e, cache)"
  | (asked) pro where "rc_answers ent q pro"
      "rc_step ent q cache = (Ok pro, rc_remember (rq_id q) pro (rq_now2 q) (rq_now3 q) cache)"
proof (cases "rc_cached (rq_id q) (rq_now1 q) cache")
  case (Some pro)
  then obtain at where "hm_get cache (rq_id q) = Some (pro, at)" "duration_since (rq_now1 q) at < RC_CACHE_TTL"
    by (auto simp: rc_cached_def split: option.splits prod.splits if_splits)
  with Some show thesis by (intro cached) (auto simp: rc_step_def rc_is_pro_def)
next
  case None
  note step = rc_step_def rc_is_pro_def None Let_def
  show thesis
  proof (cases "rq_reply q")
    case (RcUrlError e)
    then show thesis by (intro failed) (simp add: step)
  next
    case (RcSendError e)
    then show thesis by (intro failed) (simp add: step)
  next
    case (RcReply status body)
    show thesis
    proof (cases "200 \<le> status \<and> status < 300")
      case ok: True
      show thesis
      proof (cases body)
        case None
        with RcReply ok show thesis by (intro failed) (simp add: step)
      next
        case (Some b)
        with RcReply ok show thesis
          by (intro asked [of "entitlement_active b ent (rq_utc q)"]) (simp_all add: step rc_answers_def)
      qed
    next
      case False
      with RcReply show thesis by (intro failed) (simp add: step)
    qed
  qed
qed

lemma rc_step_sound:
  assumes "cache_sound ent past cache"
  shows "cache_sound ent (insert q past) (snd (rc_step ent q cache))"
    "fst (rc_step ent q cache) = Ok pro \<Longrightarrow> \<exists>p\<in>insert q past. rq_id p = rq_id q \<and> rc_answers ent p pro \<and>
       (p = q \<or> duration_since (rq_now1 q) (rq_now3 p) < RC_CACHE_TTL)"
proof -
  show "cache_sound ent (insert q past) (snd (rc_step ent q cache))"
  proof (cases rule: rc_step_cases [of cache q ent])
    case (asked pro)
    with assms show ?thesis
      using rc_remember_get [of cache] unfolding cache_sound_def by (fastforce simp: asked)
  qed (use assms in \<open>auto simp: cache_sound_def\<close>)
  assume ok: "fst (rc_step ent q cache) = Ok pro"
  show "\<exists>p\<in>insert q past. rq_id p = rq_id q \<and> rc_answers ent p pro \<and>
       (p = q \<or> duration_since (rq_now1 q) (rq_now3 p) < RC_CACHE_TTL)"
    using ok assms by (cases rule: rc_step_cases [of cache q ent]) (auto simp: cache_sound_def)
qed

lemma rc_run_sound:
  "cache_sound ent past cache \<Longrightarrow> cache_sound ent (past \<union> set qs) (rc_run ent cache qs)"
proof (induction qs arbitrary: past cache)
  case (Cons q qs)
  from Cons.IH [OF rc_step_sound(1) [OF Cons.prems]] show ?case by simp
qed simp

text \<open>A verdict that the RevenueCat verifier returns, after any history of lookups, is RevenueCat's
  own answer for that id: to this very lookup, or to an earlier one that was answered less than
  \<open>RC_CACHE_TTL\<close> before. Nothing but an active entitlement in a successful reply makes a client pro.\<close>

theorem rc_verdict_fresh:
  assumes "fst (rc_step ent q (rc_run ent hm_empty qs)) = Ok pro"
  shows "\<exists>p\<in>insert q (set qs). rq_id p = rq_id q \<and> rc_answers ent p pro \<and>
    (p = q \<or> duration_since (rq_now1 q) (rq_now3 p) < RC_CACHE_TTL)"
proof -
  have "cache_sound ent {} hm_empty" by (simp add: cache_sound_def hm_laws)
  from rc_run_sound [OF this] have "cache_sound ent (set qs) (rc_run ent hm_empty qs)" by simp
  from rc_step_sound(2) [OF this assms] show ?thesis .
qed

definition rc_call_1 :: rc_call where
  "rc_call_1 = \<lparr>rq_id = ''u'', rq_now1 = 0, rq_utc = 5, rq_now2 = 1, rq_now3 = 2,
     rq_reply = RcReply 200 (Some [(''pro'', Some 9)])\<rparr>"

theorem rc_verdict_fresh_witness:
  "fst (rc_step ''pro'' (rc_call_1\<lparr>rq_now1 := 7, rq_reply := RcSendError []\<rparr>)
       (rc_run ''pro'' hm_empty [rc_call_1])) = Ok True \<and>
   (\<exists>p\<in>{rc_call_1\<lparr>rq_now1 := 7, rq_reply := RcSendError []\<rparr>, rc_call_1}. rq_id p = ''u'' \<and>
      rc_answers ''pro'' p True \<and>
      (p = rc_call_1\<lparr>rq_now1 := 7, rq_reply := RcSendError []\<rparr> \<or> duration_since 7 (rq_now3 p) < RC_CACHE_TTL))"
proof -
  have ok: "fst (rc_step ''pro'' (rc_call_1\<lparr>rq_now1 := 7, rq_reply := RcSendError []\<rparr>)
       (rc_run ''pro'' hm_empty [rc_call_1])) = Ok True" by code_simp
  from rc_verdict_fresh [OF ok] ok show ?thesis by (simp add: rc_call_1_def)
qed

end
