(* ===== verification/Attest.thy ===== *)
theory Attest
  imports Rate_Limiter Rust_Str
begin

text \<open>
  \<open>src/attest.rs\<close>: the single-use challenges and the checks around the \<open>appattest\<close> crate. The crate,
  base64 and the CBOR decoder are parameters (\<open>attest_lib\<close>); the decoder's operations take and
  return the rest of its input.
\<close>

definition CHALLENGE_TTL_SECONDS :: int where
  "CHALLENGE_TTL_SECONDS = 300"

definition MAX_OUTSTANDING_CHALLENGES :: nat where
  "MAX_OUTSTANDING_CHALLENGES = 100000"

definition MAX_ATTESTATION_B64_LEN :: nat where
  "MAX_ATTESTATION_B64_LEN = 32 * 1024"

definition MAX_ASSERTION_B64_LEN :: nat where
  "MAX_ASSERTION_B64_LEN = 1024"

record challenge_store =
  ch_ttl :: duration
  ch_issued :: "(string, instant) hmap"

definition challenge_store_new :: "duration \<Rightarrow> challenge_store" where
  "challenge_store_new ttl = \<lparr>ch_ttl = ttl, ch_issued = hm_empty\<rparr>"

definition challenge_store_default :: challenge_store where
  "challenge_store_default = challenge_store_new (seconds CHALLENGE_TTL_SECONDS)"

definition issue ::
  "(bytes \<Rightarrow> string) \<Rightarrow> bytes \<Rightarrow> instant \<Rightarrow> challenge_store \<Rightarrow> string \<times> challenge_store" where
  "issue b64url drawn now cs =
     (let challenge = b64url drawn;
          issued = ch_issued cs;
          issued = (if hm_len issued \<ge> MAX_OUTSTANDING_CHALLENGES then
             (let live = hm_retain (\<lambda>_ at. duration_since now at < ch_ttl cs) issued
              in if hm_len live \<ge> MAX_OUTSTANDING_CHALLENGES
                 then hm_retain (\<lambda>_ at. duration_since now at < ch_ttl cs div 2) live else live)
             else issued)
      in (challenge, cs\<lparr>ch_issued := hm_insert challenge now issued\<rparr>))"

definition consume :: "string \<Rightarrow> instant \<Rightarrow> challenge_store \<Rightarrow> bool \<times> challenge_store" where
  "consume challenge now cs =
     ((case hm_get (ch_issued cs) challenge of
         None \<Rightarrow> False | Some at \<Rightarrow> duration_since now at < ch_ttl cs),
      cs\<lparr>ch_issued := hm_remove challenge (ch_issued cs)\<rparr>)"

subsection \<open>Attestations and assertions\<close>

record attest_lib =
  al_sha256 :: "bytes \<Rightarrow> bytes"
  al_attestation_base64 :: "string \<Rightarrow> (bytes, string) result"
  al_attestation_parse :: "bytes \<Rightarrow> (unit, string) result"
  al_attestation_verify :: "bytes \<Rightarrow> string \<Rightarrow> string \<Rightarrow> string \<Rightarrow> bytes \<Rightarrow> (bytes, string) result"
  al_base64 :: "string \<Rightarrow> (bytes, string) result"
  al_assertion_parse :: "bytes \<Rightarrow> (unit, string) result"
  al_assertion_verify :: "bytes \<Rightarrow> bytes \<Rightarrow> string \<Rightarrow> string \<Rightarrow> bytes \<Rightarrow> nat \<Rightarrow> string \<Rightarrow> (unit, string) result"
  al_cbor_map :: "bytes \<Rightarrow> (nat option \<times> bytes) option"
  al_cbor_str :: "bytes \<Rightarrow> (string \<times> bytes) option"
  al_cbor_bytes :: "bytes \<Rightarrow> (bytes \<times> bytes) option"
  al_cbor_skip :: "bytes \<Rightarrow> bytes option"

definition verify_attestation ::
  "attest_lib \<Rightarrow> string \<Rightarrow> bytes \<Rightarrow> string \<Rightarrow> string \<Rightarrow> string \<Rightarrow> (bytes, string) result" where
  "verify_attestation lib app_id root_pem challenge key_id attestation_b64 =
     (if length attestation_b64 > MAX_ATTESTATION_B64_LEN then Err ''attestation too large''
      else case al_attestation_base64 lib attestation_b64 of
        Err e \<Rightarrow> Err (''attestation base64: '' @ e)
      | Ok cbor \<Rightarrow>
          (case al_attestation_parse lib cbor of
             Err e \<Rightarrow> Err (''attestation cbor: '' @ e)
           | Ok _ \<Rightarrow>
               (case al_attestation_verify lib cbor challenge app_id key_id root_pem of
                  Err e \<Rightarrow> Err (''attestation rejected: '' @ e)
                | Ok public_key \<Rightarrow> Ok public_key)))"

definition from_be_bytes :: "bytes \<Rightarrow> nat" where
  "from_be_bytes bs = fold (\<lambda>b a. a * 256 + byte_of b) bs 0"

text \<open>The loop over the \<open>n\<close> entries of the map that are left.\<close>

fun counter_loop :: "attest_lib \<Rightarrow> nat \<Rightarrow> bytes \<Rightarrow> (nat, string) result" where
  "counter_loop lib 0 d = Err ''assertion missing authenticatorData''"
| "counter_loop lib (Suc n) d =
     (case al_cbor_str lib d of
        None \<Rightarrow> Err ''assertion map key''
      | Some (key, d1) \<Rightarrow>
          if key = ''authenticatorData'' then
            (case al_cbor_bytes lib d1 of
               None \<Rightarrow> Err ''authenticatorData bytes''
             | Some (auth_data, _) \<Rightarrow>
                 if length auth_data \<ge> 37 then Ok (from_be_bytes (take 4 (drop 33 auth_data)))
                 else Err ''authenticatorData too short'')
          else
            (case al_cbor_skip lib d1 of
               None \<Rightarrow> Err ''assertion map value''
             | Some d2 \<Rightarrow> counter_loop lib n d2))"

definition assertion_counter :: "attest_lib \<Rightarrow> bytes \<Rightarrow> (nat, string) result" where
  "assertion_counter lib cbor =
     (case al_cbor_map lib cbor of
        None \<Rightarrow> Err ''assertion is not a cbor map''
      | Some (entries, d) \<Rightarrow> counter_loop lib (case entries of Some n \<Rightarrow> n | None \<Rightarrow> 0) d)"

definition verify_assertion ::
  "attest_lib \<Rightarrow> string \<Rightarrow> string \<Rightarrow> string \<Rightarrow> bytes \<Rightarrow> int \<Rightarrow> (int, string) result" where
  "verify_assertion lib app_id challenge assertion_b64 public_key previous_counter =
     (if length assertion_b64 > MAX_ASSERTION_B64_LEN then Err ''assertion too large''
      else case al_base64 lib assertion_b64 of
        Err e \<Rightarrow> Err (''assertion base64: '' @ e)
      | Ok cbor \<Rightarrow>
          if \<not> (0 \<le> previous_counter \<and> previous_counter < 2 ^ 32) then Err ''stored counter out of range''
          else
            (case assertion_counter lib cbor of
               Err e \<Rightarrow> Err e
             | Ok new_counter \<Rightarrow>
                 (case al_assertion_parse lib cbor of
                    Err e \<Rightarrow> Err (''assertion cbor: '' @ e)
                  | Ok _ \<Rightarrow>
                      (case al_assertion_verify lib cbor (al_sha256 lib challenge) challenge app_id
                              public_key (nat previous_counter) challenge of
                         Err e \<Rightarrow> Err (''assertion rejected: '' @ e)
                       | Ok _ \<Rightarrow> Ok (int new_counter)))))"

text \<open>A counter that verification returns fits the width it was read at.\<close>

lemma from_be_bytes_snoc: "from_be_bytes (bs @ [b]) = from_be_bytes bs * 256 + byte_of b"
  by (simp add: from_be_bytes_def)

lemma from_be_bytes_bound: "from_be_bytes bs < 256 ^ length bs"
proof (induction bs rule: rev_induct)
  case (snoc b bs)
  have "byte_of b < 256" by (simp add: byte_of_def)
  with snoc show ?case by (simp add: from_be_bytes_snoc)
qed (simp add: from_be_bytes_def)

lemma counter_loop_bound: "counter_loop lib n d = Ok c \<Longrightarrow> c < 2 ^ 32"
proof (induction n arbitrary: d)
  case (Suc n)
  have "from_be_bytes (take 4 (drop 33 a)) < 2 ^ 32" if "length a \<ge> 37" for a
    using from_be_bytes_bound [of "take 4 (drop 33 a)"] that by simp
  with Suc show ?case by (auto split: option.splits if_splits prod.splits)
qed simp

lemma verify_assertion_range:
  "verify_assertion lib app ch a pk prev = Ok c \<Longrightarrow> 0 \<le> c \<and> c < 2 ^ 32"
  using counter_loop_bound
  by (fastforce simp: verify_assertion_def assertion_counter_def split: if_splits result.splits option.splits prod.splits)

subsection \<open>Challenges are single-use\<close>

datatype challenge_event = Issued string instant | Consumed string instant bool

fun challenge_step ::
  "(bytes \<Rightarrow> string) \<Rightarrow> (bytes \<times> instant) + (string \<times> instant) \<Rightarrow> challenge_store
   \<Rightarrow> challenge_event \<times> challenge_store" where
  "challenge_step b64url (Inl (drawn, now)) cs =
     (case issue b64url drawn now cs of (c, cs') \<Rightarrow> (Issued c now, cs'))"
| "challenge_step b64url (Inr (c, now)) cs =
     (case consume c now cs of (ok, cs') \<Rightarrow> (Consumed c now ok, cs'))"

fun challenge_run ::
  "(bytes \<Rightarrow> string) \<Rightarrow> ((bytes \<times> instant) + (string \<times> instant)) list \<Rightarrow> challenge_store
   \<Rightarrow> challenge_event list \<times> challenge_store" where
  "challenge_run b64url [] cs = ([], cs)"
| "challenge_run b64url (r # rs) cs =
     (case challenge_step b64url r cs of (e, cs1) \<Rightarrow>
        case challenge_run b64url rs cs1 of (es, cs2) \<Rightarrow> (e # es, cs2))"

text \<open>\<open>c\<close> is open since \<open>at\<close>: it was issued then and not presented since.\<close>

definition open_since :: "challenge_event list \<Rightarrow> string \<Rightarrow> instant \<Rightarrow> bool" where
  "open_since past c at \<longleftrightarrow> (\<exists>pre post. past = pre @ Issued c at # post \<and>
     (\<forall>now ok. Consumed c now ok \<notin> set post))"

definition challenge_inv :: "challenge_event list \<Rightarrow> challenge_store \<Rightarrow> bool" where
  "challenge_inv past cs \<longleftrightarrow> hm_invar (ch_issued cs) \<and>
     (\<forall>c at. hm_get (ch_issued cs) c = Some at \<longrightarrow> open_since past c at)"

lemma open_since_snoc:
  "open_since past c at \<Longrightarrow> (\<And>now ok. e \<noteq> Consumed c now ok) \<Longrightarrow> open_since (past @ [e]) c at"
  unfolding open_since_def by (elim exE conjE) (rule exI, rule_tac x = "post @ [e]" in exI, auto)

lemma open_since_new: "open_since (past @ [Issued c at]) c at"
  unfolding open_since_def by (rule exI [of _ past], rule exI [of _ "[]"]) simp

lemma issue_get:
  assumes "hm_invar (ch_issued cs)" "issue b64url drawn now cs = (c, cs')"
  shows "hm_invar (ch_issued cs')" "ch_ttl cs' = ch_ttl cs" "c = b64url drawn"
    "hm_get (ch_issued cs') d = Some at \<Longrightarrow> d = c \<and> at = now \<or> hm_get (ch_issued cs) d = Some at"
  using assms by (auto simp: issue_def Let_def hm_laws split: if_splits option.splits)

lemma challenge_inv_step:
  assumes "challenge_inv past cs" "challenge_step b64url r cs = (e, cs')"
  shows "challenge_inv (past @ [e]) cs'" "ch_ttl cs' = ch_ttl cs"
    "e = Consumed c now True \<Longrightarrow> \<exists>at. open_since past c at \<and> duration_since now at < ch_ttl cs"
proof -
  have inv: "hm_invar (ch_issued cs)" "\<And>c at. hm_get (ch_issued cs) c = Some at \<Longrightarrow> open_since past c at"
    using assms(1) by (auto simp: challenge_inv_def)
  show "challenge_inv (past @ [e]) cs'"
  proof (cases r)
    case (Inl p)
    then obtain drawn now c where i: "issue b64url drawn now cs = (c, cs')" "e = Issued c now"
      using assms(2) by (cases p) (auto split: prod.splits)
    note get = issue_get [OF inv(1) i(1)]
    show ?thesis
      unfolding challenge_inv_def
      using get(1,4) inv(2) open_since_new open_since_snoc i(2) by (metis challenge_event.distinct(1))
  next
    case (Inr p)
    then obtain c now ok where r: "e = Consumed c now ok" "ch_issued cs' = hm_remove c (ch_issued cs)"
      using assms(2) by (cases p) (auto simp: consume_def)
    with inv show ?thesis
      by (auto simp: challenge_inv_def hm_laws intro!: open_since_snoc split: if_splits)
  qed
  show "ch_ttl cs' = ch_ttl cs"
    using assms(2) by (cases r) (auto simp: issue_def consume_def Let_def split: if_splits)
  show "\<exists>at. open_since past c at \<and> duration_since now at < ch_ttl cs" if e: "e = Consumed c now True"
  proof -
    obtain at where "hm_get (ch_issued cs) c = Some at" "duration_since now at < ch_ttl cs"
      using assms(2) e by (cases r) (auto simp: consume_def split: prod.splits option.splits)
    with inv(2) show ?thesis by blast
  qed
qed

lemma challenge_run_redeemed:
  assumes "challenge_inv past cs" "fst (challenge_run b64url rs cs) = pre @ Consumed c now True # post"
  shows "\<exists>at. open_since (past @ pre) c at \<and> duration_since now at < ch_ttl cs"
  using assms
proof (induction rs arbitrary: past cs pre)
  case (Cons r rs)
  obtain e cs1 where step: "challenge_step b64url r cs = (e, cs1)" by (cases "challenge_step b64url r cs")
  note inv = challenge_inv_step [OF Cons.prems(1) step]
  show ?case
  proof (cases pre)
    case Nil
    with Cons.prems(2) step have "e = Consumed c now True" by (auto split: prod.splits)
    from inv(3) [OF this] Nil show ?thesis by simp
  next
    case (Cons x pre')
    with Cons.prems(2) step have "x = e" "fst (challenge_run b64url rs cs1) = pre' @ Consumed c now True # post"
      by (auto split: prod.splits)
    with Cons.IH [OF inv(1), of pre'] inv(2) Cons show ?thesis by simp
  qed
qed simp

text \<open>C27: Over every history of the challenge store, a challenge is redeemed only if it was issued less
  than the lifetime before and never presented since: a second redemption, a redemption of a
  challenge that was never issued, and one after the lifetime all fail.\<close>

theorem challenge_single_use:
  assumes "fst (challenge_run b64url rs (challenge_store_new ttl)) = pre @ Consumed c now True # post"
  shows "\<exists>before at since. pre = before @ Issued c at # since \<and> duration_since now at < ttl \<and>
    (\<forall>t ok. Consumed c t ok \<notin> set since)"
proof -
  have "challenge_inv [] (challenge_store_new ttl)"
    by (simp add: challenge_inv_def challenge_store_new_def hm_laws)
  from challenge_run_redeemed [OF this assms] show ?thesis
    by (auto simp: open_since_def challenge_store_new_def)
qed

theorem challenge_single_use_witness:
  "fst (challenge_run id [Inl (''a'', 1), Inr (''b'', 2), Inr (''a'', 3), Inr (''a'', 4)] (challenge_store_new 10)) =
     [Issued ''a'' 1, Consumed ''b'' 2 False, Consumed ''a'' 3 True, Consumed ''a'' 4 False] \<and>
   (\<exists>before at since. [Issued ''a'' 1, Consumed ''b'' 2 False] = before @ Issued ''a'' at # since \<and>
      duration_since 3 at < 10 \<and> (\<forall>t ok. Consumed ''a'' t ok \<notin> set since))"
proof
  show run: "fst (challenge_run id [Inl (''a'', 1), Inr (''b'', 2), Inr (''a'', 3), Inr (''a'', 4)] (challenge_store_new 10)) =
     [Issued ''a'' 1, Consumed ''b'' 2 False, Consumed ''a'' 3 True, Consumed ''a'' 4 False]" by code_simp
  show "\<exists>before at since. [Issued ''a'' 1, Consumed ''b'' 2 False] = before @ Issued ''a'' at # since \<and>
      duration_since 3 at < 10 \<and> (\<forall>t ok. Consumed ''a'' t ok \<notin> set since)"
    by (rule challenge_single_use [where b64url = id and ttl = 10
          and rs = "[Inl (''a'', 1), Inr (''b'', 2), Inr (''a'', 3), Inr (''a'', 4)]"
          and post = "[Consumed ''a'' 4 False]"]) (simp only: run append.simps)
qed

text \<open>\<open>MAX_OUTSTANDING_CHALLENGES\<close> is no cap: challenges that are younger than half the lifetime are
  never shed, so a flood of distinct challenges within that time is kept in full, however large.\<close>

theorem challenges_not_capped:
  assumes "distinct (map b64url drawn)" "0 < ttl div 2"
  shows "hm_len (ch_issued (fold (\<lambda>d cs. snd (issue b64url d now cs)) drawn (challenge_store_new ttl))) = length drawn"
proof -
  define keep where "keep cs \<longleftrightarrow> ch_ttl cs = ttl \<and> hm_invar (ch_issued cs) \<and>
      (\<forall>c at. hm_get (ch_issued cs) c = Some at \<longrightarrow> at = now)" for cs :: challenge_store
  have lt: "duration_since now now < ttl" "duration_since now now < ttl div 2"
    using assms(2) by (auto simp: duration_since_def)
  have all: "hm_retain (\<lambda>_ at. duration_since now at < t) (ch_issued cs) = ch_issued cs"
    if "keep cs" "duration_since now now < t" for cs t
    using that by (auto simp: keep_def hm_retain_def hm_get_def hm_invar_def intro!: filter_True)
  have step: "keep (snd (issue b64url d now cs))"
    "hm_get (ch_issued cs) (b64url d) = None \<Longrightarrow>
       hm_len (ch_issued (snd (issue b64url d now cs))) = Suc (hm_len (ch_issued cs))"
    "hm_get (ch_issued (snd (issue b64url d now cs))) c = None \<longleftrightarrow> c \<noteq> b64url d \<and> hm_get (ch_issued cs) c = None"
    if "keep cs" for cs d c
    using that all [OF that lt(1)] all [OF that lt(2)]
    by (auto simp: issue_def Let_def keep_def hm_laws hm.len_insert)
  have "hm_len (ch_issued (fold (\<lambda>d cs. snd (issue b64url d now cs)) drawn cs)) =
      hm_len (ch_issued cs) + length drawn"
    if "keep cs" "distinct (map b64url drawn)" "\<forall>d\<in>set drawn. hm_get (ch_issued cs) (b64url d) = None" for cs
    using that
  proof (induction drawn arbitrary: cs)
    case (Cons d ds)
    have "\<forall>e\<in>set ds. hm_get (ch_issued (snd (issue b64url d now cs))) (b64url e) = None"
      using Cons.prems step(3) [OF Cons.prems(1)] by (auto simp: image_iff)
    with Cons.IH [OF step(1) [OF Cons.prems(1)]] Cons.prems step(2) [OF Cons.prems(1), of d] show ?case by simp
  qed simp
  from this [of "challenge_store_new ttl"] assms(1) show ?thesis
    by (simp add: keep_def challenge_store_new_def hm_laws) (simp add: hm_len_def hm_empty_def)
qed

theorem challenges_not_capped_witness:
  "hm_len (ch_issued (fold (\<lambda>d cs. snd (issue id d 7 cs)) (map (\<lambda>n. replicate n (CHR ''x'')) [0..<100001])
     challenge_store_default)) = 100001"
proof -
  have "inj (\<lambda>n. replicate n (CHR ''x''))" by (auto simp: inj_def)
  then have "distinct (map id (map (\<lambda>n. replicate n (CHR ''x'')) [0..<100001]))"
    by (auto simp: distinct_map intro: inj_on_subset)
  from challenges_not_capped [OF this, of "seconds CHALLENGE_TTL_SECONDS" 7] show ?thesis
    by (simp add: challenge_store_default_def seconds_def CHALLENGE_TTL_SECONDS_def)
qed

end
