(* ===== verification/Api_Base.thy ===== *)
theory Api_Base
  imports World Limits Entitlements Custom_Domains Attest
begin

text \<open>
  The HTTP side's shared state and error type (\<open>src/api/mod.rs\<close>), and the sequencing that the
  handlers share. A handler is a function from the process state (\<open>app_world\<close>) to a result and the
  next state; \<open>?\<close> is \<open>try_bind\<close>. Cryptography, DNS, RevenueCat and the attestation crate are
  parameters of \<open>app_state\<close>; the \<open>n\<close>-th network lookup of a run sees the \<open>n\<close>-th answer.
\<close>

subsection \<open>Errors and responses\<close>

datatype any_error = StoreError store_error | Anyhow string

datatype api_error =
    NotFound string
  | Conflict string
  | BadRequest string
  | Unauthorized string
  | TooManyRequests string
  | ServiceUnavailable string
  | Coded nat string string
  | Internal any_error

definition pro_required :: "string \<Rightarrow> api_error" where
  "pro_required message = Coded 403 ''pro_required'' message"

definition lifetime_cap :: "string \<Rightarrow> api_error" where
  "lifetime_cap message = Coded 403 ''lifetime_cap'' message"

definition mailbox_cap :: "string \<Rightarrow> api_error" where
  "mailbox_cap message = Coded 403 ''mailbox_cap'' message"

record error_response =
  er_status :: nat
  er_headers :: "(string \<times> string) list"
  er_error :: string
  er_code :: "string option"

definition plain_error :: "nat \<Rightarrow> string \<Rightarrow> error_response" where
  "plain_error status m = \<lparr>er_status = status, er_headers = [], er_error = m, er_code = None\<rparr>"

fun into_response :: "api_error \<Rightarrow> error_response" where
  "into_response (NotFound m) = plain_error 404 m"
| "into_response (Conflict m) = plain_error 409 m"
| "into_response (BadRequest m) = plain_error 400 m"
| "into_response (Unauthorized m) = (plain_error 401 m)\<lparr>er_headers := [(''www-authenticate'', ''Bearer'')]\<rparr>"
| "into_response (TooManyRequests m) = plain_error 429 m"
| "into_response (ServiceUnavailable m) = plain_error 503 m"
| "into_response (Coded status code m) = (plain_error status m)\<lparr>er_code := Some code\<rparr>"
| "into_response (Internal e) = plain_error 500 ''internal server error''"

subsection \<open>State\<close>

record crypto =
  cr_sha256 :: "bytes \<Rightarrow> bytes"
  cr_b64url :: "bytes \<Rightarrow> string"
  cr_jwt_encode :: "bytes \<Rightarrow> client_claims \<Rightarrow> string option"
  cr_jwt_decode :: "int \<Rightarrow> int \<Rightarrow> bytes \<Rightarrow> string \<Rightarrow> (client_claims, jwt_error) result"
  cr_attest :: attest_lib

record 's app_state =
  ap_ops :: "'s store_ops"
  ap_config :: config
  ap_dns :: "nat \<Rightarrow> domain_dns"
  ap_pro :: "(nat \<Rightarrow> string \<Rightarrow> rc_reply) option"
  ap_crypto :: crypto

record 's app_world = "'s world" +
  aw_limits :: runtime_limits
  aw_challenges :: challenge_store
  aw_rc_cache :: rc_cache
  aw_instants :: "nat \<Rightarrow> instant"
  aw_iticks :: nat
  aw_random :: "nat \<Rightarrow> nat"
  aw_rpos :: nat
  aw_lookups :: nat

type_synonym ('a, 's) handler = "'s app_world \<Rightarrow> ('a, api_error) result \<times> 's app_world"

subsection \<open>Sequencing\<close>

definition ret :: "'a \<Rightarrow> 'w \<Rightarrow> ('a, 'e) result \<times> 'w" where
  "ret x w = (Ok x, w)"

definition fail :: "'e \<Rightarrow> 'w \<Rightarrow> ('a, 'e) result \<times> 'w" where
  "fail e w = (Err e, w)"

definition try_bind ::
  "('w \<Rightarrow> ('a, 'e) result \<times> 'w) \<Rightarrow> ('a \<Rightarrow> 'w \<Rightarrow> ('b, 'e) result \<times> 'w) \<Rightarrow> 'w \<Rightarrow> ('b, 'e) result \<times> 'w" where
  "try_bind m f w = (case m w of (Ok x, w') \<Rightarrow> f x w' | (Err e, w') \<Rightarrow> (Err e, w'))"

definition lift_result :: "('a, 'e) result \<Rightarrow> 'w \<Rightarrow> ('a, 'e) result \<times> 'w" where
  "lift_result r w = (r, w)"

definition read_store :: "('s \<Rightarrow> ('a, store_error) result) \<Rightarrow> ('a, 's) handler" where
  "read_store f w = (map_err (\<lambda>e. Internal (StoreError e)) (f (w_store w)), w)"

text \<open>\<open>run_store\<close> leaves the store's own result to the caller, \<open>write_store\<close> is the call with \<open>?\<close>.\<close>

definition run_store :: "('s \<Rightarrow> ('a, store_error) result \<times> 's) \<Rightarrow> (('a, store_error) result, 's) handler" where
  "run_store f w = (case f (w_store w) of (r, s') \<Rightarrow> (Ok r, w\<lparr>w_store := s'\<rparr>))"

definition write_store :: "('s \<Rightarrow> ('a, store_error) result \<times> 's) \<Rightarrow> ('a, 's) handler" where
  "write_store f w =
     (case f (w_store w) of (r, s') \<Rightarrow> (map_err (\<lambda>e. Internal (StoreError e)) r, w\<lparr>w_store := s'\<rparr>))"

definition now_utc :: "(datetime, 's) handler" where
  "now_utc w = (case utc_now w of (t, w') \<Rightarrow> (Ok t, w'))"

definition now_instant :: "(instant, 's) handler" where
  "now_instant w = (Ok (aw_instants w (aw_iticks w)), w\<lparr>aw_iticks := Suc (aw_iticks w)\<rparr>)"

definition draw_bytes :: "nat \<Rightarrow> (bytes, 's) handler" where
  "draw_bytes n w = (Ok (map (\<lambda>i. char_of (aw_random w (aw_rpos w + i))) [0..<n]),
     w\<lparr>aw_rpos := aw_rpos w + n\<rparr>)"

definition draw_uuid :: "(uuid, 's) handler" where
  "draw_uuid w = (Ok (w_uuids w (w_drawn w)), w\<lparr>w_drawn := Suc (w_drawn w)\<rparr>)"

definition next_lookup :: "(nat, 's) handler" where
  "next_lookup w = (Ok (aw_lookups w), w\<lparr>aw_lookups := Suc (aw_lookups w)\<rparr>)"

definition with_limits :: "(runtime_limits \<Rightarrow> 'a \<times> runtime_limits) \<Rightarrow> ('a, 's) handler" where
  "with_limits f w = (case f (aw_limits w) of (x, l) \<Rightarrow> (Ok x, w\<lparr>aw_limits := l\<rparr>))"

definition with_challenges :: "(challenge_store \<Rightarrow> 'a \<times> challenge_store) \<Rightarrow> ('a, 's) handler" where
  "with_challenges f w = (case f (aw_challenges w) of (x, c) \<Rightarrow> (Ok x, w\<lparr>aw_challenges := c\<rparr>))"

definition ensure :: "bool \<Rightarrow> api_error \<Rightarrow> (unit, 's) handler" where
  "ensure b e w = (if b then (Ok (), w) else (Err e, w))"

definition expect_some :: "api_error \<Rightarrow> 'a option \<Rightarrow> ('a, 's) handler" where
  "expect_some e x w = (case x of None \<Rightarrow> (Err e, w) | Some v \<Rightarrow> (Ok v, w))"

subsection \<open>Rules\<close>

lemma try_bind_Ok:
  "try_bind m f w = (Ok y, w') \<longleftrightarrow> (\<exists>x w1. m w = (Ok x, w1) \<and> f x w1 = (Ok y, w'))"
  by (auto simp: try_bind_def split: prod.splits result.splits)

lemma try_bind_Err:
  "try_bind m f w = (Err e, w') \<longleftrightarrow>
     m w = (Err e, w') \<or> (\<exists>x w1. m w = (Ok x, w1) \<and> f x w1 = (Err e, w'))"
  by (auto simp: try_bind_def split: prod.splits result.splits)

lemma try_bind_cases:
  assumes "try_bind m f w = (r, w')"
  obtains (stop) e where "m w = (Err e, w')" "r = Err e"
  | (cont) x w1 where "m w = (Ok x, w1)" "f x w1 = (r, w')"
  using assms by (auto simp: try_bind_def split: prod.splits result.splits)

lemma handler_eqs [api_simps]:
  "ret x w = (r, w') \<longleftrightarrow> r = Ok x \<and> w' = w"
  "fail e w = (r, w') \<longleftrightarrow> r = Err e \<and> w' = w"
  "lift_result q w = (r, w') \<longleftrightarrow> r = q \<and> w' = w"
  "ensure b e w2 = (q2, w2') \<longleftrightarrow> q2 = (if b then Ok () else Err e) \<and> w2' = w2"
  "expect_some e o1 w3 = (q3, w3') \<longleftrightarrow> ok_or e o1 = q3 \<and> w3' = w3"
  by (auto simp: ret_def fail_def lift_result_def ensure_def expect_some_def ok_or_def split: option.splits)

text \<open>\<open>keeps f m\<close>: the handler leaves the part \<open>f\<close> of the state alone, whatever it returns.\<close>

definition keeps :: "('w \<Rightarrow> 'b) \<Rightarrow> ('w \<Rightarrow> ('a, 'e) result \<times> 'w) \<Rightarrow> bool" where
  "keeps f m \<longleftrightarrow> (\<forall>w. f (snd (m w)) = f w)"

lemma keepsD: "keeps f m \<Longrightarrow> m w = (r, w') \<Longrightarrow> f w' = f w"
  by (metis keeps_def snd_conv)

lemma keeps_try_bind [intro!]:
  "keeps f m \<Longrightarrow> (\<And>x. keeps f (g x)) \<Longrightarrow> keeps f (try_bind m g)"
  by (auto simp: keeps_def try_bind_def split: prod.splits result.splits) (metis snd_conv)+

lemma keeps_pure [intro!, simp]:
  "keeps f (ret x)" "keeps f (fail e)" "keeps f (lift_result r)" "keeps g (ensure b e')"
  "keeps g (expect_some e' v)" "keeps g (read_store q)"
  by (auto simp: keeps_def ret_def fail_def lift_result_def ensure_def expect_some_def read_store_def
      split: option.splits)

lemma keeps_store_effects [intro!, simp]:
  "keeps w_store now_utc" "keeps w_store now_instant" "keeps w_store (draw_bytes n)" "keeps w_store draw_uuid"
  "keeps w_store next_lookup" "keeps w_store (with_limits f)" "keeps w_store (with_challenges g)"
  by (auto simp: keeps_def now_utc_def utc_now_def now_instant_def draw_bytes_def draw_uuid_def
      next_lookup_def with_limits_def with_challenges_def split: prod.splits)

lemma keeps_limits_effects [intro!, simp]:
  "keeps aw_limits now_utc" "keeps aw_limits now_instant" "keeps aw_limits (draw_bytes n)"
  "keeps aw_limits draw_uuid" "keeps aw_limits next_lookup" "keeps aw_limits (with_challenges g)"
  "keeps aw_limits (run_store h)" "keeps aw_limits (write_store h')"
  by (auto simp: keeps_def now_utc_def utc_now_def now_instant_def draw_bytes_def draw_uuid_def
      next_lookup_def with_challenges_def run_store_def write_store_def split: prod.splits)

lemma keeps_if [intro!]: "(b \<Longrightarrow> keeps f m) \<Longrightarrow> (\<not> b \<Longrightarrow> keeps f n) \<Longrightarrow> keeps f (if b then m else n)"
  by simp

lemma keeps_case_option [intro!]:
  "keeps f m \<Longrightarrow> (\<And>x. keeps f (g x)) \<Longrightarrow> keeps f (case v of None \<Rightarrow> m | Some x \<Rightarrow> g x)"
  by (cases v) auto

lemma keeps_case_result [intro!]:
  "(\<And>x. keeps f (g x)) \<Longrightarrow> (\<And>e. keeps f (h e)) \<Longrightarrow> keeps f (case r of Ok x \<Rightarrow> g x | Err e \<Rightarrow> h e)"
  by (cases r) auto

lemmas keeps_rules = keeps_try_bind keeps_if keeps_case_option keeps_case_result keeps_pure
  keeps_store_effects keeps_limits_effects

end
