(* ===== verification/Api_Gates.thy ===== *)
theory Api_Gates
  imports Api_Base
begin

text \<open>
  The checks that the handlers share: the client token and its tier (\<open>src/api/entitlements.rs\<close>), the
  mailbox owner token (\<open>authorize_owner\<close> of \<open>src/api/auth.rs\<close>) and the claim token of a custom domain
  (\<open>src/api/custom_domains.rs\<close>).
\<close>

definition CLIENT_TOKEN_HEADER :: string where
  "CLIENT_TOKEN_HEADER = ''x-client-token''"

abbreviation sha :: "'s app_state \<Rightarrow> bytes \<Rightarrow> bytes" where
  "sha st \<equiv> cr_sha256 (ap_crypto st)"

subsection \<open>Client token and tier\<close>

text \<open>\<open>client_claims\<close> of the source.\<close>

definition request_claims :: "'s app_state \<Rightarrow> headers \<Rightarrow> (client_claims option, 's) handler" where
  "request_claims st h =
     (case trimmed_non_empty (Option.bind (h CLIENT_TOKEN_HEADER) header_to_str) of
        None \<Rightarrow> ret None
      | Some raw \<Rightarrow>
          (case token_signing_key (ap_config st) of
             None \<Rightarrow> ret None
           | Some signing_key \<Rightarrow>
               try_bind now_utc (\<lambda>now.
               (case verify_client_token (cr_jwt_decode (ap_crypto st)) (timestamp now) signing_key raw of
                  Ok claims \<Rightarrow> ret (Some claims)
                | Err Expired \<Rightarrow> fail (Coded 401 ''client_token_expired''
                    ''client token expired, refresh it and retry'')
                | Err Invalid \<Rightarrow> fail (Coded 401 ''client_token_invalid'' ''client token invalid'')))))"

definition attestation_gate :: "'s app_state \<Rightarrow> headers \<Rightarrow> (client_claims option, 's) handler" where
  "attestation_gate st h =
     try_bind (request_claims st h) (\<lambda>claims.
       if \<not> client_attestation_required (ap_config st) then ret claims
       else case claims of
              Some c \<Rightarrow> if is_attested c then ret (Some c)
                else fail (Coded 401 ''attestation_required''
                  ''this server requires an attested client token; obtain one via POST /api/client/attest'')
            | None \<Rightarrow> fail (Coded 401 ''attestation_required''
                  ''this server requires an attested client token; obtain one via POST /api/client/attest''))"

definition client_tier :: "'s app_state \<Rightarrow> headers \<Rightarrow> (tier, 's) handler" where
  "client_tier st h =
     try_bind (request_claims st h) (\<lambda>claims.
       ret (case claims of None \<Rightarrow> Free | Some c \<Rightarrow> cc_tier c))"

definition enforced_tier :: "'s app_state \<Rightarrow> headers \<Rightarrow> (tier option, 's) handler" where
  "enforced_tier st h =
     (if \<not> entitlements_enforced (ap_config st) then ret None
      else try_bind (client_tier st h) (\<lambda>t. ret (Some t)))"

text \<open>\<open>RevenueCatVerifier::is_pro\<close> on the process state: the cache, the clocks and one HTTP exchange.\<close>

definition is_pro ::
  "'s app_state \<Rightarrow> (nat \<Rightarrow> string \<Rightarrow> rc_reply) \<Rightarrow> string \<Rightarrow> ((bool, string) result, 's) handler" where
  "is_pro st upstream rc_id =
     try_bind now_instant (\<lambda>now1.
     try_bind next_lookup (\<lambda>k.
     try_bind now_utc (\<lambda>utc.
     try_bind now_instant (\<lambda>now2.
     try_bind now_instant (\<lambda>now3 w.
       (case rc_is_pro (revenuecat_entitlement_id (ap_config st)) (upstream k rc_id) rc_id
               now1 utc now2 now3 (aw_rc_cache w) of
          (r, cache) \<Rightarrow> (Ok r, w\<lparr>aw_rc_cache := cache\<rparr>)))))))"

definition resolve_tier :: "'s app_state \<Rightarrow> string option \<Rightarrow> (tier, 's) handler" where
  "resolve_tier st rc_app_user_id =
     (case (trimmed_non_empty rc_app_user_id, ap_pro st) of
        (Some rc_id, Some upstream) \<Rightarrow>
          try_bind (is_pro st upstream rc_id) (\<lambda>r.
            (case r of
               Ok True \<Rightarrow> ret Pro
             | Ok False \<Rightarrow> ret Free
             | Err e \<Rightarrow> fail (ServiceUnavailable
                 ''entitlement verification is temporarily unavailable, retry later'')))
      | _ \<Rightarrow> ret Free)"

definition mint_token ::
  "'s app_state \<Rightarrow> bytes \<Rightarrow> string \<Rightarrow> string option \<Rightarrow> tier \<Rightarrow> (string \<times> tier \<times> datetime, 's) handler" where
  "mint_token st signing_key kind kid t =
     try_bind now_utc (\<lambda>now.
       (case mint_client_token (cr_jwt_encode (ap_crypto st)) signing_key kind kid t
               (seconds CLIENT_TOKEN_TTL_SECONDS) now of
          Ok (token, expires_at) \<Rightarrow> ret (token, t, expires_at)
        | Err e \<Rightarrow> fail (Internal (Anyhow e))))"

text \<open>\<open>POST /api/entitlements/verify\<close>.\<close>

definition entitlements_verify ::
  "'s app_state \<Rightarrow> headers \<Rightarrow> string option \<Rightarrow> (string \<times> tier \<times> datetime, 's) handler" where
  "entitlements_verify st h rc_app_user_id =
     try_bind (expect_some (ServiceUnavailable ''entitlements are not configured on this server'')
                 (token_signing_key (ap_config st))) (\<lambda>signing_key.
     try_bind (attestation_gate st h) (\<lambda>_.
     try_bind (resolve_tier st rc_app_user_id) (\<lambda>t.
       mint_token st signing_key KIND_UNATTESTED None t)))"

subsection \<open>Owner and claim tokens\<close>

definition authorize_owner :: "'s app_state \<Rightarrow> string \<Rightarrow> headers \<Rightarrow> (mailbox, 's) handler" where
  "authorize_owner st address h =
     try_bind (read_store (st_get_mailbox (ap_ops st) address)) (\<lambda>found.
     try_bind (expect_some (NotFound ''mailbox not found'') found) (\<lambda>mb.
     try_bind (expect_some (Unauthorized ''missing bearer token'') (bearer_token h)) (\<lambda>presented.
     try_bind (expect_some (Unauthorized ''mailbox has no owner token'') (mb_owner_token_hash mb)) (\<lambda>want.
       if token_matches_hash (sha st) presented want then ret mb
       else fail (Unauthorized ''invalid owner token'')))))"

definition authorize_domain :: "'s app_state \<Rightarrow> string \<Rightarrow> headers \<Rightarrow> (custom_domain, 's) handler" where
  "authorize_domain st raw h =
     (let domain = normalize_domain raw in
      try_bind (read_store (st_get_custom_domain (ap_ops st) domain)) (\<lambda>found.
      try_bind (expect_some (NotFound ''domain not found'') found) (\<lambda>rec.
      try_bind (expect_some (Unauthorized ''missing bearer token'') (bearer_token h)) (\<lambda>presented.
        if token_matches_hash (sha st) presented (cd_claim_token_hash rec) then ret rec
        else fail (Unauthorized ''invalid claim token'')))))"

definition authorize_mailbox_on_custom_domain ::
  "'s app_state \<Rightarrow> string \<Rightarrow> headers \<Rightarrow> (unit, 's) handler" where
  "authorize_mailbox_on_custom_domain st domain h =
     try_bind (read_store (st_get_custom_domain (ap_ops st) domain)) (\<lambda>found.
     try_bind (expect_some (BadRequest (''unknown domain: '' @ domain)) found) (\<lambda>rec.
     try_bind (expect_some (Unauthorized ''custom domains require their claim token'') (bearer_token h))
       (\<lambda>presented.
        if \<not> token_matches_hash (sha st) presented (cd_claim_token_hash rec)
        then fail (Unauthorized ''invalid claim token'')
        else if cd_status rec \<noteq> Verified then fail (BadRequest (''domain not verified: '' @ domain))
        else ret ())))"

text \<open>\<open>generate_token\<close> with the 32 bytes it draws, \<open>generate_owner_token\<close>.\<close>

definition fresh_token :: "'s app_state \<Rightarrow> string \<Rightarrow> (string \<times> string, 's) handler" where
  "fresh_token st prefix =
     try_bind (draw_bytes 32) (\<lambda>drawn. ret (generate_token (sha st) (cr_b64url (ap_crypto st)) prefix drawn))"

subsection \<open>What the gates establish\<close>

text \<open>The request carries the secret whose hash is \<open>want\<close>.\<close>

definition presents :: "'s app_state \<Rightarrow> headers \<Rightarrow> string \<Rightarrow> bool" where
  "presents st h want \<longleftrightarrow> (\<exists>t. bearer_token h = Some t \<and> hash_token (sha st) t = want)"

lemma authorize_owner_Ok:
  "authorize_owner st a h w = (Ok mb, w') \<longleftrightarrow> w' = w \<and>
     st_get_mailbox (ap_ops st) a (w_store w) = Ok (Some mb) \<and>
     (\<exists>want. mb_owner_token_hash mb = Some want \<and> presents st h want)"
  by (auto simp: authorize_owner_def try_bind_Ok api_simps read_store_def presents_def
      token_matches_hash_iff split: if_splits)

lemma authorize_domain_Ok:
  "authorize_domain st d h w = (Ok c, w') \<longleftrightarrow> w' = w \<and>
     st_get_custom_domain (ap_ops st) (normalize_domain d) (w_store w) = Ok (Some c) \<and>
     presents st h (cd_claim_token_hash c)"
  by (auto simp: authorize_domain_def try_bind_Ok api_simps read_store_def presents_def
      token_matches_hash_iff split: if_splits)

lemma authorize_mailbox_on_custom_domain_Ok:
  "authorize_mailbox_on_custom_domain st d h w = (Ok u, w') \<longleftrightarrow> w' = w \<and>
     (\<exists>c. st_get_custom_domain (ap_ops st) d (w_store w) = Ok (Some c) \<and>
        presents st h (cd_claim_token_hash c) \<and> cd_status c = Verified)"
  by (auto simp: authorize_mailbox_on_custom_domain_def try_bind_Ok api_simps read_store_def presents_def
      token_matches_hash_iff split: if_splits)

lemma gates_keep_all [intro!, simp]:
  "keeps f (authorize_owner st a h)" "keeps f (authorize_domain st d h)"
  "keeps f (authorize_mailbox_on_custom_domain st d h)"
  unfolding authorize_owner_def authorize_domain_def authorize_mailbox_on_custom_domain_def Let_def
  by (intro keeps_rules)+

lemma keeps_case_token_error:
  "keeps f m \<Longrightarrow> keeps f n \<Longrightarrow> keeps f (case e of Expired \<Rightarrow> m | Invalid \<Rightarrow> n)"
  by (cases e) auto

lemma keeps_case_bool: "keeps f m \<Longrightarrow> keeps f n \<Longrightarrow> keeps f (case b of True \<Rightarrow> m | False \<Rightarrow> n)"
  by (cases b) auto

lemma gates_keep_store [intro!, simp]:
  "keeps w_store (request_claims st h)" "keeps w_store (attestation_gate st h)"
  "keeps w_store (client_tier st h)" "keeps w_store (enforced_tier st h)"
  unfolding request_claims_def attestation_gate_def client_tier_def enforced_tier_def
  by (intro keeps_rules keeps_case_token_error)+

lemma mint_keeps_store [intro!, simp]:
  "keeps w_store (is_pro st u i)" "keeps w_store (resolve_tier st rc)"
  "keeps w_store (mint_token st k kd kid t)" "keeps w_store (fresh_token st p)"
proof -
  show pro: "keeps w_store (is_pro st u i)" for u i
    unfolding is_pro_def by (intro keeps_rules) (auto simp: keeps_def split: prod.splits)
  show "keeps w_store (resolve_tier st rc)"
    unfolding resolve_tier_def prod.case by (intro keeps_rules keeps_case_bool pro)
  show "keeps w_store (mint_token st k kd kid t)"
    unfolding mint_token_def case_prod_beta by (intro keeps_rules)
  show "keeps w_store (fresh_token st p)" unfolding fresh_token_def by (intro keeps_rules)
qed

lemma entitlements_verify_keeps_store [intro!, simp]: "keeps w_store (entitlements_verify st h rc)"
  unfolding entitlements_verify_def by (intro keeps_rules gates_keep_store mint_keeps_store)

end
