(* ===== verification/Api_Messages.thy ===== *)
theory Api_Messages
  imports Api_Gates
begin

text \<open>
  \<open>src/api/messages.rs\<close>: listing and reading a mailbox, the read marker, deletions, and the two
  download routes with their hardened response headers.
\<close>

definition DEFAULT_PAGE_SIZE :: u32 where
  "DEFAULT_PAGE_SIZE = 50"

definition MAX_PAGE_SIZE :: u32 where
  "MAX_PAGE_SIZE = 200"

definition clamp :: "u32 \<Rightarrow> u32 \<Rightarrow> u32 \<Rightarrow> u32" where
  "clamp lo hi x = (if x < lo then lo else if x > hi then hi else x)"

definition messages_list ::
  "'s app_state \<Rightarrow> string \<Rightarrow> u32 option \<Rightarrow> uuid option \<Rightarrow> (message_summary list, 's) handler" where
  "messages_list st raw limit since =
     (let address = to_ascii_lowercase raw in
      try_bind (read_store (st_get_mailbox (ap_ops st) address)) (\<lambda>found.
      try_bind (ensure (found \<noteq> None) (NotFound ''mailbox not found'')) (\<lambda>_.
      let n = clamp 1 MAX_PAGE_SIZE (case limit of Some l \<Rightarrow> l | None \<Rightarrow> DEFAULT_PAGE_SIZE) in
        read_store (st_list_messages (ap_ops st) address n since))))"

definition message_get :: "'s app_state \<Rightarrow> string \<Rightarrow> uuid \<Rightarrow> (stored_message, 's) handler" where
  "message_get st raw mid =
     try_bind (read_store (st_get_message (ap_ops st) (to_ascii_lowercase raw) mid))
       (expect_some (NotFound ''message not found''))"

definition message_mark_read :: "'s app_state \<Rightarrow> string \<Rightarrow> uuid \<Rightarrow> (unit, 's) handler" where
  "message_mark_read st raw mid =
     try_bind (write_store (st_mark_seen (ap_ops st) (to_ascii_lowercase raw) mid)) (\<lambda>seen.
       ensure seen (NotFound ''message not found''))"

definition messages_clear :: "'s app_state \<Rightarrow> string \<Rightarrow> headers \<Rightarrow> (nat, 's) handler" where
  "messages_clear st raw h =
     (let address = to_ascii_lowercase raw in
      try_bind (attestation_gate st h) (\<lambda>_.
      try_bind (authorize_owner st address h) (\<lambda>_.
        write_store (st_delete_all_messages (ap_ops st) address))))"

definition message_delete :: "'s app_state \<Rightarrow> string \<Rightarrow> uuid \<Rightarrow> headers \<Rightarrow> (unit, 's) handler" where
  "message_delete st raw mid h =
     (let address = to_ascii_lowercase raw in
      try_bind (attestation_gate st h) (\<lambda>_.
      try_bind (authorize_owner st address h) (\<lambda>_.
      try_bind (write_store (st_delete_message (ap_ops st) address mid)) (\<lambda>deleted.
        ensure deleted (NotFound ''message not found'')))))"

subsection \<open>Downloads\<close>

record download =
  dl_headers :: "(string \<times> string) list"
  dl_body :: bytes

text \<open>\<open>HeaderValue::from_str\<close> accepts what \<open>to_str\<close> accepts: tab and visible ASCII.\<close>

definition header_value :: "string \<Rightarrow> string option" where
  "header_value v = header_to_str v"

text \<open>\<open>Uuid\<close>'s \<open>Display\<close>: lower-case hexadecimal in groups of 8-4-4-4-12.\<close>

fun hex_digits :: "nat \<Rightarrow> nat \<Rightarrow> string" where
  "hex_digits 0 n = []"
| "hex_digits (Suc k) n = hex_digits k (n div 16) @ [hex_digit (n mod 16)]"

definition show_uuid :: "uuid \<Rightarrow> string" where
  "show_uuid u =
     (let s = hex_digits 32 (unat u)
      in take 8 s @ ''-'' @ take 4 (drop 8 s) @ ''-'' @ take 4 (drop 12 s) @ ''-'' @ take 4 (drop 16 s)
           @ ''-'' @ drop 20 s)"

definition quote :: char where
  "quote = CHR 34"

definition message_raw :: "'s app_state \<Rightarrow> string \<Rightarrow> uuid \<Rightarrow> (download, 's) handler" where
  "message_raw st raw mid =
     try_bind (read_store (st_get_raw_message (ap_ops st) (to_ascii_lowercase raw) mid)) (\<lambda>found.
     try_bind (expect_some (NotFound ''raw message not available (missing, or raw retention is disabled)'') found)
       (\<lambda>content.
        ret \<lparr>dl_headers = [(''content-type'', ''message/rfc822''), (''x-content-type-options'', ''nosniff'')] @
               (case header_value (''attachment; filename='' @ [quote] @ show_uuid mid @ ''.eml'' @ [quote]) of
                  Some v \<Rightarrow> [(''content-disposition'', v)] | None \<Rightarrow> []),
             dl_body = content\<rparr>))"

definition forced_octet_stream :: "string \<Rightarrow> bool" where
  "forced_octet_stream content_type =
     (let essence = to_ascii_lowercase (trim (hd (split_at (CHR '';'') content_type)))
      in essence \<in> set [''text/html'', ''application/xhtml+xml'', ''image/svg+xml'', ''text/xml'', ''application/xml''])"

definition safe_filename_char :: "string \<Rightarrow> bool" where
  "safe_filename_char ch =
     (case ch of [c] \<Rightarrow> 32 \<le> byte_of c \<and> byte_of c < 127 \<and> byte_of c \<noteq> 34 \<and> byte_of c \<noteq> 92 | _ \<Rightarrow> False)"

definition safe_filename :: "string option \<Rightarrow> string" where
  "safe_filename name =
     (let cleaned = trim (concat (filter safe_filename_char (chars (case name of Some n \<Rightarrow> n | None \<Rightarrow> []))))
      in if cleaned = [] then ''attachment'' else cleaned)"

definition attr_char :: "char \<Rightarrow> bool" where
  "attr_char b \<longleftrightarrow> is_ascii_alphanumeric b \<or> b \<in> set ''!#$&+-.^_`|~''"

definition upper_hex_digit :: "nat \<Rightarrow> char" where
  "upper_hex_digit n = char_of (if n < 10 then 48 + n else 55 + n)"

definition rfc5987_encode :: "string \<Rightarrow> string" where
  "rfc5987_encode name =
     concat (map (\<lambda>b. if attr_char b then [b]
                       else [CHR ''%'', upper_hex_digit (byte_of b div 16), upper_hex_digit (byte_of b mod 16)]) name)"

definition content_disposition :: "string option \<Rightarrow> string" where
  "content_disposition name =
     ''attachment; filename='' @ [quote] @ safe_filename name @ [quote] @
     (case name of
        Some raw \<Rightarrow> if \<not> list_all is_ascii raw
          then ''; filename*=UTF-8'' @ [CHR 39, CHR 39] @ rfc5987_encode raw else []
      | None \<Rightarrow> [])"

definition attachment_response :: "attachment \<Rightarrow> download" where
  "attachment_response att =
     (let content_type = (if forced_octet_stream (at_content_type att) then ''application/octet-stream''
            else case header_value (at_content_type att) of Some v \<Rightarrow> v | None \<Rightarrow> ''application/octet-stream'')
      in \<lparr>dl_headers = [(''x-content-type-options'', ''nosniff''), (''content-type'', content_type)] @
            (case header_value (content_disposition (at_filename att)) of
               Some v \<Rightarrow> [(''content-disposition'', v)] | None \<Rightarrow> []),
          dl_body = at_content att\<rparr>)"

definition message_attachment ::
  "'s app_state \<Rightarrow> string \<Rightarrow> uuid \<Rightarrow> uuid \<Rightarrow> (download, 's) handler" where
  "message_attachment st raw mid aid =
     try_bind (read_store (st_get_attachment (ap_ops st) (to_ascii_lowercase raw) mid aid)) (\<lambda>found.
     try_bind (expect_some (NotFound ''attachment not found'') found) (\<lambda>att.
       ret (attachment_response att)))"

subsection \<open>The headers cannot be forged by a file name\<close>

definition plain_byte :: "char \<Rightarrow> bool" where
  "plain_byte c \<longleftrightarrow> 32 \<le> byte_of c \<and> byte_of c < 127 \<and> byte_of c \<noteq> 34 \<and> byte_of c \<noteq> 92"

lemma safe_filename_char_plain: "safe_filename_char ch \<Longrightarrow> c \<in> set ch \<Longrightarrow> plain_byte c"
  by (auto simp: safe_filename_char_def plain_byte_def split: list.splits)

lemma set_trim: "set (trim s) \<subseteq> set s"
proof -
  have "set (trim_start t) \<subseteq> set t" for t
  proof -
    have "set (trim_start t) \<subseteq> \<Union> (set ` set (chars t))"
      by (auto simp: trim_start_def dest: set_dropWhileD)
    also have "\<dots> = set t" by (metis concat_chars set_concat)
    finally show ?thesis .
  qed
  moreover have "set (trim_end t) \<subseteq> set t" for t
  proof -
    have "set (trim_end t) \<subseteq> \<Union> (set ` set (chars t))"
      by (auto simp: trim_end_def dest!: set_dropWhileD)
    also have "\<dots> = set t" by (metis concat_chars set_concat)
    finally show ?thesis .
  qed
  ultimately show ?thesis unfolding trim_def by blast
qed

lemma safe_filename_plain: "c \<in> set (safe_filename name) \<Longrightarrow> plain_byte c"
proof -
  assume c: "c \<in> set (safe_filename name)"
  have "plain_byte d" if "d \<in> set ''attachment''" for d
    using that by (auto simp: plain_byte_def byte_of_def)
  moreover have "plain_byte d" if "d \<in> set (trim (concat (filter safe_filename_char xs)))" for d xs
    using that set_trim safe_filename_char_plain by fastforce
  ultimately show ?thesis using c by (auto simp: safe_filename_def Let_def split: if_splits)
qed

lemma upper_hex_digit_byte: "n < 16 \<Longrightarrow> byte_of (upper_hex_digit n) = (if n < 10 then 48 + n else 55 + n)"
  by (simp add: upper_hex_digit_def byte_of_char_of)

lemma attr_char_plain: "attr_char b \<Longrightarrow> plain_byte b \<and> b \<noteq> CHR ''%''"
  by (auto simp: attr_char_def plain_byte_def is_ascii_alphanumeric_def is_ascii_alphabetic_def
      is_ascii_uppercase_def is_ascii_lowercase_def is_ascii_digit_def byte_of_def)

lemma rfc5987_plain: "c \<in> set (rfc5987_encode s) \<Longrightarrow> plain_byte c"
proof -
  have lt: "byte_of b div 16 < 16" "byte_of b mod 16 < 16" for b using byte_of_less [of b] by auto
  have "plain_byte (upper_hex_digit n)" if "n < 16" for n
    using that by (simp add: plain_byte_def upper_hex_digit_byte)
  moreover have "plain_byte (CHR ''%'')" by (simp add: plain_byte_def byte_of_def)
  moreover assume "c \<in> set (rfc5987_encode s)"
  ultimately show ?thesis
    using lt attr_char_plain by (auto simp: rfc5987_encode_def split: if_splits)
qed

text \<open>The decoder of RFC 5987 values.\<close>

definition hex_value :: "char \<Rightarrow> nat" where
  "hex_value c = (if is_ascii_digit c then byte_of c - 48 else byte_of c - 55)"

fun percent_decode :: "string \<Rightarrow> string" where
  "percent_decode (p # x # y # s) =
     (if p = CHR ''%'' then char_of (hex_value x * 16 + hex_value y) # percent_decode s
      else p # percent_decode (x # y # s))"
| "percent_decode (p # s) = p # percent_decode s"
| "percent_decode [] = []"

lemma percent_decode_skip: "p \<noteq> CHR ''%'' \<Longrightarrow> percent_decode (p # s) = p # percent_decode s"
  by (cases s; cases "tl s") auto

lemma hex_value_upper: "n < 16 \<Longrightarrow> hex_value (upper_hex_digit n) = n"
  by (auto simp: hex_value_def is_ascii_digit_def upper_hex_digit_byte)

lemma percent_decode_encode: "percent_decode (rfc5987_encode s) = s"
proof (induction s)
  case (Cons b s)
  have lt: "byte_of b div 16 < 16" "byte_of b mod 16 < 16" using byte_of_less [of b] by auto
  have b: "char_of (byte_of b div 16 * 16 + byte_of b mod 16) = b" by (simp add: byte_of_def)
  have "rfc5987_encode (b # s) = (if attr_char b then [b]
      else [CHR ''%'', upper_hex_digit (byte_of b div 16), upper_hex_digit (byte_of b mod 16)]) @ rfc5987_encode s"
    by (simp add: rfc5987_encode_def)
  with Cons.IH lt b show ?case
    using attr_char_plain [of b] by (auto simp: percent_decode_skip hex_value_upper)
qed (simp add: rfc5987_encode_def)

lemma plain_visible: "plain_byte c \<Longrightarrow> 32 \<le> byte_of c \<and> byte_of c < 127"
  by (simp add: plain_byte_def)

text \<open>The \<open>Content-Disposition\<close> of an attachment is well formed for every file name a message can
  carry, so the header is always sent: between the quotes there is no quote, backslash, control or
  non-ASCII byte, what follows is either nothing or the extended parameter, whose value contains
  only bytes that need no quoting and decodes to the exact original name. A file name can neither
  break out of the header nor be lost.\<close>

theorem disposition_safe:
  "\<exists>tail. content_disposition name = ''attachment; filename='' @ [quote] @ safe_filename name @ [quote] @ tail \<and>
     header_value (content_disposition name) = Some (content_disposition name) \<and>
     list_all plain_byte (safe_filename name) \<and> list_all plain_byte tail \<and>
     (case name of
        Some raw \<Rightarrow> if list_all is_ascii raw then tail = []
          else \<exists>e. tail = ''; filename*=UTF-8'' @ [CHR 39, CHR 39] @ e \<and> percent_decode e = raw
      | None \<Rightarrow> tail = [])"
proof -
  define tail where "tail = (case name of
        Some raw \<Rightarrow> if \<not> list_all is_ascii raw
          then ''; filename*=UTF-8'' @ [CHR 39, CHR 39] @ rfc5987_encode raw else []
      | None \<Rightarrow> [])"
  have eq: "content_disposition name = ''attachment; filename='' @ [quote] @ safe_filename name @ [quote] @ tail"
    by (simp add: content_disposition_def tail_def)
  have f: "list_all plain_byte (safe_filename name)" using safe_filename_plain by (auto simp: list_all_iff)
  have "list_all plain_byte (''; filename*=UTF-8'' @ [CHR 39, CHR 39])"
    by (simp add: plain_byte_def byte_of_def)
  then have t: "list_all plain_byte tail"
    using rfc5987_plain by (auto simp: tail_def list_all_iff split: option.splits)
  have "list_all (\<lambda>b. 32 \<le> byte_of b \<and> byte_of b < 127) (''attachment; filename='' @ [quote])"
    by (simp add: quote_def byte_of_def)
  then have "\<forall>b\<in>set (content_disposition name). 32 \<le> byte_of b \<and> byte_of b < 127"
    using f t plain_visible unfolding eq by (auto simp: list_all_iff)
  then have "header_value (content_disposition name) = Some (content_disposition name)"
    by (auto simp: header_value_def header_to_str_def)
  with eq f t show ?thesis
    by (intro exI [of _ tail]) (auto simp: tail_def percent_decode_encode split: option.splits)
qed

text \<open>Every attachment response, whatever type the sender declared, tells the browser not to sniff
  and names a type that no browser executes: the declared type itself unless it is one of the active
  ones (in any case, with any parameters) or not a legal header value, and then
  \<open>application/octet-stream\<close>.\<close>

theorem attachment_inert:
  "\<exists>ct rest. dl_headers (attachment_response att) =
       (''x-content-type-options'', ''nosniff'') # (''content-type'', ct) # rest \<and>
     \<not> forced_octet_stream ct \<and> header_value ct = Some ct \<and>
     ct = (if forced_octet_stream (at_content_type att) \<or> header_value (at_content_type att) = None
           then ''application/octet-stream'' else at_content_type att) \<and>
     dl_body (attachment_response att) = at_content att"
proof -
  define ct where "ct = (if forced_octet_stream (at_content_type att) \<or> header_value (at_content_type att) = None
           then ''application/octet-stream'' else at_content_type att)"
  have os: "\<not> forced_octet_stream ''application/octet-stream''"
    "header_value ''application/octet-stream'' = Some ''application/octet-stream''" by code_simp+
  have hv: "header_value v = None \<or> header_value v = Some v" for v
    by (simp add: header_value_def header_to_str_def)
  have "header_value ct = Some ct" using os(2) hv [of "at_content_type att"] by (auto simp: ct_def)
  moreover have "\<not> forced_octet_stream ct" using os(1) by (auto simp: ct_def)
  moreover have "(if forced_octet_stream (at_content_type att) then ''application/octet-stream''
            else case header_value (at_content_type att) of Some v \<Rightarrow> v | None \<Rightarrow> ''application/octet-stream'') = ct"
    using hv [of "at_content_type att"] by (auto simp: ct_def)
  ultimately show ?thesis by (simp add: attachment_response_def ct_def [symmetric])
qed

end
