(* ===== verification/Sql_Codecs.thy ===== *)
theory Sql_Codecs
  imports Postgres_Correct Api_Messages "HOL-Library.List_Lexorder" "HOL-Library.Char_ord"
begin

text \<open>
  Concrete column codecs that meet \<open>codec_ok\<close>: TEXT columns as SQLite has them (identifiers in the
  hyphenated form of \<open>Uuid\<close>, timestamps as text of a fixed width, compared character by character) and
  TIMESTAMPTZ columns as PostgreSQL has them (a count of microseconds, so only timestamps of whole
  microseconds read back as they were). They show that the hypothesis of the contract theorems can
  hold for the kind of column each database has.
\<close>

definition hex_value :: "char \<Rightarrow> nat option" where
  "hex_value ch = find (\<lambda>d. hex_digit d = ch) [0..<16]"

fun read_hex :: "string \<Rightarrow> nat \<Rightarrow> nat option" where
  "read_hex [] n = Some n"
| "read_hex (ch # s) n = Option.bind (hex_value ch) (\<lambda>d. read_hex s (16 * n + d))"

definition bind_text_time :: "datetime \<Rightarrow> string" where
  "bind_text_time t = hex_digits 20 (nat t)"

definition read_text_time :: "string \<Rightarrow> datetime option" where
  "read_text_time s = map_option int (read_hex s 0)"

definition read_text_uuid :: "string \<Rightarrow> uuid option" where
  "read_text_uuid s = map_option of_nat (read_hex (filter (\<lambda>ch. ch \<noteq> CHR ''-'') s) 0)"

definition text_codec :: "(string, string) codec" where
  "text_codec = \<lparr>bind_time = bind_text_time, read_time = read_text_time, bind_id = show_uuid,
     read_id = read_text_uuid\<rparr>"

definition text_times :: "datetime \<Rightarrow> bool" where
  "text_times t \<longleftrightarrow> 0 \<le> t \<and> t < 16 ^ 20"

definition micros_codec :: "int time_codec" where
  "micros_codec = \<lparr>bind_time = (\<lambda>t. t div 1000), read_time = (\<lambda>u. Some (u * 1000))\<rparr>"

definition micros_times :: "datetime \<Rightarrow> bool" where
  "micros_times t \<longleftrightarrow> t mod 1000 = 0"

subsection \<open>Text of a fixed width\<close>

lemma less_append_same_length:
  fixes xs :: "'a::linorder list"
  shows "length xs = length ys \<Longrightarrow> xs @ us < ys @ vs \<longleftrightarrow> xs < ys \<or> xs = ys \<and> us < vs"
  by (induction xs ys rule: list_induct2) auto

lemma hex_digit_less: "a < 16 \<Longrightarrow> b < 16 \<Longrightarrow> hex_digit a < hex_digit b \<longleftrightarrow> a < b"
  by (auto simp: hex_digit_def less_char_def)

lemma length_hex_digits [simp]: "length (hex_digits k n) = k"
  by (induction k arbitrary: n) auto

lemma hex_digits_inj: "n < 16 ^ k \<Longrightarrow> m < 16 ^ k \<Longrightarrow> hex_digits k n = hex_digits k m \<longleftrightarrow> n = m"
proof (induction k arbitrary: n m)
  case (Suc k)
  then have "n div 16 < 16 ^ k" "m div 16 < 16 ^ k" by (simp_all add: less_mult_imp_div_less mult.commute)
  with Suc.IH have "hex_digits (Suc k) n = hex_digits (Suc k) m \<longleftrightarrow> n div 16 = m div 16 \<and> n mod 16 = m mod 16"
    by (simp add: hex_digit_inj)
  also have "\<dots> \<longleftrightarrow> n = m" by (metis div_mult_mod_eq)
  finally show ?case .
qed simp

lemma hex_digits_less: "n < 16 ^ k \<Longrightarrow> m < 16 ^ k \<Longrightarrow> hex_digits k n < hex_digits k m \<longleftrightarrow> n < m"
proof (induction k arbitrary: n m)
  case (Suc k)
  then have lt: "n div 16 < 16 ^ k" "m div 16 < 16 ^ k" by (simp_all add: less_mult_imp_div_less mult.commute)
  have "hex_digits (Suc k) n < hex_digits (Suc k) m \<longleftrightarrow>
      n div 16 < m div 16 \<or> n div 16 = m div 16 \<and> n mod 16 < m mod 16"
    using Suc.IH [OF lt] hex_digits_inj [OF lt] by (simp add: less_append_same_length hex_digit_less)
  also have "\<dots> \<longleftrightarrow> n < m"
    using div_mult_mod_eq [of n 16] div_mult_mod_eq [of m 16] mod_less_divisor [of 16 n] mod_less_divisor [of 16 m]
    by linarith
  finally show ?case .
qed simp

lemma hex_value_digit: "d < 16 \<Longrightarrow> hex_value (hex_digit d) = Some d"
  unfolding hex_value_def find_Some_iff by (intro exI [of _ d]) (auto simp: hex_digit_inj)

lemma read_hex_append: "read_hex (xs @ ys) n = Option.bind (read_hex xs n) (read_hex ys)"
  by (induction xs arbitrary: n) (auto split: bind_split)

lemma read_hex_digits: "n < 16 ^ k \<Longrightarrow> read_hex (hex_digits k n) 0 = Some n"
proof (induction k arbitrary: n)
  case (Suc k)
  then have "n div 16 < 16 ^ k" by (simp add: less_mult_imp_div_less mult.commute)
  with Suc.IH show ?case by (simp add: read_hex_append hex_value_digit)
qed simp

lemma uuid_bound: "unat (u :: uuid) < 16 ^ 32"
  using unsigned_less [of u] by simp

lemma uuid_groups:
  "take 8 s @ take 4 (drop 8 s) @ take 4 (drop 12 s) @ take 4 (drop 16 s) @ drop 20 s = (s :: string)"
  using append_take_drop_id [of 8 s] append_take_drop_id [of 4 "drop 8 s"] append_take_drop_id [of 4 "drop 12 s"]
    append_take_drop_id [of 4 "drop 16 s"] by (simp add: add.commute)

lemma show_uuid_less: "show_uuid u < show_uuid v \<longleftrightarrow> unat u < unat v"
proof -
  define s t where "s = hex_digits 32 (unat u)" and "t = hex_digits 32 (unat v)"
  have len: "length s = 32" "length t = 32" by (simp_all add: s_def t_def)
  have "show_uuid u < show_uuid v \<longleftrightarrow>
      take 8 s @ take 4 (drop 8 s) @ take 4 (drop 12 s) @ take 4 (drop 16 s) @ drop 20 s <
      take 8 t @ take 4 (drop 8 t) @ take 4 (drop 12 t) @ take 4 (drop 16 t) @ drop 20 t"
    using len by (simp add: show_uuid_def Let_def less_append_same_length flip: s_def t_def)
  then have "show_uuid u < show_uuid v \<longleftrightarrow> s < t" by (simp only: uuid_groups)
  then show ?thesis using hex_digits_less [OF uuid_bound uuid_bound] by (simp add: s_def t_def)
qed

lemma hex_digits_no_hyphen: "CHR ''-'' \<notin> set (hex_digits k n)"
proof (induction k arbitrary: n)
  case (Suc k)
  have "hex_value (hex_digit (n mod 16)) \<noteq> hex_value CHR ''-''"
    by (subst hex_value_digit) (simp, code_simp)
  then have "CHR ''-'' \<noteq> hex_digit (n mod 16)" by metis
  with Suc show ?case by simp
qed simp

lemma filter_show_uuid: "filter (\<lambda>ch. ch \<noteq> CHR ''-'') (show_uuid u) = hex_digits 32 (unat u)"
proof -
  define s where "s = hex_digits 32 (unat u)"
  have keep: "filter (\<lambda>ch. ch \<noteq> CHR ''-'') xs = xs" if "set xs \<subseteq> set s" for xs
    using that hex_digits_no_hyphen unfolding s_def by (intro filter_True) blast
  have sub: "set (take 8 s) \<subseteq> set s" "set (take 4 (drop k s)) \<subseteq> set s" "set (drop k s) \<subseteq> set s" for k
    by (auto dest: in_set_takeD in_set_dropD)
  show ?thesis
    by (simp add: show_uuid_def Let_def keep sub uuid_groups flip: s_def)
qed

lemma text_codec_ok: "codec_ok text_times text_codec"
proof -
  have "read_text_time (bind_text_time t) = Some t" if "text_times t" for t
    using that read_hex_digits [of "nat t" 20] by (simp add: read_text_time_def bind_text_time_def text_times_def nat_less_iff)
  moreover have "bind_text_time t < bind_text_time u \<longleftrightarrow> t < u" if "text_times t" "text_times u" for t u
    using that hex_digits_less [of "nat t" 20 "nat u"] by (auto simp: bind_text_time_def text_times_def nat_less_iff)
  moreover have "read_text_uuid (show_uuid i) = Some i" for i
    by (simp add: read_text_uuid_def filter_show_uuid read_hex_digits [OF uuid_bound])
  ultimately show ?thesis
    by (simp add: codec_ok_def text_codec_def show_uuid_less word_less_nat_alt)
qed

lemma micros_codec_ok: "codec_ok micros_times (pg_codec micros_codec)"
  by (auto simp: pg_codec_ok micros_codec_def micros_times_def)

end
