(* ===== verification/Backend_Histories.thy ===== *)
theory Backend_Histories
  imports Store_Contract "HOL-Library.Multiset"
begin

text \<open>
  Histories of calls with their replies. \<open>store_call\<close> is one call of a method of \<open>trait Store\<close> with its
  arguments (the clock reading and the identifiers it draws included), \<open>run_call\<close> makes the call on a
  backend and \<open>run_calls\<close> a sequence of them. Replies are compared up to what the trait leaves open:
  the wording of an error, the order of a message's attachments, and the order of the two unordered
  listings. A backend that meets the contract answers every admissible call (\<open>call_ok\<close>) as \<open>call_spec\<close>
  says, and \<open>call_spec\<close> determines the reply, so two such backends cannot be told apart.
\<close>

datatype store_call =
  CreateMailbox datetime string string datetime "string option" "string option"
| GetMailbox string
| MailboxIsActive string datetime
| ExtendMailbox string datetime
| DeleteMailbox string
| RotateOwnerToken string string
| SaveMessage datetime uuid "nat \<Rightarrow> uuid" string new_message
| ListMessages string u32 "uuid option"
| GetMessage string uuid
| GetRawMessage string uuid
| GetAttachment string uuid uuid
| DeleteMessage string uuid
| MarkSeen string uuid
| DeleteAllMessages string
| PurgeExpired datetime
| AddSubscription datetime uuid string subscription_kind string string string u32
| ListSubscriptions string
| DeleteSubscription string string
| CreateCustomDomain datetime string string string
| GetCustomDomain string
| DeleteCustomDomain string
| CustomDomainIsVerified string
| RecordCustomDomainCheck string custom_domain_status "datetime option" datetime
| ListCustomDomainsToRecheck datetime
| UpsertAttestedDevice string bytes datetime
| GetAttestedDevice string
| AdvanceAttestedDeviceCounter string int datetime
| PruneAttestedDevices datetime
| CountActiveMailboxesByDevice string datetime

datatype reply =
  RMailbox mailbox
| RMailboxOpt "mailbox option"
| RBool bool
| RCount nat
| RStored stored_message
| RSummaries "message_summary list"
| RMessage "stored_message option"
| RBytes "bytes option"
| RAttachment "attachment option"
| RSubscription push_subscription
| RSubscriptions "push_subscription set"
| RDomain custom_domain
| RDomainOpt "custom_domain option"
| RDomains "custom_domain set"
| RDevice attested_device
| RDeviceOpt "attested_device option"

type_synonym answer = "(reply, store_error) result"

definition reply_op :: "('a \<Rightarrow> reply) \<Rightarrow> ('a, store_error) result \<times> 's \<Rightarrow> answer \<times> 's" where
  "reply_op f res = (map_ok f (err_of (fst res)), snd res)"

definition reply_read :: "('a \<Rightarrow> reply) \<Rightarrow> ('a, store_error) result \<Rightarrow> 's \<Rightarrow> answer \<times> 's" where
  "reply_read f r s = (map_ok f (err_of r), s)"

fun run_call :: "'s store_ops \<Rightarrow> store_call \<Rightarrow> 's \<Rightarrow> answer \<times> 's" where
  "run_call ops (CreateMailbox now a d ex ow dv) s = reply_op RMailbox (st_create_mailbox ops now a d ex ow dv s)"
| "run_call ops (GetMailbox a) s = reply_read RMailboxOpt (st_get_mailbox ops a s) s"
| "run_call ops (MailboxIsActive a now) s = reply_read RBool (st_mailbox_is_active ops a now s) s"
| "run_call ops (ExtendMailbox a ex) s = reply_op RMailboxOpt (st_extend_mailbox ops a ex s)"
| "run_call ops (DeleteMailbox a) s = reply_op RBool (st_delete_mailbox ops a s)"
| "run_call ops (RotateOwnerToken a h) s = reply_op RBool (st_rotate_owner_token ops a h s)"
| "run_call ops (SaveMessage now mid aids a m) s = reply_op RStored (st_save_message ops now mid aids a m s)"
| "run_call ops (ListMessages a limit since) s = reply_read RSummaries (st_list_messages ops a limit since s) s"
| "run_call ops (GetMessage a i) s = reply_read (\<lambda>m. RMessage (map_option canon_message m)) (st_get_message ops a i s) s"
| "run_call ops (GetRawMessage a i) s = reply_read RBytes (st_get_raw_message ops a i s) s"
| "run_call ops (GetAttachment a i j) s = reply_read RAttachment (st_get_attachment ops a i j s) s"
| "run_call ops (DeleteMessage a i) s = reply_op RBool (st_delete_message ops a i s)"
| "run_call ops (MarkSeen a i) s = reply_op RBool (st_mark_seen ops a i s)"
| "run_call ops (DeleteAllMessages a) s = reply_op RCount (st_delete_all_messages ops a s)"
| "run_call ops (PurgeExpired now) s = reply_op RCount (st_purge_expired ops now s)"
| "run_call ops (AddSubscription now sid a kd ep p au cap) s =
     reply_op RSubscription (st_add_subscription ops now sid a kd ep p au cap s)"
| "run_call ops (ListSubscriptions a) s = reply_read (\<lambda>out. RSubscriptions (set out)) (st_list_subscriptions ops a s) s"
| "run_call ops (DeleteSubscription a ep) s = reply_op RBool (st_delete_subscription ops a ep s)"
| "run_call ops (CreateCustomDomain now d h tok) s = reply_op RDomain (st_create_custom_domain ops now d h tok s)"
| "run_call ops (GetCustomDomain d) s = reply_read RDomainOpt (st_get_custom_domain ops d s) s"
| "run_call ops (DeleteCustomDomain d) s = reply_op RBool (st_delete_custom_domain ops d s)"
| "run_call ops (CustomDomainIsVerified d) s = reply_read RBool (st_custom_domain_is_verified ops d s) s"
| "run_call ops (RecordCustomDomainCheck d stat va ca) s =
     reply_op RBool (st_record_custom_domain_check ops d stat va ca s)"
| "run_call ops (ListCustomDomainsToRecheck cutoff) s =
     reply_read (\<lambda>out. RDomains (set out)) (st_list_custom_domains_to_recheck ops cutoff s) s"
| "run_call ops (UpsertAttestedDevice k pk now) s = reply_op RDevice (st_upsert_attested_device ops k pk now s)"
| "run_call ops (GetAttestedDevice k) s = reply_read RDeviceOpt (st_get_attested_device ops k s) s"
| "run_call ops (AdvanceAttestedDeviceCounter k cnt now) s =
     reply_op RBool (st_advance_attested_device_counter ops k cnt now s)"
| "run_call ops (PruneAttestedDevices now) s = reply_op RCount (st_prune_attested_devices ops now s)"
| "run_call ops (CountActiveMailboxesByDevice h now) s =
     reply_read RCount (st_count_active_mailboxes_by_device ops h now s) s"

fun run_calls :: "'s store_ops \<Rightarrow> store_call list \<Rightarrow> 's \<Rightarrow> answer list \<times> 's" where
  "run_calls ops [] s = ([], s)"
| "run_calls ops (c # cs) s =
     (let (r, s1) = run_call ops c s; (rs, s2) = run_calls ops cs s1 in (r # rs, s2))"

text \<open>A call that every backend has to answer alike: its timestamps are in the domain, the message it
  saves goes to a mailbox that exists and draws unused identifiers, and the subscription it adds is
  not one that a backend may refuse.\<close>

fun call_ok :: "(datetime \<Rightarrow> bool) \<Rightarrow> store_call \<Rightarrow> sview \<Rightarrow> bool" where
  "call_ok T (CreateMailbox now a d ex ow dv) v \<longleftrightarrow> T now \<and> T ex"
| "call_ok T (MailboxIsActive a now) v \<longleftrightarrow> T now"
| "call_ok T (ExtendMailbox a ex) v \<longleftrightarrow> T ex"
| "call_ok T (SaveMessage now mid aids a m) v \<longleftrightarrow>
     T now \<and> message_in T m \<and> fresh_ids mid aids m v \<and> v_mailbox v a \<noteq> None"
| "call_ok T (PurgeExpired now) v \<longleftrightarrow> T now"
| "call_ok T (AddSubscription now sid a kd ep p au cap) v \<longleftrightarrow> T now \<and> \<not> sub_refusable sid a ep cap v"
| "call_ok T (CreateCustomDomain now d h tok) v \<longleftrightarrow> T now"
| "call_ok T (RecordCustomDomainCheck d stat va ca) v \<longleftrightarrow> opt_in T va \<and> T ca"
| "call_ok T (ListCustomDomainsToRecheck cutoff) v \<longleftrightarrow> T cutoff"
| "call_ok T (UpsertAttestedDevice k pk now) v \<longleftrightarrow> T now"
| "call_ok T (AdvanceAttestedDeviceCounter k cnt now) v \<longleftrightarrow> T now"
| "call_ok T (PruneAttestedDevices now) v \<longleftrightarrow> T now"
| "call_ok T (CountActiveMailboxesByDevice h now) v \<longleftrightarrow> T now"
| "call_ok T _ v \<longleftrightarrow> True"

lemma call_ok_mono: "(\<And>t. T t \<Longrightarrow> T' t) \<Longrightarrow> call_ok T c v \<Longrightarrow> call_ok T' c v"
  by (cases c) (auto simp: opt_in_iff message_in_def)

text \<open>Admissibility of a history, followed on the backend that runs it.\<close>

fun calls_ok :: "(datetime \<Rightarrow> bool) \<Rightarrow> 's store_ops \<Rightarrow> ('s \<Rightarrow> sview) \<Rightarrow> store_call list \<Rightarrow> 's \<Rightarrow> bool" where
  "calls_ok T ops view [] s \<longleftrightarrow> True"
| "calls_ok T ops view (c # cs) s \<longleftrightarrow> call_ok T c (view s) \<and> calls_ok T ops view cs (snd (run_call ops c s))"

subsection \<open>The abstract machine\<close>

definition spec_reply :: "('a \<Rightarrow> reply) \<Rightarrow> ('a, store_error) result \<times> sview \<Rightarrow> answer \<times> sview" where
  "spec_reply f res = (map_ok f (fst res), snd res)"

fun call_spec :: "mailbox_quotas \<Rightarrow> store_call \<Rightarrow> sview \<Rightarrow> answer \<times> sview \<Rightarrow> bool" where
  "call_spec q (CreateMailbox now a d ex ow dv) v out \<longleftrightarrow> out = spec_reply RMailbox (spec_create_mailbox now a d ex ow dv v)"
| "call_spec q (GetMailbox a) v out \<longleftrightarrow> out = (Ok (RMailboxOpt (v_mailbox v a)), v)"
| "call_spec q (MailboxIsActive a now) v out \<longleftrightarrow> out = (Ok (RBool (spec_is_active a now v)), v)"
| "call_spec q (ExtendMailbox a ex) v out \<longleftrightarrow> out = spec_reply RMailboxOpt (spec_extend_mailbox a ex v)"
| "call_spec q (DeleteMailbox a) v out \<longleftrightarrow> out = spec_reply RBool (spec_delete_mailbox a v)"
| "call_spec q (RotateOwnerToken a h) v out \<longleftrightarrow> out = spec_reply RBool (spec_rotate_owner_token a h v)"
| "call_spec q (SaveMessage now mid aids a m) v out \<longleftrightarrow>
     fst out = Ok (RStored (stored_of_new now mid aids a m)) \<and> spec_save_message q now mid aids a m v (snd out)"
| "call_spec q (ListMessages a limit since) v out \<longleftrightarrow>
     (\<exists>xs. out = (Ok (RSummaries xs), v) \<and> spec_list_messages a limit since v xs)"
| "call_spec q (GetMessage a i) v out \<longleftrightarrow> out = (Ok (RMessage (map_option ve_message (v_entry v a i))), v)"
| "call_spec q (GetRawMessage a i) v out \<longleftrightarrow> out = (Ok (RBytes (Option.bind (v_entry v a i) ve_raw)), v)"
| "call_spec q (GetAttachment a i j) v out \<longleftrightarrow> out = (Ok (RAttachment (spec_get_attachment a i j v)), v)"
| "call_spec q (DeleteMessage a i) v out \<longleftrightarrow> out = spec_reply RBool (spec_delete_message a i v)"
| "call_spec q (MarkSeen a i) v out \<longleftrightarrow> out = spec_reply RBool (spec_mark_seen a i v)"
| "call_spec q (DeleteAllMessages a) v out \<longleftrightarrow> out = spec_reply RCount (spec_delete_all_messages a v)"
| "call_spec q (PurgeExpired now) v out \<longleftrightarrow> out = spec_reply RCount (spec_purge_expired now v)"
| "call_spec q (AddSubscription now sid a kd ep p au cap) v out \<longleftrightarrow>
     out = spec_reply RSubscription (spec_add_subscription now sid a kd ep p au cap v)"
| "call_spec q (ListSubscriptions a) v out \<longleftrightarrow> out = (Ok (RSubscriptions (ran (v_sub v a))), v)"
| "call_spec q (DeleteSubscription a ep) v out \<longleftrightarrow> out = spec_reply RBool (spec_delete_subscription a ep v)"
| "call_spec q (CreateCustomDomain now d h tok) v out \<longleftrightarrow> out = spec_reply RDomain (spec_create_custom_domain now d h tok v)"
| "call_spec q (GetCustomDomain d) v out \<longleftrightarrow> out = (Ok (RDomainOpt (v_domain v d)), v)"
| "call_spec q (DeleteCustomDomain d) v out \<longleftrightarrow> out = spec_reply RBool (spec_delete_custom_domain d v)"
| "call_spec q (CustomDomainIsVerified d) v out \<longleftrightarrow> out = (Ok (RBool (spec_is_verified d v)), v)"
| "call_spec q (RecordCustomDomainCheck d stat va ca) v out \<longleftrightarrow>
     out = spec_reply RBool (spec_record_custom_domain_check d stat va ca v)"
| "call_spec q (ListCustomDomainsToRecheck cutoff) v out \<longleftrightarrow>
     out = (Ok (RDomains {c \<in> ran (v_domain v). due_for_recheck cutoff c}), v)"
| "call_spec q (UpsertAttestedDevice k pk now) v out \<longleftrightarrow> out = spec_reply RDevice (spec_upsert_attested_device k pk now v)"
| "call_spec q (GetAttestedDevice k) v out \<longleftrightarrow> out = (Ok (RDeviceOpt (v_device v k)), v)"
| "call_spec q (AdvanceAttestedDeviceCounter k cnt now) v out \<longleftrightarrow>
     out = spec_reply RBool (spec_advance_attested_device_counter k cnt now v)"
| "call_spec q (PruneAttestedDevices now) v out \<longleftrightarrow> out = spec_reply RCount (spec_prune_attested_devices now v)"
| "call_spec q (CountActiveMailboxesByDevice h now) v out \<longleftrightarrow>
     out = (Ok (RCount (card (device_mailboxes h now v))), v)"

subsection \<open>The abstract machine is deterministic\<close>

lemma rows_of_entries_mset:
  assumes "rows_of_entries ents rows" "rows_of_entries ents rows'"
  shows "mset rows = mset rows'"
  using assms unfolding rows_of_entries_def
  by (metis (no_types, lifting) distinct_map set_eq_iff_mset_eq_distinct)

lemma quota_keeps_mset:
  assumes "mset rows = mset rows'"
  shows "quota_keeps q mid rows r \<longleftrightarrow> quota_keeps q mid rows' r"
proof -
  have "newer_count xs r = size (filter_mset (\<lambda>r'. row_key r' < row_key r) (mset xs))"
    "bytes_down_to xs r = sum_mset (image_mset row_size (filter_mset (\<lambda>r'. row_key r' \<le> row_key r) (mset xs)))" for xs
    by (simp_all add: newer_count_def bytes_down_to_def flip: mset_filter mset_map sum_mset_sum_list)
  then show ?thesis using assms by (simp add: quota_keeps_def)
qed

lemma spec_save_message_unique:
  assumes "spec_save_message q now mid aids a m v v1" "spec_save_message q now mid aids a m v v2"
  shows "v1 = v2"
proof -
  let ?ents = "(v_entry v a)(mid \<mapsto> new_ventry now mid aids a m)"
  have "keep_entries q mid rows ?ents = keep_entries q mid rows' ?ents"
    if "rows_of_entries ?ents rows" "rows_of_entries ?ents rows'" for rows rows'
    unfolding keep_entries_def quota_keeps_mset [OF rows_of_entries_mset [OF that]] ..
  with assms show ?thesis unfolding spec_save_message_def Let_def by metis
qed

lemma sorted_key_unique:
  fixes k :: "'a \<Rightarrow> 'b::linorder"
  assumes "sorted_wrt (\<lambda>x y. k x < k y) xs" "sorted_wrt (\<lambda>x y. k x < k y) ys" "set xs = set ys"
  shows "xs = ys"
  using assms
proof (induction xs arbitrary: ys)
  case (Cons x xs)
  then obtain y ys' where ys: "ys = y # ys'" by (cases ys) auto
  have "x = y"
  proof (rule ccontr)
    assume "x \<noteq> y"
    then have "y \<in> set xs" "x \<in> set ys'" using Cons.prems(3) ys by auto
    then have "k x < k y" "k y < k x" using Cons.prems(1,2) ys by auto
    then show False by simp
  qed
  moreover have "x \<notin> set xs" "y \<notin> set ys'" using Cons.prems(1,2) ys by auto
  ultimately have "set xs = set ys'" using Cons.prems(3) ys by (auto simp: insert_eq_iff)
  then have "xs = ys'" using Cons.IH [of ys'] Cons.prems ys by simp
  with \<open>x = y\<close> ys show ?case by simp
qed simp

lemma spec_list_messages_unique:
  assumes "spec_list_messages a limit since v xs" "spec_list_messages a limit since v ys"
  shows "xs = ys"
proof -
  obtain full full' where "sorted_wrt (\<lambda>x y. summary_key x < summary_key y) full"
    "sorted_wrt (\<lambda>x y. summary_key x < summary_key y) full'" "set full = set full'"
    and out: "xs = (if limit = 0 then full else take (unat limit) full)"
      "ys = (if limit = 0 then full' else take (unat limit) full')"
    using assms unfolding spec_list_messages_def by (elim exE conjE) simp
  then have "full = full'" by (intro sorted_key_unique)
  with out show ?thesis by simp
qed

lemma call_spec_unique: "call_spec q c v out \<Longrightarrow> call_spec q c v out' \<Longrightarrow> out = out'"
  by (cases c) (auto dest: spec_list_messages_unique simp: prod_eq_iff intro: spec_save_message_unique)

subsection \<open>Backends that meet the contract\<close>

lemma reply_op_spec: "op_refines ok sinv view s res spec \<Longrightarrow> ok \<Longrightarrow>
  sinv (snd (reply_op f res)) \<and> (fst (reply_op f res), view (snd (reply_op f res))) = spec_reply f spec"
  by (cases spec) (auto simp: op_refines_def reply_op_def spec_reply_def)

lemma read_refines_exact: "read_refines ok r x \<Longrightarrow> ok \<Longrightarrow> r = Ok x"
  by (simp add: read_refines_def)

context store_contract
begin

lemmas call_ops = create_mailbox extend_mailbox delete_mailbox rotate_owner_token delete_message mark_seen
  delete_all_messages purge_expired delete_subscription create_custom_domain delete_custom_domain
  record_custom_domain_check upsert_attested_device advance_attested_device_counter prune_attested_devices

lemmas call_reads = get_mailbox mailbox_is_active get_raw_message get_attachment get_custom_domain
  custom_domain_is_verified get_attested_device count_active_mailboxes_by_device

lemma run_call_spec:
  assumes reliable "sinv s" "call_ok T c (view s)"
  shows "sinv (snd (run_call ops c s)) \<and>
    call_spec quotas c (view s) (fst (run_call ops c s), view (snd (run_call ops c s)))"
proof (cases c)
  case (SaveMessage now mid aids a m)
  then show ?thesis
    using save_message [OF assms(2), of mid aids m now a "fst (st_save_message ops now mid aids a m s)"
        "snd (st_save_message ops now mid aids a m s)"] assms(1,3)
    by (auto simp: reply_op_def)
next
  case (ListMessages a limit since)
  then show ?thesis using list_messages [OF assms(2), of a limit since] assms(1,2) by (auto simp: reply_read_def)
next
  case (GetMessage a i)
  then show ?thesis
    using get_message [OF assms(2), of a i] assms(1,2)
    by (cases "st_get_message ops a i s") (auto simp: reply_read_def read_refines_def)
next
  case (AddSubscription now sid a kd ep p au cap)
  then show ?thesis
    using add_subscription [OF assms(2), of now sid a kd ep p au cap "fst (st_add_subscription ops now sid a kd ep p au cap s)"
        "snd (st_add_subscription ops now sid a kd ep p au cap s)"] assms(1,3) reply_op_spec [of _ sinv view s _ _ RSubscription]
    by auto
next
  case (ListSubscriptions a)
  then show ?thesis using list_subscriptions [OF assms(2), of a] assms(1,2) by (auto simp: reply_read_def)
next
  case (ListCustomDomainsToRecheck cutoff)
  then show ?thesis
    using list_custom_domains_to_recheck [OF assms(2), of cutoff] assms by (auto simp: reply_read_def)
qed (use assms in \<open>simp_all add: call_ops [THEN reply_op_spec] call_reads [THEN read_refines_exact] reply_read_def\<close>)

lemma run_calls_inv:
  "reliable \<Longrightarrow> sinv s \<Longrightarrow> calls_ok T ops view cs s \<Longrightarrow> sinv (snd (run_calls ops cs s))"
  by (induction cs arbitrary: s) (auto simp: Let_def case_prod_beta dest: run_call_spec)

end

text \<open>Two reliable backends that meet the contract with the same quotas give the same answers to an
  admissible history and end with the same view.\<close>

lemma run_calls_agree:
  assumes A: "store_contract ops q sinv view True TA" and B: "store_contract ops' q sinv' view' True TB"
    and T: "\<And>t. T t \<Longrightarrow> TA t" "\<And>t. T t \<Longrightarrow> TB t"
    and "sinv s" "sinv' s'" "view s = view' s'" "calls_ok T ops view cs s"
  shows "fst (run_calls ops cs s) = fst (run_calls ops' cs s') \<and>
    view (snd (run_calls ops cs s)) = view' (snd (run_calls ops' cs s'))"
  using assms(5-8)
proof (induction cs arbitrary: s s')
  case (Cons c cs)
  have ok: "call_ok TA c (view s)" "call_ok TB c (view' s')"
    using call_ok_mono [OF T(1)] call_ok_mono [OF T(2)] Cons.prems(3,4) by auto
  note a = store_contract.run_call_spec [OF A TrueI Cons.prems(1) ok(1)]
    and b = store_contract.run_call_spec [OF B TrueI Cons.prems(2) ok(2)]
  have "(fst (run_call ops c s), view (snd (run_call ops c s))) =
      (fst (run_call ops' c s'), view' (snd (run_call ops' c s')))"
    by (rule call_spec_unique [OF conjunct2 [OF a] conjunct2 [OF b, folded Cons.prems(3)]])
  with Cons.IH [of "snd (run_call ops c s)" "snd (run_call ops' c s')"] a b Cons.prems(4) show ?case
    by (simp add: Let_def case_prod_beta)
qed simp

end
