(* ===== verification/Sql_Properties.thy ===== *)
theory Sql_Properties
  imports Sql_Codecs Backend_Histories Store_Steps
begin

text \<open>
  The properties of the SQL stores: both meet the store contract on the timestamps their columns can
  hold, the schema's invariant holds in every reachable database, the three backends answer every
  admissible history alike, and two places where the SQL stores differ from what is documented.
\<close>

subsection \<open>The contract\<close>

text \<open>C2: \<open>SqliteStore\<close> implements the store contract. For every driver that reads back the timestamps
  of \<open>T\<close> and the identifiers it wrote and whose columns sort as they do, and every byte quota below
  \<open>2^63\<close>: each method keeps the invariant of the tables and does on the stored data exactly what the
  trait promises, and fails only when it is given a timestamp outside \<open>T\<close> or a negative message size,
  mail or a subscription for a missing mailbox, or a subscription that the trait lets it refuse.\<close>

theorem sqlite_store_contract:
  assumes "codec_ok T c" "unat (q_max_bytes q) < 2 ^ 63"
  shows "store_contract (within_domain T (sqlite_ops c q)) q (db_inv T c) (db_view c) True T"
  by (rule sqlite_contract [OF assms])

theorem sqlite_store_contract_witness:
  "codec_ok text_times text_codec \<and>
   store_contract (within_domain text_times (sqlite_ops text_codec \<lparr>q_max_messages = 2, q_max_bytes = 100\<rparr>))
     \<lparr>q_max_messages = 2, q_max_bytes = 100\<rparr> (db_inv text_times text_codec) (db_view text_codec) True text_times"
  using sqlite_store_contract [OF text_codec_ok, of "\<lparr>q_max_messages = 2, q_max_bytes = 100\<rparr>"] text_codec_ok by simp

text \<open>C9: \<open>PostgresStore\<close> implements the same contract, with native identifiers and timestamps as its
  columns hold them (whole microseconds).\<close>

theorem postgres_store_contract:
  assumes "codec_ok T (pg_codec tc)" "unat (q_max_bytes q) < 2 ^ 63"
  shows "store_contract (within_domain T (postgres_ops tc q)) q (db_inv T (pg_codec tc)) (db_view (pg_codec tc)) True T"
  by (rule postgres_contract [OF assms])

theorem postgres_store_contract_witness:
  "codec_ok micros_times (pg_codec micros_codec) \<and>
   store_contract (within_domain micros_times (postgres_ops micros_codec \<lparr>q_max_messages = 2, q_max_bytes = 100\<rparr>))
     \<lparr>q_max_messages = 2, q_max_bytes = 100\<rparr> (db_inv micros_times (pg_codec micros_codec))
     (db_view (pg_codec micros_codec)) True micros_times"
  using postgres_store_contract [OF micros_codec_ok, of "\<lparr>q_max_messages = 2, q_max_bytes = 100\<rparr>"] micros_codec_ok by simp

subsection \<open>The schema\<close>

text \<open>C16: Every database that \<open>SqliteStore\<close> reaches from the migrated, empty one by calls of its methods
  in any order is well formed: keys are unique, every message and subscription belongs to a mailbox
  and every attachment to a message that exist (nothing survives its mailbox), and every column holds
  a value of the type the row structs read, so no later read fails to decode.\<close>

theorem sqlite_schema_kept:
  assumes "codec_ok T c" "unat (q_max_bytes q) < 2 ^ 63"
    and "store_reachable (within_domain T (sqlite_ops c q)) (db_view c) empty_database s"
  shows "keys_ok s \<and> refs_ok s \<and> rows_ok T c s"
  using store_contract.reachable_inv [OF sqlite_contract [OF assms(1,2)] assms(3) db_inv_empty]
  by (simp add: db_inv_def)

definition subscribed_db :: "(string, string) database" where
  "subscribed_db = (let ops = within_domain text_times (sqlite_ops text_codec UNLIMITED);
     s1 = snd (st_create_mailbox ops 0 ''u@d'' ''d'' 100 None None empty_database)
   in snd (st_add_subscription ops 1 7 ''u@d'' WebPush ''https://push'' ''p'' ''a'' 5 s1))"

theorem sqlite_schema_kept_witness:
  "map sr_endpoint (t_push_subscriptions subscribed_db) = [''https://push''] \<and>
   keys_ok subscribed_db \<and> refs_ok subscribed_db \<and> rows_ok text_times text_codec subscribed_db"
proof -
  have "store_reachable (within_domain text_times (sqlite_ops text_codec UNLIMITED)) (db_view text_codec)
      empty_database subscribed_db"
    unfolding store_reachable_def subscribed_db_def Let_def
    by (rule converse_rtranclp_into_rtranclp, rule store_step.create_mailbox, rule r_into_rtranclp,
        rule store_step.add_subscription)
  moreover have "unat (q_max_bytes UNLIMITED) < 2 ^ 63" by (simp add: UNLIMITED_def)
  moreover have "map sr_endpoint (t_push_subscriptions subscribed_db) = [''https://push'']"
    by (simp add: subscribed_db_def within_domain_def sqlite_ops_def sqlite_create_mailbox_def sqlite_add_subscription_def
        guarded_def text_times_def sql_then_def sql_tx_def sql_return_def insert_mailbox_def insert_subscription_def
        fetch_optional_def empty_database_def sql_count_def Let_def)
  ultimately show ?thesis using sqlite_schema_kept [OF text_codec_ok] by blast
qed

subsection \<open>Three backends, one behaviour\<close>

lemma run_call_within: "call_ok T c v \<Longrightarrow> run_call (within_domain T ops) c s = run_call ops c s"
  by (cases c) (simp_all add: within_domain_def)

lemma run_calls_within:
  "calls_ok T ops' view cs s' \<Longrightarrow> run_calls (within_domain T ops) cs s = run_calls ops cs s"
  by (induction cs arbitrary: s s') (auto simp: run_call_within)

lemma empty_views: "mem_view inner_default = db_view c empty_database"
  by (simp add: mem_view_def db_view_def empty_database_def inner_default_def hm_laws fun_eq_iff find_message_def find_srec_def
      find_entry_def find_sub_def)

lemma agrees_with_memory:
  assumes "store_contract ops q sinv view True T" "sinv s" "view s = mem_view inner_default"
    and "calls_ok T (memory_ops q) mem_view cs inner_default"
  shows "fst (run_calls (memory_ops q) cs inner_default) = fst (run_calls ops cs s) \<and>
    mem_view (snd (run_calls (memory_ops q) cs inner_default)) = view (snd (run_calls ops cs s))"
  using run_calls_agree [where T = T and TA = "\<lambda>_. True" and TB = T and sinv = mem_inv and view = mem_view
      and sinv' = sinv and view' = view, OF mem.store_contract_axioms assms(1) TrueI _ mem_inv_default assms(2)
      assms(3) [symmetric] assms(4)] by blast

text \<open>C5: The backends are interchangeable. On every history of trait calls from the empty store, whose
  timestamps both databases can hold, that saves mail only to mailboxes that exist (with unused
  identifiers) and adds no subscription that a backend may refuse, \<open>SqliteStore\<close>, \<open>PostgresStore\<close> and
  \<open>MemoryStore\<close> with the same quotas give the same answers, and end up with the same stored data.\<close>

theorem backends_agree:
  assumes "codec_ok T c" "codec_ok T (pg_codec tc)" "unat (q_max_bytes q) < 2 ^ 63"
    and "calls_ok T (memory_ops q) mem_view cs inner_default"
  shows "fst (run_calls (sqlite_ops c q) cs empty_database) = fst (run_calls (memory_ops q) cs inner_default) \<and>
    fst (run_calls (postgres_ops tc q) cs empty_database) = fst (run_calls (memory_ops q) cs inner_default) \<and>
    db_view c (snd (run_calls (sqlite_ops c q) cs empty_database)) =
      mem_view (snd (run_calls (memory_ops q) cs inner_default)) \<and>
    db_view (pg_codec tc) (snd (run_calls (postgres_ops tc q) cs empty_database)) =
      mem_view (snd (run_calls (memory_ops q) cs inner_default))"
proof -
  note sqlite = agrees_with_memory [OF sqlite_contract [OF assms(1,3)] db_inv_empty empty_views [symmetric] assms(4)]
    and postgres = agrees_with_memory [OF postgres_contract [OF assms(2,3)] db_inv_empty empty_views [symmetric] assms(4)]
  from sqlite postgres show ?thesis by (simp add: run_calls_within [OF assms(4)])
qed

definition both_times :: "datetime \<Rightarrow> bool" where
  "both_times t \<longleftrightarrow> text_times t \<and> micros_times t"

definition otp_mail :: new_message where
  "otp_mail = \<lparr>nm_mail_from = ''a@b'', nm_subject = Some ''code'', nm_message_date = Some 1000, nm_text_body = Some ''1234'',
     nm_html_body = None, nm_raw_size = 40, nm_raw_content = None,
     nm_attachments = [\<lparr>na_filename = Some ''f.txt'', na_content_type = ''text/plain'', na_content = ''hello''\<rparr>]\<rparr>"

definition short_history :: "store_call list" where
  "short_history = [CreateMailbox 1000 ''u@d'' ''d'' 9000 None None,
     AddSubscription 2000 5 ''u@d'' WebPush ''https://push'' ''p'' ''a'' 3,
     SaveMessage 3000 7 (\<lambda>i. 8 + of_nat i) ''u@d'' otp_mail,
     MarkSeen ''u@d'' 7, ListMessages ''u@d'' 0 None, GetAttachment ''u@d'' 7 8,
     PurgeExpired 9000, GetMessage ''u@d'' 7]"

lemma short_history_ok: "calls_ok both_times (memory_ops q) mem_view short_history inner_default"
proof -
  let ?s1 = "snd (mem_create_mailbox 1000 ''u@d'' ''d'' 9000 None None inner_default)"
  let ?s2 = "snd (mem_add_subscription 2000 5 ''u@d'' WebPush ''https://push'' ''p'' ''a'' 3 ?s1)"
  have s1: "mem_inv ?s1" "mem_view ?s1 = snd (spec_create_mailbox 1000 ''u@d'' ''d'' 9000 None None (mem_view inner_default))"
    using mem.create_mailbox [OF mem_inv_default, of q 1000 "''u@d''" "''d''" 9000 None None]
    by (auto simp: memory_ops_def dest!: op_refines_exact)
  have v1: "v_mailbox (mem_view ?s1) ''u@d'' \<noteq> None" "v_sub (mem_view ?s1) = (\<lambda>_ _. None)"
      "v_entry (mem_view ?s1) = (\<lambda>_ _. None)"
    unfolding s1(2) empty_views [of text_codec]
    by (simp_all add: spec_create_mailbox_def Let_def empty_database_def db_view_def find_message_def find_srec_def)
  have refusable: "\<not> sub_refusable 5 ''u@d'' ''https://push'' 3 (mem_view ?s1)"
    using v1 by (simp add: sub_refusable_def)
  have "op_refines True mem_inv mem_view ?s1 (mem_add_subscription 2000 5 ''u@d'' WebPush ''https://push'' ''p'' ''a'' 3 ?s1)
      (spec_add_subscription 2000 5 ''u@d'' WebPush ''https://push'' ''p'' ''a'' 3 (mem_view ?s1))"
    using mem.add_subscription [OF s1(1), of q 2000 5 "''u@d''" WebPush "''https://push''" "''p''" "''a''" 3] refusable
    by (cases "mem_add_subscription 2000 5 ''u@d'' WebPush ''https://push'' ''p'' ''a'' 3 ?s1") (auto simp: memory_ops_def)
  then have s2: "mem_view ?s2 = snd (spec_add_subscription 2000 5 ''u@d'' WebPush ''https://push'' ''p'' ''a'' 3 (mem_view ?s1))"
    by (auto dest!: op_refines_exact)
  have v2: "v_mailbox (mem_view ?s2) ''u@d'' \<noteq> None" "v_entry (mem_view ?s2) = (\<lambda>_ _. None)"
    unfolding s2 using v1 by (simp_all add: spec_add_subscription_def Let_def)
  then have "fresh_ids 7 (\<lambda>i. 8 + of_nat i) otp_mail (mem_view ?s2)"
    by (simp add: fresh_ids_def otp_mail_def inj_on_def)
  with v2 refusable show ?thesis
    by (simp add: short_history_def memory_ops_def reply_op_def reply_read_def message_in_def opt_in_def otp_mail_def both_times_def
        text_times_def micros_times_def)
qed

theorem backends_agree_witness:
  "fst (run_calls (sqlite_ops text_codec UNLIMITED) short_history empty_database) =
     fst (run_calls (memory_ops UNLIMITED) short_history inner_default) \<and>
   fst (run_calls (postgres_ops micros_codec UNLIMITED) short_history empty_database) =
     fst (run_calls (memory_ops UNLIMITED) short_history inner_default)"
proof -
  have "codec_ok both_times text_codec" "codec_ok both_times (pg_codec micros_codec)"
    using text_codec_ok micros_codec_ok by (auto simp: codec_ok_def both_times_def)
  moreover have "unat (q_max_bytes UNLIMITED) < 2 ^ 63" by (simp add: UNLIMITED_def)
  ultimately show ?thesis using backends_agree [OF _ _ _ short_history_ok] by blast
qed

subsection \<open>Where the SQL stores differ\<close>

lemma as_i64_negative:
  assumes "unat w \<ge> 2 ^ 63"
  shows "as_i64 w < 0"
proof -
  have "int (2 ^ 63) \<le> int (unat w)" using assms by (simp only: of_nat_le_iff)
  then have "uint w \<ge> 2 ^ 63" by simp
  moreover have "uint w < 2 ^ 64" using uint_bounded [of w] by simp
  ultimately have "uint w div 2 ^ 63 = 1" by (intro int_div_pos_eq [where r = "uint w - 2 ^ 63"]) simp_all
  then have "bit (uint w) 63" unfolding bit_iff_odd by simp
  then have "signed_take_bit 63 (uint w) < 0" unfolding signed_take_bit_negative_iff .
  then show ?thesis by (simp add: as_i64_def sint_uint)
qed

lemma insert_attachments_messages:
  "sqlite_insert_attachments c aids mid k atts s = (r, s') \<Longrightarrow> t_messages s' = t_messages s"
proof (induction atts arbitrary: k s r)
  case (Cons a atts)
  then show ?case
    by (auto simp: sql_return_def sql_then_def insert_attachment_def Let_def split: prod.splits result.splits if_splits
        dest: Cons.IH)
qed simp

lemma count_quota_messages: "sqlite_count_quota q a s = (r, s') \<Longrightarrow> set (t_messages s') \<subseteq> set (t_messages s)"
  by (auto simp: sqlite_count_quota_def Let_def case_prod_beta snd_delete_messages split: if_splits)

lemma byte_quota_wrapped:
  assumes "sqlite_byte_quota c q a mid s = (r, s')" "unat (q_max_bytes q) \<ge> 2 ^ 63"
    "\<forall>x\<in>set (t_messages s). mg_raw_size x \<ge> 0" "x \<in> set (t_messages s')" "mg_mailbox_address x = a"
  shows "mg_id x = bind_id c mid"
proof -
  let ?t = "filter (\<lambda>m. mg_mailbox_address m = a) (t_messages s)"
  have "running_size ?t y \<ge> 0" for y
    using assms(3) unfolding running_size_def by (intro sum_list_nonneg) auto
  then have "as_i64 (q_max_bytes q) < running_size ?t y" for y
    using as_i64_negative [OF assms(2)] by (meson less_le_trans)
  moreover have "q_max_bytes q > 0" using assms(2) by (auto simp: word_gt_0)
  ultimately show ?thesis
    using assms(1,4,5) by (auto simp: sqlite_byte_quota_def Let_def case_prod_beta snd_delete_messages)
qed

text \<open>A byte quota of \<open>2^63\<close> or more (\<open>MAX_MAILBOX_BYTES\<close> is a \<open>u64\<close>, so \<open>18446744073709551615\<close> is
  accepted) is cast to a negative \<open>i64\<close> by \<open>SqliteStore::save_message\<close>: every save then deletes all other
  mail of the mailbox, however small it is.\<close>

theorem sqlite_byte_quota_wraps:
  assumes "rows_ok T c s" "nm_raw_size m \<ge> 0" "unat (q_max_bytes q) \<ge> 2 ^ 63"
    and "sqlite_save_message c q now mid aids a m s = (Ok out, s')"
  shows "\<forall>x\<in>set (t_messages s'). mg_mailbox_address x = a \<longrightarrow> mg_id x = bind_id c mid"
proof -
  let ?row = "sqlite_message_rec c now mid a m"
  obtain s1 where s1: "insert_message ?row s = (Ok (), s1)"
    using assms(4) by (cases "insert_message ?row s")
      (auto simp: sqlite_save_message_def sql_tx_def sql_then_def split: result.splits prod.splits)
  obtain metas s2 where s2: "sqlite_insert_attachments c aids mid 0 (nm_attachments m) s1 = (Ok metas, s2)"
    using assms(4) s1 by (cases "sqlite_insert_attachments c aids mid 0 (nm_attachments m) s1")
      (auto simp: sqlite_save_message_def sql_tx_def sql_then_def split: result.splits prod.splits)
  obtain n s3 where s3: "sqlite_count_quota q a s2 = (Ok n, s3)"
    using assms(4) s1 s2 by (cases "sqlite_count_quota q a s2")
      (auto simp: sqlite_save_message_def sql_tx_def sql_then_def split: result.splits prod.splits)
  obtain n' where s': "sqlite_byte_quota c q a mid s3 = (Ok n', s')"
    using assms(4) s1 s2 s3 by (cases "sqlite_byte_quota c q a mid s3")
      (auto simp: sqlite_save_message_def sql_tx_def sql_then_def sql_return_def split: result.splits prod.splits)
  have "set (t_messages s3) \<subseteq> insert ?row (set (t_messages s))"
    using count_quota_messages [OF s3] insert_attachments_messages [OF s2] s1
    by (auto simp: insert_message_def split: if_splits)
  then have "\<forall>x\<in>set (t_messages s3). mg_raw_size x \<ge> 0"
    using assms(1,2) by (auto simp: rows_ok_def message_wf_def sqlite_message_rec_def)
  with byte_quota_wrapped [OF s' assms(3)] show ?thesis by blast
qed

definition mailbox_db :: "(string, string) database" where
  "mailbox_db = empty_database\<lparr>
     t_mailboxes := [\<lparr>mr_address = ''u@d'', mr_domain = ''d'', mr_created_at = bind_text_time 0,
       mr_expires_at = bind_text_time 9000, mr_owner_token_hash = None, mr_creator_device_hash = None\<rparr>],
     t_messages := [sqlite_message_rec text_codec 1000 3 ''u@d'' otp_mail]\<rparr>"

theorem sqlite_byte_quota_wraps_witness:
  "\<exists>out s'. sqlite_save_message text_codec \<lparr>q_max_messages = 0, q_max_bytes = 18446744073709551615\<rparr> 2000 7 (\<lambda>i. 8 + of_nat i) ''u@d'' otp_mail
     mailbox_db = (Ok out, s') \<and> (\<forall>x\<in>set (t_messages s'). mg_mailbox_address x = ''u@d'' \<longrightarrow> mg_id x = show_uuid 7)"
proof -
  let ?q = "\<lparr>q_max_messages = 0, q_max_bytes = 18446744073709551615\<rparr> :: mailbox_quotas"
  let ?save = "sqlite_save_message text_codec ?q 2000 7 (\<lambda>i. 8 + of_nat i) ''u@d'' otp_mail mailbox_db"
  have ids: "show_uuid 7 \<noteq> show_uuid 3" by code_simp
  have "case fst ?save of Ok _ \<Rightarrow> True | Err _ \<Rightarrow> False"
    using ids by (simp add: sqlite_save_message_def sql_tx_def sql_then_def insert_message_def mailbox_db_def empty_database_def
        sqlite_message_rec_def text_codec_def otp_mail_def insert_attachment_def sql_return_def sqlite_count_quota_def
        sqlite_byte_quota_def Let_def delete_messages_def sql_delete_def)
  then obtain out s' where run: "?save = (Ok out, s')" by (cases ?save) (auto split: result.splits)
  have "rows_ok text_times text_codec mailbox_db"
    by (auto simp: rows_ok_def mailbox_db_def empty_database_def mailbox_wf_def message_wf_def sqlite_message_rec_def
        otp_mail_def text_codec_def time_col_def id_col_def text_times_def intro: exI [of _ 0] exI [of _ 9000] exI [of _ 1000])
  from sqlite_byte_quota_wraps [OF this _ _ run] run show ?thesis by (simp add: otp_mail_def text_codec_def)
qed

text \<open>Refreshing a subscription. With \<open>max_per_mailbox\<close> other subscriptions on the mailbox
  \<open>PostgresStore::add_subscription\<close> refuses to refresh one that exists, as the trait documents;
  \<open>SqliteStore\<close> (and \<open>MemoryStore\<close>) refresh it.\<close>

theorem refresh_at_cap_differs:
  assumes "codec_ok T (pg_codec tc)" "db_inv T (pg_codec tc) s"
    and "v_sub (db_view (pg_codec tc) s) a ep = Some old" "0 < cap"
    and "unat cap \<le> card (dom (v_sub (db_view (pg_codec tc) s) a) - {ep})"
  shows "pg_add_subscription tc now sid a kd ep p au cap s = (Err (SubscriptionLimit cap), s) \<and>
    fst (sqlite_add_subscription (pg_codec tc) now sid a kd ep p au cap s) =
      Ok (old\<lparr>ps_kind := kd, ps_p256dh := p, ps_auth := au\<rparr>)"
proof
  show "pg_add_subscription tc now sid a kd ep p au cap s = (Err (SubscriptionLimit cap), s)"
    using assms(4,5) unfolding card_db_subs(2) [OF assms(2)] by (simp add: pg_add_subscription_def cap_reached)
  obtain row where row: "find_srec a ep (t_push_subscriptions s) = Some row" "old = dec_sub (pg_codec tc) row"
    using assms(3) by auto
  then have "sqlite_push_subscription (pg_codec tc) row = Ok old"
    using sub_conv [OF assms(1)] db_inv_rows(4) [OF assms(2)] find_srec_D [OF row(1)] by auto
  then show "fst (sqlite_add_subscription (pg_codec tc) now sid a kd ep p au cap s) =
      Ok (old\<lparr>ps_kind := kd, ps_p256dh := p, ps_auth := au\<rparr>)"
    using row(1) by (simp add: sqlite_add_subscription_def fetch_optional_filter find_srec_def)
qed

definition push_row :: "uuid \<Rightarrow> string \<Rightarrow> (int, uuid) subscription_rec" where
  "push_row i ep = \<lparr>sr_id = i, sr_mailbox_address = ''u@d'', sr_kind = ''webpush'', sr_endpoint = ep, sr_p256dh = ''p'',
     sr_auth = ''a'', sr_created_at = 1\<rparr>"

definition full_db :: "(int, uuid) database" where
  "full_db = empty_database\<lparr>
     t_mailboxes := [\<lparr>mr_address = ''u@d'', mr_domain = ''d'', mr_created_at = 0, mr_expires_at = 9,
       mr_owner_token_hash = None, mr_creator_device_hash = None\<rparr>],
     t_push_subscriptions := [push_row 1 ''x'', push_row 2 ''y'']\<rparr>"

theorem refresh_at_cap_differs_witness:
  "fst (pg_add_subscription micros_codec 5000 7 ''u@d'' Apns ''x'' [] [] 1 full_db) = Err (SubscriptionLimit 1) \<and>
   fst (sqlite_add_subscription (pg_codec micros_codec) 5000 7 ''u@d'' Apns ''x'' [] [] 1 full_db) =
     Ok ((dec_sub (pg_codec micros_codec) (push_row 1 ''x''))\<lparr>ps_kind := Apns, ps_p256dh := [], ps_auth := []\<rparr>)"
proof -
  let ?c = "pg_codec micros_codec"
  have col: "time_col micros_times ?c u" for u
    unfolding time_col_def by (intro exI [of _ "u * 1000"]) (simp add: micros_codec_def micros_times_def)
  have inv: "db_inv micros_times ?c full_db"
    by (simp add: db_inv_defs full_db_def empty_database_def push_row_def sr_key_def mailbox_wf_def sub_wf_def id_col_def col)
  have sub: "v_sub (db_view ?c full_db) ''u@d'' ''x'' = Some (dec_sub ?c (push_row 1 ''x''))"
    by (simp add: full_db_def empty_database_def find_srec_def push_row_def)
  have "v_sub (db_view ?c full_db) ''u@d'' = [''x'' \<mapsto> dec_sub ?c (push_row 1 ''x''), ''y'' \<mapsto> dec_sub ?c (push_row 2 ''y'')]"
    by (auto simp: full_db_def empty_database_def find_srec_def push_row_def fun_eq_iff)
  then have "card (dom (v_sub (db_view ?c full_db) ''u@d'') - {''x''}) = 1" by simp
  with refresh_at_cap_differs [OF micros_codec_ok inv sub, of 1 5000 7 Apns "[]" "[]"] show ?thesis by simp
qed

end
