(* ===== verification/Api_Addresses.thy ===== *)
theory Api_Addresses
  imports Api_Gates
begin

text \<open>
  \<open>src/api/addresses.rs\<close>: creating, reading, extending, deleting a mailbox and rotating its owner
  token. A response body is the tuple of what the source serialises. Indexing an empty list of
  configured domains panics in the source and is an internal error here (\<open>from_env\<close> rejects such a
  configuration).
\<close>

definition LOCAL_PART_CHARSET :: string where
  "LOCAL_PART_CHARSET = ''abcdefghijklmnopqrstuvwxyz0123456789''"

definition RANDOM_LOCAL_PART_LEN :: nat where
  "RANDOM_LOCAL_PART_LEN = 10"

definition MAX_LOCAL_PART_LEN :: nat where
  "MAX_LOCAL_PART_LEN = 64"

definition RANDOM_CREATE_ATTEMPTS :: nat where
  "RANDOM_CREATE_ATTEMPTS = 5"

record create_request =
  ca_local_part :: "string option"
  ca_domain :: "string option"

definition create_request_default :: create_request where
  "create_request_default = \<lparr>ca_local_part = None, ca_domain = None\<rparr>"

definition random_local_part :: "(string, 's) handler" where
  "random_local_part w =
     (Ok (map (\<lambda>i. LOCAL_PART_CHARSET ! (aw_random w (aw_rpos w + i) mod length LOCAL_PART_CHARSET))
            [0..<RANDOM_LOCAL_PART_LEN]),
      w\<lparr>aw_rpos := aw_rpos w + RANDOM_LOCAL_PART_LEN\<rparr>)"

definition is_sep :: "char \<Rightarrow> bool" where
  "is_sep b \<longleftrightarrow> b \<in> set ''._-''"

definition is_valid_local_part :: "string \<Rightarrow> bool" where
  "is_valid_local_part l =
     (if l = [] \<or> length l > MAX_LOCAL_PART_LEN then False
      else if \<not> list_all (\<lambda>b. is_ascii_lowercase b \<or> is_ascii_digit b \<or> is_sep b) l then False
      else \<not> is_sep (hd l) \<and> \<not> is_sep (last l))"

fun position :: "'a \<Rightarrow> 'a list \<Rightarrow> nat option" where
  "position x [] = None"
| "position x (y # ys) = (if y = x then Some 0 else map_option Suc (position x ys))"

text \<open>The domain part of \<open>create\<close>.\<close>

definition create_domain ::
  "'s app_state \<Rightarrow> tier_policy option \<Rightarrow> headers \<Rightarrow> string option \<Rightarrow> (string, 's) handler" where
  "create_domain st policy h requested =
     (case requested of
        None \<Rightarrow>
          (case domains (ap_config st) of
             [] \<Rightarrow> fail (Internal (Anyhow ''index out of bounds''))
           | d # _ \<Rightarrow> ret d)
      | Some raw \<Rightarrow>
          (let d = to_ascii_lowercase (trim raw) in
           case position d (domains (ap_config st)) of
             Some index \<Rightarrow>
               (case policy of
                  Some p \<Rightarrow>
                    if tp_domain_count p > 0 \<and> index \<ge> unat (tp_domain_count p)
                    then fail (pro_required (''domain requires a higher tier: '' @ d))
                    else ret d
                | None \<Rightarrow> ret d)
           | None \<Rightarrow>
               if custom_domains_enabled (ap_config st) then
                 (if (case policy of Some p \<Rightarrow> \<not> tp_custom_domains p | None \<Rightarrow> False)
                  then fail (pro_required ''custom domains require a higher tier'')
                  else try_bind (authorize_mailbox_on_custom_domain st d h) (\<lambda>_. ret d))
               else fail (BadRequest (''unknown domain: '' @ d))))"

definition create_local_part ::
  "'s app_state \<Rightarrow> tier_policy option \<Rightarrow> string option \<Rightarrow> (string option, 's) handler" where
  "create_local_part st policy requested =
     (case requested of
        None \<Rightarrow> ret None
      | Some raw \<Rightarrow>
          (let l = to_ascii_lowercase (trim raw) in
           if \<not> is_valid_local_part l
           then fail (BadRequest (''local_part must be 1-64 chars of a-z, 0-9, '' @ [CHR 39] @ ''.'' @ [CHR 39] @ '', ''
                  @ [CHR 39] @ ''_'' @ [CHR 39] @ '' or '' @ [CHR 39] @ ''-'' @ [CHR 39]
                  @ '' and not start/end with a separator''))
           else if is_reserved_local_part (ap_config st) l
           then fail (BadRequest (''local_part is reserved: '' @ l))
           else if (case policy of Some p \<Rightarrow> \<not> tp_custom_local_parts p | None \<Rightarrow> False)
           then fail (pro_required ''custom local parts require a higher tier'')
           else ret (Some l)))"

definition check_device_cap ::
  "'s app_state \<Rightarrow> tier_policy option \<Rightarrow> string option \<Rightarrow> (unit, 's) handler" where
  "check_device_cap st policy device_hash =
     (case (policy, device_hash) of
        (Some p, Some dev) \<Rightarrow>
          if tp_active_mailboxes p > 0 then
            try_bind now_utc (\<lambda>now.
            try_bind (read_store (st_count_active_mailboxes_by_device (ap_ops st) dev now)) (\<lambda>active.
              ensure (\<not> active \<ge> unat (tp_active_mailboxes p))
                (mailbox_cap (''this tier allows '' @ show_nat (unat (tp_active_mailboxes p))
                   @ '' active mailboxes per device''))))
          else ret ()
      | _ \<Rightarrow> ret ())"

definition create_at ::
  "'s app_state \<Rightarrow> string \<Rightarrow> string \<Rightarrow> datetime \<Rightarrow> string \<Rightarrow> string option
   \<Rightarrow> ((mailbox, store_error) result, 's) handler" where
  "create_at st address domain expires_at token_hash device_hash =
     try_bind now_utc (\<lambda>now.
       run_store (st_create_mailbox (ap_ops st) now address domain expires_at (Some token_hash) device_hash))"

definition create_custom ::
  "'s app_state \<Rightarrow> string \<Rightarrow> string \<Rightarrow> datetime \<Rightarrow> string option \<Rightarrow> (mailbox \<times> string, 's) handler" where
  "create_custom st l domain expires_at device_hash =
     try_bind (fresh_token st TOKEN_PREFIX) (\<lambda>(owner_token, token_hash).
       let address = l @ ''@'' @ domain in
       try_bind (create_at st address domain expires_at token_hash device_hash) (\<lambda>r.
         (case r of
            Ok mb \<Rightarrow> ret (mb, owner_token)
          | Err e \<Rightarrow> if is_unique_violation e then fail (Conflict (''address already exists: '' @ address))
                     else fail (Internal (StoreError e)))))"

fun create_random ::
  "nat \<Rightarrow> 's app_state \<Rightarrow> string \<Rightarrow> datetime \<Rightarrow> string option \<Rightarrow> (mailbox \<times> string, 's) handler" where
  "create_random 0 st domain expires_at device_hash =
     fail (Internal (Anyhow (''could not allocate a unique random address after ''
       @ show_nat RANDOM_CREATE_ATTEMPTS @ '' attempts'')))"
| "create_random (Suc n) st domain expires_at device_hash =
     try_bind (fresh_token st TOKEN_PREFIX) (\<lambda>(owner_token, token_hash).
     try_bind random_local_part (\<lambda>l.
     try_bind (create_at st (l @ ''@'' @ domain) domain expires_at token_hash device_hash) (\<lambda>r.
       (case r of
          Ok mb \<Rightarrow> ret (mb, owner_token)
        | Err e \<Rightarrow> if is_unique_violation e then create_random n st domain expires_at device_hash
                   else fail (Internal (StoreError e))))))"

definition device_hash_of :: "'s app_state \<Rightarrow> client_claims option \<Rightarrow> string option" where
  "device_hash_of st client = map_option (hash_token (sha st)) (Option.bind client cc_kid)"

definition create_policy :: "'s app_state \<Rightarrow> client_claims option \<Rightarrow> tier_policy option" where
  "create_policy st client =
     (if entitlements_enforced (ap_config st)
      then Some (tier_policy_of (ap_config st) (case client of Some c \<Rightarrow> cc_tier c | None \<Rightarrow> Free))
      else None)"

text \<open>\<open>POST /api/addresses\<close>.\<close>

definition address_create ::
  "'s app_state \<Rightarrow> ip_addr \<Rightarrow> headers \<Rightarrow> create_request option \<Rightarrow> (mailbox \<times> string, 's) handler" where
  "address_create st peer h body =
     (let req = (case body of Some b \<Rightarrow> b | None \<Rightarrow> create_request_default) in
      try_bind (attestation_gate st h) (\<lambda>client.
      let policy = create_policy st client; device_hash = device_hash_of st client in
      try_bind (create_domain st policy h (ca_domain req)) (\<lambda>domain.
      try_bind (create_local_part st policy (ca_local_part req)) (\<lambda>l.
      try_bind (check_device_cap st policy device_hash) (\<lambda>_.
      try_bind now_utc (\<lambda>today.
      try_bind (with_limits (note_address_created
          (client_ip h peer (api_trust_proxy_headers (ap_config st))) (date_naive today))) (\<lambda>within.
      try_bind (ensure within (TooManyRequests ''daily address creation limit reached'')) (\<lambda>_.
      try_bind now_utc (\<lambda>now.
      let expires_at = now + ttl_of (ap_config st) in
      case l of
        Some l' \<Rightarrow> create_custom st l' domain expires_at device_hash
      | None \<Rightarrow> create_random RANDOM_CREATE_ATTEMPTS st domain expires_at device_hash)))))))))"

text \<open>\<open>GET /api/addresses/{address}\<close>.\<close>

definition address_get :: "'s app_state \<Rightarrow> string \<Rightarrow> (mailbox, 's) handler" where
  "address_get st address =
     try_bind (read_store (st_get_mailbox (ap_ops st) (to_ascii_lowercase address)))
       (expect_some (NotFound ''mailbox not found''))"

text \<open>\<open>POST /api/addresses/{address}/extend\<close>. \<open>max_lifetime_seconds as i64\<close> is written out.\<close>

definition check_lifetime_cap ::
  "'s app_state \<Rightarrow> tier option \<Rightarrow> datetime \<Rightarrow> datetime \<Rightarrow> (unit, 's) handler" where
  "check_lifetime_cap st t created_at new_expiry =
     (case t of
        None \<Rightarrow> ret ()
      | Some tier \<Rightarrow>
          (let policy = tier_policy_of (ap_config st) tier in
           ensure (\<not> (tp_max_lifetime_seconds policy > 0 \<and>
              new_expiry - created_at > seconds (as_i64 (tp_max_lifetime_seconds policy))))
             (lifetime_cap (''extending would exceed this tier'' @ [CHR 39] @ ''s max mailbox lifetime of ''
                @ show_nat (unat (tp_max_lifetime_seconds policy)) @ ''s''))))"

definition address_extend :: "'s app_state \<Rightarrow> string \<Rightarrow> headers \<Rightarrow> (mailbox, 's) handler" where
  "address_extend st raw h =
     (let address = to_ascii_lowercase raw in
      try_bind (attestation_gate st h) (\<lambda>_.
      try_bind (authorize_owner st address h) (\<lambda>mb.
      try_bind now_utc (\<lambda>now.
      let new_expiry = now + ttl_of (ap_config st) in
      try_bind (enforced_tier st h) (\<lambda>t.
      try_bind (check_lifetime_cap st t (mb_created_at mb) new_expiry) (\<lambda>_.
      try_bind (write_store (st_extend_mailbox (ap_ops st) address new_expiry))
        (expect_some (NotFound ''mailbox not found''))))))))"

text \<open>\<open>DELETE /api/addresses/{address}\<close>.\<close>

definition address_delete :: "'s app_state \<Rightarrow> string \<Rightarrow> headers \<Rightarrow> (unit, 's) handler" where
  "address_delete st raw h =
     (let address = to_ascii_lowercase raw in
      try_bind (attestation_gate st h) (\<lambda>_.
      try_bind (authorize_owner st address h) (\<lambda>_.
      try_bind (write_store (st_delete_mailbox (ap_ops st) address)) (\<lambda>deleted.
        ensure deleted (NotFound ''mailbox not found'')))))"

text \<open>\<open>POST /api/addresses/{address}/rotate\<close>.\<close>

definition address_rotate :: "'s app_state \<Rightarrow> string \<Rightarrow> headers \<Rightarrow> (string, 's) handler" where
  "address_rotate st raw h =
     (let address = to_ascii_lowercase raw in
      try_bind (attestation_gate st h) (\<lambda>_.
      try_bind (authorize_owner st address h) (\<lambda>_.
      try_bind (fresh_token st TOKEN_PREFIX) (\<lambda>(owner_token, token_hash).
      try_bind (write_store (st_rotate_owner_token (ap_ops st) address token_hash)) (\<lambda>rotated.
        if rotated then ret owner_token else fail (NotFound ''mailbox not found''))))))"

end
