(* ===== verification/Api_Push.thy ===== *)
theory Api_Push
  imports Api_Gates
begin

text \<open>
  \<open>src/api/push.rs\<close>: registering and removing push subscriptions, with the validation of the two
  request shapes.
\<close>

record subscription_keys =
  sk_p256dh :: string
  sk_auth :: string

record subscribe_request =
  sr_kind :: "subscription_kind option"
  sr_endpoint :: "string option"
  sr_keys :: "subscription_keys option"
  sr_device_token :: "string option"

record unsubscribe_request =
  ur_endpoint :: "string option"
  ur_device_token :: "string option"

text \<open>\<open>GET /api/push/config\<close> and \<open>GET /api/push/vapid-public-key\<close>.\<close>

definition push_config :: "'s app_state \<Rightarrow> (bool \<times> bool, 's) handler" where
  "push_config st = ret (push_configured (ap_config st), apns_configured (ap_config st))"

definition push_vapid_public_key :: "'s app_state \<Rightarrow> (string, 's) handler" where
  "push_vapid_public_key st =
     expect_some (ServiceUnavailable ''push not configured'') (vapid_public_key (ap_config st))"

definition infer_kind :: "subscribe_request \<Rightarrow> (subscription_kind, api_error) result" where
  "infer_kind req =
     (case sr_kind req of
        Some k \<Rightarrow> Ok k
      | None \<Rightarrow>
          (case (sr_endpoint req, sr_device_token req) of
             (Some _, None) \<Rightarrow> Ok WebPush
           | (None, Some _) \<Rightarrow> Ok Apns
           | _ \<Rightarrow> Err (BadRequest ''provide either endpoint+keys (webpush) or device_token (apns)'')))"

definition validate_webpush :: "subscribe_request \<Rightarrow> (subscription_kind \<times> string \<times> string \<times> string, api_error) result" where
  "validate_webpush req =
     (case trimmed_non_empty (sr_endpoint req) of
        None \<Rightarrow> Err (BadRequest ''webpush subscriptions require endpoint'')
      | Some endpoint \<Rightarrow>
          if \<not> starts_with endpoint ''https://''
          then Err (BadRequest ''endpoint must be an https:// push-service URL'')
          else if length endpoint > 2048 then Err (BadRequest ''endpoint too long'')
          else case sr_keys req of
            None \<Rightarrow> Err (BadRequest ''webpush subscriptions require keys: { p256dh, auth }'')
          | Some keys \<Rightarrow>
              let p256dh = trim (sk_p256dh keys); auth = trim (sk_auth keys)
              in if p256dh = [] \<or> length p256dh > 256 \<or> auth = [] \<or> length auth > 128
                 then Err (BadRequest ''keys.p256dh and keys.auth must be the base64url values from the browser subscription'')
                 else Ok (WebPush, endpoint, p256dh, auth))"

definition validate_apns :: "subscribe_request \<Rightarrow> (subscription_kind \<times> string \<times> string \<times> string, api_error) result" where
  "validate_apns req =
     (case trimmed_non_empty (sr_device_token req) of
        None \<Rightarrow> Err (BadRequest ''apns subscriptions require device_token'')
      | Some token \<Rightarrow>
          if length token > 200 \<or> list_ex is_whitespace (chars token)
          then Err (BadRequest ''device_token must be the hex token from didRegisterForRemoteNotifications'')
          else Ok (Apns, token, [], []))"

definition validate_subscription ::
  "subscribe_request \<Rightarrow> (subscription_kind \<times> string \<times> string \<times> string, api_error) result" where
  "validate_subscription req =
     (case infer_kind req of
        Err e \<Rightarrow> Err e
      | Ok WebPush \<Rightarrow> validate_webpush req
      | Ok Apns \<Rightarrow> validate_apns req)"

definition channel_configured :: "config \<Rightarrow> subscription_kind \<Rightarrow> (unit, api_error) result" where
  "channel_configured c kind =
     (case kind of
        WebPush \<Rightarrow> if push_configured c then Ok () else Err (ServiceUnavailable ''web push not configured'')
      | Apns \<Rightarrow> if apns_configured c then Ok () else Err (ServiceUnavailable ''apns not configured''))"

text \<open>\<open>SubscriptionLimit\<close>'s \<open>Display\<close>.\<close>

definition limit_message :: "u32 \<Rightarrow> string" where
  "limit_message n = ''push subscription limit reached ('' @ show_nat (unat n) @ '' per mailbox)''"

definition push_subscribe ::
  "'s app_state \<Rightarrow> string \<Rightarrow> headers \<Rightarrow> subscribe_request option \<Rightarrow> (uuid \<times> subscription_kind, 's) handler" where
  "push_subscribe st raw h body =
     try_bind (expect_some (BadRequest (''body must be either { endpoint, keys: { p256dh, auth } } (webpush) '' @
                 ''or { device_token } (apns)'')) body) (\<lambda>req.
     try_bind (lift_result (validate_subscription req)) (\<lambda>(kind, endpoint, p256dh, auth).
     try_bind (lift_result (channel_configured (ap_config st) kind)) (\<lambda>_.
     let address = to_ascii_lowercase raw in
     try_bind (attestation_gate st h) (\<lambda>_.
     try_bind (authorize_owner st address h) (\<lambda>_.
     try_bind now_utc (\<lambda>now.
     try_bind draw_uuid (\<lambda>sid.
     try_bind (run_store (st_add_subscription (ap_ops st) now sid address kind endpoint p256dh auth
                 (max_subscriptions_per_mailbox (ap_config st)))) (\<lambda>r.
       (case r of
          Ok sub \<Rightarrow> ret (ps_id sub, ps_kind sub)
        | Err (SubscriptionLimit n) \<Rightarrow> fail (TooManyRequests (limit_message n))
        | Err e \<Rightarrow> fail (Internal (StoreError e)))))))))))"

definition push_unsubscribe ::
  "'s app_state \<Rightarrow> string \<Rightarrow> headers \<Rightarrow> unsubscribe_request option \<Rightarrow> (unit, 's) handler" where
  "push_unsubscribe st raw h body =
     (let identifier = trimmed_non_empty (Option.bind body (\<lambda>req.
            case ur_endpoint req of Some e \<Rightarrow> Some e | None \<Rightarrow> ur_device_token req)) in
      try_bind (expect_some (BadRequest ''body must be: { endpoint } or { device_token }'') identifier) (\<lambda>ident.
      let address = to_ascii_lowercase raw in
      try_bind (attestation_gate st h) (\<lambda>_.
      try_bind (authorize_owner st address h) (\<lambda>_.
      try_bind (write_store (st_delete_subscription (ap_ops st) address ident)) (\<lambda>deleted.
        ensure deleted (NotFound ''subscription not found''))))))"

lemma validate_subscription_Ok:
  assumes "validate_subscription req = Ok (kind, endpoint, p256dh, auth)"
  shows "endpoint \<noteq> [] \<and> length endpoint \<le> 2048 \<and> length p256dh \<le> 256 \<and> length auth \<le> 128 \<and>
    (kind = WebPush \<longrightarrow> starts_with endpoint ''https://'' \<and> p256dh \<noteq> [] \<and> auth \<noteq> []) \<and>
    (kind = Apns \<longrightarrow> length endpoint \<le> 200 \<and> (\<forall>ch\<in>set (chars endpoint). \<not> is_whitespace ch))"
proof (cases "infer_kind req")
  case (Ok k)
  have ne: "trimmed_non_empty v = Some t \<Longrightarrow> t \<noteq> []" for v t
    by (auto simp: trimmed_non_empty_def split: option.splits if_splits)
  show ?thesis
  proof (cases k)
    case WebPush
    with Ok assms ne show ?thesis
      by (auto simp: validate_subscription_def validate_webpush_def Let_def split: option.splits if_splits)
  next
    case Apns
    with Ok assms ne show ?thesis
      by (auto simp: validate_subscription_def validate_apns_def list_ex_iff split: option.splits if_splits)
  qed
qed (use assms in \<open>simp add: validate_subscription_def\<close>)

end
