(* ===== verification/Api_Domains.thy ===== *)
theory Api_Domains
  imports Api_Gates
begin

text \<open>
  \<open>src/api/custom_domains.rs\<close>: claiming, inspecting, verifying and releasing a custom domain.
\<close>

record domain_response =
  dr_domain :: string
  dr_status :: custom_domain_status
  dr_txt_record :: string
  dr_mx_target :: string
  dr_claim_token :: "string option"
  dr_verified_at :: "datetime option"
  dr_checks :: "dns_check list option"

definition domain_response_new :: "'s app_state \<Rightarrow> custom_domain \<Rightarrow> domain_response" where
  "domain_response_new st rec =
     \<lparr>dr_domain = cd_domain rec, dr_status = cd_status rec, dr_txt_record = txt_value (cd_txt_token rec),
      dr_mx_target = to_ascii_lowercase (smtp_hostname (ap_config st)), dr_claim_token = None,
      dr_verified_at = cd_verified_at rec, dr_checks = None\<rparr>"

definition domain_create ::
  "'s app_state \<Rightarrow> ip_addr \<Rightarrow> headers \<Rightarrow> string \<Rightarrow> (domain_response, 's) handler" where
  "domain_create st peer h requested =
     try_bind (attestation_gate st h) (\<lambda>_.
     try_bind (enforced_tier st h) (\<lambda>t.
     try_bind (ensure (case t of None \<Rightarrow> True | Some tier \<Rightarrow> tp_custom_domains (tier_policy_of (ap_config st) tier))
                 (pro_required ''custom domains require a higher tier'')) (\<lambda>_.
     try_bind (lift_result (map_err BadRequest (validate_claimable (ap_config st) requested))) (\<lambda>domain.
     try_bind now_utc (\<lambda>today.
     try_bind (with_limits (note_domain_created
         (client_ip h peer (api_trust_proxy_headers (ap_config st))) (date_naive today))) (\<lambda>within.
     try_bind (ensure within (TooManyRequests ''daily custom-domain limit reached'')) (\<lambda>_.
     try_bind (fresh_token st DOMAIN_TOKEN_PREFIX) (\<lambda>(claim_token, claim_token_hash).
     try_bind (draw_bytes 16) (\<lambda>drawn.
     try_bind now_utc (\<lambda>now.
     try_bind (run_store (st_create_custom_domain (ap_ops st) now domain claim_token_hash
                 (generate_txt_token drawn))) (\<lambda>r.
       (case r of
          Ok rec \<Rightarrow> ret ((domain_response_new st rec)\<lparr>dr_claim_token := Some claim_token\<rparr>)
        | Err e \<Rightarrow> if is_unique_violation e then fail (Conflict (''domain already claimed: '' @ domain))
                   else fail (Internal (StoreError e))))))))))))))"

definition domain_get :: "'s app_state \<Rightarrow> string \<Rightarrow> headers \<Rightarrow> (domain_response, 's) handler" where
  "domain_get st raw h = try_bind (authorize_domain st raw h) (\<lambda>rec. ret (domain_response_new st rec))"

text \<open>\<open>check_and_record\<close> with the answers of the next lookup.\<close>

definition run_check_and_record ::
  "'s app_state \<Rightarrow> custom_domain
   \<Rightarrow> (dns_check list \<times> custom_domain_status \<times> datetime option, 's) handler" where
  "run_check_and_record st rec =
     try_bind next_lookup (\<lambda>k w.
       (case check_and_record (ap_ops st) (ap_dns st k) (ap_config st) rec w of
          (r, w') \<Rightarrow> (map_err (\<lambda>e. Internal (StoreError e)) r, w')))"

definition domain_verify :: "'s app_state \<Rightarrow> string \<Rightarrow> headers \<Rightarrow> (domain_response, 's) handler" where
  "domain_verify st raw h =
     try_bind (attestation_gate st h) (\<lambda>_.
     try_bind (authorize_domain st raw h) (\<lambda>rec.
     try_bind now_instant (\<lambda>now.
     try_bind (with_limits (try_begin_domain_verify (cd_domain rec) now)) (\<lambda>begun.
     try_bind (ensure begun (TooManyRequests ''verification already ran moments ago, retry shortly'')) (\<lambda>_.
     try_bind (run_check_and_record st rec) (\<lambda>(checks, status, verified_at).
       ret ((domain_response_new st rec)\<lparr>dr_status := status, dr_verified_at := verified_at,
              dr_checks := Some checks\<rparr>)))))))"

definition domain_delete :: "'s app_state \<Rightarrow> string \<Rightarrow> headers \<Rightarrow> (unit, 's) handler" where
  "domain_delete st raw h =
     try_bind (attestation_gate st h) (\<lambda>_.
     try_bind (authorize_domain st raw h) (\<lambda>rec.
     try_bind (write_store (st_delete_custom_domain (ap_ops st) (cd_domain rec))) (\<lambda>deleted.
       ensure deleted (NotFound ''domain not found''))))"

end
