(* ===== verification/Api_Client.thy ===== *)
theory Api_Client
  imports Api_Gates
begin

text \<open>
  \<open>src/api/client.rs\<close>: the App Attest routes. \<open>apple_root_pem\<close> is the certificate embedded at build
  time (\<open>include_bytes!\<close>), a parameter.
\<close>

definition MAX_KEY_ID_LEN :: nat where
  "MAX_KEY_ID_LEN = 64"

record attest_request =
  aq_key_id :: string
  aq_attestation :: string
  aq_challenge :: string
  aq_rc_app_user_id :: "string option"

record assert_request =
  sq_key_id :: string
  sq_assertion :: string
  sq_challenge :: string
  sq_rc_app_user_id :: "string option"

definition require_configured :: "'s app_state \<Rightarrow> (string, 's) handler" where
  "require_configured st =
     expect_some (ServiceUnavailable ''app attestation is not configured on this server'')
       (app_attest_app_id (ap_config st))"

definition root_pem :: "bytes \<Rightarrow> 's app_state \<Rightarrow> bytes" where
  "root_pem apple_root_pem st =
     (case app_attest_root_pem (ap_config st) of Some p \<Rightarrow> p | None \<Rightarrow> apple_root_pem)"

definition validate_key_id :: "string \<Rightarrow> (unit, 's) handler" where
  "validate_key_id key_id =
     ensure (\<not> (key_id = [] \<or> length key_id > MAX_KEY_ID_LEN)) (BadRequest ''invalid key_id'')"

definition consume_challenge :: "string \<Rightarrow> (unit, 's) handler" where
  "consume_challenge challenge =
     try_bind now_instant (\<lambda>now.
     try_bind (with_challenges (consume challenge now)) (\<lambda>ok.
       ensure ok (Coded 400 ''invalid_challenge''
         ''challenge unknown, expired, or already used; request a new one'')))"

definition client_mint ::
  "'s app_state \<Rightarrow> string \<Rightarrow> string option \<Rightarrow> (string \<times> tier \<times> datetime, 's) handler" where
  "client_mint st key_id rc_app_user_id =
     try_bind (expect_some (ServiceUnavailable ''token signing is not configured'')
                 (token_signing_key (ap_config st))) (\<lambda>signing_key.
     try_bind (resolve_tier st rc_app_user_id) (\<lambda>t.
       mint_token st signing_key KIND_IOS (Some key_id) t))"

definition client_challenge :: "'s app_state \<Rightarrow> (string \<times> int, 's) handler" where
  "client_challenge st =
     try_bind (require_configured st) (\<lambda>_.
     try_bind (draw_bytes 32) (\<lambda>drawn.
     try_bind now_instant (\<lambda>now.
     try_bind (with_challenges (issue (cr_b64url (ap_crypto st)) drawn now)) (\<lambda>challenge.
       ret (challenge, CHALLENGE_TTL_SECONDS)))))"

definition client_attest ::
  "bytes \<Rightarrow> 's app_state \<Rightarrow> attest_request \<Rightarrow> (string \<times> tier \<times> datetime, 's) handler" where
  "client_attest apple_root_pem st req =
     try_bind (require_configured st) (\<lambda>app_id.
     try_bind (validate_key_id (aq_key_id req)) (\<lambda>_.
     try_bind (consume_challenge (aq_challenge req)) (\<lambda>_.
     try_bind (lift_result (map_err (\<lambda>e. Coded 400 ''invalid_attestation'' e)
         (verify_attestation (cr_attest (ap_crypto st)) app_id (root_pem apple_root_pem st)
            (aq_challenge req) (aq_key_id req) (aq_attestation req)))) (\<lambda>public_key.
     try_bind now_utc (\<lambda>now.
     try_bind (write_store (st_upsert_attested_device (ap_ops st) (aq_key_id req) public_key now)) (\<lambda>_.
       client_mint st (aq_key_id req) (aq_rc_app_user_id req)))))))"

definition client_assert ::
  "'s app_state \<Rightarrow> assert_request \<Rightarrow> (string \<times> tier \<times> datetime, 's) handler" where
  "client_assert st req =
     try_bind (require_configured st) (\<lambda>app_id.
     try_bind (validate_key_id (sq_key_id req)) (\<lambda>_.
     try_bind (consume_challenge (sq_challenge req)) (\<lambda>_.
     try_bind (read_store (st_get_attested_device (ap_ops st) (sq_key_id req))) (\<lambda>found.
     try_bind (expect_some (Coded 401 ''attestation_required'' ''unknown key id, attest this device first'') found)
       (\<lambda>device.
     try_bind (lift_result (map_err (\<lambda>e. Coded 400 ''invalid_assertion'' e)
         (verify_assertion (cr_attest (ap_crypto st)) app_id (sq_challenge req) (sq_assertion req)
            (ad_public_key device) (ad_counter device)))) (\<lambda>new_counter.
     try_bind now_utc (\<lambda>now.
     try_bind (write_store (st_advance_attested_device_counter (ap_ops st) (sq_key_id req) new_counter now))
       (\<lambda>advanced.
     try_bind (ensure advanced (Coded 400 ''invalid_assertion''
         ''assertion counter conflict, retry with a fresh challenge'')) (\<lambda>_.
       client_mint st (sq_key_id req) (sq_rc_app_user_id req))))))))))"

end
