(* ===== verification/Api_Router.thy ===== *)
theory Api_Router
  imports Api_Addresses Api_Messages Api_Push Api_Domains Api_Client
begin

text \<open>
  The route table of \<open>build_router\<close> (\<open>src/api/mod.rs\<close>): one constructor of \<open>request\<close> per route and
  method, with what axum's extractors pass to the handler, and \<open>dispatch\<close>, which calls it. The
  custom-domain routes are mounted only when the feature is on; an unmounted route answers the
  router's own 404 (\<open>NoRoute\<close>). The paths and methods, the pages and the event stream are in theory
  \<open>Api_Routes\<close>, the layers around the handlers in theory \<open>Api_Layers\<close>.
\<close>

datatype request =
    CreateAddress ip_addr headers "create_request option"
  | EntitlementsVerify headers "string option"
  | ClientChallenge
  | ClientAttest attest_request
  | ClientAssert assert_request
  | DomainCreate ip_addr headers string
  | Health
  | Ready
  | Capabilities
  | ListDomains
  | GetAddress string
  | DeleteAddress string headers
  | ExtendAddress string headers
  | RotateAddress string headers
  | ListMessages string "u32 option" "uuid option"
  | ClearMessages string headers
  | GetMessage string uuid
  | DeleteMessage string uuid headers
  | MarkRead string uuid
  | GetRaw string uuid
  | GetAttachment string uuid uuid
  | PushConfig
  | VapidPublicKey
  | Subscribe string headers "subscribe_request option"
  | Unsubscribe string headers "unsubscribe_request option"
  | DomainGet string headers
  | DomainDelete string headers
  | DomainVerify string headers

record capabilities =
  cap_apns_push :: bool
  cap_web_push :: bool
  cap_custom_domains :: bool
  cap_attestation_supported :: bool
  cap_attestation_required :: bool
  cap_entitlements_enforced :: bool
  cap_free :: tier_policy
  cap_pro :: tier_policy

datatype reply =
    Created mailbox string
  | ClientToken string tier datetime
  | Challenge string int
  | DomainCreated domain_response
  | StatusOk
  | StatusReady
  | CapabilitiesReply capabilities
  | DomainsReply "string list"
  | MailboxReply mailbox
  | NoContent
  | OwnerToken string
  | Summaries "message_summary list"
  | Cleared nat
  | MessageReply stored_message
  | Download download
  | PushConfigReply bool bool
  | VapidKeyReply string
  | Subscribed uuid subscription_kind
  | DomainReply domain_response
  | NoRoute

definition api_capabilities :: "'s app_state \<Rightarrow> capabilities" where
  "api_capabilities st =
     (let c = ap_config st in
      \<lparr>cap_apns_push = apns_configured c, cap_web_push = push_configured c,
       cap_custom_domains = custom_domains_enabled c,
       cap_attestation_supported = app_attest_configured c,
       cap_attestation_required = client_attestation_required c,
       cap_entitlements_enforced = entitlements_enforced c,
       cap_free = free_tier c, cap_pro = pro_tier c\<rparr>)"

definition api_ready :: "'s app_state \<Rightarrow> (unit, 's) handler" where
  "api_ready st w =
     (case st_ping (ap_ops st) (w_store w) of
        Err _ \<Rightarrow> (Err (ServiceUnavailable ''store unavailable''), w)
      | Ok _ \<Rightarrow> (Ok (), w))"

definition replying :: "('a \<Rightarrow> reply) \<Rightarrow> ('a, 's) handler \<Rightarrow> (reply, 's) handler" where
  "replying f m = try_bind m (\<lambda>x. ret (f x))"

definition when_mounted :: "bool \<Rightarrow> (reply, 's) handler \<Rightarrow> (reply, 's) handler" where
  "when_mounted b m = (if b then m else ret NoRoute)"

fun dispatch :: "bytes \<Rightarrow> 's app_state \<Rightarrow> request \<Rightarrow> (reply, 's) handler" where
  "dispatch pem st (CreateAddress peer h body) = replying (\<lambda>(mb, t). Created mb t) (address_create st peer h body)"
| "dispatch pem st (EntitlementsVerify h rc) = replying (\<lambda>(tok, t, e). ClientToken tok t e) (entitlements_verify st h rc)"
| "dispatch pem st ClientChallenge = replying (\<lambda>(c, n). Challenge c n) (client_challenge st)"
| "dispatch pem st (ClientAttest req) = replying (\<lambda>(tok, t, e). ClientToken tok t e) (client_attest pem st req)"
| "dispatch pem st (ClientAssert req) = replying (\<lambda>(tok, t, e). ClientToken tok t e) (client_assert st req)"
| "dispatch pem st (DomainCreate peer h d) =
     when_mounted (custom_domains_enabled (ap_config st)) (replying DomainCreated (domain_create st peer h d))"
| "dispatch pem st Health = ret StatusOk"
| "dispatch pem st Ready = replying (\<lambda>_. StatusReady) (api_ready st)"
| "dispatch pem st Capabilities = ret (CapabilitiesReply (api_capabilities st))"
| "dispatch pem st ListDomains = ret (DomainsReply (domains (ap_config st)))"
| "dispatch pem st (GetAddress a) = replying MailboxReply (address_get st a)"
| "dispatch pem st (DeleteAddress a h) = replying (\<lambda>_. NoContent) (address_delete st a h)"
| "dispatch pem st (ExtendAddress a h) = replying MailboxReply (address_extend st a h)"
| "dispatch pem st (RotateAddress a h) = replying OwnerToken (address_rotate st a h)"
| "dispatch pem st (ListMessages a limit since) = replying Summaries (messages_list st a limit since)"
| "dispatch pem st (ClearMessages a h) = replying Cleared (messages_clear st a h)"
| "dispatch pem st (GetMessage a i) = replying MessageReply (message_get st a i)"
| "dispatch pem st (DeleteMessage a i h) = replying (\<lambda>_. NoContent) (message_delete st a i h)"
| "dispatch pem st (MarkRead a i) = replying (\<lambda>_. NoContent) (message_mark_read st a i)"
| "dispatch pem st (GetRaw a i) = replying Download (message_raw st a i)"
| "dispatch pem st (GetAttachment a i j) = replying Download (message_attachment st a i j)"
| "dispatch pem st PushConfig = replying (\<lambda>(w, a). PushConfigReply w a) (push_config st)"
| "dispatch pem st VapidPublicKey = replying VapidKeyReply (push_vapid_public_key st)"
| "dispatch pem st (Subscribe a h body) = replying (\<lambda>(i, k). Subscribed i k) (push_subscribe st a h body)"
| "dispatch pem st (Unsubscribe a h body) = replying (\<lambda>_. NoContent) (push_unsubscribe st a h body)"
| "dispatch pem st (DomainGet d h) =
     when_mounted (custom_domains_enabled (ap_config st)) (replying DomainReply (domain_get st d h))"
| "dispatch pem st (DomainDelete d h) =
     when_mounted (custom_domains_enabled (ap_config st)) (replying (\<lambda>_. NoContent) (domain_delete st d h))"
| "dispatch pem st (DomainVerify d h) =
     when_mounted (custom_domains_enabled (ap_config st)) (replying DomainReply (domain_verify st d h))"

text \<open>The headers a handler sees; the other routes read none.\<close>

fun request_headers :: "request \<Rightarrow> headers" where
  "request_headers (CreateAddress peer h body) = h"
| "request_headers (EntitlementsVerify h rc) = h"
| "request_headers (DomainCreate peer h d) = h"
| "request_headers (DeleteAddress a h) = h"
| "request_headers (ExtendAddress a h) = h"
| "request_headers (RotateAddress a h) = h"
| "request_headers (ClearMessages a h) = h"
| "request_headers (DeleteMessage a i h) = h"
| "request_headers (Subscribe a h body) = h"
| "request_headers (Unsubscribe a h body') = h"
| "request_headers (DomainGet d h) = h"
| "request_headers (DomainDelete d h) = h"
| "request_headers (DomainVerify d h) = h"
| "request_headers _ = (\<lambda>_. None)"

end
