(* ===== verification/Api_Invariant.thy ===== *)
theory Api_Invariant
  imports Api_Router
begin

text \<open>
  Invariants of the store under HTTP requests. The locale \<open>request_invariant\<close> states what an
  invariant \<open>J\<close> must satisfy: the unguarded store operations keep it; the operations behind an owner
  or claim token keep it for the addresses and domains that \<open>box_ok\<close> and \<open>dom_ok\<close> allow; and for the
  others no request with headers in \<open>hdr_ok\<close> presents the secret. Inside the locale every route is
  shown to keep \<open>J\<close>, so a new invariant costs one interpretation.
\<close>

definition store_stable :: "('s \<Rightarrow> bool) \<Rightarrow> ('a, 's) handler \<Rightarrow> bool" where
  "store_stable J m \<longleftrightarrow> (\<forall>w. J (w_store w) \<longrightarrow> J (w_store (snd (m w))))"

lemma stableD: "store_stable J m \<Longrightarrow> J (w_store w) \<Longrightarrow> m w = (r, w') \<Longrightarrow> J (w_store w')"
  by (metis store_stable_def snd_conv)

lemma stable_keeps: "keeps w_store m \<Longrightarrow> store_stable J m"
  by (auto simp: store_stable_def keeps_def)

lemma stable_try_bind: "store_stable J m \<Longrightarrow> (\<And>x. store_stable J (f x)) \<Longrightarrow> store_stable J (try_bind m f)"
  by (auto simp: store_stable_def try_bind_def split: prod.splits result.splits)

text \<open>Binding a gate: the rest only has to keep \<open>J\<close> where the gate lets it run.\<close>

lemma stable_gate:
  assumes "keeps w_store m"
    and "\<And>w x w'. J (w_store w) \<Longrightarrow> m w = (Ok x, w') \<Longrightarrow> w_store w' = w_store w \<Longrightarrow> J (w_store (snd (f x w')))"
  shows "store_stable J (try_bind m f)"
proof -
  have "J (w_store (snd (try_bind m f w)))" if "J (w_store w)" for w
  proof (cases "m w")
    case (Pair r w')
    have "w_store w' = w_store w" by (rule keepsD [OF assms(1) Pair])
    with Pair assms(2) that show ?thesis by (cases r) (simp_all add: try_bind_def)
  qed
  then show ?thesis by (simp add: store_stable_def)
qed

lemma stable_write: "(\<And>s. J s \<Longrightarrow> J (snd (f s))) \<Longrightarrow> store_stable J (write_store f)"
  by (auto simp: store_stable_def write_store_def split: prod.splits) (metis snd_conv)

lemma stable_run: "(\<And>s. J s \<Longrightarrow> J (snd (f s))) \<Longrightarrow> store_stable J (run_store f)"
  by (auto simp: store_stable_def run_store_def split: prod.splits) (metis snd_conv)

lemma stable_if: "store_stable J m \<Longrightarrow> store_stable J n \<Longrightarrow> store_stable J (if b then m else n)"
  by simp

lemma stable_case_option:
  "store_stable J m \<Longrightarrow> (\<And>x. store_stable J (g x)) \<Longrightarrow> store_stable J (case v of None \<Rightarrow> m | Some x \<Rightarrow> g x)"
  by (cases v) auto

lemma stable_case_result:
  "(\<And>x. store_stable J (g x)) \<Longrightarrow> (\<And>e. store_stable J (h e)) \<Longrightarrow> store_stable J (case r of Ok x \<Rightarrow> g x | Err e \<Rightarrow> h e)"
  by (cases r) auto

lemma stable_replying: "store_stable J m \<Longrightarrow> store_stable J (replying f m)"
  unfolding replying_def by (rule stable_try_bind) (auto intro: stable_keeps)

lemma stable_when_mounted: "store_stable J m \<Longrightarrow> store_stable J (when_mounted b m)"
  unfolding when_mounted_def by (rule stable_if) (auto intro: stable_keeps)

lemma keeps_store_more [simp, intro!]:
  "keeps w_store random_local_part" "keeps w_store (create_domain st p h d)"
  "keeps w_store (create_local_part st p l)" "keeps w_store (check_device_cap st p dv)"
  "keeps w_store (api_ready st)" "keeps w_store (consume_challenge c)" "keeps w_store (require_configured st)"
  "keeps w_store (validate_key_id k)"
proof -
  show "keeps w_store random_local_part" by (simp add: keeps_def random_local_part_def)
  show "keeps w_store (create_domain st p h d)"
    unfolding create_domain_def Let_def
    by (cases "domains (ap_config st)") (auto intro!: keeps_rules gates_keep_all split: option.split)
  show "keeps w_store (create_local_part st p l)"
    unfolding create_local_part_def Let_def by (auto intro!: keeps_rules)
  show "keeps w_store (check_device_cap st p dv)"
    unfolding check_device_cap_def prod.case by (auto intro!: keeps_rules split: option.split)
  show "keeps w_store (api_ready st)" by (auto simp: keeps_def api_ready_def split: result.splits)
  show "keeps w_store (consume_challenge c)" unfolding consume_challenge_def by (intro keeps_rules)
  show "keeps w_store (require_configured st)" unfolding require_configured_def by (intro keeps_rules)
  show "keeps w_store (validate_key_id k)" unfolding validate_key_id_def by (intro keeps_rules)
qed

lemma keeps_store_reads [simp, intro!]:
  "keeps w_store (address_get st a)" "keeps w_store (messages_list st a n since)"
  "keeps w_store (message_get st a i)" "keeps w_store (message_raw st a i)"
  "keeps w_store (message_attachment st a i j)" "keeps w_store (push_config st)"
  "keeps w_store (push_vapid_public_key st)" "keeps w_store (domain_get st d h)"
  "keeps w_store (client_challenge st)" "keeps w_store (client_mint st k rc)"
  unfolding address_get_def messages_list_def message_get_def message_raw_def message_attachment_def
    push_config_def push_vapid_public_key_def domain_get_def client_challenge_def client_mint_def Let_def
  by (intro keeps_rules keeps_store_more gates_keep_all mint_keeps_store)+

lemmas stable_rules = stable_try_bind stable_if stable_case_option stable_case_result stable_replying
  stable_when_mounted

lemmas store_keepers = keeps_pure keeps_store_effects keeps_store_more keeps_store_reads gates_keep_all
  gates_keep_store mint_keeps_store entitlements_verify_keeps_store

locale request_invariant =
  fixes st :: "'s app_state"
    and J :: "'s \<Rightarrow> bool"
    and box_ok :: "string \<Rightarrow> bool"
    and dom_ok :: "string \<Rightarrow> bool"
    and hdr_ok :: "headers \<Rightarrow> bool"
  assumes create_mailbox: "J s \<Longrightarrow> J (snd (st_create_mailbox (ap_ops st) now a d ex ow dv s))"
    and extend_mailbox: "box_ok a \<Longrightarrow> J s \<Longrightarrow> J (snd (st_extend_mailbox (ap_ops st) a ex s))"
    and delete_mailbox: "box_ok a \<Longrightarrow> J s \<Longrightarrow> J (snd (st_delete_mailbox (ap_ops st) a s))"
    and rotate_owner_token: "box_ok a \<Longrightarrow> J s \<Longrightarrow> J (snd (st_rotate_owner_token (ap_ops st) a tok s))"
    and delete_message: "box_ok a \<Longrightarrow> J s \<Longrightarrow> J (snd (st_delete_message (ap_ops st) a i s))"
    and delete_all_messages: "box_ok a \<Longrightarrow> J s \<Longrightarrow> J (snd (st_delete_all_messages (ap_ops st) a s))"
    and add_subscription: "box_ok a \<Longrightarrow> J s \<Longrightarrow>
      J (snd (st_add_subscription (ap_ops st) now i a k ep p au cap s))"
    and delete_subscription: "box_ok a \<Longrightarrow> J s \<Longrightarrow> J (snd (st_delete_subscription (ap_ops st) a ep s))"
    and mark_seen: "J s \<Longrightarrow> J (snd (st_mark_seen (ap_ops st) a i s))"
    and create_custom_domain: "J s \<Longrightarrow> J (snd (st_create_custom_domain (ap_ops st) now dn tok txt s))"
    and record_custom_domain_check: "dom_ok dn \<Longrightarrow> J s \<Longrightarrow>
      J (snd (st_record_custom_domain_check (ap_ops st) dn stat va ca s))"
    and delete_custom_domain: "dom_ok dn \<Longrightarrow> J s \<Longrightarrow> J (snd (st_delete_custom_domain (ap_ops st) dn s))"
    and upsert_attested_device: "J s \<Longrightarrow> J (snd (st_upsert_attested_device (ap_ops st) key pk now s))"
    and advance_counter: "J s \<Longrightarrow> J (snd (st_advance_attested_device_counter (ap_ops st) key n now s))"
    and box_secret: "\<not> box_ok a \<Longrightarrow> hdr_ok h \<Longrightarrow> J s \<Longrightarrow> st_get_mailbox (ap_ops st) a s = Ok (Some mb) \<Longrightarrow>
      mb_owner_token_hash mb = Some want \<Longrightarrow> \<not> presents st h want"
    and dom_secret: "\<not> dom_ok dn \<Longrightarrow> hdr_ok h \<Longrightarrow> J s \<Longrightarrow>
      st_get_custom_domain (ap_ops st) dn s = Ok (Some c) \<Longrightarrow> \<not> presents st h (cd_claim_token_hash c)"
    and dom_key: "J s \<Longrightarrow> st_get_custom_domain (ap_ops st) dn s = Ok (Some c) \<Longrightarrow> cd_domain c = dn"
begin

lemma stable_owner_gate:
  assumes "hdr_ok h" "\<And>mb. box_ok a \<Longrightarrow> store_stable J (act mb)"
  shows "store_stable J (try_bind (authorize_owner st a h) act)"
proof (rule stable_gate)
  fix w mb w'
  assume J: "J (w_store w)" and au: "authorize_owner st a h w = (Ok mb, w')" and "w_store w' = w_store w"
  from au have "box_ok a" using box_secret [OF _ assms(1) J] by (auto simp: authorize_owner_Ok)
  with assms(2) J \<open>w_store w' = w_store w\<close> show "J (w_store (snd (act mb w')))"
    by (simp add: store_stable_def)
qed simp

lemma stable_domain_gate:
  assumes "hdr_ok h" "\<And>c. dom_ok (cd_domain c) \<Longrightarrow> store_stable J (act c)"
  shows "store_stable J (try_bind (authorize_domain st d h) act)"
proof (rule stable_gate)
  fix w c w'
  assume J: "J (w_store w)" and au: "authorize_domain st d h w = (Ok c, w')" and "w_store w' = w_store w"
  from au have get: "st_get_custom_domain (ap_ops st) (normalize_domain d) (w_store w) = Ok (Some c)"
    and pres: "presents st h (cd_claim_token_hash c)" by (auto simp: authorize_domain_Ok)
  from pres have "dom_ok (normalize_domain d)" using dom_secret [OF _ assms(1) J get] by blast
  then have "dom_ok (cd_domain c)" using dom_key [OF J get] by simp
  with assms(2) J \<open>w_store w' = w_store w\<close> show "J (w_store (snd (act c w')))"
    by (simp add: store_stable_def)
qed simp

lemma stable_create_at: "store_stable J (create_at st a d ex tok dv)"
  unfolding create_at_def by (intro stable_try_bind stable_run create_mailbox stable_keeps store_keepers)

lemma stable_create_random: "store_stable J (create_random n st d ex dv)"
proof (induction n)
  case 0
  show ?case by (simp only: create_random.simps) (intro stable_keeps store_keepers)
next
  case (Suc n)
  show ?case
    unfolding create_random.simps case_prod_unfold
    by (intro stable_try_bind stable_create_at stable_case_result stable_if Suc stable_keeps store_keepers)
qed

lemma stable_address_create: "store_stable J (address_create st peer h body)"
  unfolding address_create_def create_custom_def Let_def case_prod_unfold
  by (intro stable_try_bind stable_case_option stable_create_random stable_create_at stable_case_result
      stable_if stable_keeps store_keepers)

lemma stable_address_extend: "hdr_ok h \<Longrightarrow> store_stable J (address_extend st a h)"
  unfolding address_extend_def check_lifetime_cap_def Let_def
  by (intro stable_owner_gate stable_try_bind stable_case_option stable_write extend_mailbox
      stable_keeps store_keepers keeps_case_option)

lemma stable_owner_ops:
  "hdr_ok h \<Longrightarrow> store_stable J (address_delete st a h)" "hdr_ok h \<Longrightarrow> store_stable J (address_rotate st a h)"
  "hdr_ok h \<Longrightarrow> store_stable J (messages_clear st a h)" "hdr_ok h \<Longrightarrow> store_stable J (message_delete st a i h)"
  unfolding address_delete_def address_rotate_def messages_clear_def message_delete_def Let_def case_prod_unfold
  by (intro stable_owner_gate stable_try_bind stable_write stable_if delete_mailbox rotate_owner_token
      delete_all_messages delete_message stable_keeps store_keepers | assumption)+

lemma stable_push_ops:
  "hdr_ok h \<Longrightarrow> store_stable J (push_subscribe st a h body)"
  "hdr_ok h \<Longrightarrow> store_stable J (push_unsubscribe st a h body')"
proof -
  have limit: "store_stable J (case e of UniqueViolation x \<Rightarrow> m1 x | SubscriptionLimit n \<Rightarrow> m2 n
      | ForeignKeyViolation x \<Rightarrow> m3 x | BackendError x \<Rightarrow> m4 x)"
    if "\<And>x. keeps w_store (m1 x)" "\<And>n. keeps w_store (m2 n)" "\<And>x. keeps w_store (m3 x)"
      "\<And>x. keeps w_store (m4 x)" for e and m1 m3 m4 :: "string \<Rightarrow> ('x, 's) handler" and m2
    using that by (cases e) (auto intro: stable_keeps)
  show "hdr_ok h \<Longrightarrow> store_stable J (push_subscribe st a h body)"
    unfolding push_subscribe_def Let_def case_prod_unfold
    by (intro stable_owner_gate stable_try_bind stable_run stable_case_result limit add_subscription
        stable_keeps store_keepers | assumption)+
  show "hdr_ok h \<Longrightarrow> store_stable J (push_unsubscribe st a h body')"
    unfolding push_unsubscribe_def Let_def
    by (intro stable_owner_gate stable_try_bind stable_write delete_subscription
        stable_keeps store_keepers | assumption)+
qed

lemma stable_run_check: "dom_ok (cd_domain c) \<Longrightarrow> store_stable J (run_check_and_record st c)"
proof -
  assume ok: "dom_ok (cd_domain c)"
  have "J (w_store (snd (check_and_record (ap_ops st) dns cfg c w)))" if "J (w_store w)" for dns cfg and w :: "'s app_world"
  proof -
    obtain stat va where ns: "next_status c (snd (run_checks dns cfg c)) (w_clock w (w_ticks w)) = (stat, va)"
      by (cases "next_status c (snd (run_checks dns cfg c)) (w_clock w (w_ticks w))")
    have "w_store (snd (check_and_record (ap_ops st) dns cfg c w)) =
        snd (st_record_custom_domain_check (ap_ops st) (cd_domain c) stat va (w_clock w (w_ticks w)) (w_store w))"
      using ns by (auto simp: check_and_record_def utc_now_def Let_def split: prod.splits result.splits)
    with record_custom_domain_check [OF ok that] show ?thesis by simp
  qed
  then show ?thesis
    unfolding run_check_and_record_def
    by (intro stable_try_bind [OF stable_keeps [OF keeps_store_effects(5)]])
      (auto simp: store_stable_def case_prod_unfold)
qed

lemma stable_domain_ops:
  "store_stable J (domain_create st peer h d)" "hdr_ok h \<Longrightarrow> store_stable J (domain_verify st d h)"
  "hdr_ok h \<Longrightarrow> store_stable J (domain_delete st d h)"
proof -
  show "store_stable J (domain_create st peer h d)"
    unfolding domain_create_def case_prod_unfold
    by (intro stable_try_bind stable_run stable_case_result stable_if create_custom_domain
        stable_keeps store_keepers)
  show "hdr_ok h \<Longrightarrow> store_stable J (domain_verify st d h)"
    unfolding domain_verify_def case_prod_unfold
    by (intro stable_domain_gate stable_try_bind stable_run_check stable_keeps store_keepers | assumption)+
  show "hdr_ok h \<Longrightarrow> store_stable J (domain_delete st d h)"
    unfolding domain_delete_def
    by (intro stable_domain_gate stable_try_bind stable_write delete_custom_domain stable_keeps store_keepers
        | assumption)+
qed

lemma stable_client_ops: "store_stable J (client_attest pem st ar)" "store_stable J (client_assert st sr)"
  unfolding client_attest_def client_assert_def
  by (intro stable_try_bind stable_write upsert_attested_device advance_counter stable_keeps store_keepers
      | assumption)+

lemma stable_mark_read: "store_stable J (message_mark_read st a i)"
  unfolding message_mark_read_def by (intro stable_try_bind stable_write mark_seen stable_keeps store_keepers)

lemmas stable_ops = stable_address_create stable_address_extend stable_owner_ops stable_push_ops
  stable_domain_ops stable_client_ops stable_mark_read

lemma dispatch_stable: "hdr_ok (request_headers req) \<Longrightarrow> store_stable J (dispatch pem st req)"
  by (cases req)
    (auto intro!: stable_replying stable_when_mounted stable_ops
      intro: stable_keeps)

end

end
