(* ===== verification/Api_Properties.thy ===== *)
theory Api_Properties
  imports Api_Invariant Memory_Store_Correct
begin

text \<open>
  What sequences of HTTP requests can and cannot do to the store. The invariants are established for
  every backend that meets the store contract, and collected in the locale \<open>backed_service\<close>, whose
  interpretation \<open>memory_service\<close> is the service on the in-memory store.
\<close>

subsection \<open>A mailbox and a claim as seen from outside\<close>

text \<open>Read markers are not protected (the route is open), everything else of a mailbox is.\<close>

definition unseen :: "ventry \<Rightarrow> ventry" where
  "unseen e = e\<lparr>ve_message := (ve_message e)\<lparr>sm_seen := False\<rparr>\<rparr>"

definition same_box :: "string \<Rightarrow> sview \<Rightarrow> sview \<Rightarrow> bool" where
  "same_box a v v' \<longleftrightarrow> v_mailbox v' a = v_mailbox v a \<and> v_sub v' a = v_sub v a \<and>
     (\<forall>i. map_option unseen (v_entry v' a i) = map_option unseen (v_entry v a i))"

definition box_kept :: "string \<Rightarrow> mailbox \<Rightarrow> sview \<Rightarrow> sview \<Rightarrow> bool" where
  "box_kept a mb v v' \<longleftrightarrow> v_mailbox v' a = Some mb \<and> same_box a v v'"

definition lacks_owner_token :: "'s app_state \<Rightarrow> mailbox \<Rightarrow> headers \<Rightarrow> bool" where
  "lacks_owner_token st mb h \<longleftrightarrow> (case mb_owner_token_hash mb of None \<Rightarrow> True | Some want \<Rightarrow> \<not> presents st h want)"

lemma unseen_mark: "unseen (mark_entry e) = unseen e"
  by (simp add: unseen_def mark_entry_def)

lemma same_box_refl [simp]: "same_box a v v"
  by (simp add: same_box_def)

lemma box_kept_specs:
  assumes "box_kept a mb v0 v"
  shows "box_kept a mb v0 (snd (spec_create_mailbox now b d ex ow dv v))"
    "b \<noteq> a \<Longrightarrow> box_kept a mb v0 (snd (spec_extend_mailbox b ex v))"
    "b \<noteq> a \<Longrightarrow> box_kept a mb v0 (snd (spec_delete_mailbox b v))"
    "b \<noteq> a \<Longrightarrow> box_kept a mb v0 (snd (spec_rotate_owner_token b h v))"
    "b \<noteq> a \<Longrightarrow> box_kept a mb v0 (snd (spec_delete_message b i v))"
    "b \<noteq> a \<Longrightarrow> box_kept a mb v0 (snd (spec_delete_all_messages b v))"
    "b \<noteq> a \<Longrightarrow> box_kept a mb v0 (snd (spec_add_subscription now sid b k ep p au cap v))"
    "b \<noteq> a \<Longrightarrow> box_kept a mb v0 (snd (spec_delete_subscription b ep v))"
    "box_kept a mb v0 (snd (spec_mark_seen b i v))"
  using assms
  by (auto simp: box_kept_def same_box_def spec_create_mailbox_def spec_extend_mailbox_def
      spec_delete_mailbox_def forget_mailboxes_def spec_rotate_owner_token_def spec_delete_message_def
      spec_delete_all_messages_def spec_add_subscription_def spec_delete_subscription_def
      spec_mark_seen_def Let_def option.map_comp comp_def unseen_mark split: option.splits)

text \<open>Operations on claims and devices do not concern mailboxes, and the other way round.\<close>

definition boxes_of :: "sview \<Rightarrow> (string \<Rightarrow> mailbox option) \<times> (string \<Rightarrow> uuid \<Rightarrow> ventry option)
    \<times> (string \<Rightarrow> string \<Rightarrow> push_subscription option)" where
  "boxes_of v = (v_mailbox v, v_entry v, v_sub v)"

lemma boxes_of_specs:
  "boxes_of (snd (spec_create_custom_domain now d h t v)) = boxes_of v"
  "boxes_of (snd (spec_record_custom_domain_check d stat va ca v)) = boxes_of v"
  "boxes_of (snd (spec_delete_custom_domain d v)) = boxes_of v"
  "boxes_of (snd (spec_upsert_attested_device k pk now v)) = boxes_of v"
  "boxes_of (snd (spec_advance_attested_device_counter k n now v)) = boxes_of v"
  by (auto simp: boxes_of_def spec_create_custom_domain_def spec_record_custom_domain_check_def
      spec_delete_custom_domain_def spec_upsert_attested_device_def
      spec_advance_attested_device_counter_def Let_def split: option.splits)

lemma box_kept_cong: "boxes_of v' = boxes_of v \<Longrightarrow> box_kept a mb v0 v' = box_kept a mb v0 v"
  by (simp add: boxes_of_def box_kept_def same_box_def)

lemma v_domain_specs:
  "v_domain (snd (spec_create_mailbox now b d ex ow dv v)) = v_domain v"
  "v_domain (snd (spec_extend_mailbox b ex v)) = v_domain v"
  "v_domain (snd (spec_delete_mailbox b v)) = v_domain v"
  "v_domain (snd (spec_rotate_owner_token b h v)) = v_domain v"
  "v_domain (snd (spec_delete_message b i v)) = v_domain v"
  "v_domain (snd (spec_delete_all_messages b v)) = v_domain v"
  "v_domain (snd (spec_add_subscription now sid b k ep p au cap v)) = v_domain v"
  "v_domain (snd (spec_delete_subscription b ep v)) = v_domain v"
  "v_domain (snd (spec_mark_seen b i v)) = v_domain v"
  "v_domain (snd (spec_upsert_attested_device ky pk now v)) = v_domain v"
  "v_domain (snd (spec_advance_attested_device_counter ky n now v)) = v_domain v"
  by (auto simp: spec_create_mailbox_def spec_extend_mailbox_def spec_delete_mailbox_def
      forget_mailboxes_def spec_rotate_owner_token_def spec_delete_message_def
      spec_delete_all_messages_def spec_add_subscription_def spec_delete_subscription_def
      spec_mark_seen_def spec_upsert_attested_device_def spec_advance_attested_device_counter_def
      Let_def split: option.splits)

lemma v_domain_claim_specs:
  "v_domain v d = Some c \<Longrightarrow> v_domain (snd (spec_create_custom_domain now n h t v)) d = Some c"
  "v_domain v d = Some c \<Longrightarrow> n \<noteq> d \<Longrightarrow> v_domain (snd (spec_record_custom_domain_check n stat va ca v)) d = Some c"
  "v_domain v d = Some c \<Longrightarrow> n \<noteq> d \<Longrightarrow> v_domain (snd (spec_delete_custom_domain n v)) d = Some c"
  by (auto simp: spec_create_custom_domain_def spec_record_custom_domain_check_def
      spec_delete_custom_domain_def Let_def split: option.splits)

subsection \<open>The invariants hold for every backend that meets the contract\<close>

context store_contract
begin

lemma add_subscription_view:
  "sinv s \<Longrightarrow> sinv (snd (st_add_subscription ops now i a k ep p au cap s)) \<and>
    (view (snd (st_add_subscription ops now i a k ep p au cap s)) =
       snd (spec_add_subscription now i a k ep p au cap (view s)) \<or>
     view (snd (st_add_subscription ops now i a k ep p au cap s)) = view s)"
  using add_subscription [of s now i a k ep p au cap]
  by (cases "st_add_subscription ops now i a k ep p au cap s") (auto dest!: op_refines_view)

lemmas route_op_views = op_refines_view [OF create_mailbox] op_refines_view [OF extend_mailbox]
  op_refines_view [OF delete_mailbox] op_refines_view [OF rotate_owner_token]
  op_refines_view [OF delete_message] op_refines_view [OF delete_all_messages] add_subscription_view
  op_refines_view [OF delete_subscription] op_refines_view [OF mark_seen]
  op_refines_view [OF create_custom_domain] op_refines_view [OF record_custom_domain_check]
  op_refines_view [OF delete_custom_domain] op_refines_view [OF upsert_attested_device]
  op_refines_view [OF advance_attested_device_counter]

lemma domain_of_claim:
  "sinv s \<Longrightarrow> st_get_custom_domain ops d s = Ok (Some c) \<Longrightarrow> cd_domain c = d"
  using get_custom_domain_Ok domain_keys by blast

lemma sinv_request_invariant:
  "ap_ops st = ops \<Longrightarrow> request_invariant st sinv (\<lambda>_. True) (\<lambda>_. True) (\<lambda>_. True)"
  by unfold_locales (auto simp: route_op_views domain_of_claim)

lemma box_request_invariant:
  assumes "ap_ops st = ops"
  shows "request_invariant st (\<lambda>s. sinv s \<and> box_kept a mb v0 (view s)) (\<lambda>b. b \<noteq> a) (\<lambda>_. True)
    (lacks_owner_token st mb)"
proof -
  have keep: "sinv t \<and> box_kept a mb v0 (view t)"
    if "sinv t \<and> (view t = v \<or> view t = view s)" "box_kept a mb v0 (view s)" "box_kept a mb v0 v" for s t v
    using that by auto
  show ?thesis
    apply unfold_locales
    unfolding assms
    subgoal by (elim conjE) (rule keep [OF route_op_views(1)], assumption+, rule box_kept_specs(1))
    subgoal by (elim conjE) (rule keep [OF route_op_views(2)], assumption+, rule box_kept_specs(2))
    subgoal by (elim conjE) (rule keep [OF route_op_views(3)], assumption+, rule box_kept_specs(3))
    subgoal by (elim conjE) (rule keep [OF route_op_views(4)], assumption+, rule box_kept_specs(4))
    subgoal by (elim conjE) (rule keep [OF route_op_views(5)], assumption+, rule box_kept_specs(5))
    subgoal by (elim conjE) (rule keep [OF route_op_views(6)], assumption+, rule box_kept_specs(6))
    subgoal by (elim conjE) (rule keep [OF route_op_views(7)], assumption+, rule box_kept_specs(7))
    subgoal by (elim conjE) (rule keep [OF route_op_views(8)], assumption+, rule box_kept_specs(8))
    subgoal by (elim conjE) (rule keep [OF route_op_views(9)], assumption+, rule box_kept_specs(9))
    subgoal by (elim conjE) (rule keep [OF route_op_views(10)], auto simp: box_kept_cong [OF boxes_of_specs(1)])
    subgoal by (elim conjE) (rule keep [OF route_op_views(11)], auto simp: box_kept_cong [OF boxes_of_specs(2)])
    subgoal by (elim conjE) (rule keep [OF route_op_views(12)], auto simp: box_kept_cong [OF boxes_of_specs(3)])
    subgoal by (elim conjE) (rule keep [OF route_op_views(13)], auto simp: box_kept_cong [OF boxes_of_specs(4)])
    subgoal by (elim conjE) (rule keep [OF route_op_views(14)], auto simp: box_kept_cong [OF boxes_of_specs(5)])
    subgoal by (auto simp: lacks_owner_token_def box_kept_def dest!: get_mailbox_Ok)
    subgoal by simp
    subgoal using domain_of_claim by blast
    done
qed

lemma claim_request_invariant:
  assumes "ap_ops st = ops"
  shows "request_invariant st (\<lambda>s. sinv s \<and> v_domain (view s) d = Some c) (\<lambda>_. True) (\<lambda>n. n \<noteq> d)
    (\<lambda>h. \<not> presents st h (cd_claim_token_hash c))"
proof -
  have keep: "sinv t \<and> v_domain (view t) d = Some c"
    if "sinv t \<and> (view t = v \<or> view t = view s)" "v_domain (view s) d = Some c" "v_domain v d = Some c" for s t v
    using that by auto
  show ?thesis
    apply unfold_locales
    unfolding assms
    subgoal by (elim conjE) (rule keep [OF route_op_views(1)], auto simp: v_domain_specs)
    subgoal by (elim conjE) (rule keep [OF route_op_views(2)], auto simp: v_domain_specs)
    subgoal by (elim conjE) (rule keep [OF route_op_views(3)], auto simp: v_domain_specs)
    subgoal by (elim conjE) (rule keep [OF route_op_views(4)], auto simp: v_domain_specs)
    subgoal by (elim conjE) (rule keep [OF route_op_views(5)], auto simp: v_domain_specs)
    subgoal by (elim conjE) (rule keep [OF route_op_views(6)], auto simp: v_domain_specs)
    subgoal by (elim conjE) (rule keep [OF route_op_views(7)], auto simp: v_domain_specs)
    subgoal by (elim conjE) (rule keep [OF route_op_views(8)], auto simp: v_domain_specs)
    subgoal by (elim conjE) (rule keep [OF route_op_views(9)], auto simp: v_domain_specs)
    subgoal by (elim conjE) (rule keep [OF route_op_views(10)], auto simp: v_domain_claim_specs)
    subgoal by (elim conjE) (rule keep [OF route_op_views(11)], auto simp: v_domain_claim_specs)
    subgoal by (elim conjE) (rule keep [OF route_op_views(12)], auto simp: v_domain_claim_specs)
    subgoal by (elim conjE) (rule keep [OF route_op_views(13)], auto simp: v_domain_specs)
    subgoal by (elim conjE) (rule keep [OF route_op_views(14)], auto simp: v_domain_specs)
    subgoal by simp
    subgoal by (auto dest!: get_custom_domain_Ok)
    subgoal using domain_of_claim by blast
    done
qed

end

subsection \<open>A service on a backend\<close>

text \<open>The HTTP service with a backend that meets the contract. The three request invariants hold in it,
  and with them what no request sequence can do; a backend gets all of it by one interpretation.\<close>

locale backed_service = store_contract "ap_ops st" quotas sinv view reliable T
  for st :: "'s app_state"
    and quotas :: mailbox_quotas
    and sinv :: "'s \<Rightarrow> bool"
    and view :: "'s \<Rightarrow> sview"
    and reliable :: bool
    and T :: "datetime \<Rightarrow> bool"

sublocale backed_service \<subseteq> store_http: request_invariant st sinv "\<lambda>_. True" "\<lambda>_. True" "\<lambda>_. True"
  by (rule sinv_request_invariant) simp

sublocale backed_service \<subseteq> box_http: request_invariant st "\<lambda>s. sinv s \<and> box_kept a mb v0 (view s)"
    "\<lambda>b. b \<noteq> a" "\<lambda>_. True" "lacks_owner_token st mb"
  for a mb v0
  by (rule box_request_invariant) simp

sublocale backed_service \<subseteq> claim_http: request_invariant st "\<lambda>s. sinv s \<and> v_domain (view s) d = Some c"
    "\<lambda>_. True" "\<lambda>n. n \<noteq> d" "\<lambda>h. \<not> presents st h (cd_claim_token_hash c)"
  for d c
  by (rule claim_request_invariant) simp

abbreviation on_memory :: "mailbox_quotas \<Rightarrow> inner app_state \<Rightarrow> inner app_state" where
  "on_memory q st \<equiv> st\<lparr>ap_ops := memory_ops q\<rparr>"

interpretation memory_service: backed_service "on_memory q st" q mem_inv mem_view True "\<lambda>_. True"
  for q :: mailbox_quotas and st :: "inner app_state"
  using mem.store_contract_axioms [of q] by (simp add: backed_service_def)

end
