(* ===== verification/Api_Theorems.thy ===== *)
theory Api_Theorems
  imports Api_Properties
begin

text \<open>
  Creation of a mailbox on every backend that meets the store contract, and the small instance on which
  the witnesses of the HTTP side run.
\<close>

subsection \<open>Outcome of a creation\<close>

definition created_box ::
  "'s app_state \<Rightarrow> string \<Rightarrow> datetime \<Rightarrow> string option \<Rightarrow> string \<Rightarrow> string \<Rightarrow> mailbox \<Rightarrow> sview \<Rightarrow> sview \<Rightarrow> bool" where
  "created_box st d ex dv l tok mb v v' \<longleftrightarrow>
     (let a = l @ ''@'' @ d in
      v_mailbox v a = None \<and> mb_address mb = a \<and> mb_domain mb = d \<and> mb_expires_at mb = ex \<and>
      mb_owner_token_hash mb = Some (hash_token (sha st) tok) \<and> mb_creator_device_hash mb = dv \<and>
      v' = v\<lparr>v_mailbox := (v_mailbox v)(a \<mapsto> mb)\<rparr>)"

definition domain_permitted ::
  "'s app_state \<Rightarrow> tier_policy option \<Rightarrow> headers \<Rightarrow> sview \<Rightarrow> string \<Rightarrow> bool" where
  "domain_permitted st policy h v d \<longleftrightarrow>
     (\<exists>i. i < length (domains (ap_config st)) \<and> domains (ap_config st) ! i = d \<and>
        (case policy of None \<Rightarrow> True
         | Some p \<Rightarrow> i = 0 \<or> tp_domain_count p = 0 \<or> i < unat (tp_domain_count p))) \<or>
     (custom_domains_enabled (ap_config st) \<and> (case policy of None \<Rightarrow> True | Some p \<Rightarrow> tp_custom_domains p) \<and>
      (\<exists>c. v_domain v d = Some c \<and> cd_status c = Verified \<and> presents st h (cd_claim_token_hash c)))"

definition local_permitted :: "'s app_state \<Rightarrow> tier_policy option \<Rightarrow> create_request \<Rightarrow> string \<Rightarrow> bool" where
  "local_permitted st policy req l \<longleftrightarrow> is_valid_local_part l \<and>
     (case ca_local_part req of
        None \<Rightarrow> length l = RANDOM_LOCAL_PART_LEN
      | Some raw \<Rightarrow> l = to_ascii_lowercase (trim raw) \<and> \<not> is_reserved_local_part (ap_config st) l \<and>
          (case policy of None \<Rightarrow> True | Some p \<Rightarrow> tp_custom_local_parts p))"

definition device_has_room :: "tier_policy option \<Rightarrow> string option \<Rightarrow> datetime \<Rightarrow> sview \<Rightarrow> bool" where
  "device_has_room policy dv now v \<longleftrightarrow>
     (case (policy, dv) of
        (Some p, Some dev) \<Rightarrow> tp_active_mailboxes p = 0 \<or>
          card (device_mailboxes dev now v) < unat (tp_active_mailboxes p)
      | _ \<Rightarrow> True)"

text \<open>Handlers read the clock in order: the readings themselves are fixed, and the position only advances.\<close>

definition forward :: "('a, 's) handler \<Rightarrow> bool" where
  "forward m \<longleftrightarrow> (\<forall>w. w_clock (snd (m w)) = w_clock w \<and> w_ticks w \<le> w_ticks (snd (m w)))"

lemma forwardD: "forward m \<Longrightarrow> m w = (r, w') \<Longrightarrow> w_clock w' = w_clock w \<and> w_ticks w \<le> w_ticks w'"
  by (metis forward_def snd_conv)

lemma forward_keeps: "keeps w_clock m \<Longrightarrow> keeps w_ticks m \<Longrightarrow> forward m"
  by (simp add: forward_def keeps_def)

lemma forward_try_bind: "forward m \<Longrightarrow> (\<And>x. forward (f x)) \<Longrightarrow> forward (try_bind m f)"
  by (auto simp: forward_def try_bind_def split: prod.splits result.splits) (metis snd_conv le_trans)+

lemma forward_case:
  "forward m \<Longrightarrow> forward n \<Longrightarrow> forward (if b then m else n)"
  "forward m \<Longrightarrow> (\<And>x. forward (g x)) \<Longrightarrow> forward (case v of None \<Rightarrow> m | Some x \<Rightarrow> g x)"
  "(\<And>x. forward (g x)) \<Longrightarrow> (\<And>e. forward (h e)) \<Longrightarrow> forward (case r of Ok x \<Rightarrow> g x | Err e \<Rightarrow> h e)"
  "forward m \<Longrightarrow> forward n \<Longrightarrow> forward (case t of Expired \<Rightarrow> m | Invalid \<Rightarrow> n)"
  by (auto split: option.split result.split token_error.split)

lemma forward_effects:
  "forward now_utc" "forward (draw_bytes n)" "forward (with_limits f)" "forward (run_store q)"
  "forward random_local_part"
  by (auto simp: forward_def now_utc_def utc_now_def draw_bytes_def with_limits_def run_store_def random_local_part_def
      split: prod.splits)

lemma forward_pure:
  "forward (ret x)" "forward (fail e)" "forward (lift_result r)" "forward (ensure b e)" "forward (expect_some e v)"
  "forward (read_store s)" "forward (authorize_mailbox_on_custom_domain st d h)"
  by (auto intro: forward_keeps)

lemmas forward_rules = forward_try_bind forward_case forward_effects forward_pure

lemma forward_create:
  "forward (attestation_gate st h)" "forward (create_domain st p h d)" "forward (create_local_part st p lp)"
  "forward (check_device_cap st p dv)" "forward (create_custom st l d' ex dv)" "forward (create_random n st d' ex dv)"
proof -
  show "forward (attestation_gate st h)"
    unfolding attestation_gate_def request_claims_def by (intro forward_rules)
  show "forward (create_domain st p h d)"
    unfolding create_domain_def Let_def
    by (cases "domains (ap_config st)") (auto intro!: forward_rules split: option.split)
  show "forward (create_local_part st p lp)"
    unfolding create_local_part_def Let_def by (intro forward_rules)
  show "forward (check_device_cap st p dv)"
    unfolding check_device_cap_def prod.case by (auto intro!: forward_rules split: option.split)
  show "forward (create_custom st l d' ex dv)"
    unfolding create_custom_def create_at_def fresh_token_def Let_def case_prod_beta by (intro forward_rules)
  show "forward (create_random n st d' ex dv)"
    by (induction n) (auto simp: create_at_def fresh_token_def case_prod_beta intro!: forward_rules)
qed

lemma position_Some: "position x xs = Some i \<Longrightarrow> i < length xs \<and> xs ! i = x"
  by (induction xs arbitrary: i) (auto split: if_splits)

lemma random_local_part_valid:
  assumes "random_local_part w = (Ok l, w')"
  shows "is_valid_local_part l \<and> length l = RANDOM_LOCAL_PART_LEN \<and> w_store w' = w_store w"
proof -
  let ?C = LOCAL_PART_CHARSET
  have good: "list_all (\<lambda>b. (is_ascii_lowercase b \<or> is_ascii_digit b) \<and> \<not> is_sep b) ?C" by code_simp
  have len: "length ?C = 36" by code_simp
  have "set l \<subseteq> set ?C" "length l = 10"
    using assms len by (auto simp: random_local_part_def RANDOM_LOCAL_PART_LEN_def)
  moreover from this have "l \<noteq> []" by auto
  ultimately show ?thesis
    using good assms by (auto simp: is_valid_local_part_def list_all_iff MAX_LOCAL_PART_LEN_def
        RANDOM_LOCAL_PART_LEN_def subset_iff random_local_part_def)
qed

lemma fresh_token_Ok:
  "fresh_token st p w = (Ok (tok, th), w') \<Longrightarrow> th = hash_token (sha st) tok \<and> w_store w' = w_store w"
  by (auto simp: fresh_token_def try_bind_Ok api_simps draw_bytes_def generate_token_def Let_def)

lemma created_or_fail:
  "(case q of Ok mb \<Rightarrow> ret (mb, t) | Err e \<Rightarrow> if is_unique_violation e then fail (X e) else fail (Y e :: api_error)) w =
     (Ok (mb, tok), w') \<longleftrightarrow> q = Ok mb \<and> t = tok \<and> w' = w"
  by (cases q) (auto simp: api_simps)

text \<open>The stages of a successful creation, all on the same store up to the last one.\<close>

lemma gate_store: "attestation_gate st h w = (r, w') \<Longrightarrow> w_store w' = w_store w"
  by (rule keepsD [OF gates_keep_store(2)])

lemma address_create_steps:
  assumes "address_create st peer h body w = (Ok (mb, tok), w')"
    and req: "req = (case body of Some b \<Rightarrow> b | None \<Rightarrow> create_request_default)"
  obtains client w1 d w2 lo w3 u w4 now w5 n2 where
    "attestation_gate st h w = (Ok client, w1)"
    "create_domain st (create_policy st client) h (ca_domain req) w1 = (Ok d, w2)"
    "create_local_part st (create_policy st client) (ca_local_part req) w2 = (Ok lo, w3)"
    "check_device_cap st (create_policy st client) (device_hash_of st client) w3 = (Ok u, w4)"
    "(case lo of Some l' \<Rightarrow> create_custom st l' d (now + ttl_of (ap_config st)) (device_hash_of st client)
      | None \<Rightarrow> create_random RANDOM_CREATE_ATTEMPTS st d (now + ttl_of (ap_config st)) (device_hash_of st client)) w5
      = (Ok (mb, tok), w')"
    "w_store w1 = w_store w" "w_store w3 = w_store w" "w_store w5 = w_store w"
    "w_ticks w \<le> w_ticks w3" "w_clock w3 = w_clock w" "w_ticks w4 < n2" "n2 < w_ticks w'" "now = w_clock w n2"
proof -
  from assms(1) obtain client w1 d w2 lo w3 u w4 today wa within wb now w5 where
    gate: "attestation_gate st h w = (Ok client, w1)"
    and dom: "create_domain st (create_policy st client) h (ca_domain req) w1 = (Ok d, w2)"
    and loc: "create_local_part st (create_policy st client) (ca_local_part req) w2 = (Ok lo, w3)"
    and cap: "check_device_cap st (create_policy st client) (device_hash_of st client) w3 = (Ok u, w4)"
    and t1: "now_utc w4 = (Ok today, wa)"
    and lim: "with_limits (note_address_created (client_ip h peer (api_trust_proxy_headers (ap_config st)))
        (date_naive today)) wa = (Ok within, wb)"
    and t2: "now_utc wb = (Ok now, w5)"
    and fin: "(case lo of Some l' \<Rightarrow> create_custom st l' d (now + ttl_of (ap_config st)) (device_hash_of st client)
      | None \<Rightarrow> create_random RANDOM_CREATE_ATTEMPTS st d (now + ttl_of (ap_config st)) (device_hash_of st client)) w5
      = (Ok (mb, tok), w')"
    unfolding address_create_def Let_def try_bind_Ok req [symmetric]
    by (auto simp: api_simps split: if_splits)
  note st = gate_store [OF gate] keepsD [OF keeps_store_more(2) dom] keepsD [OF keeps_store_more(3) loc]
    keepsD [OF keeps_store_more(4) cap] keepsD [OF keeps_store_effects(1) t1]
    keepsD [OF keeps_store_effects(6) lim] keepsD [OF keeps_store_effects(1) t2]
  have fw: "w_ticks w \<le> w_ticks w3" "w_clock w3 = w_clock w" "w_clock w4 = w_clock w"
    using forwardD [OF forward_create(1) gate] forwardD [OF forward_create(2) dom] forwardD [OF forward_create(3) loc]
      forwardD [OF forward_create(4) cap] by auto
  have "forward (case lo of Some l' \<Rightarrow> create_custom st l' d (now + ttl_of (ap_config st)) (device_hash_of st client)
      | None \<Rightarrow> create_random RANDOM_CREATE_ATTEMPTS st d (now + ttl_of (ap_config st)) (device_hash_of st client))"
    by (intro forward_case forward_create)
  from forwardD [OF this fin] have "w_ticks w5 \<le> w_ticks w'" by simp
  moreover have "w_clock wb = w_clock w" "w_ticks w4 < w_ticks wb" "now = w_clock wb (w_ticks wb)" "w_ticks w5 = Suc (w_ticks wb)"
    using t1 t2 lim fw by (auto simp: now_utc_def utc_now_def with_limits_def split: prod.splits)
  ultimately have "w_ticks w4 < w_ticks wb" "w_ticks wb < w_ticks w'" "now = w_clock w (w_ticks wb)" by simp_all
  with fw st show thesis by (intro that [OF gate dom loc cap fin]) simp_all
qed

context store_contract
begin

lemma create_at_outcome:
  assumes "ap_ops st = ops" "sinv (w_store w)" "create_at st a d ex th dv w = (r, w')"
  shows "sinv (w_store w')"
    "r = Ok (Ok mb) \<Longrightarrow> v_mailbox (view (w_store w)) a = None \<and> mb_address mb = a \<and> mb_domain mb = d \<and>
       mb_expires_at mb = ex \<and> mb_owner_token_hash mb = Some th \<and> mb_creator_device_hash mb = dv \<and>
       view (w_store w') = (view (w_store w))\<lparr>v_mailbox := (v_mailbox (view (w_store w)))(a \<mapsto> mb)\<rparr>"
    "r = Ok (Err e) \<Longrightarrow> view (w_store w') = view (w_store w)" "\<exists>q. r = Ok q"
proof -
  obtain now q s' where c: "st_create_mailbox ops now a d ex (Some th) dv (w_store w) = (q, s')"
      "r = Ok q" "w_store w' = s'"
    using assms(1,3)
    by (auto simp: create_at_def try_bind_def now_utc_def utc_now_def run_store_def split: prod.splits)
  note out = create_mailbox_outcome [OF assms(2) c(1)]
  show "sinv (w_store w')" using out(1) c(3) by simp
  show "r = Ok (Ok mb) \<Longrightarrow> v_mailbox (view (w_store w)) a = None \<and> mb_address mb = a \<and> mb_domain mb = d \<and>
       mb_expires_at mb = ex \<and> mb_owner_token_hash mb = Some th \<and> mb_creator_device_hash mb = dv \<and>
       view (w_store w') = (view (w_store w))\<lparr>v_mailbox := (v_mailbox (view (w_store w)))(a \<mapsto> mb)\<rparr>"
    using out(2) [of mb] c(2,3) by auto
  show "r = Ok (Err e) \<Longrightarrow> view (w_store w') = view (w_store w)" using out(3) c(2,3) by simp
  show "\<exists>q. r = Ok q" using c(2) by simp
qed

lemma create_random_outcome:
  assumes "ap_ops st = ops" "sinv (w_store w)" "create_random n st d ex dv w = (Ok (mb, tok), w')"
  shows "sinv (w_store w') \<and> (\<exists>l. is_valid_local_part l \<and> length l = RANDOM_LOCAL_PART_LEN \<and>
    created_box st d ex dv l tok mb (view (w_store w)) (view (w_store w')))"
  using assms(2,3)
proof (induction n arbitrary: w)
  case (Suc n)
  from Suc.prems(2) obtain t th w1 l w2 q w3 where ch: "fresh_token st TOKEN_PREFIX w = (Ok (t, th), w1)"
      "random_local_part w1 = (Ok l, w2)" "create_at st (l @ ''@'' @ d) d ex th dv w2 = (Ok q, w3)"
      "(case q of Ok mb \<Rightarrow> ret (mb, t)
        | Err e \<Rightarrow> if is_unique_violation e then create_random n st d ex dv
                   else fail (Internal (StoreError e))) w3 = (Ok (mb, tok), w')"
    by (auto simp: try_bind_Ok)
  have w2: "w_store w2 = w_store w" and l: "is_valid_local_part l" "length l = RANDOM_LOCAL_PART_LEN"
    and th: "th = hash_token (sha st) t"
    using fresh_token_Ok [OF ch(1)] random_local_part_valid [OF ch(2)] by auto
  have "sinv (w_store w2)" using Suc.prems(1) w2 by simp
  note out = create_at_outcome [OF assms(1) this ch(3)]
  show ?case
  proof (cases q)
    case (Ok m)
    then have "m = mb" "t = tok" "w' = w3" using ch(4) by (auto simp: api_simps)
    with out(1) out(2) [of m] Ok th w2 l show ?thesis
      by (intro conjI exI [of _ l]) (auto simp: created_box_def)
  next
    case (Err e)
    then have "create_random n st d ex dv w3 = (Ok (mb, tok), w')"
      using ch(4) by (auto simp: api_simps split: if_splits)
    with Suc.IH [OF out(1)] out(3) [of e] Err w2 show ?thesis by simp
  qed
qed (simp add: api_simps)

lemma create_custom_outcome:
  assumes "ap_ops st = ops" "sinv (w_store w)" "create_custom st l d ex dv w = (Ok (mb, tok), w')"
  shows "sinv (w_store w') \<and> created_box st d ex dv l tok mb (view (w_store w)) (view (w_store w'))"
proof -
  from assms(3) obtain th w1 where ch: "fresh_token st TOKEN_PREFIX w = (Ok (tok, th), w1)"
      "create_at st (l @ ''@'' @ d) d ex th dv w1 = (Ok (Ok mb), w')"
    by (auto simp: create_custom_def try_bind_Ok Let_def created_or_fail)
  have w1: "w_store w1 = w_store w" "th = hash_token (sha st) tok" using fresh_token_Ok [OF ch(1)] by auto
  have "sinv (w_store w1)" using assms(2) w1 by simp
  note out = create_at_outcome [OF assms(1) this ch(2)]
  from out(1) out(2) [of mb] w1 show ?thesis by (auto simp: created_box_def)
qed

lemma create_domain_outcome:
  assumes "ap_ops st = ops" "sinv (w_store w)" "create_domain st policy h req w = (Ok d, w')"
  shows "domain_permitted st policy h (view (w_store w)) d"
proof (cases req)
  case None
  with assms(3) show ?thesis
    by (cases "domains (ap_config st)")
      (auto simp: create_domain_def api_simps domain_permitted_def split: option.split intro!: exI [of _ 0])
next
  case (Some raw)
  let ?d = "to_ascii_lowercase (trim raw)"
  show ?thesis
  proof (cases "position ?d (domains (ap_config st))")
    case pos: (Some i)
    with assms(3) Some have "d = ?d"
        "case policy of None \<Rightarrow> True | Some p \<Rightarrow> i = 0 \<or> tp_domain_count p = 0 \<or> i < unat (tp_domain_count p)"
      by (auto simp: create_domain_def api_simps word_gt_0 not_le Let_def split: option.splits if_splits)
    with position_Some [OF pos] show ?thesis unfolding domain_permitted_def by blast
  next
    case pos: None
    with assms(3) Some have "custom_domains_enabled (ap_config st)" "d = ?d"
        "case policy of None \<Rightarrow> True | Some p \<Rightarrow> tp_custom_domains p"
        "\<exists>c. st_get_custom_domain ops d (w_store w) = Ok (Some c) \<and> presents st h (cd_claim_token_hash c) \<and>
          cd_status c = Verified"
      using assms(1)
      by (auto simp: create_domain_def Let_def api_simps try_bind_Ok authorize_mailbox_on_custom_domain_Ok
          split: if_splits option.splits)
    then show ?thesis
      using get_custom_domain_Ok [OF assms(2)] by (auto simp: domain_permitted_def)
  qed
qed

lemma check_device_cap_outcome:
  assumes "ap_ops st = ops" "sinv (w_store w)" "check_device_cap st policy dv w = (Ok u, w')"
  shows "(\<forall>now. device_has_room policy dv now (view (w_store w))) \<or>
    device_has_room policy dv (w_clock w (w_ticks w)) (view (w_store w)) \<and> w_ticks w' = Suc (w_ticks w)"
  using assms(1,3) count_active_Ok [OF assms(2)]
  by (auto simp: check_device_cap_def device_has_room_def try_bind_Ok api_simps read_store_def
      now_utc_def utc_now_def word_gt_0 not_le split: option.splits if_splits)

lemma address_create_outcome:
  assumes "ap_ops st = ops" "sinv (w_store w)" "address_create st peer h body w = (Ok (mb, tok), w')"
    and req: "req = (case body of Some b \<Rightarrow> b | None \<Rightarrow> create_request_default)"
  shows "sinv (w_store w') \<and> (\<exists>client w1 l d n1 n2. attestation_gate st h w = (Ok client, w1) \<and>
    domain_permitted st (create_policy st client) h (view (w_store w)) d \<and>
    local_permitted st (create_policy st client) req l \<and>
    w_ticks w \<le> n1 \<and> n1 < n2 \<and> n2 < w_ticks w' \<and>
    device_has_room (create_policy st client) (device_hash_of st client) (w_clock w n1) (view (w_store w)) \<and>
    created_box st d (w_clock w n2 + ttl_of (ap_config st)) (device_hash_of st client) l tok mb
      (view (w_store w)) (view (w_store w')))"
proof -
  obtain client w1 d w2 lo w3 u w4 now w5 n2 where
    gate: "attestation_gate st h w = (Ok client, w1)"
    and dom: "create_domain st (create_policy st client) h (ca_domain req) w1 = (Ok d, w2)"
    and loc: "create_local_part st (create_policy st client) (ca_local_part req) w2 = (Ok lo, w3)"
    and cap: "check_device_cap st (create_policy st client) (device_hash_of st client) w3 = (Ok u, w4)"
    and fin: "(case lo of Some l' \<Rightarrow> create_custom st l' d (now + ttl_of (ap_config st)) (device_hash_of st client)
      | None \<Rightarrow> create_random RANDOM_CREATE_ATTEMPTS st d (now + ttl_of (ap_config st)) (device_hash_of st client)) w5
      = (Ok (mb, tok), w')"
    and same: "w_store w1 = w_store w" "w_store w3 = w_store w" "w_store w5 = w_store w"
    and ticks: "w_ticks w \<le> w_ticks w3" "w_clock w3 = w_clock w" "w_ticks w4 < n2" "n2 < w_ticks w'" "now = w_clock w n2"
    using address_create_steps [OF assms(3) req] .
  have inv: "sinv (w_store w1)" "sinv (w_store w3)" "sinv (w_store w5)" using assms(2) same by simp_all
  have "domain_permitted st (create_policy st client) h (view (w_store w)) d"
    using create_domain_outcome [OF assms(1) inv(1) dom] same by simp
  moreover have "w_ticks w3 \<le> w_ticks w4" using forwardD [OF forward_create(4) cap] by simp
  then have "w_ticks w3 < n2"
    "device_has_room (create_policy st client) (device_hash_of st client) (w_clock w (w_ticks w3)) (view (w_store w))"
    using check_device_cap_outcome [OF assms(1) inv(2) cap] same ticks by auto
  moreover have "sinv (w_store w') \<and> (\<exists>l. local_permitted st (create_policy st client) req l \<and>
      created_box st d (now + ttl_of (ap_config st)) (device_hash_of st client) l tok mb
        (view (w_store w)) (view (w_store w')))"
  proof (cases lo)
    case None
    then have "ca_local_part req = None"
      using loc by (auto simp: create_local_part_def Let_def api_simps split: option.splits if_splits)
    moreover have "create_random RANDOM_CREATE_ATTEMPTS st d (now + ttl_of (ap_config st)) (device_hash_of st client) w5
      = (Ok (mb, tok), w')" using fin None by simp
    from create_random_outcome [OF assms(1) inv(3) this]
    obtain l where "sinv (w_store w')" "is_valid_local_part l" "length l = RANDOM_LOCAL_PART_LEN"
      "created_box st d (now + ttl_of (ap_config st)) (device_hash_of st client) l tok mb
        (view (w_store w5)) (view (w_store w'))" by blast
    ultimately show ?thesis using same(3) unfolding local_permitted_def by auto
  next
    case (Some l)
    have "local_permitted st (create_policy st client) req l"
      using loc Some
      by (auto simp: create_local_part_def Let_def api_simps local_permitted_def split: option.splits if_splits)
    moreover have "create_custom st l d (now + ttl_of (ap_config st)) (device_hash_of st client) w5
      = (Ok (mb, tok), w')" using fin Some by simp
    from create_custom_outcome [OF assms(1) inv(3) this] have "sinv (w_store w')"
      "created_box st d (now + ttl_of (ap_config st)) (device_hash_of st client) l tok mb
        (view (w_store w5)) (view (w_store w'))" by blast+
    ultimately show ?thesis using same(3) by auto
  qed
  ultimately show ?thesis using gate ticks(1,4) unfolding ticks(5) by blast
qed

text \<open>The token whose hash is stored opens the owner routes.\<close>

lemma authorize_with_token:
  assumes "ap_ops st = ops" "sinv (w_store w)" reliable "v_mailbox (view (w_store w)) a = Some mb"
    "mb_owner_token_hash mb = Some (hash_token (sha st) tok)" "bearer_token h = Some tok"
  shows "authorize_owner st a h w = (Ok mb, w)"
proof -
  have "st_get_mailbox ops a (w_store w) = Ok (Some mb)"
    using get_mailbox [OF assms(2), of a] assms(3,4) by (simp add: read_refines_def)
  with assms show ?thesis by (auto simp: authorize_owner_Ok presents_def)
qed

end

subsection \<open>A small instance\<close>

text \<open>An instance of the parameters for the witnesses: the hash is the identity, base64 maps a byte to
  a letter, a client token is the letter \<open>f\<close> or \<open>p\<close> for its tier, every attestation and assertion
  verifies, and an assertion is its own authenticator data.\<close>

definition demo_attest :: attest_lib where
  "demo_attest = \<lparr>al_sha256 = id, al_attestation_base64 = Ok, al_attestation_parse = (\<lambda>_. Ok ()),
     al_attestation_verify = (\<lambda>_ _ _ _ _. Ok ''pk''), al_base64 = Ok, al_assertion_parse = (\<lambda>_. Ok ()),
     al_assertion_verify = (\<lambda>_ _ _ _ _ _ _. Ok ()), al_cbor_map = (\<lambda>b. Some (Some 1, b)),
     al_cbor_str = (\<lambda>b. Some (''authenticatorData'', b)), al_cbor_bytes = (\<lambda>b. Some (b, [])),
     al_cbor_skip = (\<lambda>_. None)\<rparr>"

definition demo_crypto :: crypto where
  "demo_crypto = \<lparr>cr_sha256 = id, cr_b64url = map (\<lambda>b. char_of (97 + byte_of b mod 26)),
     cr_jwt_encode = (\<lambda>_ c. Some (if cc_tier c = Pro then ''p'' else ''f'')),
     cr_jwt_decode = (\<lambda>_ now _ t. if t = ''p'' \<or> t = ''f''
        then Ok \<lparr>cc_kind = KIND_IOS, cc_kid = Some ''kid'', cc_tier = (if t = ''p'' then Pro else Free),
                 cc_iat = now, cc_exp = now + 100\<rparr>
        else Err OtherJwtError),
     cr_attest = demo_attest\<rparr>"

definition demo_config :: config where
  "demo_config = config_default\<lparr>entitlements_enforced := True, token_signing_key := Some ''k'',
     app_attest_team_id := Some ''T'', app_attest_bundle_id := Some ''B'',
     domains := [''example.com'', ''example.net'']\<rparr>"

definition demo_state :: "inner app_state" where
  "demo_state = \<lparr>ap_ops = memory_ops UNLIMITED, ap_config = demo_config,
     ap_dns = (\<lambda>_. \<lparr>dns_txt_records = (\<lambda>_. Ok []), dns_mx_hosts = (\<lambda>_. Ok [])\<rparr>), ap_pro = None,
     ap_crypto = demo_crypto\<rparr>"

definition demo_world :: "inner \<Rightarrow> inner app_world" where
  "demo_world s = \<lparr>w_store = s, w_events = [], w_clock = (\<lambda>n. seconds (1000 + int n)), w_ticks = 0,
     w_uuids = of_nat, w_drawn = 0, aw_limits = limits_from_config demo_config,
     aw_challenges = challenge_store_default, aw_rc_cache = hm_empty, aw_instants = (\<lambda>n. seconds (int n)),
     aw_iticks = 0, aw_random = (\<lambda>n. n), aw_rpos = 0, aw_lookups = 0\<rparr>"

definition owned_store :: inner where
  "owned_store = snd (mem_create_mailbox 0 ''u@example.com'' ''example.com'' 100 (Some (hex ''am_secret'')) None inner_default)"

definition owned_box :: mailbox where
  "owned_box = \<lparr>mb_address = ''u@example.com'', mb_domain = ''example.com'', mb_created_at = 0,
     mb_expires_at = 100, mb_owner_token_hash = Some (hex ''am_secret''), mb_creator_device_hash = None\<rparr>"

definition with_bearer :: "string \<Rightarrow> headers" where
  "with_bearer t = (\<lambda>n. if n = ''authorization'' then Some (''Bearer '' @ t) else None)"

lemma demo_sha: "sha demo_state = id"
  by (simp add: demo_state_def demo_crypto_def)

lemma owned_store_inv: "mem_inv owned_store"
  using mem.create_mailbox [OF mem_inv_default, of UNLIMITED 0 "''u@example.com''" "''example.com''" 100]
  by (simp add: owned_store_def op_refines_def memory_ops_def)

lemma owned_store_box: "v_mailbox (mem_view owned_store) ''u@example.com'' = Some owned_box"
  by (simp add: owned_store_def mem_create_mailbox_def inner_default_def hm_laws mem_view_def
      hm_contains_key_get owned_box_def Let_def)

text \<open>The backend of these states meets the contract.\<close>

lemmas memory_backend = memory_service.backed_service_axioms

lemma demo_backend: "backed_service demo_state UNLIMITED mem_inv mem_view True (\<lambda>_. True)"
  using memory_backend [of UNLIMITED demo_state] by (simp add: demo_state_def)

subsection \<open>Single routes\<close>

text \<open>C8: A successful creation on a reliable backend makes exactly one new mailbox and hands out its
  owner token: the address was free, nothing else in the store changes, only the token's hash is
  stored and the token authorises the owner routes. The domain is configured and open to the tier,
  or it is a verified custom domain whose claim token the request carries; a chosen local part is
  valid, not reserved and allowed by the tier. An attested device on a capped tier held fewer mailboxes
  active than its cap at a reading of the clock taken during the request, and the expiry of the new
  mailbox is one TTL after a later reading of the same request. (The handler runs without other
  requests in between; the theory \<open>Device_Cap\<close> treats two creations that interleave.)\<close>

theorem create_outcome:
  assumes contract: "backed_service st q sinv view True T" and "sinv (w_store w)"
    "address_create st peer h body w = (Ok (mb, tok), w')"
  shows "\<exists>client w1 l d n1 n2. attestation_gate st h w = (Ok client, w1) \<and>
    domain_permitted st (create_policy st client) h (view (w_store w)) d \<and>
    local_permitted st (create_policy st client) (case body of Some b \<Rightarrow> b | None \<Rightarrow> create_request_default) l \<and>
    w_ticks w \<le> n1 \<and> n1 < n2 \<and> n2 < w_ticks w' \<and>
    device_has_room (create_policy st client) (device_hash_of st client) (w_clock w n1) (view (w_store w)) \<and>
    created_box st d (w_clock w n2 + ttl_of (ap_config st)) (device_hash_of st client) l tok mb
      (view (w_store w)) (view (w_store w')) \<and>
    (\<forall>h'. bearer_token h' = Some tok \<longrightarrow> authorize_owner st (l @ ''@'' @ d) h' w' = (Ok mb, w'))"
proof -
  note out = store_contract.address_create_outcome [OF backed_service.axioms [OF contract] refl assms(2,3) refl]
  have "authorize_owner st (l @ ''@'' @ d) h' w' = (Ok mb, w')"
    if "created_box st d ex dv l tok mb (view (w_store w)) (view (w_store w'))"
      "bearer_token h' = Some tok" for l d ex dv h'
    using that out store_contract.authorize_with_token [OF backed_service.axioms [OF contract] refl _ TrueI, of w' "l @ ''@'' @ d" mb tok h']
    by (auto simp: created_box_def Let_def)
  with out show ?thesis by blast
qed

definition pro_headers :: headers where
  "pro_headers = (\<lambda>n. if n = ''x-client-token'' then Some ''p'' else None)"

definition pro_claims :: client_claims where
  "pro_claims = \<lparr>cc_kind = KIND_IOS, cc_kid = Some ''kid'', cc_tier = Pro, cc_iat = 1000, cc_exp = 1100\<rparr>"

definition pro_request :: create_request where
  "pro_request = \<lparr>ca_local_part = Some '' Me '', ca_domain = Some ''example.net''\<rparr>"

lemma demo_config_facts:
  "token_signing_key demo_config = Some ''k''" "\<not> client_attestation_required demo_config"
  "entitlements_enforced demo_config" "domains demo_config = [''example.com'', ''example.net'']"
  "tp_domain_count (pro_tier demo_config) = 0" "tp_custom_local_parts (pro_tier demo_config)"
  "tp_active_mailboxes (pro_tier demo_config) = 50" "\<not> is_reserved_local_part demo_config ''me''"
  by code_simp+

lemma pro_request_facts:
  "trimmed_non_empty (Option.bind (pro_headers CLIENT_TOKEN_HEADER) header_to_str) = Some ''p''"
  "to_ascii_lowercase (trim '' Me '') = ''me''" "is_valid_local_part ''me''"
  "to_ascii_lowercase (trim ''example.net'') = ''example.net''"
  by code_simp+

lemma pro_creation_within_limits:
  "fst (note_address_created ip day (limits_from_config demo_config))"
  by (simp add: note_address_created_def note_daily_def limits_from_config_def demo_config_def config_default_def Let_def hm_laws split: prod.splits)


lemma owned_store_room:
  "mem_count_active_mailboxes_by_device dev now owned_store = Ok 0"
  "hm_contains_key (mailboxes owned_store) ''me@example.net'' = False"
  by (simp_all add: mem_count_active_mailboxes_by_device_def owned_store_def mem_create_mailbox_def
      inner_default_def Let_def hm_laws hm_contains_key_get hm_values_def hm_insert_def hm_empty_def hm_get_def)

lemma pro_gate:
  "attestation_gate demo_state pro_headers (demo_world s) = (Ok (Some pro_claims), demo_world s\<lparr>w_ticks := 1\<rparr>)"
  by (simp add: attestation_gate_def request_claims_def pro_request_facts demo_config_facts demo_state_def
    demo_crypto_def verify_client_token_def demo_world_def pro_claims_def try_bind_def ret_def now_utc_def utc_now_def timestamp_def seconds_def)

lemma pro_domain: "create_domain demo_state (Some (pro_tier demo_config)) h (Some ''example.net'') w = (Ok ''example.net'', w)"
  by (simp add: create_domain_def pro_request_facts demo_config_facts demo_state_def Let_def ret_def)

lemma pro_local_part: "create_local_part demo_state (Some (pro_tier demo_config)) (Some '' Me '') w = (Ok (Some ''me''), w)"
  by (simp add: create_local_part_def pro_request_facts demo_config_facts demo_state_def Let_def ret_def)

lemma pro_device_cap: "w_store w = owned_store \<Longrightarrow>
   check_device_cap demo_state (Some (pro_tier demo_config)) (Some dev) w = (Ok (), w\<lparr>w_ticks := Suc (w_ticks w)\<rparr>)"
  by (simp add: check_device_cap_def demo_state_def demo_config_facts memory_ops_def owned_store_room
      try_bind_def now_utc_def utc_now_def read_store_def ensure_def)

lemma pro_creation:
  "\<exists>mb tok w'. address_create demo_state (V4 1) pro_headers (Some pro_request) (demo_world owned_store)
     = (Ok (mb, tok), w') \<and> mb_address mb = ''me@example.net''"
proof -
  have conf: "ap_config demo_state = demo_config" "ap_ops demo_state = memory_ops UNLIMITED"
    by (simp_all add: demo_state_def)
  have client: "create_policy demo_state (Some pro_claims) = Some (pro_tier demo_config)"
    "device_hash_of demo_state (Some pro_claims) = Some (hash_token (sha demo_state) ''kid'')"
    by (simp_all add: create_policy_def demo_state_def demo_config_facts pro_claims_def device_hash_of_def)
  have world: "aw_limits (demo_world owned_store) = limits_from_config demo_config"
    "w_store (demo_world owned_store) = owned_store" by (simp_all add: demo_world_def)
  show ?thesis
    by (simp add: address_create_def pro_request_def try_bind_def pro_gate client pro_domain pro_local_part
        pro_device_cap world conf Let_def now_utc_def utc_now_def with_limits_def case_prod_beta
        pro_creation_within_limits ensure_def create_custom_def fresh_token_def draw_bytes_def ret_def
        create_at_def run_store_def memory_ops_def mem_create_mailbox_def owned_store_room)
qed

theorem create_outcome_witness:
  "\<exists>mb tok w'. address_create demo_state (V4 1) pro_headers (Some pro_request) (demo_world owned_store)
       = (Ok (mb, tok), w') \<and>
     mb_address mb = ''me@example.net'' \<and>
     (\<exists>client w1 l d n1 n2. attestation_gate demo_state pro_headers (demo_world owned_store) = (Ok client, w1) \<and>
       device_has_room (create_policy demo_state client) (device_hash_of demo_state client)
         (w_clock (demo_world owned_store) n1) (mem_view owned_store) \<and>
       created_box demo_state d (w_clock (demo_world owned_store) n2 + ttl_of demo_config)
         (device_hash_of demo_state client) l tok mb (mem_view owned_store) (mem_view (w_store w')))"
proof -
  obtain mb tok w' where run: "mb_address mb = ''me@example.net''"
    "address_create demo_state (V4 1) pro_headers (Some pro_request) (demo_world owned_store) = (Ok (mb, tok), w')"
    using pro_creation by blast
  have "mem_inv (w_store (demo_world owned_store))" "ap_ops demo_state = memory_ops UNLIMITED"
    "ap_config demo_state = demo_config" "w_store (demo_world owned_store) = owned_store"
    by (simp_all add: demo_world_def owned_store_inv demo_state_def)
  with create_outcome [OF demo_backend _ run(2)] run show ?thesis
    by auto
qed

end
