(* ===== verification/Api_Layers.thy ===== *)
theory Api_Layers
  imports Api_Theorems
begin

text \<open>
  The construction of the HTTP service in \<open>src/api/mod.rs\<close>: \<open>AppState::new\<close>, the choice of the rate
  limiter's key, the token-bucket layers with the periods that the configuration gives, the timeout
  and CORS layers, and what a limiter answers. Whether \<open>finish()\<close> of the \<open>governor\<close> crate accepts a period
  and a burst size is a parameter. A panic of the construction is an error value.
\<close>

subsection \<open>Application state\<close>

definition app_state_new ::
  "('c, 'u) rc_lib \<Rightarrow> (nat \<Rightarrow> domain_dns) \<Rightarrow> crypto
   \<Rightarrow> 's store_ops \<Rightarrow> config \<Rightarrow> 's app_state \<times> runtime_limits \<times> challenge_store" where
  "app_state_new rc dns crypto ops c =
     (let pro = (case revenuecat_secret_key c of
            Some key \<Rightarrow> (case rc_verifier_new rc key (revenuecat_entitlement_id c) of
                Ok v \<Rightarrow> Some (rc_upstream rc v) | Err e \<Rightarrow> None)
          | None \<Rightarrow> None)
      in (\<lparr>ap_ops = ops, ap_config = c, ap_dns = dns, ap_pro = pro, ap_crypto = crypto\<rparr>,
          limits_from_config c, challenge_store_default))"

subsection \<open>Layers\<close>

datatype key_extractor = SmartIpKeyExtractor | PeerIpKeyExtractor

record governor =
  gv_key :: key_extractor
  gv_period :: duration
  gv_burst :: u32

definition from_millis :: "u64 \<Rightarrow> duration" where
  "from_millis n = uint n * 1000000"

definition governor_layer ::
  "(duration \<Rightarrow> u32 \<Rightarrow> bool) \<Rightarrow> key_extractor \<Rightarrow> duration \<Rightarrow> u32 \<Rightarrow> (governor, string) result" where
  "governor_layer finish key period burst =
     (if finish period burst then Ok \<lparr>gv_key = key, gv_period = period, gv_burst = burst\<rparr>
      else Err ''governor config: period and burst are validated non-zero'')"

datatype allow_origin = AnyOrigin | OriginList "string list"

record cors_layer =
  co_methods :: "string list"
  co_any_headers :: bool
  co_origin :: allow_origin

definition build_cors :: "config \<Rightarrow> cors_layer" where
  "build_cors c =
     \<lparr>co_methods = [''GET'', ''POST'', ''DELETE''], co_any_headers = True,
      co_origin = (if cors_allow_any c then AnyOrigin
                   else OriginList (List.map_filter header_value (cors_allowed_origins c)))\<rparr>"

text \<open>What \<open>build_router\<close> puts around the routes (theory \<open>Api_Routes\<close>): the limiter of the creation
  routes, the documentation and legal pages, the timeout of the routes other than the event stream,
  the general limiter, and CORS outermost.\<close>

record router_layers =
  rl_create_limit :: "governor option"
  rl_docs :: bool
  rl_legal :: bool
  rl_timeout :: "duration option"
  rl_general_limit :: "governor option"
  rl_cors :: cors_layer

definition create_limit :: "(duration \<Rightarrow> u32 \<Rightarrow> bool) \<Rightarrow> key_extractor \<Rightarrow> config \<Rightarrow> (governor option, string) result" where
  "create_limit finish key c =
     (if create_rate_limit_per_minute c > 0 \<and> create_rate_limit_burst c > 0
      then map_ok Some (governor_layer finish key
             (from_millis (60000 div max (create_rate_limit_per_minute c) 1)) (create_rate_limit_burst c))
      else Ok None)"

definition general_limit :: "(duration \<Rightarrow> u32 \<Rightarrow> bool) \<Rightarrow> key_extractor \<Rightarrow> config \<Rightarrow> (governor option, string) result" where
  "general_limit finish key c =
     (if api_rate_limit_per_second c > 0 \<and> api_rate_limit_burst c > 0
      then map_ok Some (governor_layer finish key
             (from_millis (1000 div max (api_rate_limit_per_second c) 1)) (api_rate_limit_burst c))
      else Ok None)"

definition build_router :: "(duration \<Rightarrow> u32 \<Rightarrow> bool) \<Rightarrow> config \<Rightarrow> key_extractor \<Rightarrow> (router_layers, string) result" where
  "build_router finish c key =
     (case create_limit finish key c of
        Err e \<Rightarrow> Err e
      | Ok create \<Rightarrow>
          (case general_limit finish key c of
             Err e \<Rightarrow> Err e
           | Ok general \<Rightarrow>
               Ok \<lparr>rl_create_limit = create, rl_docs = api_docs_enabled c, rl_legal = legal_pages_enabled c,
                   rl_timeout = (if api_request_timeout c = 0 then None else Some (api_request_timeout c)),
                   rl_general_limit = general, rl_cors = build_cors c\<rparr>))"

definition api_router :: "(duration \<Rightarrow> u32 \<Rightarrow> bool) \<Rightarrow> config \<Rightarrow> (router_layers, string) result" where
  "api_router finish c =
     build_router finish c (if api_trust_proxy_headers c then SmartIpKeyExtractor else PeerIpKeyExtractor)"

subsection \<open>Rejections of a limiter\<close>

datatype governor_error =
    GovTooManyRequests nat "(string \<times> string) list option"
  | UnableToExtractKey
  | GovOther nat "string option" "(string \<times> string) list option"

text \<open>\<open>HeaderMap::extend\<close>: a name that is given again replaces the old value.\<close>

definition headers_extend ::
  "(string \<times> string) list option \<Rightarrow> error_response \<Rightarrow> error_response" where
  "headers_extend hs r =
     (case hs of None \<Rightarrow> r
      | Some new \<Rightarrow> r\<lparr>er_headers := filter (\<lambda>(k, _). k \<notin> fst ` set new) (er_headers r) @ new\<rparr>)"

fun governor_error_response :: "governor_error \<Rightarrow> error_response" where
  "governor_error_response (GovTooManyRequests wait_time hs) =
     headers_extend hs ((plain_error 429 (''rate limit exceeded, retry in '' @ show_nat wait_time @ ''s''))
       \<lparr>er_headers := (case header_value (show_nat wait_time) of Some v \<Rightarrow> [(''retry-after'', v)] | None \<Rightarrow> [])\<rparr>)"
| "governor_error_response UnableToExtractKey = plain_error 500 ''could not determine client address''"
| "governor_error_response (GovOther code msg hs) =
     headers_extend hs (plain_error code (case msg of Some m \<Rightarrow> m | None \<Rightarrow> ''request rejected''))"

subsection \<open>Periods\<close>

text \<open>What the documentation of \<open>GovernorConfigBuilder::finish\<close> says: it returns \<open>None\<close> when the period or
  the burst size is zero.\<close>

definition finish_documented :: "(duration \<Rightarrow> u32 \<Rightarrow> bool) \<Rightarrow> bool" where
  "finish_documented finish \<longleftrightarrow> (\<forall>p b. finish p b \<longleftrightarrow> p \<noteq> 0 \<and> b \<noteq> 0)"

lemma from_millis_div: "r > 0 \<Longrightarrow> from_millis (n div max r 1) = (uint n div uint r) * 1000000"
proof -
  assume "r > 0"
  then have "r \<ge> 1" by (simp add: word_le_def word_less_def)
  then show ?thesis by (simp add: from_millis_def max_absorb1 uint_div)
qed

lemma limit_layer_panics:
  assumes "finish_documented finish" "r > 0" "b > 0"
  shows "(\<exists>e. map_ok Some (governor_layer finish key (from_millis (n div max r 1)) b) = Err e) \<longleftrightarrow> n < r"
proof -
  have "uint n div uint r = 0 \<longleftrightarrow> n < r"
    using assms(2) uint_ge_0 [of n] by (auto simp: word_less_def zdiv_eq_0_iff)
  then show ?thesis
    using assms by (auto simp: governor_layer_def finish_documented_def from_millis_div)
qed

text \<open>C40: When the construction of the router panics. With \<open>finish\<close> as documented, \<open>router\<close> panics exactly when
  a limiter is on and its rate is above one request per millisecond: \<open>API_RATE_LIMIT_PER_SECOND\<close> above
  1000 or \<open>API_CREATE_RATE_LIMIT_PER_MINUTE\<close> above 60000, because the period is rounded down to zero.\<close>

theorem router_panics_iff:
  assumes "finish_documented finish"
  shows "(\<exists>e. api_router finish c = Err e) \<longleftrightarrow>
    create_rate_limit_burst c > 0 \<and> create_rate_limit_per_minute c > 60000 \<or>
    api_rate_limit_burst c > 0 \<and> api_rate_limit_per_second c > 1000"
proof -
  have create: "(\<exists>e. create_limit finish key c = Err e) \<longleftrightarrow>
      create_rate_limit_burst c > 0 \<and> create_rate_limit_per_minute c > 60000" for key
    using limit_layer_panics [OF assms, of "create_rate_limit_per_minute c" "create_rate_limit_burst c" key 60000]
    by (auto simp: create_limit_def dest: order.strict_trans1 [OF word_zero_le])
  have general: "(\<exists>e. general_limit finish key c = Err e) \<longleftrightarrow>
      api_rate_limit_burst c > 0 \<and> api_rate_limit_per_second c > 1000" for key
    using limit_layer_panics [OF assms, of "api_rate_limit_per_second c" "api_rate_limit_burst c" key 1000]
    by (auto simp: general_limit_def dest: order.strict_trans1 [OF word_zero_le])
  have "(\<exists>e. build_router finish c key = Err e) \<longleftrightarrow>
      (\<exists>e. create_limit finish key c = Err e) \<or> (\<exists>e. general_limit finish key c = Err e)" for key
    by (auto simp: build_router_def split: result.splits)
  then show ?thesis unfolding api_router_def create general .
qed

definition fast_env :: env where
  "fast_env = map_of [(''DOMAINS'', ''a.test''), (''API_RATE_LIMIT_PER_SECOND'', ''2000'')]"

theorem router_panics_iff_witness:
  "\<exists>c e. from_env Some (\<lambda>_. None) Some fast_env = Ok c \<and> api_router (\<lambda>p b. p \<noteq> 0 \<and> b \<noteq> 0) c = Err e"
proof -
  have "case from_env Some (\<lambda>_. None) Some fast_env of Err e \<Rightarrow> False
    | Ok c \<Rightarrow> api_rate_limit_burst c > 0 \<and> api_rate_limit_per_second c > 1000"
    by code_simp
  then obtain c where c: "from_env Some (\<lambda>_. None) Some fast_env = Ok c"
    "api_rate_limit_burst c > 0 \<and> api_rate_limit_per_second c > 1000"
    by (auto split: result.splits)
  have "finish_documented (\<lambda>p b. p \<noteq> 0 \<and> b \<noteq> 0)" by (simp add: finish_documented_def)
  from router_panics_iff [OF this] c show ?thesis by blast
qed

text \<open>The period of the general limiter grants at least the configured rate, and less than twice it.\<close>

lemma general_limit_rate:
  assumes "general_limit finish key c = Ok (Some gv)" "api_rate_limit_per_second c \<le> 1000"
  shows "uint (api_rate_limit_per_second c) * gv_period gv \<le> seconds 1"
    "seconds 1 < 2 * uint (api_rate_limit_per_second c) * gv_period gv"
proof -
  let ?r = "uint (api_rate_limit_per_second c)"
  have on: "api_rate_limit_per_second c > 0"
    and gv: "gv_period gv = from_millis (1000 div max (api_rate_limit_per_second c) 1)"
    using assms(1) by (auto simp: general_limit_def governor_layer_def split: if_splits)
  have r: "0 < ?r" "?r \<le> 1000" using on assms(2) by (simp_all add: word_less_def word_le_def)
  have p: "gv_period gv = (1000 div ?r) * 1000000" unfolding gv from_millis_div [OF on] by simp
  have "?r * (1000 div ?r) + 1000 mod ?r = 1000" by (rule mult_div_mod_eq)
  moreover have "0 \<le> 1000 mod ?r" "1000 mod ?r < ?r" using r(1) by simp_all
  moreover have "1 \<le> 1000 div ?r" using r by (simp add: int_one_le_iff_zero_less pos_imp_zdiv_pos_iff)
  ultimately have "?r * (1000 div ?r) \<le> 1000" "1000 < 2 * (?r * (1000 div ?r))"
    using mult_left_mono [of 1 "1000 div ?r" ?r] r(1) by linarith+
  then show "?r * gv_period gv \<le> seconds 1" "seconds 1 < 2 * ?r * gv_period gv"
    unfolding p seconds_def by simp_all
qed

end
