(* ===== verification/Startup.thy ===== *)
theory Startup
  imports Api_Layers Push_Worker
begin

text \<open>
  \<open>run\<close> and \<open>build_store\<close> of \<open>src/lib.rs\<close>, \<open>SqliteStore::connect_with\<close> and \<open>src/smtp/tls.rs\<close>: what happens,
  in which order, before the server accepts mail. What the operating system, the databases and the
  TLS and PEM crates answer are parameters (\<open>host\<close>, over a state \<open>'h\<close> of the machine); a step that fails
  ends the start-up with its error, and \<open>bo_tasks\<close> records the tasks that were spawned until then.
\<close>

subsection \<open>The machine and the outcome\<close>

record sqlite_options =
  so_filename :: string
  so_create_if_missing :: bool
  so_wal :: bool
  so_synchronous_normal :: bool
  so_foreign_keys :: bool
  so_incremental_vacuum :: bool
  so_busy_timeout :: duration

record ('h, 'cert, 'key, 'acc) host =
  ho_create_dir_all :: "string \<Rightarrow> 'h \<Rightarrow> (unit, string) result \<times> 'h"
  ho_open_sqlite :: "sqlite_options \<Rightarrow> u32 \<Rightarrow> 'h \<Rightarrow> (unit, string) result \<times> 'h"
  ho_migrate_sqlite :: "'h \<Rightarrow> (unit, string) result \<times> 'h"
  ho_auto_vacuum :: "'h \<Rightarrow> (int, string) result \<times> 'h"
  ho_vacuum :: "'h \<Rightarrow> (unit, string) result \<times> 'h"
  ho_connect_pg :: "string \<Rightarrow> u32 \<Rightarrow> 'h \<Rightarrow> (unit, string) result \<times> 'h"
  ho_migrate_pg :: "'h \<Rightarrow> (unit, string) result \<times> 'h"
  ho_open_file :: "string \<Rightarrow> 'h \<Rightarrow> (bytes, string) result \<times> 'h"
  ho_certs :: "bytes \<Rightarrow> ('cert list, string) result"
  ho_private_key :: "bytes \<Rightarrow> ('key option, string) result"
  ho_tls_versions :: "(unit, string) result"
  ho_server_config :: "'cert list \<Rightarrow> 'key \<Rightarrow> ('acc, string) result"
  ho_bind :: "string \<Rightarrow> 'h \<Rightarrow> (unit, string) result \<times> 'h"

datatype start_error =
    LoadingConfiguration config_error
  | StartFailed string string
  | InContext string start_error
  | StartPanic string

datatype 'acc task =
    ReverifyTask
  | SmtpTask "'acc option"
  | CleanupTask duration
  | PushTask senders
  | ApiTask router_layers

record ('h, 'acc) boot =
  bo_host :: 'h
  bo_tasks :: "'acc task list"

type_synonym ('a, 'h, 'acc) starting = "('h, 'acc) boot \<Rightarrow> ('a, start_error) result \<times> ('h, 'acc) boot"

definition on_host :: "string \<Rightarrow> ('h \<Rightarrow> ('a, string) result \<times> 'h) \<Rightarrow> ('a, 'h, 'acc) starting" where
  "on_host context f b = (case f (bo_host b) of (r, h) \<Rightarrow> (map_err (StartFailed context) r, b\<lparr>bo_host := h\<rparr>))"

definition with_context :: "string \<Rightarrow> ('a, 'h, 'acc) starting \<Rightarrow> ('a, 'h, 'acc) starting" where
  "with_context context m b = (case m b of (r, b') \<Rightarrow> (map_err (InContext context) r, b'))"

definition spawn :: "'acc task \<Rightarrow> (unit, 'h, 'acc) starting" where
  "spawn t b = (Ok (), b\<lparr>bo_tasks := bo_tasks b @ [t]\<rparr>)"

subsection \<open>Opening the database\<close>

text \<open>\<open>Path::parent\<close> on Unix: the path without its last component; repeated separators and \<open>.\<close> components
  do not count, except a leading \<open>.\<close> of a relative path.\<close>

fun trim_components :: "bool \<Rightarrow> string list \<Rightarrow> string list" where
  "trim_components rooted [] = []"
| "trim_components rooted (p # ps) =
     (case trim_components True ps of
        [] \<Rightarrow> if p = [] \<or> p = ''.'' \<and> rooted then [] else [p]
      | qs \<Rightarrow> p # qs)"

definition path_parent :: "string \<Rightarrow> string option" where
  "path_parent path =
     (let rooted = starts_with path ''/'';
          parts = trim_components rooted (split_at (CHR ''/'') (if rooted then tl path else path))
      in if parts = [] then None
         else Some ((if rooted then ''/'' else []) @ join_with ''/'' (trim_components rooted (butlast parts))))"

definition sqlite_default_max_connections :: u32 where
  "sqlite_default_max_connections = 5"

definition sqlite_connect_with ::
  "('h, 'cert, 'key, 'acc) host \<Rightarrow> string \<Rightarrow> u32 \<Rightarrow> (u32, 'h, 'acc) starting" where
  "sqlite_connect_with host path requested =
     try_bind (case path_parent path of
         Some parent \<Rightarrow> if parent \<noteq> []
           then on_host (''creating SQLite data directory '' @ parent) (ho_create_dir_all host parent) else ret ()
       | None \<Rightarrow> ret ()) (\<lambda>_.
     (let opts = \<lparr>so_filename = path, so_create_if_missing = True, so_wal = True, so_synchronous_normal = True,
            so_foreign_keys = True, so_incremental_vacuum = True, so_busy_timeout = seconds 5\<rparr>;
          pool_size = (if requested = 0 then sqlite_default_max_connections else requested)
      in try_bind (on_host (''opening SQLite database at '' @ path) (ho_open_sqlite host opts pool_size)) (\<lambda>_.
         try_bind (on_host ''running SQLite migrations'' (ho_migrate_sqlite host)) (\<lambda>_.
         try_bind (on_host ''querying auto_vacuum mode'' (ho_auto_vacuum host)) (\<lambda>mode.
         try_bind (if mode \<noteq> 2 then on_host ''one-time VACUUM to enable incremental auto_vacuum'' (ho_vacuum host)
                   else ret ()) (\<lambda>_.
         ret pool_size))))))"

datatype opened_store = PostgresPool u32 mailbox_quotas | SqlitePool string u32 mailbox_quotas

fun opened_quotas :: "opened_store \<Rightarrow> mailbox_quotas" where
  "opened_quotas (PostgresPool n q) = q"
| "opened_quotas (SqlitePool path n q) = q"

definition build_store :: "('h, 'cert, 'key, 'acc) host \<Rightarrow> config \<Rightarrow> (opened_store, 'h, 'acc) starting" where
  "build_store host c =
     (let quotas = mailbox_quotas_of c in
      case db_backend_of c of
        Postgres \<Rightarrow>
          (let pool_size = (if db_max_connections c = 0 then 10 else db_max_connections c) in
           try_bind (on_host ''connecting to PostgreSQL'' (ho_connect_pg host (database_url c) pool_size)) (\<lambda>_.
           try_bind (on_host ''running PostgreSQL migrations'' (ho_migrate_pg host)) (\<lambda>_.
           ret (PostgresPool pool_size quotas))))
      | Sqlite \<Rightarrow>
          (case sqlite_path c of
             None \<Rightarrow> fail (StartPanic ''sqlite backend implies a sqlite path'')
           | Some path \<Rightarrow>
               try_bind (sqlite_connect_with host path (db_max_connections c)) (\<lambda>n.
               ret (SqlitePool path n quotas))))"

subsection \<open>TLS\<close>

definition load_certs :: "('h, 'cert, 'key, 'acc) host \<Rightarrow> string \<Rightarrow> 'h \<Rightarrow> ('cert list, string) result \<times> 'h" where
  "load_certs host path =
     try_bind (ho_open_file host path) (\<lambda>pem.
     try_bind (lift_result (ho_certs host pem)) (\<lambda>certs.
       if certs = [] then fail (''no certificates found in '' @ path) else ret certs))"

definition load_key :: "('h, 'cert, 'key, 'acc) host \<Rightarrow> string \<Rightarrow> 'h \<Rightarrow> ('key, string) result \<times> 'h" where
  "load_key host path =
     try_bind (ho_open_file host path) (\<lambda>pem.
     try_bind (lift_result (ho_private_key host pem)) (\<lambda>key.
       case key of None \<Rightarrow> fail (''no private key found in '' @ path) | Some k \<Rightarrow> ret k))"

definition build_acceptor :: "('h, 'cert, 'key, 'acc) host \<Rightarrow> tls_config \<Rightarrow> ('acc, 'h, 'acc) starting" where
  "build_acceptor host cfg =
     try_bind (on_host (''loading TLS certificate from '' @ tc_cert_path cfg) (load_certs host (tc_cert_path cfg))) (\<lambda>certs.
     try_bind (on_host (''loading TLS private key from '' @ tc_key_path cfg) (load_key host (tc_key_path cfg))) (\<lambda>key.
     try_bind (lift_result (map_err (StartFailed ''configuring TLS protocol versions'') (ho_tls_versions host))) (\<lambda>_.
     lift_result (map_err (StartFailed ''installing TLS certificate/key'') (ho_server_config host certs key)))))"

subsection \<open>Starting the service\<close>

text \<open>\<open>run\<close> up to the TLS acceptor, and from the first spawned task on.\<close>

definition open_service ::
  "(string \<Rightarrow> string option) \<Rightarrow> (string \<Rightarrow> bytes option) \<Rightarrow> (string \<Rightarrow> bytes option) \<Rightarrow> ('h, 'cert, 'key, 'acc) host
   \<Rightarrow> env \<Rightarrow> (config \<times> opened_store \<times> 'acc option, 'h, 'acc) starting" where
  "open_service parse_addr read_file b64 host env =
     try_bind (lift_result (map_err LoadingConfiguration (from_env parse_addr read_file b64 env))) (\<lambda>c.
     try_bind (build_store host c) (\<lambda>store.
     try_bind (case tls c of
         Some t \<Rightarrow> try_bind (with_context ''building TLS acceptor'' (build_acceptor host t)) (\<lambda>acc. ret (Some acc))
       | None \<Rightarrow> ret None) (\<lambda>tls_acceptor.
     ret (c, store, tls_acceptor))))"

definition spawn_tasks ::
  "(duration \<Rightarrow> u32 \<Rightarrow> bool) \<Rightarrow> ('k, 'g, 'm) web_push_lib \<Rightarrow> ('c, 'p) apns_lib \<Rightarrow> ('h, 'cert, 'key, 'acc) host
   \<Rightarrow> config \<Rightarrow> 'acc option \<Rightarrow> (unit, 'h, 'acc) starting" where
  "spawn_tasks finish wl al host c tls_acceptor =
     try_bind (if custom_domains_enabled c then spawn ReverifyTask else ret ()) (\<lambda>_.
     try_bind (on_host (''binding HTTP API listener on '' @ api_bind_addr c) (ho_bind host (api_bind_addr c))) (\<lambda>_.
     try_bind (lift_result (map_err StartPanic (api_router finish c))) (\<lambda>layers.
     try_bind (spawn (SmtpTask tls_acceptor)) (\<lambda>_.
     try_bind (spawn (CleanupTask (cleanup_interval c))) (\<lambda>_.
     try_bind (let senders = start_senders wl al c in
               if senders_is_empty senders then ret () else spawn (PushTask senders)) (\<lambda>_.
     spawn (ApiTask layers)))))))"

definition run_service ::
  "(string \<Rightarrow> string option) \<Rightarrow> (string \<Rightarrow> bytes option) \<Rightarrow> (string \<Rightarrow> bytes option) \<Rightarrow> (duration \<Rightarrow> u32 \<Rightarrow> bool)
   \<Rightarrow> ('k, 'g, 'm) web_push_lib \<Rightarrow> ('c, 'p) apns_lib \<Rightarrow> ('h, 'cert, 'key, 'acc) host \<Rightarrow> env
   \<Rightarrow> (config \<times> opened_store, 'h, 'acc) starting" where
  "run_service parse_addr read_file b64 finish wl al host env =
     try_bind (open_service parse_addr read_file b64 host env) (\<lambda>(c, store, tls_acceptor).
     try_bind (spawn_tasks finish wl al host c tls_acceptor) (\<lambda>_.
     ret (c, store)))"

text \<open>Which branch of the final \<open>select!\<close> fires: a task that ended (the outer result is the join of the task,
  the inner one what the task returned) or the signal; and the error line that the branch logs.\<close>

datatype task_exit =
    SmtpExit "((unit, string) result, string) result"
  | ApiExit "((unit, string) result, string) result"
  | CleanupExit "(unit, string) result"
  | ShutdownSignal

fun select_log :: "task_exit \<Rightarrow> (string \<times> string) option" where
  "select_log (SmtpExit (Ok (Ok u))) = None"
| "select_log (SmtpExit (Ok (Err e))) = Some (''SMTP server stopped with error'', e)"
| "select_log (SmtpExit (Err e)) = Some (''SMTP task join error'', e)"
| "select_log (ApiExit (Ok (Ok u))) = None"
| "select_log (ApiExit (Ok (Err e))) = Some (''HTTP API stopped with error'', e)"
| "select_log (ApiExit (Err e)) = Some (''API task join error'', e)"
| "select_log (CleanupExit (Ok u)) = None"
| "select_log (CleanupExit (Err e)) = Some (''cleanup task join error'', e)"
| "select_log ShutdownSignal = None"

text \<open>The whole of \<open>run\<close>, given what \<open>select!\<close> sees first: the process stops with the error line as its
  only trace, and \<open>run\<close> returns \<open>Ok\<close>.\<close>

definition run_until ::
  "(string \<Rightarrow> string option) \<Rightarrow> (string \<Rightarrow> bytes option) \<Rightarrow> (string \<Rightarrow> bytes option) \<Rightarrow> (duration \<Rightarrow> u32 \<Rightarrow> bool)
   \<Rightarrow> ('k, 'g, 'm) web_push_lib \<Rightarrow> ('c, 'p) apns_lib \<Rightarrow> ('h, 'cert, 'key, 'acc) host \<Rightarrow> env \<Rightarrow> task_exit
   \<Rightarrow> ((string \<times> string) option, 'h, 'acc) starting" where
  "run_until parse_addr read_file b64 finish wl al host env exit =
     try_bind (run_service parse_addr read_file b64 finish wl al host env) (\<lambda>_. ret (select_log exit))"

subsection \<open>All or nothing\<close>

lemma path_parent_examples:
  "path_parent ''data/anony-mail.db'' = Some ''data''" "path_parent ''mail.db'' = Some []"
  "path_parent ''./mail.db'' = Some ''.''" "path_parent ''/mail.db'' = Some ''/''"
  "path_parent ''/var//lib/./mail.db/'' = Some ''/var//lib''" "path_parent ''/'' = None" "path_parent [] = None"
  by code_simp+

lemma keeps_on_host [intro!, simp]: "keeps bo_tasks (on_host ctx f)"
  by (auto simp: keeps_def on_host_def split: prod.splits)

lemma keeps_with_context [intro!, simp]: "keeps bo_tasks m \<Longrightarrow> keeps bo_tasks (with_context ctx m)"
  by (auto simp: keeps_def with_context_def split: prod.splits) (metis snd_conv)

lemma keeps_opening [intro!, simp]:
  "keeps bo_tasks (sqlite_connect_with host path n)" "keeps bo_tasks (build_store host c)"
  "keeps bo_tasks (build_acceptor host t)"
proof -
  show sqlite: "keeps bo_tasks (sqlite_connect_with host path n)" for path n
    unfolding sqlite_connect_with_def Let_def by (auto split: option.split)
  show "keeps bo_tasks (build_store host c)"
    unfolding build_store_def Let_def using sqlite by (auto split: db_backend.split option.split)
  show "keeps bo_tasks (build_acceptor host t)"
    unfolding build_acceptor_def by auto
qed

lemma build_store_quotas: "build_store host c b = (Ok s, b') \<Longrightarrow> opened_quotas s = mailbox_quotas_of c"
  by (auto simp: build_store_def Let_def try_bind_Ok ret_def fail_def split: db_backend.splits option.splits)

text \<open>The \<open>expect\<close> in \<open>build_store\<close> cannot fail.\<close>

lemma sqlite_backend_path: "db_backend_of c = Sqlite \<Longrightarrow> sqlite_path c \<noteq> None"
  by (simp add: sqlite_path_def Let_def)

lemma spawn_run: "spawn t b = (r, b') \<longleftrightarrow> r = Ok () \<and> b' = b\<lparr>bo_tasks := bo_tasks b @ [t]\<rparr>"
  by (auto simp: spawn_def)

lemma open_service_keeps: "keeps bo_tasks (open_service parse_addr read_file b64 host env)"
  unfolding open_service_def by (auto split: option.split)

lemma open_service_Ok:
  assumes "open_service parse_addr read_file b64 host env b = (Ok (c, store, acc), b')"
  shows "config_ok c" "opened_quotas store = mailbox_quotas_of c" "acc = None \<longleftrightarrow> tls c = None"
proof -
  obtain b1 b2 where "from_env parse_addr read_file b64 env = Ok c" "build_store host c b1 = (Ok store, b2)"
    "(case tls c of Some t \<Rightarrow> try_bind (with_context ''building TLS acceptor'' (build_acceptor host t)) (\<lambda>acc. ret (Some acc))
      | None \<Rightarrow> ret None) b2 = (Ok acc, b')"
    using assms by (auto simp: open_service_def try_bind_Ok ret_def lift_result_def)
  then show "config_ok c" "opened_quotas store = mailbox_quotas_of c" "acc = None \<longleftrightarrow> tls c = None"
    using from_env_config_ok build_store_quotas
    by (blast, blast, auto simp: ret_def try_bind_Ok split: option.splits)
qed

lemma spawn_tasks_outcome:
  assumes "spawn_tasks finish wl al host c acc b = (r, b')"
  shows "case r of
      Ok _ \<Rightarrow> \<exists>layers. api_router finish c = Ok layers \<and>
        bo_tasks b' = bo_tasks b @ (if custom_domains_enabled c then [ReverifyTask] else []) @
          [SmtpTask acc, CleanupTask (cleanup_interval c)] @
          (if senders_is_empty (start_senders wl al c) then [] else [PushTask (start_senders wl al c)]) @
          [ApiTask layers]
    | Err e \<Rightarrow> bo_tasks b' = bo_tasks b @ (if custom_domains_enabled c then [ReverifyTask] else [])"
proof -
  define b1 where "b1 = (if custom_domains_enabled c then b\<lparr>bo_tasks := bo_tasks b @ [ReverifyTask]\<rparr> else b)"
  obtain q b2 where bind: "on_host (''binding HTTP API listener on '' @ api_bind_addr c)
      (ho_bind host (api_bind_addr c)) b1 = (q, b2)" by fastforce
  have tasks: "bo_tasks b2 = bo_tasks b @ (if custom_domains_enabled c then [ReverifyTask] else [])"
    using keepsD [OF keeps_on_host bind] by (simp add: b1_def)
  have first: "(if custom_domains_enabled c then spawn ReverifyTask else ret ()) b = (Ok (), b1)"
    by (simp add: b1_def spawn_def ret_def)
  show ?thesis
  proof (cases q)
    case (Err e)
    then have "r = Err e" "b' = b2" using assms bind first by (simp_all add: spawn_tasks_def try_bind_def)
    then show ?thesis using tasks by simp
  next
    case (Ok u)
    then show ?thesis
      using assms bind first tasks
      by (cases "api_router finish c") (auto simp: spawn_tasks_def try_bind_def lift_result_def spawn_def ret_def Let_def)
  qed
qed

text \<open>C32: Start-up is all or nothing. When \<open>run\<close> gets as far as serving, the configuration is consistent, the
  store was opened with the configured quotas, there is a TLS acceptor exactly when a certificate is
  configured, the HTTP listener is bound and the router built, and the tasks running are exactly the
  re-verification (when custom domains are on), SMTP, cleanup, the push worker (when a channel has
  credentials) and the API. When any step fails or panics, no mail is accepted and no request is
  served: at most the re-verification task was spawned.\<close>

theorem startup_all_or_nothing:
  assumes "run_service parse_addr read_file b64 finish wl al host env b = (r, b')" "bo_tasks b = []"
  shows "case r of
      Ok (c, store) \<Rightarrow> config_ok c \<and> opened_quotas store = mailbox_quotas_of c \<and>
        (\<exists>acc layers. (acc = None \<longleftrightarrow> tls c = None) \<and> api_router finish c = Ok layers \<and>
           bo_tasks b' = (if custom_domains_enabled c then [ReverifyTask] else []) @
             [SmtpTask acc, CleanupTask (cleanup_interval c)] @
             (if senders_is_empty (start_senders wl al c) then [] else [PushTask (start_senders wl al c)]) @
             [ApiTask layers])
    | Err e \<Rightarrow> set (bo_tasks b') \<subseteq> {ReverifyTask}"
  using assms(1) unfolding run_service_def
proof (cases rule: try_bind_cases)
  case (stop e)
  then show ?thesis using keepsD [OF open_service_keeps stop(1)] assms(2) by simp
next
  case (cont x b1)
  obtain c store acc where x: "x = (c, store, acc)" by (metis prod.exhaust)
  note opened = open_service_Ok [OF cont(1) [unfolded x]]
  have none: "bo_tasks b1 = []" using keepsD [OF open_service_keeps cont(1)] assms(2) by simp
  have "try_bind (spawn_tasks finish wl al host c acc) (\<lambda>_. ret (c, store)) b1 = (r, b')"
    using cont(2) x by simp
  then obtain q where "spawn_tasks finish wl al host c acc b1 = (q, b')" "r = map_ok (\<lambda>_. (c, store)) q"
    by (auto simp: try_bind_def ret_def split: prod.splits result.splits)
  with spawn_tasks_outcome [of finish wl al host c acc b1 q b'] opened none show ?thesis
    by (cases q) auto
qed

text \<open>\<open>run\<close> fails exactly when start-up does: how a task ends never makes it fail, not even a server that
  stopped with an error.\<close>

lemma run_until_outcome:
  "run_until parse_addr read_file b64 finish wl al host env exit b =
     (case run_service parse_addr read_file b64 finish wl al host env b of
        (Ok _, b') \<Rightarrow> (Ok (select_log exit), b') | (Err e, b') \<Rightarrow> (Err e, b'))"
  by (simp add: run_until_def try_bind_def ret_def split: prod.splits result.splits)

definition idle_host :: "(unit, string, string, string) host" where
  "idle_host = \<lparr>ho_create_dir_all = (\<lambda>_. ret ()), ho_open_sqlite = (\<lambda>_ _. ret ()), ho_migrate_sqlite = ret (),
     ho_auto_vacuum = ret 2, ho_vacuum = ret (), ho_connect_pg = (\<lambda>_ _. ret ()), ho_migrate_pg = ret (),
     ho_open_file = (\<lambda>_. ret []), ho_certs = (\<lambda>_. Ok []), ho_private_key = (\<lambda>_. Ok None),
     ho_tls_versions = Ok (), ho_server_config = (\<lambda>_ _. Ok []), ho_bind = (\<lambda>_. ret ())\<rparr>"

definition no_web_push :: "(unit, unit, unit) web_push_lib" where
  "no_web_push = \<lparr>wl_from_base64 = (\<lambda>_. None), wl_to_json = (\<lambda>_. None), wl_sign = (\<lambda>_ _ _. None),
     wl_build = (\<lambda>_ _ _. None), wl_send = (\<lambda>_. Ok ())\<rparr>"

definition no_apns :: "(unit, unit) apns_lib" where
  "no_apns = \<lparr>apl_token = (\<lambda>_ _ _ _. None), apl_uuid = (\<lambda>_. []), apl_collapse_id = (\<lambda>_. None),
     apl_build = (\<lambda>_ _ _ _ _. ()), apl_add_custom_data = (\<lambda>_ _ _. None), apl_send = (\<lambda>_ _. Ok ())\<rparr>"

definition sample_start :: "(config \<times> opened_store, start_error) result \<times> (unit, string) boot" where
  "sample_start = run_service Some (\<lambda>_. None) Some (\<lambda>p b. p \<noteq> 0 \<and> b \<noteq> 0) no_web_push no_apns idle_host sample_env
     \<lparr>bo_host = (), bo_tasks = []\<rparr>"

theorem startup_all_or_nothing_witness:
  "\<exists>c store b' acc. sample_start = (Ok (c, store), b') \<and> config_ok c \<and> opened_quotas store = mailbox_quotas_of c \<and>
     SmtpTask acc \<in> set (bo_tasks b')"
proof -
  have "case fst sample_start of Ok _ \<Rightarrow> True | Err _ \<Rightarrow> False" by code_simp
  then obtain cs where "fst sample_start = Ok cs" by (auto split: result.splits)
  then obtain c store b' where run: "sample_start = (Ok (c, store), b')"
    by (metis prod.exhaust_sel)
  from startup_all_or_nothing [OF run [unfolded sample_start_def]] obtain acc where
    "config_ok c" "opened_quotas store = mailbox_quotas_of c" "SmtpTask acc \<in> set (bo_tasks b')"
    by (auto simp: Un_iff)
  with run show ?thesis by blast
qed

end
