(* ===== verification/Store_Properties.thy ===== *)
theory Store_Properties
  imports Memory_Properties
begin

text \<open>
  Properties of every backend that meets the store contract: the mailbox quotas hold in every history,
  what was saved is read back, and a counter that was accepted is not accepted again. They are stated
  on the abstract view and proved inside the contract; the witnesses run on the in-memory store.
\<close>

subsection \<open>Quotas on the view\<close>

text \<open>The size of the entries other than those named in \<open>I\<close>, as the quota counts it.\<close>

definition entries_bytes :: "uuid set \<Rightarrow> (uuid \<Rightarrow> ventry option) \<Rightarrow> nat" where
  "entries_bytes I ents = (\<Sum>i \<in> dom ents - I. nat (max (sm_raw_size (ve_message (the (ents i)))) 0))"

definition capped :: "nat \<Rightarrow> sview \<Rightarrow> bool" where
  "capped N v \<longleftrightarrow> (\<forall>a. finite (dom (v_entry v a)) \<and> card (dom (v_entry v a)) \<le> N)"

definition keyed :: "(uuid \<Rightarrow> ventry option) \<Rightarrow> bool" where
  "keyed ents \<longleftrightarrow> (\<forall>i e. ents i = Some e \<longrightarrow> sm_id (ve_message e) = i)"

lemma row_of_message [simp]:
  "row_id (message_row m) = sm_id m" "row_size (message_row m) = nat (max (sm_raw_size m) 0)"
  by (simp_all add: message_row_def row_id_def row_size_def)

lemma kept_rows:
  assumes "rows_of_entries ents rows" "keyed ents"
  shows "bij_betw row_id (set (filter (quota_keeps q mid rows) rows)) (dom (keep_entries q mid rows ents))"
    "r \<in> set rows \<Longrightarrow> quota_keeps q mid rows r \<Longrightarrow>
       row_size r = nat (max (sm_raw_size (ve_message (the (keep_entries q mid rows ents (row_id r))))) 0)"
proof -
  have rows: "distinct (map row_id rows)" "set rows = (\<lambda>e. message_row (ve_message e)) ` ran ents"
    using assms(1) by (auto simp: rows_of_entries_def)
  have row: "\<exists>e. ents (row_id r) = Some e \<and> r = message_row (ve_message e)" if "r \<in> set rows" for r
    using that assms(2) by (auto simp: rows(2) ran_def keyed_def)
  have "inj_on row_id (set (filter (quota_keeps q mid rows) rows))"
    using rows(1) by (auto simp: distinct_map intro: inj_on_subset)
  moreover have "row_id ` set (filter (quota_keeps q mid rows) rows) = dom (keep_entries q mid rows ents)"
  proof (intro subset_antisym subsetI)
    fix i assume "i \<in> row_id ` set (filter (quota_keeps q mid rows) rows)"
    then show "i \<in> dom (keep_entries q mid rows ents)"
      using row by (fastforce simp: keep_entries_def)
  next
    fix i assume "i \<in> dom (keep_entries q mid rows ents)"
    then obtain e where e: "ents i = Some e" "quota_keeps q mid rows (message_row (ve_message e))"
      by (auto simp: keep_entries_def split: option.splits if_splits)
    then have "message_row (ve_message e) \<in> set rows" "row_id (message_row (ve_message e)) = i"
      using assms(2) by (auto simp: rows(2) ran_def keyed_def)
    with e(2) show "i \<in> row_id ` set (filter (quota_keeps q mid rows) rows)" by force
  qed
  ultimately show "bij_betw row_id (set (filter (quota_keeps q mid rows) rows)) (dom (keep_entries q mid rows ents))"
    by (simp add: bij_betw_def)
  show "row_size r = nat (max (sm_raw_size (ve_message (the (keep_entries q mid rows ents (row_id r))))) 0)"
    if "r \<in> set rows" "quota_keeps q mid rows r"
    using row [OF that(1)] that(2) by (auto simp: keep_entries_def)
qed

lemma kept_bytes:
  assumes "rows_of_entries ents rows" "keyed ents" and kept: "kept = keep_entries q mid rows ents"
  shows "entries_bytes I kept =
    sum_list (map row_size (filter (\<lambda>r. quota_keeps q mid rows r \<and> row_id r \<notin> I) rows))"
proof -
  note bij = kept_rows(1) [OF assms(1,2), of q mid, folded kept]
  have d: "distinct (map row_id rows)" using assms(1) by (simp add: rows_of_entries_def)
  let ?B = "filter (\<lambda>r. quota_keeps q mid rows r \<and> row_id r \<notin> I) rows"
  have "distinct ?B" using d by (simp add: distinct_map)
  then have "sum_list (map row_size ?B) = sum row_size (set ?B)" by (rule sum_list_distinct_conv_sum_set)
  also have "\<dots> = (\<Sum>r\<in>set ?B. nat (max (sm_raw_size (ve_message (the (kept (row_id r))))) 0))"
    unfolding kept by (intro sum.cong refl kept_rows(2) [OF assms(1,2)]) auto
  also have "\<dots> = entries_bytes I kept"
    unfolding entries_bytes_def
  proof (intro sum.reindex_bij_betw)
    have "dom kept - I = row_id ` set ?B" using bij by (auto simp: bij_betw_def)
    then show "bij_betw row_id (set ?B) (dom kept - I)"
      using d by (auto simp: bij_betw_def distinct_map intro: inj_on_subset)
  qed
  finally show ?thesis by simp
qed

lemma keep_entries_quota:
  assumes "rows_of_entries ents rows" "keyed ents" and kept: "kept = keep_entries q mid rows ents"
  shows "finite (dom kept)" "q_max_messages q \<noteq> 0 \<Longrightarrow> card (dom kept) \<le> unat (q_max_messages q)"
    "q_max_bytes q \<noteq> 0 \<Longrightarrow> unat (q_max_bytes q) < u64_max \<Longrightarrow> entries_bytes {mid} kept \<le> unat (q_max_bytes q)"
proof -
  let ?K = "filter (quota_keeps q mid rows) rows"
  note bij = kept_rows(1) [OF assms(1,2), of q mid, folded kept]
  have d: "distinct (map row_id rows)" using assms(1) by (simp add: rows_of_entries_def)
  show "finite (dom kept)" using bij_betw_finite [OF bij] by simp
  show "q_max_messages q \<noteq> 0 \<Longrightarrow> card (dom kept) \<le> unat (q_max_messages q)"
    using bij_betw_same_card [OF bij] card_length [of ?K] quota_kept_count [OF d, of q mid] by linarith
  assume m: "q_max_bytes q \<noteq> 0" "unat (q_max_bytes q) < u64_max"
  show "entries_bytes {mid} kept \<le> unat (q_max_bytes q)"
    using quota_kept_bytes [OF m(1), of mid rows] m(2) kept_bytes [OF assms, of "{mid}"] by simp
qed

text \<open>The new message is counted too: either the whole mailbox fits, or every other message left in it
  is newer than the new one.\<close>

lemma keep_entries_total:
  assumes "rows_of_entries ents rows" "keyed ents" and kept: "kept = keep_entries q mid rows ents"
    and "q_max_bytes q \<noteq> 0" "unat (q_max_bytes q) < u64_max" "ents mid = Some e0"
    and over: "\<not> entries_bytes {} kept \<le> unat (q_max_bytes q)" and e: "kept i = Some e" "i \<noteq> mid"
  shows "row_key (message_row (ve_message e)) < row_key (message_row (ve_message e0))"
proof (rule ccontr)
  let ?row = "\<lambda>e. message_row (ve_message e)"
  assume older: "\<not> ?thesis"
  have kept_e: "ents i = Some e" "quota_keeps q mid rows (?row e)"
    using e(1) by (auto simp: kept keep_entries_def split: option.splits if_splits)
  then have row: "?row e \<in> set rows" "row_id (?row e) \<noteq> mid"
    using assms(1,2) e(2) by (auto simp: rows_of_entries_def ran_def keyed_def)
  have "row_key r' \<le> row_key (?row e)" if r': "r' \<in> set rows" "row_id r' = mid" for r'
  proof -
    obtain i' e' where "ents i' = Some e'" "r' = ?row e'"
      using assms(1) r'(1) by (auto simp: rows_of_entries_def ran_def)
    moreover from this have "i' = mid" using assms(2) r'(2) by (auto simp: keyed_def)
    ultimately show ?thesis using assms(6) older by (simp add: not_less)
  qed
  from quota_kept_total [OF assms(4,5) row(1) kept_e(2) row(2) this] over
  show False by (simp add: kept_bytes [OF assms(1-3)])
qed

text \<open>Every method but \<open>save_message\<close> leaves a mailbox with messages it had.\<close>

lemma spec_entry_dom:
  "dom (v_entry (snd (spec_create_mailbox now b d ex ow dv v)) a) \<subseteq> dom (v_entry v a)"
  "dom (v_entry (snd (spec_extend_mailbox b ex v)) a) \<subseteq> dom (v_entry v a)"
  "dom (v_entry (snd (spec_delete_mailbox b v)) a) \<subseteq> dom (v_entry v a)"
  "dom (v_entry (snd (spec_rotate_owner_token b h v)) a) \<subseteq> dom (v_entry v a)"
  "dom (v_entry (snd (spec_delete_message b i v)) a) \<subseteq> dom (v_entry v a)"
  "dom (v_entry (snd (spec_mark_seen b i v)) a) \<subseteq> dom (v_entry v a)"
  "dom (v_entry (snd (spec_delete_all_messages b v)) a) \<subseteq> dom (v_entry v a)"
  "dom (v_entry (snd (spec_purge_expired now v)) a) \<subseteq> dom (v_entry v a)"
  "dom (v_entry (snd (spec_add_subscription now sid b kd ep p au cap v)) a) \<subseteq> dom (v_entry v a)"
  "dom (v_entry (snd (spec_delete_subscription b ep v)) a) \<subseteq> dom (v_entry v a)"
  "dom (v_entry (snd (spec_create_custom_domain now d h tok v)) a) \<subseteq> dom (v_entry v a)"
  "dom (v_entry (snd (spec_delete_custom_domain d v)) a) \<subseteq> dom (v_entry v a)"
  "dom (v_entry (snd (spec_record_custom_domain_check d stat va ca v)) a) \<subseteq> dom (v_entry v a)"
  "dom (v_entry (snd (spec_upsert_attested_device k pk now v)) a) \<subseteq> dom (v_entry v a)"
  "dom (v_entry (snd (spec_advance_attested_device_counter k n now v)) a) \<subseteq> dom (v_entry v a)"
  "dom (v_entry (snd (spec_prune_attested_devices now v)) a) \<subseteq> dom (v_entry v a)"
  by (auto simp: spec_create_mailbox_def spec_extend_mailbox_def spec_delete_mailbox_def
      forget_mailboxes_def spec_rotate_owner_token_def spec_delete_message_def spec_mark_seen_def
      spec_delete_all_messages_def spec_purge_expired_def spec_add_subscription_def Let_def
      spec_delete_subscription_def spec_create_custom_domain_def spec_delete_custom_domain_def
      spec_record_custom_domain_check_def spec_upsert_attested_device_def
      spec_advance_attested_device_counter_def spec_prune_attested_devices_def split: option.splits if_splits)

lemma capped_mono: "capped N v \<Longrightarrow> (\<And>a. dom (v_entry v' a) \<subseteq> dom (v_entry v a)) \<Longrightarrow> capped N v'"
  unfolding capped_def by (meson card_mono finite_subset order_trans)

context store_contract
begin

lemma saved_quota:
  assumes "sinv s" "fresh_ids mid aids m (view s)"
    and s': "s' = snd (st_save_message ops now mid aids a m s)"
  shows "q_max_messages quotas \<noteq> 0 \<Longrightarrow> capped (unat (q_max_messages quotas)) (view s) \<Longrightarrow>
      capped (unat (q_max_messages quotas)) (view s')"
    "fst (st_save_message ops now mid aids a m s) = Ok x \<Longrightarrow> q_max_bytes quotas \<noteq> 0 \<Longrightarrow>
      unat (q_max_bytes quotas) < u64_max \<Longrightarrow> entries_bytes {mid} (v_entry (view s') a) \<le> unat (q_max_bytes quotas)"
    "b \<noteq> a \<Longrightarrow> v_entry (view s') b = v_entry (view s) b"
    "fst (st_save_message ops now mid aids a m s) = Ok x \<Longrightarrow> q_max_bytes quotas \<noteq> 0 \<Longrightarrow>
      unat (q_max_bytes quotas) < u64_max \<Longrightarrow> \<not> entries_bytes {} (v_entry (view s') a) \<le> unat (q_max_bytes quotas) \<Longrightarrow>
      v_entry (view s') a i = Some e \<Longrightarrow> i \<noteq> mid \<Longrightarrow>
      now < sm_received_at (ve_message e) \<or> sm_received_at (ve_message e) = now \<and> mid < i"
proof -
  let ?ents = "(v_entry (view s) a)(mid \<mapsto> new_ventry now mid aids a m)"
  have keyed: "keyed ?ents"
    using entry_keys [OF assms(1)] by (auto simp: keyed_def new_ventry_def stored_of_new_def)
  note out = save_message [OF assms(1,2), of now a "fst (st_save_message ops now mid aids a m s)" s', unfolded s' prod.collapse, OF refl, folded s']
  have saved: "view s' = view s \<and> (\<exists>e. fst (st_save_message ops now mid aids a m s) = Err e) \<or> (\<exists>rows. rows_of_entries ?ents rows \<and>
      view s' = (view s)\<lparr>v_entry := (v_entry (view s))(a := keep_entries quotas mid rows ?ents)\<rparr>)"
    using out by (auto simp: spec_save_message_def Let_def)
  show "q_max_messages quotas \<noteq> 0 \<Longrightarrow> capped (unat (q_max_messages quotas)) (view s) \<Longrightarrow>
      capped (unat (q_max_messages quotas)) (view s')"
    using saved keep_entries_quota(1,2) [OF _ keyed refl] by (auto simp: capped_def)
  show "fst (st_save_message ops now mid aids a m s) = Ok x \<Longrightarrow> q_max_bytes quotas \<noteq> 0 \<Longrightarrow>
      unat (q_max_bytes quotas) < u64_max \<Longrightarrow> entries_bytes {mid} (v_entry (view s') a) \<le> unat (q_max_bytes quotas)"
    using saved keep_entries_quota(3) [OF _ keyed refl] by auto
  show "b \<noteq> a \<Longrightarrow> v_entry (view s') b = v_entry (view s) b" using saved by auto
  assume over: "fst (st_save_message ops now mid aids a m s) = Ok x" "q_max_bytes quotas \<noteq> 0"
    "unat (q_max_bytes quotas) < u64_max" "\<not> entries_bytes {} (v_entry (view s') a) \<le> unat (q_max_bytes quotas)"
    and e: "v_entry (view s') a i = Some e" "i \<noteq> mid"
  from saved over(1) obtain rows where rows: "rows_of_entries ?ents rows"
    "v_entry (view s') a = keep_entries quotas mid rows ?ents" by auto
  have "sm_id (ve_message e) = i"
    using e entry_keys [OF assms(1)]
    by (auto simp: rows(2) keep_entries_def split: option.splits if_splits)
  with keep_entries_total [OF rows(1) keyed rows(2) over(2,3) _ over(4) e, of "new_ventry now mid aids a m"]
  show "now < sm_received_at (ve_message e) \<or> sm_received_at (ve_message e) = now \<and> mid < i"
    by (auto simp: row_key_def message_row_def row_id_def new_ventry_def stored_of_new_def canon_message_def word_less_def)
qed

lemma capped_either: "sinv t \<and> (view t = v \<or> view t = view s) \<Longrightarrow> (\<And>a. dom (v_entry v a) \<subseteq> dom (v_entry (view s) a)) \<Longrightarrow>
    capped N (view s) \<Longrightarrow> capped N (view t)"
  by (metis capped_mono)

lemmas op_capped =
  capped_either [OF op_views(1) spec_entry_dom(1)]
  capped_either [OF op_views(2) spec_entry_dom(2)]
  capped_either [OF op_views(3) spec_entry_dom(3)]
  capped_either [OF op_views(4) spec_entry_dom(4)]
  capped_either [OF op_views(5) spec_entry_dom(5)]
  capped_either [OF op_views(6) spec_entry_dom(6)]
  capped_either [OF op_views(7) spec_entry_dom(7)]
  capped_either [OF op_views(8) spec_entry_dom(8)]
  capped_either [OF op_views(9) spec_entry_dom(10)]
  capped_either [OF op_views(10) spec_entry_dom(11)]
  capped_either [OF op_views(11) spec_entry_dom(12)]
  capped_either [OF op_views(12) spec_entry_dom(13)]
  capped_either [OF op_views(13) spec_entry_dom(14)]
  capped_either [OF op_views(14) spec_entry_dom(15)]
  capped_either [OF op_views(15) spec_entry_dom(16)]
  capped_either [OF add_subscription_view spec_entry_dom(9)]

lemma step_capped:
  assumes "store_step ops view s s'" "sinv s" "q_max_messages quotas \<noteq> 0" "capped (unat (q_max_messages quotas)) (view s)"
  shows "capped (unat (q_max_messages quotas)) (view s')"
  using assms(1)
proof cases
  case (save_message mid aids m now a)
  then show ?thesis using saved_quota(1) [OF assms(2) _ refl assms(3,4)] by blast
next
  case run_maintenance
  then show ?thesis using Store_Contract.store_contract.run_maintenance [OF store_contract_axioms assms(2)] assms(4) by simp
qed (simp_all add: op_capped assms(2,4))

lemma reachable_capped:
  assumes "store_reachable ops view s s'" "sinv s" "q_max_messages quotas \<noteq> 0"
    "capped (unat (q_max_messages quotas)) (view s)"
  shows "sinv s' \<and> capped (unat (q_max_messages quotas)) (view s')"
  using assms(1) unfolding store_reachable_def
  by (induction rule: rtranclp_induct) (use assms step_inv step_capped in blast)+

text \<open>What was saved as the newest message of its mailbox, or without a count quota, is read back.\<close>

lemma saved_kept:
  assumes "sinv s" "fresh_ids mid aids m (view s)" "st_save_message ops now mid aids a m s = (Ok x, s')"
    "q_max_messages quotas = 0 \<or> (\<forall>i e. v_entry (view s) a i = Some e \<longrightarrow>
       sm_received_at (ve_message e) < now \<or> sm_received_at (ve_message e) = now \<and> i < mid)"
  shows "sinv s'" "x = stored_of_new now mid aids a m" "v_entry (view s') a mid = Some (new_ventry now mid aids a m)"
proof -
  note out = save_message [OF assms(1-3)]
  let ?ents = "(v_entry (view s) a)(mid \<mapsto> new_ventry now mid aids a m)"
  let ?new = "message_row (ve_message (new_ventry now mid aids a m))"
  show "sinv s'" "x = stored_of_new now mid aids a m" using out by simp_all
  from out obtain rows where rows: "rows_of_entries ?ents rows"
    and view: "v_entry (view s') a = keep_entries quotas mid rows ?ents" by (auto simp: spec_save_message_def Let_def)
  have new: "row_id ?new = mid" "row_key ?new = (- now, - uint mid)"
    by (simp_all add: new_ventry_def stored_of_new_def row_key_def message_row_def row_id_def canon_message_def)
  have "quota_keeps quotas mid rows ?new"
  proof (cases "q_max_messages quotas = 0")
    case False
    show ?thesis
    proof (rule quota_keeps_newest [OF _ new(1)])
      fix r assume "r \<in> set rows"
      then consider "r = ?new" | i e where "v_entry (view s) a i = Some e" "r = message_row (ve_message e)"
        using rows by (auto simp: rows_of_entries_def ran_def split: if_splits)
      then show "\<not> row_key r < row_key ?new"
      proof cases
        case (2 i e)
        then show ?thesis using assms(4) False entry_keys [OF assms(1) 2(1)]
          unfolding new(2) by (fastforce simp: row_key_def message_row_def row_id_def word_less_def)
      qed simp
    qed
  qed (use new(1) in \<open>simp add: quota_keeps_def\<close>)
  then show "v_entry (view s') a mid = Some (new_ventry now mid aids a m)"
    unfolding view by (simp add: keep_entries_def)
qed

end

text \<open>The attachment of a new entry under its identifier.\<close>

lemma new_ventry_attachment:
  assumes "inj_on aids {..<length (nm_attachments m)}" "j < length (nm_attachments m)"
    "v_entry v a mid = Some (new_ventry now mid aids a m)"
  shows "spec_get_attachment a mid (aids j) v = Some \<lparr>at_filename = na_filename (nm_attachments m ! j),
     at_content_type = na_content_type (nm_attachments m ! j), at_content = na_content (nm_attachments m ! j)\<rparr>"
proof -
  let ?atts = "fst (store_attachments aids (nm_attachments m))" and ?cs = "snd (store_attachments aids (nm_attachments m))"
  note att = stored_attachment_lookup [OF assms(1,2)]
  have ids: "map am_id ?atts = map aids [0..<length (nm_attachments m)]" "map fst ?cs = map aids [0..<length (nm_attachments m)]"
    by (auto simp: store_attachments_def enumerate_eq_zip intro!: nth_equalityI)
  have d: "distinct (map am_id ?atts)" "distinct (map fst ?cs)"
    unfolding ids using assms(1) by (simp_all add: distinct_map atLeast0LessThan)
  have "map_of ?cs (aids j) = Some (na_content (nm_attachments m ! j))"
    using att(2) d(2) by (intro map_of_is_SomeI) (auto dest!: find_SomeD)
  moreover have "find (\<lambda>x. am_id x = aids j) (sort_key am_id ?atts) = Some \<lparr>am_id = aids j,
      am_filename = na_filename (nm_attachments m ! j), am_content_type = na_content_type (nm_attachments m ! j),
      am_size = as_i32 (length (na_content (nm_attachments m ! j)))\<rparr>"
    unfolding find_sort_key [OF d(1)] by (rule att(1))
  ultimately show ?thesis
    using assms(3) by (simp add: spec_get_attachment_def new_ventry_def canon_message_def stored_of_new_def)
qed

subsection \<open>Properties\<close>

text \<open>C10: Quotas. In every history of calls, from any number of tasks, on any backend that meets the
  contract, every mailbox holds at most \<open>max_messages\<close> messages (a zero cap means no cap). Right after
  a successful \<open>save_message\<close> with a byte cap, the whole mailbox, the new message included, holds at most
  \<open>max_bytes\<close> bytes, unless the new message alone is what the cap cannot hold: then the other messages
  left hold at most \<open>max_bytes\<close> bytes and every one of them is newer than the message just saved (so a
  message that is the newest of its mailbox and too large is left alone there). No other mailbox is
  touched.\<close>

theorem save_respects_quotas:
  assumes "store_contract ops q sinv view reliable T" "sinv s0" "store_reachable ops view s0 s"
    and "fresh_ids mid aids m (view s)" "st_save_message ops now mid aids a m s = (Ok x, s')"
  shows "(q_max_messages q \<noteq> 0 \<and> capped (unat (q_max_messages q)) (view s0) \<longrightarrow>
      capped (unat (q_max_messages q)) (view s) \<and> capped (unat (q_max_messages q)) (view s')) \<and>
    (q_max_bytes q \<noteq> 0 \<and> unat (q_max_bytes q) < u64_max \<longrightarrow>
      entries_bytes {} (v_entry (view s') a) \<le> unat (q_max_bytes q) \<or>
      entries_bytes {mid} (v_entry (view s') a) \<le> unat (q_max_bytes q) \<and>
      (\<forall>i e. v_entry (view s') a i = Some e \<longrightarrow> i \<noteq> mid \<longrightarrow>
         now < sm_received_at (ve_message e) \<or> sm_received_at (ve_message e) = now \<and> mid < i)) \<and>
    (\<forall>b. b \<noteq> a \<longrightarrow> v_entry (view s') b = v_entry (view s) b)"
proof -
  have inv: "sinv s" by (rule store_contract.reachable_inv [OF assms(1,3,2)])
  have s': "s' = snd (st_save_message ops now mid aids a m s)" "fst (st_save_message ops now mid aids a m s) = Ok x"
    using assms(5) by simp_all
  note saved = store_contract.saved_quota [OF assms(1) inv assms(4) s'(1)]
  show ?thesis
    using saved(1,3) saved(2,4) [OF s'(2)] store_contract.reachable_capped [OF assms(1,3,2)] by blast
qed

lemma store_2_saved:
  "\<exists>x. mem_save_message quota2 20 2 (att_id 200) ''u@d'' mail_1k store_2 =
     (Ok x, snd (mem_save_message quota2 20 2 (att_id 200) ''u@d'' mail_1k store_2))"
  by (simp add: mem_save_message_def Let_def case_prod_beta)

theorem save_respects_quotas_witness:
  "capped 2 (mem_view (snd (mem_save_message quota2 20 2 (att_id 200) ''u@d'' mail_1k store_2))) \<and>
   entries_bytes {} (v_entry (mem_view (snd (mem_save_message quota2 20 2 (att_id 200) ''u@d'' mail_1k store_2))) ''u@d'') \<le> 2500"
proof -
  let ?s = "snd (mem_save_message quota2 20 2 (att_id 200) ''u@d'' mail_1k store_2)"
  have fresh1: "fresh_ids 1 (att_id 100) mail_1k (mem_view store_1)" by (rule ids_fresh_fresh) code_simp
  have reach: "store_reachable (memory_ops quota2) mem_view store_1 store_2"
    using store_step.save_message [where view = mem_view and s = store_1 and ops = "memory_ops quota2" and now = 10
        and a = "''u@d''", OF fresh1]
    by (simp add: store_reachable_def store_2_def)
  obtain x where saved: "st_save_message (memory_ops quota2) 20 2 (att_id 200) ''u@d'' mail_1k store_2 = (Ok x, ?s)"
    using store_2_saved by auto
  have "messages store_1 = []" by code_simp
  then have "v_entry (mem_view store_1) a = Map.empty" for a by (simp add: fun_eq_iff find_entry_def)
  then have caps: "capped 2 (mem_view store_1)" "q_max_messages quota2 \<noteq> 0" "unat (q_max_messages quota2) = 2"
    "q_max_bytes quota2 \<noteq> 0" "unat (q_max_bytes quota2) = 2500" "unat (q_max_bytes quota2) < u64_max"
    by (simp_all add: capped_def quota2_def u64_max_def)
  have "map_option (\<lambda>e. sm_received_at (en_message e)) (find_entry ''u@d'' 1 ?s) = Some 10" by code_simp
  then obtain e where e: "v_entry (mem_view ?s) ''u@d'' 1 = Some e" "sm_received_at (ve_message e) = 10"
    by (auto simp: entry_view_def canon_message_def)
  have "(1 :: uuid) \<noteq> 2" "\<not> (20 :: datetime) < 10" "(10 :: datetime) \<noteq> 20" by simp_all
  with save_respects_quotas [OF mem.store_contract_axioms store_1_inv reach store_2_fresh saved] caps e
  show ?thesis by metis
qed

text \<open>C19: Round trip. A message saved on a reliable backend, as the newest of its mailbox or without a
  count quota, is readable afterwards: \<open>get_message\<close> returns what \<open>save_message\<close> returned (the order of
  the attachments apart), \<open>get_raw_message\<close> the retained bytes, and \<open>get_attachment\<close> each attachment's
  name, type and content.\<close>

theorem save_get_roundtrip:
  assumes contract: "store_contract ops q sinv view True T" and "sinv s" "fresh_ids mid aids m (view s)"
    and "st_save_message ops now mid aids a m s = (Ok x, s')"
    and "q_max_messages q = 0 \<or> (\<forall>i e. v_entry (view s) a i = Some e \<longrightarrow>
       sm_received_at (ve_message e) < now \<or> sm_received_at (ve_message e) = now \<and> i < mid)"
  shows "x = stored_of_new now mid aids a m \<and>
    (\<exists>y. st_get_message ops a mid s' = Ok (Some y) \<and> canon_message y = canon_message x) \<and>
    st_get_raw_message ops a mid s' = Ok (nm_raw_content m) \<and>
    (\<forall>j < length (nm_attachments m). st_get_attachment ops a mid (aids j) s' =
       Ok (Some \<lparr>at_filename = na_filename (nm_attachments m ! j),
                 at_content_type = na_content_type (nm_attachments m ! j),
                 at_content = na_content (nm_attachments m ! j)\<rparr>))"
proof -
  note kept = store_contract.saved_kept [OF contract assms(2-5)]
  have "inj_on aids {..<length (nm_attachments m)}" using assms(3) by (simp add: fresh_ids_def)
  note att = new_ventry_attachment [OF this _ kept(3)]
  have "\<exists>y. st_get_message ops a mid s' = Ok (Some y) \<and> canon_message y = canon_message x"
    using store_contract.get_message [OF contract kept(1), of a mid] kept(2,3)
    by (cases "st_get_message ops a mid s'") (auto simp: read_refines_def new_ventry_def)
  moreover have "st_get_raw_message ops a mid s' = Ok (nm_raw_content m)"
    using store_contract.get_raw_message [OF contract kept(1), of a mid] kept(3)
    by (simp add: read_refines_def new_ventry_def)
  moreover have "st_get_attachment ops a mid (aids j) s' = Ok (spec_get_attachment a mid (aids j) (view s'))" for j
    using store_contract.get_attachment [OF contract kept(1), of a mid "aids j"] by (simp add: read_refines_def)
  ultimately show ?thesis using kept(2) att by simp
qed

theorem save_get_roundtrip_witness:
  "mem_get_raw_message ''u@d'' 2 (snd (mem_save_message quota2 20 2 (att_id 200) ''u@d'' mail_1k store_2)) =
     Ok (Some ''raw'')"
proof -
  have "list_all (\<lambda>e. sm_received_at (en_message e) < 20) (messages store_2)" by code_simp
  then have "\<forall>i e. v_entry (mem_view store_2) ''u@d'' i = Some e \<longrightarrow>
      sm_received_at (ve_message e) < 20 \<or> sm_received_at (ve_message e) = 20 \<and> i < 2"
    by (auto simp: list_all_iff entry_view_def canon_message_def dest!: find_entry_D)
  moreover obtain x where "st_save_message (memory_ops quota2) 20 2 (att_id 200) ''u@d'' mail_1k store_2 =
      (Ok x, snd (mem_save_message quota2 20 2 (att_id 200) ''u@d'' mail_1k store_2))"
    using store_2_saved by auto
  ultimately show ?thesis
    using save_get_roundtrip [OF mem.store_contract_axioms store_2_inv store_2_fresh]
    by (simp add: mail_1k_def)
qed

text \<open>C17: Replay protection. After \<open>advance_attested_device_counter\<close> accepted the counter \<open>c\<close> for a
  device, no call with a counter \<open>c' \<le> c\<close> succeeds in any later state in which the device stayed
  registered, whatever other calls (re-attestation included) happened in between, on every backend
  that meets the contract.\<close>

theorem assertion_replay_rejected:
  assumes "store_contract ops q sinv view reliable T" "sinv s"
    and "st_advance_attested_device_counter ops k c t s = (Ok True, s1)"
    and "device_history ops view k s1 s2" "c' \<le> c"
  shows "fst (st_advance_attested_device_counter ops k c' t' s2) \<noteq> Ok True"
  using store_contract.replay_rejected [OF assms, of t' True] by (metis prod.collapse)

theorem assertion_replay_rejected_witness:
  "let s = snd (mem_upsert_attested_device ''k'' ''pk'' 5 inner_default);
       s1 = snd (mem_advance_attested_device_counter ''k'' 3 6 s);
       s2 = snd (mem_upsert_attested_device ''k'' ''pk2'' 7 s1)
   in fst (mem_advance_attested_device_counter ''k'' 3 8 s2) \<noteq> Ok True"
proof -
  let ?s = "snd (mem_upsert_attested_device ''k'' ''pk'' 5 inner_default)"
  let ?s1 = "snd (mem_advance_attested_device_counter ''k'' 3 6 ?s)"
  let ?s2 = "snd (mem_upsert_attested_device ''k'' ''pk2'' 7 ?s1)"
  have "mem_inv ?s"
    using mem_upsert_attested_device_refines [OF mem_inv_default, of "''k''" "''pk''" 5]
    by (simp add: op_refines_def)
  moreover have "mem_advance_attested_device_counter ''k'' 3 6 ?s = (Ok True, ?s1)" by code_simp
  moreover have "store_step (memory_ops UNLIMITED) mem_view ?s1 ?s2"
    using store_step.upsert_attested_device [of "memory_ops UNLIMITED" mem_view ?s1 "''k''" "''pk2''" 7] by simp
  moreover have "hm_get (attested_devices ?s2) ''k'' \<noteq> None" by code_simp
  ultimately show ?thesis
    using assertion_replay_rejected [OF mem.store_contract_axioms, of ?s UNLIMITED "''k''" 3 6 ?s1 ?s2 3 8]
    by (simp add: device_history_def Let_def r_into_rtranclp)
qed

end
