(* ===== verification/Api_Routes.thy ===== *)
theory Api_Routes
  imports Api_Layers Background
begin

text \<open>
  The route table of \<open>build_router\<close> (\<open>src/api/mod.rs\<close>) with the paths and methods as the source has them,
  the routers of \<open>src/api/docs.rs\<close> and \<open>src/api/legal.rs\<close>, and a whole HTTP request on its way through the
  service: path matching, the limiters, axum's extractors and the handler. The extractors (percent
  decoding, UUID parsing, query strings, JSON bodies) are parameters, and so are the texts of the
  embedded files and, of the \<open>governor\<close> crate, how a key is extracted and what a bucket answers
  (\<open>limiter_lib\<close>).
\<close>

subsection \<open>Pages\<close>

record embedded =
  em_openapi_json :: string
  em_tos_html :: string
  em_privacy_html :: string
  em_support_html :: string

record page =
  pg_content_type :: string
  pg_body :: string

definition html_page :: "string \<Rightarrow> page" where
  "html_page body = \<lparr>pg_content_type = ''text/html; charset=utf-8'', pg_body = body\<rparr>"

definition DOCS_HTML :: string where
  "DOCS_HTML = concat (map (\<lambda>l. l @ [CHR 0x0A])
    [''<!doctype html>'',
     ''<html lang=\"en\">'',
     ''  <head>'',
     ''    <title>anony-mail API</title>'',
     ''    <meta charset=\"utf-8\" />'',
     ''    <meta name=\"viewport\" content=\"width=device-width, initial-scale=1\" />'',
     ''  </head>'',
     ''  <body>'',
     ''    <div id=\"app\"></div>'',
     ''    <script src=\"https://cdn.jsdelivr.net/npm/@scalar/api-reference\"></script>'',
     ''    <script>'',
     ''      Scalar.createApiReference('#app', {'',
     ''        url: '/openapi.json','',
     ''        servers: [{ url: window.location.origin, description: 'This instance' }],'',
     ''        agent: { disabled: true },'',
     ''      });'',
     ''    </script>'',
     ''  </body>'',
     ''</html>''])"

datatype page_id = Docs | OpenApi | Tos | Privacy | Support

fun serve_page :: "embedded \<Rightarrow> page_id \<Rightarrow> page" where
  "serve_page em Docs = html_page DOCS_HTML"
| "serve_page em OpenApi =
     \<lparr>pg_content_type = ''application/json; charset=utf-8'', pg_body = em_openapi_json em\<rparr>"
| "serve_page em Tos = html_page (em_tos_html em)"
| "serve_page em Privacy = html_page (em_privacy_html em)"
| "serve_page em Support = html_page (em_support_html em)"

subsection \<open>Routes\<close>

datatype http_method = GET | POST | DELETE | HEAD | OtherMethod string

datatype endpoint =
    AddressesCreate | EntitlementsVerifyE | ClientChallengeE | ClientAttestE | ClientAssertE
  | CustomDomainsCreate | HealthE | ReadyE | CapabilitiesE | AddressesListDomains
  | AddressesGet | AddressesDelete | AddressesExtend | AddressesRotate
  | MessagesList | MessagesClear | MessagesGet | MessagesDelete | MessagesMarkRead | MessagesGetRaw
  | MessagesGetAttachment | PushConfigE | PushVapidPublicKey | PushSubscribe | PushUnsubscribe
  | CustomDomainsGet | CustomDomainsDelete | CustomDomainsVerify
  | SseEvents
  | PageE page_id

type_synonym route = "string \<times> (http_method \<times> endpoint) list"

definition create_routes :: "config \<Rightarrow> route list" where
  "create_routes c =
    [(''/api/addresses'', [(POST, AddressesCreate)]),
     (''/api/entitlements/verify'', [(POST, EntitlementsVerifyE)]),
     (''/api/client/challenge'', [(POST, ClientChallengeE)]),
     (''/api/client/attest'', [(POST, ClientAttestE)]),
     (''/api/client/assert'', [(POST, ClientAssertE)])] @
    (if custom_domains_enabled c then [(''/api/custom-domains'', [(POST, CustomDomainsCreate)])] else [])"

definition docs_router :: "route list" where
  "docs_router = [(''/docs'', [(GET, PageE Docs)]), (''/openapi.json'', [(GET, PageE OpenApi)])]"

definition legal_router :: "route list" where
  "legal_router = [(''/tos'', [(GET, PageE Tos)]), (''/privacy'', [(GET, PageE Privacy)]),
     (''/support'', [(GET, PageE Support)])]"

definition non_sse_routes :: "config \<Rightarrow> route list" where
  "non_sse_routes c =
    [(''/healthz'', [(GET, HealthE)]),
     (''/readyz'', [(GET, ReadyE)]),
     (''/api/capabilities'', [(GET, CapabilitiesE)]),
     (''/api/domains'', [(GET, AddressesListDomains)]),
     (''/api/addresses/{address}'', [(GET, AddressesGet), (DELETE, AddressesDelete)]),
     (''/api/addresses/{address}/extend'', [(POST, AddressesExtend)]),
     (''/api/addresses/{address}/rotate'', [(POST, AddressesRotate)]),
     (''/api/addresses/{address}/messages'', [(GET, MessagesList), (DELETE, MessagesClear)]),
     (''/api/addresses/{address}/messages/{id}'', [(GET, MessagesGet), (DELETE, MessagesDelete)]),
     (''/api/addresses/{address}/messages/{id}/read'', [(POST, MessagesMarkRead)]),
     (''/api/addresses/{address}/messages/{id}/raw'', [(GET, MessagesGetRaw)]),
     (''/api/addresses/{address}/messages/{id}/attachments/{attachment_id}'', [(GET, MessagesGetAttachment)]),
     (''/api/push/config'', [(GET, PushConfigE)]),
     (''/api/push/vapid-public-key'', [(GET, PushVapidPublicKey)]),
     (''/api/addresses/{address}/subscriptions'', [(POST, PushSubscribe), (DELETE, PushUnsubscribe)])] @
    create_routes c @
    (if custom_domains_enabled c then
      [(''/api/custom-domains/{domain}'', [(GET, CustomDomainsGet), (DELETE, CustomDomainsDelete)]),
       (''/api/custom-domains/{domain}/verify'', [(POST, CustomDomainsVerify)])] else []) @
    (if api_docs_enabled c then docs_router else []) @
    (if legal_pages_enabled c then legal_router else [])"

definition sse_routes :: "route list" where
  "sse_routes = [(''/api/addresses/{address}/events'', [(GET, SseEvents)])]"

definition route_table :: "config \<Rightarrow> route list" where
  "route_table c = non_sse_routes c @ sse_routes"

text \<open>A segment of a pattern in braces captures one non-empty segment of the path; any other segment
  must be the same.\<close>

datatype segment = Lit string | Param string

definition parse_segment :: "string \<Rightarrow> segment" where
  "parse_segment s =
     (if s \<noteq> [] \<and> hd s = CHR ''{'' \<and> last s = CHR ''}'' then Param (butlast (tl s)) else Lit s)"

definition pattern_of :: "string \<Rightarrow> segment list" where
  "pattern_of path = map parse_segment (split_at (CHR ''/'') path)"

fun match_path :: "segment list \<Rightarrow> string list \<Rightarrow> string list option" where
  "match_path [] [] = Some []"
| "match_path (Lit l # ps) (s # ss) = (if s = l then match_path ps ss else None)"
| "match_path (Param x # ps) (s # ss) = (if s = [] then None else map_option ((#) s) (match_path ps ss))"
| "match_path _ _ = None"

definition matches :: "string list \<Rightarrow> route \<Rightarrow> bool" where
  "matches segs rt \<longleftrightarrow> match_path (pattern_of (fst rt)) segs \<noteq> None"

definition find_route :: "route list \<Rightarrow> string list \<Rightarrow> route option" where
  "find_route table segs = find (matches segs) table"

text \<open>\<open>get\<close> also answers \<open>HEAD\<close>.\<close>

definition method_endpoint :: "(http_method \<times> endpoint) list \<Rightarrow> http_method \<Rightarrow> endpoint option" where
  "method_endpoint ms m = (case map_of ms m of Some e \<Rightarrow> Some e | None \<Rightarrow> if m = HEAD then map_of ms GET else None)"

subsection \<open>Extraction\<close>

record http_request =
  hr_method :: http_method
  hr_path :: string
  hr_query :: string
  hr_headers :: headers
  hr_body :: bytes
  hr_peer :: ip_addr

record extractors =
  ex_percent_decode :: "string \<Rightarrow> string option"
  ex_uuid :: "string \<Rightarrow> uuid option"
  ex_list_query :: "string \<Rightarrow> (u32 option \<times> uuid option) option"
  ex_create :: "headers \<Rightarrow> bytes \<Rightarrow> create_request option option"
  ex_verify :: "headers \<Rightarrow> bytes \<Rightarrow> string option option option"
  ex_attest :: "headers \<Rightarrow> bytes \<Rightarrow> attest_request option"
  ex_assert :: "headers \<Rightarrow> bytes \<Rightarrow> assert_request option"
  ex_domain :: "headers \<Rightarrow> bytes \<Rightarrow> string option"
  ex_subscribe :: "headers \<Rightarrow> bytes \<Rightarrow> subscribe_request option option"
  ex_unsubscribe :: "headers \<Rightarrow> bytes \<Rightarrow> unsubscribe_request option option"

datatype rejection = PathRejection | QueryRejection | BodyRejection

datatype call = Call request | Stream ip_addr headers string | ShowPage page_id

definition or_reject :: "rejection \<Rightarrow> 'a option \<Rightarrow> ('a \<Rightarrow> (call, rejection) result) \<Rightarrow> (call, rejection) result" where
  "or_reject e v f = (case v of None \<Rightarrow> Err e | Some x \<Rightarrow> f x)"

definition path1 :: "extractors \<Rightarrow> string list \<Rightarrow> string option" where
  "path1 ex ps = (case ps of [a] \<Rightarrow> ex_percent_decode ex a | _ \<Rightarrow> None)"

definition path_uuid :: "extractors \<Rightarrow> string \<Rightarrow> uuid option" where
  "path_uuid ex s = Option.bind (ex_percent_decode ex s) (ex_uuid ex)"

definition path2 :: "extractors \<Rightarrow> string list \<Rightarrow> (string \<times> uuid) option" where
  "path2 ex ps = (case ps of [a, i] \<Rightarrow>
     Option.bind (ex_percent_decode ex a) (\<lambda>a. map_option (Pair a) (path_uuid ex i)) | _ \<Rightarrow> None)"

definition path3 :: "extractors \<Rightarrow> string list \<Rightarrow> (string \<times> uuid \<times> uuid) option" where
  "path3 ex ps = (case ps of [a, i, j] \<Rightarrow>
     Option.bind (ex_percent_decode ex a) (\<lambda>a. Option.bind (path_uuid ex i) (\<lambda>i.
       map_option (\<lambda>j. (a, i, j)) (path_uuid ex j))) | _ \<Rightarrow> None)"

fun extract_call :: "extractors \<Rightarrow> http_request \<Rightarrow> string list \<Rightarrow> endpoint \<Rightarrow> (call, rejection) result" where
  "extract_call ex hr ps AddressesCreate =
     or_reject BodyRejection (ex_create ex (hr_headers hr) (hr_body hr)) (\<lambda>b.
       Ok (Call (CreateAddress (hr_peer hr) (hr_headers hr) b)))"
| "extract_call ex hr ps EntitlementsVerifyE =
     or_reject BodyRejection (ex_verify ex (hr_headers hr) (hr_body hr)) (\<lambda>b.
       Ok (Call (EntitlementsVerify (hr_headers hr) (Option.bind b id))))"
| "extract_call ex hr ps ClientChallengeE = Ok (Call ClientChallenge)"
| "extract_call ex hr ps ClientAttestE =
     or_reject BodyRejection (ex_attest ex (hr_headers hr) (hr_body hr)) (\<lambda>b. Ok (Call (ClientAttest b)))"
| "extract_call ex hr ps ClientAssertE =
     or_reject BodyRejection (ex_assert ex (hr_headers hr) (hr_body hr)) (\<lambda>b. Ok (Call (ClientAssert b)))"
| "extract_call ex hr ps CustomDomainsCreate =
     or_reject BodyRejection (ex_domain ex (hr_headers hr) (hr_body hr)) (\<lambda>d.
       Ok (Call (DomainCreate (hr_peer hr) (hr_headers hr) d)))"
| "extract_call ex hr ps HealthE = Ok (Call Health)"
| "extract_call ex hr ps ReadyE = Ok (Call Ready)"
| "extract_call ex hr ps CapabilitiesE = Ok (Call Capabilities)"
| "extract_call ex hr ps AddressesListDomains = Ok (Call ListDomains)"
| "extract_call ex hr ps AddressesGet = or_reject PathRejection (path1 ex ps) (\<lambda>a. Ok (Call (GetAddress a)))"
| "extract_call ex hr ps AddressesDelete =
     or_reject PathRejection (path1 ex ps) (\<lambda>a. Ok (Call (DeleteAddress a (hr_headers hr))))"
| "extract_call ex hr ps AddressesExtend =
     or_reject PathRejection (path1 ex ps) (\<lambda>a. Ok (Call (ExtendAddress a (hr_headers hr))))"
| "extract_call ex hr ps AddressesRotate =
     or_reject PathRejection (path1 ex ps) (\<lambda>a. Ok (Call (RotateAddress a (hr_headers hr))))"
| "extract_call ex hr ps MessagesList =
     or_reject PathRejection (path1 ex ps) (\<lambda>a.
     or_reject QueryRejection (ex_list_query ex (hr_query hr)) (\<lambda>(limit, since). Ok (Call (ListMessages a limit since))))"
| "extract_call ex hr ps MessagesClear =
     or_reject PathRejection (path1 ex ps) (\<lambda>a. Ok (Call (ClearMessages a (hr_headers hr))))"
| "extract_call ex hr ps MessagesGet = or_reject PathRejection (path2 ex ps) (\<lambda>(a, i). Ok (Call (GetMessage a i)))"
| "extract_call ex hr ps MessagesDelete =
     or_reject PathRejection (path2 ex ps) (\<lambda>(a, i). Ok (Call (DeleteMessage a i (hr_headers hr))))"
| "extract_call ex hr ps MessagesMarkRead = or_reject PathRejection (path2 ex ps) (\<lambda>(a, i). Ok (Call (MarkRead a i)))"
| "extract_call ex hr ps MessagesGetRaw = or_reject PathRejection (path2 ex ps) (\<lambda>(a, i). Ok (Call (GetRaw a i)))"
| "extract_call ex hr ps MessagesGetAttachment =
     or_reject PathRejection (path3 ex ps) (\<lambda>(a, i, j). Ok (Call (GetAttachment a i j)))"
| "extract_call ex hr ps PushConfigE = Ok (Call PushConfig)"
| "extract_call ex hr ps PushVapidPublicKey = Ok (Call VapidPublicKey)"
| "extract_call ex hr ps PushSubscribe =
     or_reject PathRejection (path1 ex ps) (\<lambda>a.
     or_reject BodyRejection (ex_subscribe ex (hr_headers hr) (hr_body hr)) (\<lambda>b.
       Ok (Call (Subscribe a (hr_headers hr) b))))"
| "extract_call ex hr ps PushUnsubscribe =
     or_reject PathRejection (path1 ex ps) (\<lambda>a.
     or_reject BodyRejection (ex_unsubscribe ex (hr_headers hr) (hr_body hr)) (\<lambda>b.
       Ok (Call (Unsubscribe a (hr_headers hr) b))))"
| "extract_call ex hr ps CustomDomainsGet =
     or_reject PathRejection (path1 ex ps) (\<lambda>d. Ok (Call (DomainGet d (hr_headers hr))))"
| "extract_call ex hr ps CustomDomainsDelete =
     or_reject PathRejection (path1 ex ps) (\<lambda>d. Ok (Call (DomainDelete d (hr_headers hr))))"
| "extract_call ex hr ps CustomDomainsVerify =
     or_reject PathRejection (path1 ex ps) (\<lambda>d. Ok (Call (DomainVerify d (hr_headers hr))))"
| "extract_call ex hr ps SseEvents =
     or_reject PathRejection (path1 ex ps) (\<lambda>a. Ok (Stream (hr_peer hr) (hr_headers hr) a))"
| "extract_call ex hr ps (PageE p) = Ok (ShowPage p)"

subsection \<open>The service\<close>

datatype http_answer =
    Api "(reply, api_error) result"
  | EventStream "(string \<times> sse_guard, api_error) result"
  | Page page
  | BadInput rejection
  | MethodNotAllowed "http_method list"
  | NoSuchRoute
  | Limited error_response

text \<open>The handler of the events route: the slot is taken in the shared limits.\<close>

definition sse_events :: "'s app_state \<Rightarrow> ip_addr \<Rightarrow> headers \<Rightarrow> string \<Rightarrow> (string \<times> sse_guard, 's) handler" where
  "sse_events st peer h address w =
     (case sse_open (ap_config st) address peer h (aw_limits w) of
        (r, l) \<Rightarrow> (map_err TooManyRequests r, w\<lparr>aw_limits := l\<rparr>))"

definition perform :: "embedded \<Rightarrow> bytes \<Rightarrow> 's app_state \<Rightarrow> call \<Rightarrow> 's app_world \<Rightarrow> http_answer \<times> 's app_world" where
  "perform em pem st cl w =
     (case cl of
        Call req \<Rightarrow> (case dispatch pem st req w of (r, w') \<Rightarrow> (Api r, w'))
      | Stream peer h a \<Rightarrow> (case sse_events st peer h a w of (r, w') \<Rightarrow> (EventStream r, w'))
      | ShowPage p \<Rightarrow> (Page (serve_page em p), w))"

text \<open>Which call a request is, or the answer it gets from the router or an extractor.\<close>

definition route_call :: "extractors \<Rightarrow> config \<Rightarrow> http_request \<Rightarrow> (call, http_answer) result" where
  "route_call ex c hr =
     (let segs = split_at (CHR ''/'') (hr_path hr) in
      case find_route (route_table c) segs of None \<Rightarrow> Err NoSuchRoute
      | Some (pat, ms) \<Rightarrow>
          (case method_endpoint ms (hr_method hr) of
             None \<Rightarrow> Err (MethodNotAllowed (map fst ms))
           | Some ep \<Rightarrow>
               map_err BadInput (extract_call ex hr (the (match_path (pattern_of pat) segs)) ep)))"

definition serve_routed ::
  "extractors \<Rightarrow> embedded \<Rightarrow> bytes \<Rightarrow> 's app_state \<Rightarrow> http_request \<Rightarrow> 's app_world \<Rightarrow> http_answer \<times> 's app_world" where
  "serve_routed ex em pem st hr w =
     (case route_call ex (ap_config st) hr of Err a \<Rightarrow> (a, w) | Ok cl \<Rightarrow> perform em pem st cl w)"

datatype bucket = GeneralBucket | CreateBucket

record 'g limiter_lib =
  li_extract :: "key_extractor \<Rightarrow> ip_addr \<Rightarrow> headers \<Rightarrow> ip_addr option"
  li_check :: "bucket \<Rightarrow> governor \<Rightarrow> ip_addr \<Rightarrow> 'g \<Rightarrow> (unit, governor_error) result \<times> 'g"

text \<open>How a layer of the \<open>governor\<close> crate is documented to treat a request: the key is extracted, the bucket
  asked, and the inner service runs when it grants a token; otherwise the error handler that
  \<open>governor_layer\<close> installs answers.\<close>

definition governed ::
  "'g limiter_lib \<Rightarrow> bucket \<Rightarrow> governor option \<Rightarrow> http_request
   \<Rightarrow> ('w \<times> 'g \<Rightarrow> http_answer \<times> 'w \<times> 'g) \<Rightarrow> 'w \<times> 'g \<Rightarrow> http_answer \<times> 'w \<times> 'g" where
  "governed lib b gov hr inner wg =
     (case gov of None \<Rightarrow> inner wg
      | Some gv \<Rightarrow>
          (case li_extract lib (gv_key gv) (hr_peer hr) (hr_headers hr) of
             None \<Rightarrow> (Limited (governor_error_response UnableToExtractKey), wg)
           | Some key \<Rightarrow>
               (case li_check lib b gv key (snd wg) of
                  (Err e, g) \<Rightarrow> (Limited (governor_error_response e), fst wg, g)
                | (Ok _, g) \<Rightarrow> inner (fst wg, g))))"

text \<open>The general limiter is around everything, the stricter one around the paths of \<open>create_routes\<close>,
  whatever the method.\<close>

definition is_create_path :: "config \<Rightarrow> http_request \<Rightarrow> bool" where
  "is_create_path c hr \<longleftrightarrow>
     (case find_route (route_table c) (split_at (CHR ''/'') (hr_path hr)) of
        None \<Rightarrow> False | Some rt \<Rightarrow> rt \<in> set (create_routes c))"

definition serve_http ::
  "'g limiter_lib \<Rightarrow> router_layers \<Rightarrow> extractors \<Rightarrow> embedded \<Rightarrow> bytes \<Rightarrow> 's app_state \<Rightarrow> http_request
   \<Rightarrow> 's app_world \<times> 'g \<Rightarrow> http_answer \<times> 's app_world \<times> 'g" where
  "serve_http lib layers ex em pem st hr =
     governed lib GeneralBucket (rl_general_limit layers) hr
       (governed lib CreateBucket (if is_create_path (ap_config st) hr then rl_create_limit layers else None) hr
          (\<lambda>(w, g). case serve_routed ex em pem st hr w of (r, w') \<Rightarrow> (r, w', g)))"

fun serve_https ::
  "'g limiter_lib \<Rightarrow> router_layers \<Rightarrow> extractors \<Rightarrow> embedded \<Rightarrow> bytes \<Rightarrow> 's app_state \<Rightarrow> http_request list
   \<Rightarrow> 's app_world \<times> 'g \<Rightarrow> http_answer list \<times> 's app_world \<times> 'g" where
  "serve_https lib layers ex em pem st [] wg = ([], wg)"
| "serve_https lib layers ex em pem st (hr # hrs) wg =
     (let (a, wg1) = serve_http lib layers ex em pem st hr wg;
          (as, wg2) = serve_https lib layers ex em pem st hrs wg1
      in (a # as, wg2))"

end
