(* ===== verification/Route_Table.thy ===== *)
theory Route_Table
  imports Api_Routes
begin

text \<open>
  The route table: it is unambiguous for every configuration, and every request that a handler serves
  has a path and a method that lead to exactly that handler with exactly those arguments.
\<close>

subsection \<open>No ambiguity\<close>

fun disjoint_patterns :: "segment list \<Rightarrow> segment list \<Rightarrow> bool" where
  "disjoint_patterns [] [] = False"
| "disjoint_patterns (Lit l # ps) (Lit k # qs) = (l \<noteq> k \<or> disjoint_patterns ps qs)"
| "disjoint_patterns (Lit l # ps) (Param x # qs) = (l = [] \<or> disjoint_patterns ps qs)"
| "disjoint_patterns (Param x # ps) (Lit l # qs) = (l = [] \<or> disjoint_patterns ps qs)"
| "disjoint_patterns (Param x # ps) (Param y # qs) = disjoint_patterns ps qs"
| "disjoint_patterns _ _ = True"

lemma pattern_cases [case_names Nil Lit Param]:
  obtains "q = []" | l qs where "q = Lit l # qs" | x qs where "q = Param x # qs"
  by (metis list.exhaust segment.exhaust)

lemma disjoint_patterns_match:
  "disjoint_patterns p q \<Longrightarrow> match_path p segs \<noteq> None \<Longrightarrow> match_path q segs = None"
proof (induction p segs arbitrary: q rule: match_path.induct)
  case 1
  then show ?case by (cases q rule: pattern_cases) auto
next
  case (2 l ps s ss)
  then show ?case by (cases q rule: pattern_cases) (auto split: if_splits)
next
  case (3 x ps s ss)
  then show ?case by (cases q rule: pattern_cases) (auto split: if_splits)
qed auto

lemma disjoint_patterns_sym: "disjoint_patterns p q = disjoint_patterns q p"
  by (induction p q rule: disjoint_patterns.induct) auto

text \<open>The table depends on three switches of the configuration; the largest one has them all on.\<close>

definition all_on :: config where
  "all_on = config_default\<lparr>custom_domains_enabled := True, api_docs_enabled := True, legal_pages_enabled := True\<rparr>"

lemmas route_defs = route_table_def non_sse_routes_def create_routes_def docs_router_def legal_router_def sse_routes_def

lemma set_route_table: "set (route_table c) \<subseteq> set (route_table all_on)"
  by (auto simp: route_defs all_on_def)

lemma distinct_all_on: "distinct (map fst (route_table all_on))"
  by code_simp

text \<open>The shape of the table: which parts are optional.\<close>

lemma route_table_parts:
  "\<exists>A B C D E F G. \<forall>c. route_table c =
     (A @ (B @ (if custom_domains_enabled c then C else [])) @ (if custom_domains_enabled c then D else []) @
       (if api_docs_enabled c then E else []) @ (if legal_pages_enabled c then F else [])) @ G"
  unfolding route_table_def non_sse_routes_def create_routes_def by (intro exI allI) (rule refl)

lemma distinct_route_table: "distinct (map fst (route_table c))"
proof -
  obtain A B C D E F G where parts: "\<And>c. route_table c =
     (A @ (B @ (if custom_domains_enabled c then C else [])) @ (if custom_domains_enabled c then D else []) @
       (if api_docs_enabled c then E else []) @ (if legal_pages_enabled c then F else [])) @ G"
    using route_table_parts by blast
  have "distinct (map fst ((A @ (B @ C) @ D @ E @ F) @ G))"
    using distinct_all_on unfolding parts by (simp add: all_on_def)
  then show ?thesis unfolding parts by (simp add: image_Un Int_Un_distrib Int_Un_distrib2)
qed

definition all_patterns :: "segment list list" where
  "all_patterns =
    [[Lit [], Lit ''healthz''],
     [Lit [], Lit ''readyz''],
     [Lit [], Lit ''api'', Lit ''capabilities''],
     [Lit [], Lit ''api'', Lit ''domains''],
     [Lit [], Lit ''api'', Lit ''addresses'', Param ''address''],
     [Lit [], Lit ''api'', Lit ''addresses'', Param ''address'', Lit ''extend''],
     [Lit [], Lit ''api'', Lit ''addresses'', Param ''address'', Lit ''rotate''],
     [Lit [], Lit ''api'', Lit ''addresses'', Param ''address'', Lit ''messages''],
     [Lit [], Lit ''api'', Lit ''addresses'', Param ''address'', Lit ''messages'', Param ''id''],
     [Lit [], Lit ''api'', Lit ''addresses'', Param ''address'', Lit ''messages'', Param ''id'', Lit ''read''],
     [Lit [], Lit ''api'', Lit ''addresses'', Param ''address'', Lit ''messages'', Param ''id'', Lit ''raw''],
     [Lit [], Lit ''api'', Lit ''addresses'', Param ''address'', Lit ''messages'', Param ''id'', Lit ''attachments'', Param ''attachment_id''],
     [Lit [], Lit ''api'', Lit ''push'', Lit ''config''],
     [Lit [], Lit ''api'', Lit ''push'', Lit ''vapid-public-key''],
     [Lit [], Lit ''api'', Lit ''addresses'', Param ''address'', Lit ''subscriptions''],
     [Lit [], Lit ''api'', Lit ''addresses''],
     [Lit [], Lit ''api'', Lit ''entitlements'', Lit ''verify''],
     [Lit [], Lit ''api'', Lit ''client'', Lit ''challenge''],
     [Lit [], Lit ''api'', Lit ''client'', Lit ''attest''],
     [Lit [], Lit ''api'', Lit ''client'', Lit ''assert''],
     [Lit [], Lit ''api'', Lit ''custom-domains''],
     [Lit [], Lit ''api'', Lit ''custom-domains'', Param ''domain''],
     [Lit [], Lit ''api'', Lit ''custom-domains'', Param ''domain'', Lit ''verify''],
     [Lit [], Lit ''docs''],
     [Lit [], Lit ''openapi.json''],
     [Lit [], Lit ''tos''],
     [Lit [], Lit ''privacy''],
     [Lit [], Lit ''support''],
     [Lit [], Lit ''api'', Lit ''addresses'', Param ''address'', Lit ''events'']]"

lemma route_patterns: "map (pattern_of \<circ> fst) (route_table all_on) = all_patterns"
  by code_simp

lemma disjoint_all_on: "sorted_wrt disjoint_patterns (map (pattern_of \<circ> fst) (route_table all_on))"
  unfolding route_patterns by (simp add: all_patterns_def)

lemma find_route_iff:
  "find_route (route_table c) segs = Some rt \<longleftrightarrow> rt \<in> set (route_table c) \<and> matches segs rt"
  unfolding find_route_def
proof (rule find_unique_eq_Some)
  let ?T = "route_table all_on"
  fix x y assume xy: "x \<in> set (route_table c)" "y \<in> set (route_table c)" "matches segs x" "matches segs y"
  then obtain i j where ij: "i < length ?T" "?T ! i = x" "j < length ?T" "?T ! j = y"
    using set_route_table [of c] by (meson in_mono in_set_conv_nth)
  have less: "disjoint_patterns (pattern_of (fst (?T ! m))) (pattern_of (fst (?T ! n)))" if "m < n" "n < length ?T" for m n
    using sorted_wrt_nth_less [OF disjoint_all_on that(1)] that by (simp add: comp_def)
  have "disjoint_patterns (pattern_of (fst x)) (pattern_of (fst y))" if "i \<noteq> j"
    using less [of i j] less [of j i] ij that disjoint_patterns_sym by (metis linorder_neqE_nat)
  then have "i = j"
    using disjoint_patterns_match [of "pattern_of (fst x)" "pattern_of (fst y)" segs] xy(3,4)
    unfolding matches_def by blast
  then show "x = y" using ij by simp
qed

definition method_name :: "http_method \<Rightarrow> string" where
  "method_name m = (case m of GET \<Rightarrow> ''GET'' | POST \<Rightarrow> ''POST'' | DELETE \<Rightarrow> ''DELETE'' | HEAD \<Rightarrow> ''HEAD''
     | OtherMethod s \<Rightarrow> s)"

text \<open>The methods that some route answers, \<open>HEAD\<close> on the \<open>GET\<close> routes included.\<close>

definition table_methods :: "config \<Rightarrow> http_method set" where
  "table_methods c = {m. \<exists>rt \<in> set (route_table c). method_endpoint (snd rt) m \<noteq> None}"

lemma method_endpoint_iff:
  "method_endpoint ms m \<noteq> None \<longleftrightarrow> m \<in> fst ` set ms \<or> m = HEAD \<and> GET \<in> fst ` set ms"
proof (cases "map_of ms m")
  case None
  then show ?thesis
    using map_of_eq_None_iff [of ms m] map_of_eq_None_iff [of ms GET] unfolding method_endpoint_def by auto
next
  case (Some e)
  then have "m \<in> fst ` set ms" using map_of_eq_None_iff [of ms m] by simp
  with Some show ?thesis by (simp add: method_endpoint_def)
qed

lemma table_methods_iff:
  "m \<in> table_methods c \<longleftrightarrow> (\<exists>rt \<in> set (route_table c). m \<in> fst ` set (snd rt) \<or> m = HEAD \<and> GET \<in> fst ` set (snd rt))"
  unfolding table_methods_def method_endpoint_iff by simp

lemma route_methods:
  "rt \<in> set (route_table c) \<Longrightarrow> fst ` set (snd rt) \<subseteq> {GET, POST, DELETE}"
proof -
  assume "rt \<in> set (route_table c)"
  moreover have "list_all (\<lambda>rt. list_all (\<lambda>x. fst x \<in> {GET, POST, DELETE}) (snd rt)) (route_table all_on)"
    by code_simp
  ultimately have "list_all (\<lambda>x. fst x \<in> {GET, POST, DELETE}) (snd rt)"
    using set_route_table [of c] unfolding list_all_iff by blast
  then show ?thesis by (auto simp: list_all_iff)
qed

lemma table_methods_eq: "table_methods c = {GET, POST, DELETE, HEAD}"
proof (intro subset_antisym subsetI)
  show "m \<in> {GET, POST, DELETE, HEAD}" if "m \<in> table_methods c" for m
    using that route_methods by (fastforce simp: table_methods_iff)
next
  have "(''/api/addresses/{address}'', [(GET, AddressesGet), (DELETE, AddressesDelete)]) \<in> set (route_table c)"
    "(''/api/addresses/{address}/extend'', [(POST, AddressesExtend)]) \<in> set (route_table c)"
    by (simp_all add: route_table_def non_sse_routes_def)
  then show "m \<in> table_methods c" if "m \<in> {GET, POST, DELETE, HEAD}" for m
    using that unfolding table_methods_iff by force
qed

text \<open>C34: The route table is sound. For every configuration, no two of its entries have the same path and
  no request path matches two of them, so the order in which the routers are merged does not matter and
  the route that is found is the only one. The methods that the routes answer are exactly those that the
  CORS layer lists and \<open>HEAD\<close>, which \<open>get\<close> routes answer too and which browsers send across origins without
  asking (it is a CORS-safelisted method).\<close>

theorem route_table_sound:
  "distinct (map fst (route_table c)) \<and>
   (find_route (route_table c) segs = Some rt \<longleftrightarrow> rt \<in> set (route_table c) \<and> matches segs rt) \<and>
   method_name ` table_methods c = set (co_methods (build_cors c)) \<union> {''HEAD''}"
  using distinct_route_table find_route_iff by (auto simp: build_cors_def table_methods_eq method_name_def)

subsection \<open>Every handler is reached\<close>

text \<open>The route of a request, as a client that follows the documentation builds it: the method, the path
  pattern, the handler, and the values of the parameters of the pattern.\<close>

fun request_target :: "request \<Rightarrow> http_method \<times> string \<times> endpoint" where
  "request_target (CreateAddress peer h b) = (POST, ''/api/addresses'', AddressesCreate)"
| "request_target (EntitlementsVerify h rc) = (POST, ''/api/entitlements/verify'', EntitlementsVerifyE)"
| "request_target ClientChallenge = (POST, ''/api/client/challenge'', ClientChallengeE)"
| "request_target (ClientAttest r) = (POST, ''/api/client/attest'', ClientAttestE)"
| "request_target (ClientAssert r') = (POST, ''/api/client/assert'', ClientAssertE)"
| "request_target (DomainCreate peer h d) = (POST, ''/api/custom-domains'', CustomDomainsCreate)"
| "request_target Health = (GET, ''/healthz'', HealthE)"
| "request_target Ready = (GET, ''/readyz'', ReadyE)"
| "request_target Capabilities = (GET, ''/api/capabilities'', CapabilitiesE)"
| "request_target ListDomains = (GET, ''/api/domains'', AddressesListDomains)"
| "request_target (GetAddress a) = (GET, ''/api/addresses/{address}'', AddressesGet)"
| "request_target (DeleteAddress a h) = (DELETE, ''/api/addresses/{address}'', AddressesDelete)"
| "request_target (ExtendAddress a h) = (POST, ''/api/addresses/{address}/extend'', AddressesExtend)"
| "request_target (RotateAddress a h) = (POST, ''/api/addresses/{address}/rotate'', AddressesRotate)"
| "request_target (ListMessages a n s) = (GET, ''/api/addresses/{address}/messages'', MessagesList)"
| "request_target (ClearMessages a h) = (DELETE, ''/api/addresses/{address}/messages'', MessagesClear)"
| "request_target (GetMessage a i) = (GET, ''/api/addresses/{address}/messages/{id}'', MessagesGet)"
| "request_target (DeleteMessage a i h) = (DELETE, ''/api/addresses/{address}/messages/{id}'', MessagesDelete)"
| "request_target (MarkRead a i) = (POST, ''/api/addresses/{address}/messages/{id}/read'', MessagesMarkRead)"
| "request_target (GetRaw a i) = (GET, ''/api/addresses/{address}/messages/{id}/raw'', MessagesGetRaw)"
| "request_target (GetAttachment a i j) =
     (GET, ''/api/addresses/{address}/messages/{id}/attachments/{attachment_id}'', MessagesGetAttachment)"
| "request_target PushConfig = (GET, ''/api/push/config'', PushConfigE)"
| "request_target VapidPublicKey = (GET, ''/api/push/vapid-public-key'', PushVapidPublicKey)"
| "request_target (Subscribe a h sb) = (POST, ''/api/addresses/{address}/subscriptions'', PushSubscribe)"
| "request_target (Unsubscribe a h ub) = (DELETE, ''/api/addresses/{address}/subscriptions'', PushUnsubscribe)"
| "request_target (DomainGet d h) = (GET, ''/api/custom-domains/{domain}'', CustomDomainsGet)"
| "request_target (DomainDelete d h) = (DELETE, ''/api/custom-domains/{domain}'', CustomDomainsDelete)"
| "request_target (DomainVerify d h) = (POST, ''/api/custom-domains/{domain}/verify'', CustomDomainsVerify)"

fun request_texts :: "request \<Rightarrow> string list" where
  "request_texts (GetAddress a) = [a]"
| "request_texts (DeleteAddress a h) = [a]"
| "request_texts (ExtendAddress a h) = [a]"
| "request_texts (RotateAddress a h) = [a]"
| "request_texts (ListMessages a n s) = [a]"
| "request_texts (ClearMessages a h) = [a]"
| "request_texts (GetMessage a i) = [a]"
| "request_texts (DeleteMessage a i h) = [a]"
| "request_texts (MarkRead a i) = [a]"
| "request_texts (GetRaw a i) = [a]"
| "request_texts (GetAttachment a i j) = [a]"
| "request_texts (Subscribe a h sb) = [a]"
| "request_texts (Unsubscribe a h ub) = [a]"
| "request_texts (DomainGet d h) = [d]"
| "request_texts (DomainDelete d h) = [d]"
| "request_texts (DomainVerify d h) = [d]"
| "request_texts _ = []"

fun request_ids :: "request \<Rightarrow> uuid list" where
  "request_ids (GetMessage a i) = [i]"
| "request_ids (DeleteMessage a i h) = [i]"
| "request_ids (MarkRead a i) = [i]"
| "request_ids (GetRaw a i) = [i]"
| "request_ids (GetAttachment a i j) = [i, j]"
| "request_ids _ = []"

fun fill_path :: "segment list \<Rightarrow> string list \<Rightarrow> string list" where
  "fill_path [] vs = []"
| "fill_path (Lit l # ps) vs = l # fill_path ps vs"
| "fill_path (Param x # ps) (v # vs) = v # fill_path ps vs"
| "fill_path (Param x # ps) [] = [] # fill_path ps []"

definition request_path :: "(string \<Rightarrow> string) \<Rightarrow> (uuid \<Rightarrow> string) \<Rightarrow> request \<Rightarrow> string" where
  "request_path enc show_id req = (case request_target req of (m, pat, ep) \<Rightarrow>
     join_with ''/'' (fill_path (pattern_of pat) (map enc (request_texts req) @ map show_id (request_ids req))))"

text \<open>The rest of the HTTP request carries the headers, the peer, the query and the body of the request.\<close>

fun carries :: "extractors \<Rightarrow> http_request \<Rightarrow> request \<Rightarrow> bool" where
  "carries ex hr (CreateAddress peer h b) \<longleftrightarrow> hr_peer hr = peer \<and> hr_headers hr = h \<and> ex_create ex h (hr_body hr) = Some b"
| "carries ex hr (EntitlementsVerify h rc) \<longleftrightarrow> hr_headers hr = h \<and> map_option (\<lambda>b. Option.bind b id) (ex_verify ex h (hr_body hr)) = Some rc"
| "carries ex hr (ClientAttest r) \<longleftrightarrow> ex_attest ex (hr_headers hr) (hr_body hr) = Some r"
| "carries ex hr (ClientAssert r') \<longleftrightarrow> ex_assert ex (hr_headers hr) (hr_body hr) = Some r'"
| "carries ex hr (DomainCreate peer h d) \<longleftrightarrow> hr_peer hr = peer \<and> hr_headers hr = h \<and> ex_domain ex h (hr_body hr) = Some d"
| "carries ex hr (ListMessages a n s) \<longleftrightarrow> ex_list_query ex (hr_query hr) = Some (n, s)"
| "carries ex hr (Subscribe a h sb) \<longleftrightarrow> hr_headers hr = h \<and> ex_subscribe ex h (hr_body hr) = Some sb"
| "carries ex hr (Unsubscribe a h ub) \<longleftrightarrow> hr_headers hr = h \<and> ex_unsubscribe ex h (hr_body hr) = Some ub"
| "carries ex hr (DeleteAddress a h) \<longleftrightarrow> hr_headers hr = h"
| "carries ex hr (ExtendAddress a h) \<longleftrightarrow> hr_headers hr = h"
| "carries ex hr (RotateAddress a h) \<longleftrightarrow> hr_headers hr = h"
| "carries ex hr (ClearMessages a h) \<longleftrightarrow> hr_headers hr = h"
| "carries ex hr (DeleteMessage a i h) \<longleftrightarrow> hr_headers hr = h"
| "carries ex hr (DomainGet d h) \<longleftrightarrow> hr_headers hr = h"
| "carries ex hr (DomainDelete d h) \<longleftrightarrow> hr_headers hr = h"
| "carries ex hr (DomainVerify d h) \<longleftrightarrow> hr_headers hr = h"
| "carries ex hr _ \<longleftrightarrow> True"

fun is_domain_request :: "request \<Rightarrow> bool" where
  "is_domain_request (DomainCreate peer h d) = True"
| "is_domain_request (DomainGet d h) = True"
| "is_domain_request (DomainDelete d h) = True"
| "is_domain_request (DomainVerify d h) = True"
| "is_domain_request _ = False"

text \<open>Percent encoding and the text of an identifier, as the extractors read them back. A path parameter is
  read as a string, so only texts in UTF-8 are required to come back.\<close>

definition valid_utf8 :: "string \<Rightarrow> bool" where
  "valid_utf8 s \<longleftrightarrow> from_utf8_lossy s = s"

definition url_codec :: "extractors \<Rightarrow> (string \<Rightarrow> string) \<Rightarrow> (uuid \<Rightarrow> string) \<Rightarrow> bool" where
  "url_codec ex enc show_id \<longleftrightarrow>
     (\<forall>a. a \<noteq> [] \<and> valid_utf8 a \<longrightarrow> enc a \<noteq> [] \<and> CHR ''/'' \<notin> set (enc a) \<and> ex_percent_decode ex (enc a) = Some a) \<and>
     (\<forall>i. show_id i \<noteq> [] \<and> CHR ''/'' \<notin> set (show_id i) \<and> path_uuid ex (show_id i) = Some i)"

lemma split_at_free: "c \<notin> set s \<Longrightarrow> split_at c s = [s]"
  by (induction s) auto

lemma split_at_append: "c \<notin> set s \<Longrightarrow> split_at c (s @ c # t) = s # split_at c t"
  by (induction s) auto

lemma split_at_join: "segs \<noteq> [] \<Longrightarrow> \<forall>s\<in>set segs. c \<notin> set s \<Longrightarrow> split_at c (join_with [c] segs) = segs"
proof (induction segs rule: induct_list012)
  case (3 x y zs)
  then show ?case by (simp add: split_at_append)
qed (simp_all add: split_at_free)

fun is_param :: "segment \<Rightarrow> bool" where
  "is_param (Lit l) = False"
| "is_param (Param x) = True"

lemma fill_path_Nil: "fill_path pat vs = [] \<longleftrightarrow> pat = []"
  by (cases "(pat, vs)" rule: fill_path.cases) auto

lemma match_fill:
  "length vs = length (filter is_param pat) \<Longrightarrow> [] \<notin> set vs \<Longrightarrow> match_path pat (fill_path pat vs) = Some vs"
  by (induction pat vs rule: fill_path.induct) auto

lemma set_fill:
  "length vs = length (filter is_param pat) \<Longrightarrow> set (fill_path pat vs) \<subseteq> set vs \<union> {l. Lit l \<in> set pat}"
  by (induction pat vs rule: fill_path.induct) auto

lemma split_at_parts: "s \<in> set (split_at c x) \<Longrightarrow> c \<notin> set s"
proof (induction x arbitrary: s)
  case (Cons y x)
  then show ?case by (cases "split_at c x") (auto split: if_splits)
qed simp

lemma pattern_literals: "Lit l \<in> set (pattern_of pat) \<Longrightarrow> CHR ''/'' \<notin> set l"
  by (auto simp: pattern_of_def parse_segment_def dest: split_at_parts split: if_splits)

text \<open>The targets are in the table: those of the custom-domain handlers where the feature is on, the
  others always.\<close>

definition all_off :: config where
  "all_off = config_default\<lparr>custom_domains_enabled := False, api_docs_enabled := False, legal_pages_enabled := False\<rparr>"

definition always_targets :: "(http_method \<times> string \<times> endpoint) list" where
  "always_targets =
    [(POST, ''/api/addresses'', AddressesCreate),
     (POST, ''/api/entitlements/verify'', EntitlementsVerifyE),
     (POST, ''/api/client/challenge'', ClientChallengeE),
     (POST, ''/api/client/attest'', ClientAttestE),
     (POST, ''/api/client/assert'', ClientAssertE),
     (GET, ''/healthz'', HealthE),
     (GET, ''/readyz'', ReadyE),
     (GET, ''/api/capabilities'', CapabilitiesE),
     (GET, ''/api/domains'', AddressesListDomains),
     (GET, ''/api/addresses/{address}'', AddressesGet),
     (DELETE, ''/api/addresses/{address}'', AddressesDelete),
     (POST, ''/api/addresses/{address}/extend'', AddressesExtend),
     (POST, ''/api/addresses/{address}/rotate'', AddressesRotate),
     (GET, ''/api/addresses/{address}/messages'', MessagesList),
     (DELETE, ''/api/addresses/{address}/messages'', MessagesClear),
     (GET, ''/api/addresses/{address}/messages/{id}'', MessagesGet),
     (DELETE, ''/api/addresses/{address}/messages/{id}'', MessagesDelete),
     (POST, ''/api/addresses/{address}/messages/{id}/read'', MessagesMarkRead),
     (GET, ''/api/addresses/{address}/messages/{id}/raw'', MessagesGetRaw),
     (GET, ''/api/addresses/{address}/messages/{id}/attachments/{attachment_id}'', MessagesGetAttachment),
     (GET, ''/api/push/config'', PushConfigE),
     (GET, ''/api/push/vapid-public-key'', PushVapidPublicKey),
     (POST, ''/api/addresses/{address}/subscriptions'', PushSubscribe),
     (DELETE, ''/api/addresses/{address}/subscriptions'', PushUnsubscribe)]"

definition domain_targets :: "(http_method \<times> string \<times> endpoint) list" where
  "domain_targets =
    [(POST, ''/api/custom-domains'', CustomDomainsCreate),
     (GET, ''/api/custom-domains/{domain}'', CustomDomainsGet),
     (DELETE, ''/api/custom-domains/{domain}'', CustomDomainsDelete),
     (POST, ''/api/custom-domains/{domain}/verify'', CustomDomainsVerify)]"

definition targets_in :: "(http_method \<times> string \<times> endpoint) list \<Rightarrow> config \<Rightarrow> bool" where
  "targets_in ts c = list_all (\<lambda>(m, pat, ep). case map_of (route_table c) pat of
     None \<Rightarrow> False | Some ms \<Rightarrow> method_endpoint ms m = Some ep) ts"

lemma targets_found:
  "targets_in always_targets all_off" "targets_in domain_targets (all_off\<lparr>custom_domains_enabled := True\<rparr>)"
  by code_simp+

lemma table_grows:
  "set (route_table all_off) \<subseteq> set (route_table c)"
  "custom_domains_enabled c \<Longrightarrow> set (route_table (all_off\<lparr>custom_domains_enabled := True\<rparr>)) \<subseteq> set (route_table c)"
proof -
  obtain A B C D E F G where parts: "\<And>c. route_table c =
     (A @ (B @ (if custom_domains_enabled c then C else [])) @ (if custom_domains_enabled c then D else []) @
       (if api_docs_enabled c then E else []) @ (if legal_pages_enabled c then F else [])) @ G"
    using route_table_parts by blast
  show "set (route_table all_off) \<subseteq> set (route_table c)" unfolding parts by (auto simp: all_off_def)
  show "custom_domains_enabled c \<Longrightarrow> set (route_table (all_off\<lparr>custom_domains_enabled := True\<rparr>)) \<subseteq> set (route_table c)"
    unfolding parts by (auto simp: all_off_def)
qed

lemma target_listed: "request_target req \<in> set (if is_domain_request req then domain_targets else always_targets)"
  by (cases req) (simp_all add: domain_targets_def always_targets_def)

lemma target_in_table:
  assumes "is_domain_request req \<longrightarrow> custom_domains_enabled c" "request_target req = (m, pat, ep)"
  shows "\<exists>ms. (pat, ms) \<in> set (route_table c) \<and> method_endpoint ms m = Some ep"
proof -
  have found: "\<exists>ms. (pat, ms) \<in> set (route_table c) \<and> method_endpoint ms m = Some ep"
    if "targets_in ts d" "(m, pat, ep) \<in> set ts" "set (route_table d) \<subseteq> set (route_table c)" for ts d
    using that by (fastforce simp: targets_in_def list_all_iff dest: map_of_SomeD split: option.splits)
  show ?thesis
  proof (cases "is_domain_request req")
    case True
    then show ?thesis
      using found [OF targets_found(2) _ table_grows(2)] target_listed [of req] assms by simp
  next
    case False
    then show ?thesis
      using found [OF targets_found(1) _ table_grows(1)] target_listed [of req] assms by simp
  qed
qed

text \<open>The parameters of the patterns, counted.\<close>

lemma param_counts:
  "list_all (\<lambda>(pat, n). length (filter is_param (pattern_of pat)) = n)
    [(''/api/addresses'', 0),
     (''/api/entitlements/verify'', 0),
     (''/api/client/challenge'', 0),
     (''/api/client/attest'', 0),
     (''/api/client/assert'', 0),
     (''/api/custom-domains'', 0),
     (''/healthz'', 0),
     (''/readyz'', 0),
     (''/api/capabilities'', 0),
     (''/api/domains'', 0),
     (''/api/addresses/{address}'', 1),
     (''/api/addresses/{address}/extend'', 1),
     (''/api/addresses/{address}/rotate'', 1),
     (''/api/addresses/{address}/messages'', 1),
     (''/api/addresses/{address}/messages/{id}'', 2),
     (''/api/addresses/{address}/messages/{id}/read'', 2),
     (''/api/addresses/{address}/messages/{id}/raw'', 2),
     (''/api/addresses/{address}/messages/{id}/attachments/{attachment_id}'', 3),
     (''/api/push/config'', 0),
     (''/api/push/vapid-public-key'', 0),
     (''/api/addresses/{address}/subscriptions'', 1),
     (''/api/custom-domains/{domain}'', 1),
     (''/api/custom-domains/{domain}/verify'', 1)]"
  by code_simp

lemma param_count:
  "length (filter is_param (pattern_of (fst (snd (request_target req))))) =
     length (request_texts req) + length (request_ids req)"
  using param_counts by (cases req) simp_all

lemma extract_request:
  assumes "url_codec ex enc show_id" "carries ex hr req" "\<forall>a\<in>set (request_texts req). a \<noteq> [] \<and> valid_utf8 a"
    "request_target req = (m, pat, ep)"
  shows "extract_call ex hr (map enc (request_texts req) @ map show_id (request_ids req)) ep = Ok (Call req)"
proof -
  have dec: "a \<noteq> [] \<Longrightarrow> valid_utf8 a \<Longrightarrow> ex_percent_decode ex (enc a) = Some a" "path_uuid ex (show_id i) = Some i" for a i
    using assms(1) by (auto simp: url_codec_def)
  show ?thesis
    using assms(2-4) by (cases req) (auto simp: dec or_reject_def path1_def path2_def path3_def)
qed

text \<open>C35: Every handler is reached with its arguments. Take any request for a handler (a custom-domain
  request only where the feature is on, so that its routes are mounted) whose address or domain is a
  non-empty text in UTF-8. An HTTP request with its method, with the path that results from putting
  the encoded address, domain and identifiers in the places of the route's parameters, and whose peer,
  headers, query and body carry the rest of the request, is routed to exactly that handler, which gets
  exactly these arguments. (The encoding is any that the path extractor reverses.)\<close>

theorem request_routed:
  assumes codec: "url_codec ex enc show_id" and mounted: "is_domain_request req \<longrightarrow> custom_domains_enabled c"
    and texts: "\<forall>a\<in>set (request_texts req). a \<noteq> [] \<and> valid_utf8 a" and carries: "carries ex hr req"
    and hr: "hr_method hr = fst (request_target req)" "hr_path hr = request_path enc show_id req"
  shows "route_call ex c hr = Ok (Call req)"
proof -
  obtain m pat ep where target: "request_target req = (m, pat, ep)" by (metis prod_cases3)
  let ?vs = "map enc (request_texts req) @ map show_id (request_ids req)" and ?segs = "fill_path (pattern_of pat)"
  have vs: "[] \<notin> set ?vs" "\<forall>v\<in>set ?vs. CHR ''/'' \<notin> set v"
    using codec texts by (auto simp: url_codec_def) (metis)+
  have len: "length ?vs = length (filter is_param (pattern_of pat))"
    using param_count [of req] target by simp
  have ne: "?segs ?vs \<noteq> []" by (simp add: fill_path_Nil pattern_of_def)
  have "\<forall>s\<in>set (?segs ?vs). CHR ''/'' \<notin> set s"
    using set_fill [OF len] vs(2) pattern_literals [of _ pat] by blast
  then have split: "split_at (CHR ''/'') (hr_path hr) = ?segs ?vs"
    using hr(2) target split_at_join [OF ne] by (simp add: request_path_def)
  obtain ms where ms: "(pat, ms) \<in> set (route_table c)" "method_endpoint ms m = Some ep"
    using target_in_table [OF mounted target] by blast
  have match: "match_path (pattern_of pat) (?segs ?vs) = Some ?vs" by (rule match_fill [OF len vs(1)])
  have "find_route (route_table c) (?segs ?vs) = Some (pat, ms)"
    using find_route_iff ms(1) match by (simp add: matches_def)
  then show ?thesis
    using extract_request [OF codec carries texts target] ms(2) match hr(1) target
    by (simp add: route_call_def split)
qed

definition plain_extractors :: extractors where
  "plain_extractors = \<lparr>ex_percent_decode = Some, ex_uuid = (\<lambda>s. Some (of_nat (length s - 1))),
     ex_list_query = (\<lambda>_. Some (None, None)), ex_create = (\<lambda>_ _. Some None), ex_verify = (\<lambda>_ _. Some None),
     ex_attest = (\<lambda>_ _. None), ex_assert = (\<lambda>_ _. None), ex_domain = (\<lambda>_ b. Some b),
     ex_subscribe = (\<lambda>_ _. Some None), ex_unsubscribe = (\<lambda>_ _. Some None)\<rparr>"

definition plain_http :: "http_method \<Rightarrow> string \<Rightarrow> headers \<Rightarrow> http_request" where
  "plain_http m path h = \<lparr>hr_method = m, hr_path = path, hr_query = [], hr_headers = h, hr_body = [], hr_peer = V4 1\<rparr>"

text \<open>For the example, an address is escaped by doubling \<open>%\<close> and writing \<open>%s\<close> for a slash.\<close>

fun escape :: "string \<Rightarrow> string" where
  "escape [] = []"
| "escape (x # xs) = (if x = CHR ''/'' then ''%s'' else if x = CHR ''%'' then ''%%'' else [x]) @ escape xs"

fun unescape :: "string \<Rightarrow> string" where
  "unescape [] = []"
| "unescape [x] = [x]"
| "unescape (x # y # xs) =
     (if x = CHR ''%'' then (if y = CHR ''s'' then CHR ''/'' else y) # unescape xs else x # unescape (y # xs))"

definition escaping_extractors :: extractors where
  "escaping_extractors = plain_extractors\<lparr>ex_percent_decode := Some \<circ> unescape\<rparr>"

definition unary :: "uuid \<Rightarrow> string" where
  "unary i = replicate (Suc (unat i)) (CHR ''1'')"

lemma unescape_escape: "unescape (escape s) = s"
proof (induction s)
  case (Cons x s)
  have "unescape (x # t) = x # unescape t" if "x \<noteq> CHR ''%''" for x t using that by (cases t) auto
  with Cons show ?case by auto
qed simp

lemma escape_slash: "CHR ''/'' \<notin> set (escape s)" "escape s = [] \<longleftrightarrow> s = []"
  by (induction s) auto

lemma unescape_ones: "unescape (replicate n (CHR ''1'')) = replicate n (CHR ''1'')"
proof (induction n)
  case (Suc n)
  have "unescape (CHR ''1'' # t) = CHR ''1'' # unescape t" for t by (cases t) auto
  with Suc show ?case by simp
qed simp

lemma escaping_codec: "url_codec escaping_extractors escape unary"
  by (simp add: url_codec_def escaping_extractors_def plain_extractors_def unescape_escape escape_slash
      path_uuid_def unary_def unescape_ones del: replicate_Suc)

theorem request_routed_witness:
  "route_call escaping_extractors config_default (plain_http DELETE ''/api/addresses/a%sb@d/messages/111'' (\<lambda>_. None)) =
     Ok (Call (DeleteMessage ''a/b@d'' 2 (\<lambda>_. None)))"
proof (rule request_routed [OF escaping_codec])
  show "hr_path (plain_http DELETE ''/api/addresses/a%sb@d/messages/111'' (\<lambda>_. None)) =
      request_path escape unary (DeleteMessage ''a/b@d'' 2 (\<lambda>_. None))"
    by code_simp
  show "\<forall>a\<in>set (request_texts (DeleteMessage ''a/b@d'' 2 (\<lambda>_. None))). a \<noteq> [] \<and> valid_utf8 a"
    by code_simp
qed (simp_all add: plain_http_def)

end
