(* ===== verification/Api_Outcomes.thy ===== *)
theory Api_Outcomes
  imports Api_Theorems Store_Steps
begin

text \<open>
  What the single owner routes and the App Attest routes do when they succeed: rotation revokes every
  other token, an extension respects the tier's lifetime cap, an assertion uses up its challenge and
  moves the device counter forward so that it cannot be replayed; and what a server that requires
  attestation refuses.
\<close>

lemma write_store_eq:
  "write_store f w = (r, w') \<longleftrightarrow> (\<exists>q s'. f (w_store w) = (q, s') \<and>
     r = map_err (\<lambda>e. Internal (StoreError e)) q \<and> w' = w\<lparr>w_store := s'\<rparr>)"
  by (auto simp: write_store_def split: prod.splits)

lemma write_store_Ok:
  "write_store f w = (Ok x, w') \<longleftrightarrow> (\<exists>s'. f (w_store w) = (Ok x, s') \<and> w' = w\<lparr>w_store := s'\<rparr>)"
  by (auto simp: write_store_def split: prod.splits)

lemma rotate_steps:
  assumes "address_rotate st raw h w = (Ok tok, w')"
  obtains mb want s' where "st_get_mailbox (ap_ops st) (to_ascii_lowercase raw) (w_store w) = Ok (Some mb)"
    "mb_owner_token_hash mb = Some want" "presents st h want"
    "st_rotate_owner_token (ap_ops st) (to_ascii_lowercase raw) (hash_token (sha st) tok) (w_store w) = (Ok True, s')"
    "w_store w' = s'"
proof -
  from assms obtain c w1 mb w2 th w3 where g: "attestation_gate st h w = (Ok c, w1)"
    "authorize_owner st (to_ascii_lowercase raw) h w1 = (Ok mb, w2)"
    "fresh_token st TOKEN_PREFIX w2 = (Ok (tok, th), w3)"
    "write_store (st_rotate_owner_token (ap_ops st) (to_ascii_lowercase raw) th) w3 = (Ok True, w')"
    by (auto simp: address_rotate_def Let_def try_bind_Ok api_simps split: if_splits)
  from g(4) obtain s' where r: "st_rotate_owner_token (ap_ops st) (to_ascii_lowercase raw) th (w_store w3) = (Ok True, s')"
    "w' = w3\<lparr>w_store := s'\<rparr>" by (auto simp: write_store_Ok)
  show thesis
    using that [of mb _ s'] gate_store [OF g(1)] g(2) fresh_token_Ok [OF g(3)] r
    by (auto simp: authorize_owner_Ok)
qed

text \<open>The lifetime cap of a tier; no tier is enforced when there is none.\<close>

definition within_cap :: "'s app_state \<Rightarrow> tier option \<Rightarrow> datetime \<Rightarrow> datetime \<Rightarrow> bool" where
  "within_cap st t created_at expires_at \<longleftrightarrow>
     (case t of None \<Rightarrow> True
      | Some tier \<Rightarrow> (let cap = tp_max_lifetime_seconds (tier_policy_of (ap_config st) tier) in
          cap = 0 \<or> expires_at - created_at \<le> seconds (as_i64 cap)))"

lemma check_lifetime_cap_Ok:
  "check_lifetime_cap st t c e w = (Ok u, w') \<longleftrightarrow> w' = w \<and> within_cap st t c e"
  by (auto simp: check_lifetime_cap_def within_cap_def Let_def api_simps word_gt_0 split: option.splits if_splits)

lemma extend_steps:
  assumes "address_extend st raw h w = (Ok mb', w')"
  obtains mb want now wt wt' t s' where
    "st_get_mailbox (ap_ops st) (to_ascii_lowercase raw) (w_store w) = Ok (Some mb)"
    "mb_owner_token_hash mb = Some want" "presents st h want" "enforced_tier st h wt = (Ok t, wt')"
    "within_cap st t (mb_created_at mb) (now + ttl_of (ap_config st))"
    "st_extend_mailbox (ap_ops st) (to_ascii_lowercase raw) (now + ttl_of (ap_config st)) (w_store w) = (Ok (Some mb'), s')"
    "w_store w' = s'"
proof -
  from assms obtain c w1 mb w2 now w3 t w4 where g: "attestation_gate st h w = (Ok c, w1)"
    "authorize_owner st (to_ascii_lowercase raw) h w1 = (Ok mb, w2)" "now_utc w2 = (Ok now, w3)"
    "enforced_tier st h w3 = (Ok t, w4)" "within_cap st t (mb_created_at mb) (now + ttl_of (ap_config st))"
    "write_store (st_extend_mailbox (ap_ops st) (to_ascii_lowercase raw) (now + ttl_of (ap_config st))) w4
       = (Ok (Some mb'), w')"
    by (auto simp: address_extend_def Let_def try_bind_Ok api_simps ok_or_def check_lifetime_cap_Ok
        split: option.splits)
  have "w_store w4 = w_store w"
    using gate_store [OF g(1)] g(2) keepsD [OF keeps_store_effects(1) g(3)] keepsD [OF gates_keep_store(4) g(4)]
    by (auto simp: authorize_owner_Ok)
  with that [OF _ _ _ g(4,5)] gate_store [OF g(1)] g(2,6) show thesis
    by (auto simp: authorize_owner_Ok write_store_Ok)
qed

context store_contract
begin

lemma rotate_view:
  assumes "ap_ops st = ops" "sinv (w_store w)" "address_rotate st raw h w = (Ok tok, w')"
  shows "\<exists>mb want. v_mailbox (view (w_store w)) (to_ascii_lowercase raw) = Some mb \<and>
    mb_owner_token_hash mb = Some want \<and> presents st h want \<and> sinv (w_store w') \<and>
    view (w_store w') = (view (w_store w))\<lparr>v_mailbox := (v_mailbox (view (w_store w)))
      (to_ascii_lowercase raw \<mapsto> mb\<lparr>mb_owner_token_hash := Some (hash_token (sha st) tok)\<rparr>)\<rparr>"
  using assms(3)
proof (rule rotate_steps)
  fix mb want s'
  assume g: "st_get_mailbox (ap_ops st) (to_ascii_lowercase raw) (w_store w) = Ok (Some mb)"
    "mb_owner_token_hash mb = Some want" "presents st h want"
    "st_rotate_owner_token (ap_ops st) (to_ascii_lowercase raw) (hash_token (sha st) tok) (w_store w) = (Ok True, s')"
    "w_store w' = s'"
  have "v_mailbox (view (w_store w)) (to_ascii_lowercase raw) = Some mb"
    using get_mailbox_Ok assms(1,2) g(1) by blast
  with op_refines_Ok [OF rotate_owner_token [OF assms(2), of "to_ascii_lowercase raw" "hash_token (sha st) tok",
      unfolded g(4) [unfolded assms(1)]]] g show ?thesis
    by (auto simp: spec_rotate_owner_token_def)
qed

lemma extend_view:
  assumes "ap_ops st = ops" "sinv (w_store w)" "address_extend st raw h w = (Ok mb', w')"
  shows "\<exists>mb want now wt wt' t. v_mailbox (view (w_store w)) (to_ascii_lowercase raw) = Some mb \<and>
    mb_owner_token_hash mb = Some want \<and> presents st h want \<and>
    mb' = mb\<lparr>mb_expires_at := now + ttl_of (ap_config st)\<rparr> \<and>
    enforced_tier st h wt = (Ok t, wt') \<and> within_cap st t (mb_created_at mb') (mb_expires_at mb') \<and>
    view (w_store w') = (view (w_store w))\<lparr>v_mailbox := (v_mailbox (view (w_store w)))(to_ascii_lowercase raw \<mapsto> mb')\<rparr>"
  using assms(3)
proof (rule extend_steps)
  fix mb want now wt wt' t s'
  assume g: "st_get_mailbox (ap_ops st) (to_ascii_lowercase raw) (w_store w) = Ok (Some mb)"
    "mb_owner_token_hash mb = Some want" "presents st h want" "enforced_tier st h wt = (Ok t, wt')"
    "within_cap st t (mb_created_at mb) (now + ttl_of (ap_config st))"
    "st_extend_mailbox (ap_ops st) (to_ascii_lowercase raw) (now + ttl_of (ap_config st)) (w_store w) = (Ok (Some mb'), s')"
    "w_store w' = s'"
  have mb: "v_mailbox (view (w_store w)) (to_ascii_lowercase raw) = Some mb"
    using get_mailbox_Ok assms(1,2) g(1) by blast
  with op_refines_Ok(1) [OF extend_mailbox [OF assms(2), of "now + ttl_of (ap_config st)"
      "to_ascii_lowercase raw", unfolded g(6) [unfolded assms(1)]]]
  have mb': "mb' = mb\<lparr>mb_expires_at := now + ttl_of (ap_config st)\<rparr>"
    "view (w_store w') = (view (w_store w))\<lparr>v_mailbox := (v_mailbox (view (w_store w)))(to_ascii_lowercase raw \<mapsto> mb')\<rparr>"
    using g(7) by (auto simp: spec_extend_mailbox_def)
  then have "within_cap st t (mb_created_at mb') (mb_expires_at mb')" using g(5) by simp
  with mb mb' g(2-4) show ?thesis by blast
qed

text \<open>Reading the mailbox back: a reliable backend answers 401 to every request without the token.\<close>

lemma authorize_decides:
  assumes "ap_ops st = ops" "sinv (w_store w)" reliable "v_mailbox (view (w_store w)) a = Some mb"
    "mb_owner_token_hash mb = Some want"
  shows "authorize_owner st a h w = (Ok mb, w) \<and> presents st h want \<or>
    (\<exists>m. authorize_owner st a h w = (Err (Unauthorized m), w)) \<and> \<not> presents st h want"
proof -
  have "st_get_mailbox ops a (w_store w) = Ok (Some mb)"
    using get_mailbox [OF assms(2), of a] assms(3,4) by (simp add: read_refines_def)
  with assms(1,5) show ?thesis
    by (auto simp: authorize_owner_def try_bind_def read_store_def presents_def token_matches_hash_iff
        expect_some_def ret_def fail_def split: option.splits)
qed

end

text \<open>C14: Rotation replaces the owner token. A successful rotation was asked for with the old token; it
  changes nothing but the stored hash of that mailbox, which becomes the hash of the token it hands
  out; and afterwards the owner check accepts exactly the requests that present a token with the new
  hash and answers 401 to every other one, the old token included. This holds on every reliable
  backend that meets the contract.\<close>

theorem rotate_revokes:
  assumes contract: "backed_service st q sinv view True T"
    and "sinv (w_store w)" "address_rotate st raw h w = (Ok tok, w')"
  shows "\<exists>mb want. let a = to_ascii_lowercase raw; new = hash_token (sha st) tok;
      mb' = mb\<lparr>mb_owner_token_hash := Some new\<rparr> in
    v_mailbox (view (w_store w)) a = Some mb \<and> mb_owner_token_hash mb = Some want \<and> presents st h want \<and>
    view (w_store w') = (view (w_store w))\<lparr>v_mailbox := (v_mailbox (view (w_store w)))(a \<mapsto> mb')\<rparr> \<and>
    (\<forall>h'. authorize_owner st a h' w' = (Ok mb', w') \<and> presents st h' new \<or>
          (\<exists>m. authorize_owner st a h' w' = (Err (Unauthorized m), w')) \<and> \<not> presents st h' new)"
proof -
  from store_contract.rotate_view [OF backed_service.axioms [OF contract] refl assms(2,3)] obtain mb want where
    out: "v_mailbox (view (w_store w)) (to_ascii_lowercase raw) = Some mb" "mb_owner_token_hash mb = Some want"
      "presents st h want" "sinv (w_store w')" and
    view: "view (w_store w') = (view (w_store w))\<lparr>v_mailbox := (v_mailbox (view (w_store w)))
      (to_ascii_lowercase raw \<mapsto> mb\<lparr>mb_owner_token_hash := Some (hash_token (sha st) tok)\<rparr>)\<rparr>" by blast
  note dec = store_contract.authorize_decides [OF backed_service.axioms [OF contract] refl out(4) TrueI, of "to_ascii_lowercase raw"
      "mb\<lparr>mb_owner_token_hash := Some (hash_token (sha st) tok)\<rparr>" "hash_token (sha st) tok"]
  show ?thesis
    by (rule exI [of _ mb], rule exI [of _ want], unfold Let_def, intro conjI allI out(1-3) view dec)
       (simp_all add: view)
qed

lemma demo_memory: "ap_ops demo_state = memory_ops UNLIMITED" "w_store (demo_world s) = s"
  by (simp_all add: demo_state_def demo_world_def)

lemma owner_gate:
  "attestation_gate demo_state (with_bearer t) (demo_world s) = (Ok None, demo_world s)"
  by (simp add: attestation_gate_def request_claims_def with_bearer_def CLIENT_TOKEN_HEADER_def trimmed_non_empty_def
      try_bind_def ret_def demo_state_def demo_config_facts)

lemma owner_request:
  "bearer_token (with_bearer ''am_secret'') = Some ''am_secret''"
  "to_ascii_lowercase ''U@Example.com'' = ''u@example.com''"
  "hex ''am_secret'' = hash_token id ''am_secret''"
  by code_simp+

lemma owner_authorized:
  assumes "w_store w = owned_store"
  shows "authorize_owner demo_state ''u@example.com'' (with_bearer ''am_secret'') w = (Ok owned_box, w)"
  by (rule mem.authorize_with_token [where q = UNLIMITED])
    (simp_all only: assms owned_store_inv owned_store_box owner_request demo_sha demo_memory,
     simp_all add: owned_box_def owner_request)

theorem rotate_revokes_witness:
  "\<exists>tok w' mb. address_rotate demo_state ''U@Example.com'' (with_bearer ''am_secret'') (demo_world owned_store) = (Ok tok, w') \<and>
     v_mailbox (mem_view (w_store w')) ''u@example.com''
       = Some (mb\<lparr>mb_owner_token_hash := Some (hash_token (sha demo_state) tok)\<rparr>)"
proof -
  let ?run = "address_rotate demo_state ''U@Example.com'' (with_bearer ''am_secret'') (demo_world owned_store)"
  have inv: "mem_inv (w_store (demo_world owned_store))" by (simp add: demo_memory owned_store_inv)
  have "\<exists>tok w'. ?run = (Ok tok, w')"
    by (simp add: address_rotate_def owner_request try_bind_def owner_gate owner_authorized demo_memory fresh_token_def
        draw_bytes_def ret_def generate_token_def Let_def write_store_def memory_ops_def
        mem_rotate_owner_token_def owned_store_box [simplified])
  then obtain tok w' where run: "?run = (Ok tok, w')" by blast
  from rotate_revokes [OF demo_backend inv run] obtain mb where
    "mem_view (w_store w') = (mem_view owned_store)\<lparr>v_mailbox := (v_mailbox (mem_view owned_store))
       (''u@example.com'' \<mapsto> mb\<lparr>mb_owner_token_hash := Some (hash_token (sha demo_state) tok)\<rparr>)\<rparr>"
    unfolding Let_def owner_request demo_memory by blast
  then have "v_mailbox (mem_view (w_store w')) ''u@example.com''
      = Some (mb\<lparr>mb_owner_token_hash := Some (hash_token (sha demo_state) tok)\<rparr>)" by (simp only:) simp
  with run show ?thesis by blast
qed

text \<open>C18: An extension moves only the expiry, and respects the lifetime cap. A successful extension was
  asked for with the owner token, sets the expiry to one TTL after a reading of the clock and changes
  nothing else in the store; and where tiers are enforced, the whole lifetime of the mailbox, from its
  creation to the new expiry, stays within the cap of the request's tier unless that cap is 0.\<close>

theorem extend_within_cap:
  assumes contract: "backed_service st q sinv view reliable T"
    and "sinv (w_store w)" "address_extend st raw h w = (Ok mb', w')"
  shows "\<exists>mb want now wt wt' t. v_mailbox (view (w_store w)) (to_ascii_lowercase raw) = Some mb \<and>
    mb_owner_token_hash mb = Some want \<and> presents st h want \<and>
    mb' = mb\<lparr>mb_expires_at := now + ttl_of (ap_config st)\<rparr> \<and>
    enforced_tier st h wt = (Ok t, wt') \<and> within_cap st t (mb_created_at mb') (mb_expires_at mb') \<and>
    view (w_store w') = (view (w_store w))\<lparr>v_mailbox := (v_mailbox (view (w_store w)))(to_ascii_lowercase raw \<mapsto> mb')\<rparr>"
  by (rule store_contract.extend_view [OF backed_service.axioms [OF contract] refl assms(2,3)])


theorem extend_within_cap_witness:
  "\<exists>mb w'. address_extend demo_state ''U@Example.com'' (with_bearer ''am_secret'') (demo_world owned_store) = (Ok mb, w') \<and>
     v_mailbox (mem_view (w_store w')) ''u@example.com'' = Some mb"
proof -
  let ?run = "address_extend demo_state ''U@Example.com'' (with_bearer ''am_secret'') (demo_world owned_store)"
  have inv: "mem_inv (w_store (demo_world owned_store))" by (simp add: demo_memory owned_store_inv)
  have tier: "enforced_tier demo_state (with_bearer t) w = (Ok (Some Free), w)" for t w
    by (simp add: enforced_tier_def client_tier_def request_claims_def with_bearer_def CLIENT_TOKEN_HEADER_def
      trimmed_non_empty_def try_bind_def ret_def demo_state_def demo_config_facts)
  have cap: "within_cap demo_state (Some Free) 0 (seconds 1000 + ttl_of demo_config)" by code_simp
  have "check_lifetime_cap demo_state (Some Free) 0 (seconds 1000 + ttl_of demo_config) w = (Ok (), w)" for w
    using check_lifetime_cap_Ok [of demo_state "Some Free"] cap by simp
  moreover have "w_clock (demo_world owned_store) (w_ticks (demo_world owned_store)) = seconds 1000"
    "mb_created_at owned_box = 0" "ap_config demo_state = demo_config"
    by (simp_all add: demo_world_def owned_box_def demo_state_def)
  ultimately have "\<exists>tok w'. ?run = (Ok tok, w')"
    by (simp add: address_extend_def owner_request try_bind_def owner_gate owner_authorized demo_memory tier Let_def
       write_store_def now_utc_def utc_now_def memory_ops_def mem_extend_mailbox_def owned_store_box [simplified] expect_some_def)
  then obtain tok w' where run: "?run = (Ok tok, w')" by blast
  from extend_within_cap [OF demo_backend inv run] have
    "mem_view (w_store w') = (mem_view owned_store)\<lparr>v_mailbox := (v_mailbox (mem_view owned_store))(''u@example.com'' \<mapsto> tok)\<rparr>"
    unfolding owner_request demo_memory by blast
  then have "v_mailbox (mem_view (w_store w')) ''u@example.com'' = Some tok" by (simp only:) simp
  with run show ?thesis by blast
qed

subsection \<open>App Attest\<close>

lemma keeps_challenges [intro!, simp]:
  "keeps aw_challenges now_utc" "keeps aw_challenges now_instant" "keeps aw_challenges next_lookup"
  "keeps aw_challenges (write_store f)"
  by (auto simp: keeps_def now_utc_def utc_now_def now_instant_def next_lookup_def write_store_def
      split: prod.splits)

lemma mint_keeps_challenges: "keeps aw_challenges (client_mint st k rc)"
proof -
  have "keeps aw_challenges (is_pro st u i)" for u i
    unfolding is_pro_def by (intro keeps_rules keeps_challenges) (auto simp: keeps_def split: prod.splits)
  then show ?thesis
    unfolding client_mint_def resolve_tier_def mint_token_def prod.case case_prod_beta
    by (intro keeps_rules keeps_challenges keeps_case_bool)
qed

lemma consume_challenge_Ok:
  "consume_challenge c w = (Ok u, w') \<Longrightarrow>
     consume c (aw_instants w (aw_iticks w)) (aw_challenges w) = (True, aw_challenges w') \<and> w_store w' = w_store w"
  by (auto simp: consume_challenge_def try_bind_Ok now_instant_def with_challenges_def api_simps
      split: prod.splits if_splits)

lemma Ok_map_err: "Ok x = map_err f r \<longleftrightarrow> r = Ok x"
  by (cases r) auto

lemma assert_steps:
  assumes "client_assert st req w = (Ok out, w')"
  obtains app_id dev n seen s' where
    "consume (sq_challenge req) (aw_instants w (aw_iticks w)) (aw_challenges w) = (True, aw_challenges w')"
    "st_get_attested_device (ap_ops st) (sq_key_id req) (w_store w) = Ok (Some dev)"
    "app_attest_app_id (ap_config st) = Some app_id"
    "verify_assertion (cr_attest (ap_crypto st)) app_id (sq_challenge req) (sq_assertion req)
       (ad_public_key dev) (ad_counter dev) = Ok n"
    "st_advance_attested_device_counter (ap_ops st) (sq_key_id req) n seen (w_store w) = (Ok True, s')"
    "w_store w' = s'"
proof -
  from assms obtain app_id w1 u w2 dev n seen w3 w4 where g:
    "require_configured st w = (Ok app_id, w1)" "consume_challenge (sq_challenge req) w1 = (Ok u, w2)"
    "st_get_attested_device (ap_ops st) (sq_key_id req) (w_store w2) = Ok (Some dev)"
    "verify_assertion (cr_attest (ap_crypto st)) app_id (sq_challenge req) (sq_assertion req)
       (ad_public_key dev) (ad_counter dev) = Ok n"
    "now_utc w2 = (Ok seen, w3)"
    "write_store (st_advance_attested_device_counter (ap_ops st) (sq_key_id req) n seen) w3 = (Ok True, w4)"
    "client_mint st (sq_key_id req) (sq_rc_app_user_id req) w4 = (Ok out, w')"
    by (auto simp: client_assert_def try_bind_Ok api_simps validate_key_id_def read_store_def ok_or_def
        Ok_map_err split: option.splits if_splits)
  have w1: "w1 = w" "app_attest_app_id (ap_config st) = Some app_id"
    using g(1) by (auto simp: require_configured_def api_simps ok_or_def split: option.splits)
  have st: "w_store w3 = w_store w" "w_store w2 = w_store w" "w_store w' = w_store w4"
    using consume_challenge_Ok [OF g(2)] keepsD [OF keeps_store_effects(1) g(5)] w1
      keepsD [OF keeps_store_reads(10) g(7)] by simp_all
  have ch: "aw_challenges w' = aw_challenges w2"
    using keepsD [OF mint_keeps_challenges g(7)] keepsD [OF keeps_challenges(4) g(6)]
      keepsD [OF keeps_challenges(1) g(5)] by simp
  show thesis
    using that [OF _ _ w1(2) g(4)] consume_challenge_Ok [OF g(2)] g(3,6) st ch w1 by (auto simp: write_store_Ok)
qed

context store_contract
begin

lemma assert_view:
  assumes "ap_ops st = ops" "sinv (w_store w)" "client_assert st req w = (Ok out, w')"
  shows "\<exists>dev n app_id seen. v_device (view (w_store w)) (sq_key_id req) = Some dev \<and>
    verify_assertion (cr_attest (ap_crypto st)) app_id (sq_challenge req) (sq_assertion req)
      (ad_public_key dev) (ad_counter dev) = Ok n \<and> ad_counter dev < n \<and> sinv (w_store w') \<and>
    view (w_store w') = (view (w_store w))\<lparr>v_device := (v_device (view (w_store w)))
      (sq_key_id req \<mapsto> dev\<lparr>ad_counter := n, ad_last_seen_at := seen\<rparr>)\<rparr>"
  using assms(3)
proof (rule assert_steps)
  fix app_id dev n seen s'
  assume g: "st_get_attested_device (ap_ops st) (sq_key_id req) (w_store w) = Ok (Some dev)"
    "verify_assertion (cr_attest (ap_crypto st)) app_id (sq_challenge req) (sq_assertion req)
       (ad_public_key dev) (ad_counter dev) = Ok n"
    "st_advance_attested_device_counter (ap_ops st) (sq_key_id req) n seen (w_store w) = (Ok True, s')"
    "w_store w' = s'"
  have dev: "v_device (view (w_store w)) (sq_key_id req) = Some dev"
    using get_attested_device_Ok assms(1,2) g(1) by blast
  with op_refines_Ok [OF advance_attested_device_counter [OF assms(2), of seen "sq_key_id req" n,
      unfolded g(3) [unfolded assms(1)]]] g(4)
  have "ad_counter dev < n" "sinv (w_store w')" "view (w_store w') = (view (w_store w))\<lparr>v_device :=
      (v_device (view (w_store w)))(sq_key_id req \<mapsto> dev\<lparr>ad_counter := n, ad_last_seen_at := seen\<rparr>)\<rparr>"
    by (auto simp: spec_advance_attested_device_counter_def split: if_splits)
  with dev g(2) show ?thesis by blast
qed

end

text \<open>The counter is read from the assertion itself, whatever challenge and key it is checked with.\<close>

lemma verify_assertion_counter:
  assumes "verify_assertion lib app ch a pk prev = Ok n" "verify_assertion lib app' ch' a pk' prev' = Ok n'"
  shows "n' = n"
  using assms by (auto simp: verify_assertion_def split: if_splits result.splits)

text \<open>C15: An assertion is good once. A successful \<open>POST /api/client/assert\<close> redeems a challenge that is
  live at the instant the request reads, and which is gone afterwards; it moves the device's counter
  strictly forward to the counter inside the assertion, below \<open>2^32\<close>, and changes nothing else of the
  store but the time the device was last seen. Whoever sends the same assertion for the same key again,
  with any challenge, gets an error: at once, or after any history of store calls from any tasks, other
  assertions and re-attestations included, throughout which the device stays registered (a device that
  was pruned and attests anew starts from counter 0).\<close>

theorem assertion_single_use:
  assumes contract: "backed_service st q sinv view reliable T"
    and "sinv (w_store w)" "hm_invar (ch_issued (aw_challenges w))" "client_assert st req w = (Ok out, w')"
  shows "\<exists>at dev n seen. hm_get (ch_issued (aw_challenges w)) (sq_challenge req) = Some at \<and>
    duration_since (aw_instants w (aw_iticks w)) at < ch_ttl (aw_challenges w) \<and>
    hm_get (ch_issued (aw_challenges w')) (sq_challenge req) = None \<and>
    v_device (view (w_store w)) (sq_key_id req) = Some dev \<and> ad_counter dev < n \<and> n < 2 ^ 32 \<and>
    view (w_store w') = (view (w_store w))\<lparr>v_device := (v_device (view (w_store w)))
      (sq_key_id req \<mapsto> dev\<lparr>ad_counter := n, ad_last_seen_at := seen\<rparr>)\<rparr> \<and>
    (\<forall>req' w2. device_history (ap_ops st) view (sq_key_id req) (w_store w') (w_store w2) \<longrightarrow>
       sq_key_id req' = sq_key_id req \<longrightarrow> sq_assertion req' = sq_assertion req \<longrightarrow>
       (\<exists>e w3. client_assert st req' w2 = (Err e, w3)))"
proof -
  note store = backed_service.axioms [OF contract]
  from store_contract.assert_view [OF store refl assms(2,4)] obtain dev n app_id seen where
    dev: "v_device (view (w_store w)) (sq_key_id req) = Some dev" and
    ver: "verify_assertion (cr_attest (ap_crypto st)) app_id (sq_challenge req) (sq_assertion req)
      (ad_public_key dev) (ad_counter dev) = Ok n" and lt: "ad_counter dev < n" and inv': "sinv (w_store w')" and
    view: "view (w_store w') = (view (w_store w))\<lparr>v_device := (v_device (view (w_store w)))
      (sq_key_id req \<mapsto> dev\<lparr>ad_counter := n, ad_last_seen_at := seen\<rparr>)\<rparr>" by blast
  let ?now = "aw_instants w (aw_iticks w)"
  from assms(4) have "consume (sq_challenge req) ?now (aw_challenges w) = (True, aw_challenges w')"
    by (rule assert_steps)
  then have "fst (consume (sq_challenge req) ?now (aw_challenges w))"
    "aw_challenges w' = snd (consume (sq_challenge req) ?now (aw_challenges w))" by simp_all
  then obtain at where ch: "hm_get (ch_issued (aw_challenges w)) (sq_challenge req) = Some at"
      "duration_since ?now at < ch_ttl (aw_challenges w)"
      "hm_get (ch_issued (aw_challenges w')) (sq_challenge req) = None"
    using assms(3) by (auto simp: consume_def hm_laws split: option.splits)
  have again: "\<exists>e w3. client_assert st req' w2 = (Err e, w3)"
    if hist: "device_history (ap_ops st) view (sq_key_id req) (w_store w') (w_store w2)"
      and same: "sq_key_id req' = sq_key_id req" "sq_assertion req' = sq_assertion req" for req' w2
  proof -
    have "v_device (view (w_store w')) (sq_key_id req) = Some (dev\<lparr>ad_counter := n, ad_last_seen_at := seen\<rparr>)"
      by (simp add: view)
    from store_contract.device_history_counter [OF store hist inv' this] obtain d2 where
      d2: "sinv (w_store w2)" "v_device (view (w_store w2)) (sq_key_id req) = Some d2" "n \<le> ad_counter d2" by auto
    have "client_assert st req' w2 \<noteq> (Ok out', w3)" for out' w3
    proof
      assume "client_assert st req' w2 = (Ok out', w3)"
      from store_contract.assert_view [OF store refl d2(1) this] obtain n' app' where
        "verify_assertion (cr_attest (ap_crypto st)) app' (sq_challenge req') (sq_assertion req)
          (ad_public_key d2) (ad_counter d2) = Ok n'" "ad_counter d2 < n'"
        unfolding same d2(2) by auto
      with verify_assertion_counter [OF ver] d2(3) show False by force
    qed
    then show ?thesis by (metis prod.exhaust result.exhaust)
  qed
  from verify_assertion_range [OF ver] have "n < 2 ^ 32" by simp
  with ch dev lt view again show ?thesis by blast
qed

definition device_store :: inner where
  "device_store = snd (mem_upsert_attested_device ''key'' ''pk'' 0 inner_default)"

definition device_world :: "inner app_world" where
  "device_world = (demo_world device_store)\<lparr>aw_challenges := snd (issue id ''nonce'' 0 challenge_store_default)\<rparr>"

definition device_request :: assert_request where
  "device_request = \<lparr>sq_key_id = ''key'', sq_assertion = replicate 37 (CHR ''a''), sq_challenge = ''nonce'',
     sq_rc_app_user_id = None\<rparr>"

theorem assertion_single_use_witness:
  "\<exists>out w' w2. client_assert demo_state device_request device_world = (Ok out, w') \<and>
     w2 = w'\<lparr>w_store := snd (mem_upsert_attested_device ''key'' ''pk2'' 5 (w_store w'))\<rparr> \<and>
     (\<exists>e w3. client_assert demo_state device_request w2 = (Err e, w3))"
proof -
  let ?run = "client_assert demo_state device_request device_world"
  have ops: "ap_ops demo_state = memory_ops UNLIMITED" by (simp add: demo_state_def)
  have "case fst ?run of Ok _ \<Rightarrow> True | Err _ \<Rightarrow> False" by code_simp
  then obtain out w' where run: "?run = (Ok out, w')"
    by (cases ?run) (auto split: result.splits)
  have inv: "mem_inv (w_store device_world)"
    using mem.upsert_attested_device [OF mem_inv_default, of UNLIMITED "''key''" "''pk''" 0]
    by (simp add: device_world_def demo_world_def device_store_def op_refines_def memory_ops_def)
  have ch: "hm_invar (ch_issued (aw_challenges device_world))"
    by (simp add: device_world_def issue_def challenge_store_default_def challenge_store_new_def Let_def)
  define w2 where "w2 = w'\<lparr>w_store := snd (mem_upsert_attested_device ''key'' ''pk2'' 5 (w_store w'))\<rparr>"
  have "store_step (memory_ops UNLIMITED) mem_view (w_store w') (w_store w2)"
    using store_step.upsert_attested_device [of "memory_ops UNLIMITED" mem_view "w_store w'" "''key''" "''pk2''" 5]
    by (simp add: w2_def)
  moreover have "hm_get (attested_devices (snd (mem_upsert_attested_device ''key'' ''pk2'' 5 (w_store (snd ?run))))) ''key'' \<noteq> None"
    by code_simp
  then have "hm_get (attested_devices (w_store w2)) ''key'' \<noteq> None" by (simp add: w2_def run)
  ultimately have "device_history (ap_ops demo_state) mem_view ''key'' (w_store w') (w_store w2)"
    by (simp add: device_history_def ops r_into_rtranclp)
  moreover have "sq_key_id device_request = ''key''" by (simp add: device_request_def)
  ultimately have "\<exists>e w3. client_assert demo_state device_request w2 = (Err e, w3)"
    using assertion_single_use [OF demo_backend inv ch run] by metis
  with run w2_def show ?thesis by blast
qed

end
