(* ===== verification/Api_Attestation.thy ===== *)
theory Api_Attestation
  imports Api_Outcomes
begin

text \<open>
  The attestation requirement: with \<open>client_attestation_required\<close> set, a request without an attested client
  token cannot change the mailboxes, the mail (read markers apart), the subscriptions or the claims.
\<close>

text \<open>No reading of the clock makes the request's client token verify as an attested one.\<close>

definition unattested :: "'s app_state \<Rightarrow> headers \<Rightarrow> bool" where
  "unattested st h \<longleftrightarrow>
     (\<forall>raw key now c. trimmed_non_empty (Option.bind (h CLIENT_TOKEN_HEADER) header_to_str) = Some raw \<longrightarrow>
        token_signing_key (ap_config st) = Some key \<longrightarrow>
        verify_client_token (cr_jwt_decode (ap_crypto st)) now key raw = Ok c \<longrightarrow> \<not> is_attested c)"

text \<open>Everything the open routes leave alone: all but the devices and the read markers.\<close>

definition inert :: "sview \<Rightarrow> sview \<Rightarrow> bool" where
  "inert v v' \<longleftrightarrow> (\<forall>a. same_box a v v') \<and> v_domain v' = v_domain v"

lemma inert_refl: "inert v v"
  by (simp add: inert_def)

lemma verified_claims:
  "(case r of Ok claims \<Rightarrow> ret (Some claims) | Err Expired \<Rightarrow> fail x | Err Invalid \<Rightarrow> fail y) (w :: 's app_world)
     = (Ok (Some c), w') \<longleftrightarrow> r = Ok c \<and> w' = w"
  by (cases r) (auto simp: ret_def fail_def split: token_error.splits)

lemma unattested_gate:
  assumes "client_attestation_required (ap_config st)" "unattested st h"
  shows "\<exists>e w'. attestation_gate st h w = (Err e, w') \<and> w_store w' = w_store w"
proof -
  obtain r w' where g: "attestation_gate st h w = (r, w')" by (cases "attestation_gate st h w")
  have "r \<noteq> Ok c" for c
  proof
    assume "r = Ok c"
    with g assms(1) obtain cl w1 where "request_claims st h w = (Ok (Some cl), w1)" "is_attested cl"
      by (auto simp: attestation_gate_def try_bind_Ok api_simps split: option.splits if_splits)
    with assms(2) show False
      by (auto simp: request_claims_def unattested_def try_bind_Ok verified_claims api_simps split: option.splits)
  qed
  with g gate_store [OF g] show ?thesis by (cases r) auto
qed

lemma keeps_behind_gate:
  assumes "client_attestation_required (ap_config st)" "unattested st h"
  shows "keeps w_store (try_bind (attestation_gate st h) f)"
proof -
  have "w_store (snd (try_bind (attestation_gate st h) f w)) = w_store w" for w
    using unattested_gate [OF assms, of w] by (auto simp: try_bind_def)
  then show ?thesis by (simp add: keeps_def)
qed

context store_contract
begin

lemma open_operations_inert:
  assumes "sinv s" "inert v0 (view s)"
  shows "sinv (snd (st_mark_seen ops a i s)) \<and> inert v0 (view (snd (st_mark_seen ops a i s)))"
    "sinv (snd (st_upsert_attested_device ops k pk now s)) \<and> inert v0 (view (snd (st_upsert_attested_device ops k pk now s)))"
    "sinv (snd (st_advance_attested_device_counter ops k n now s)) \<and>
       inert v0 (view (snd (st_advance_attested_device_counter ops k n now s)))"
proof -
  have same: "v_mailbox (view s) = v_mailbox v0" "v_sub (view s) = v_sub v0" "v_domain (view s) = v_domain v0"
    "map_option unseen (v_entry (view s) b j) = map_option unseen (v_entry v0 b j)" for b j
    using assms(2) by (auto simp: inert_def same_box_def)
  have "inert v0 (snd (spec_mark_seen a i (view s)))"
    using same by (auto simp: inert_def same_box_def spec_mark_seen_def Let_def option.map_comp comp_def
        unseen_mark split: option.splits)
  with route_op_views(9) [OF assms(1), of a i] assms(2)
  show "sinv (snd (st_mark_seen ops a i s)) \<and> inert v0 (view (snd (st_mark_seen ops a i s)))" by metis
  have "inert v0 (snd (spec_upsert_attested_device k pk now (view s)))"
    using same by (auto simp: inert_def same_box_def spec_upsert_attested_device_def Let_def)
  with route_op_views(13) [OF assms(1), of k pk now] assms(2)
  show "sinv (snd (st_upsert_attested_device ops k pk now s)) \<and>
      inert v0 (view (snd (st_upsert_attested_device ops k pk now s)))" by metis
  have "inert v0 (snd (spec_advance_attested_device_counter k n now (view s)))"
    using same by (auto simp: inert_def same_box_def spec_advance_attested_device_counter_def split: option.splits)
  with route_op_views(14) [OF assms(1), of k n now] assms(2)
  show "sinv (snd (st_advance_attested_device_counter ops k n now s)) \<and>
       inert v0 (view (snd (st_advance_attested_device_counter ops k n now s)))" by metis
qed

lemma dispatch_unattested:
  assumes "ap_ops st = ops" "client_attestation_required (ap_config st)" "unattested st (request_headers req)"
  shows "store_stable (\<lambda>s. sinv s \<and> inert v0 (view s)) (dispatch pem st req)"
proof -
  let ?J = "\<lambda>s. sinv s \<and> inert v0 (view s)"
  note gated = stable_keeps [OF keeps_behind_gate [OF assms(2)]]
  have open_ops: "store_stable ?J (write_store (st_mark_seen ops a i))"
    "store_stable ?J (write_store (st_upsert_attested_device ops k pk now))"
    "store_stable ?J (write_store (st_advance_attested_device_counter ops k n now))" for a i k pk now n
    using open_operations_inert by (auto intro: stable_write)
  note rules = gated open_ops stable_try_bind stable_replying stable_when_mounted stable_keeps store_keepers
  note defs = address_create_def address_delete_def address_extend_def address_rotate_def messages_clear_def
    message_delete_def message_mark_read_def push_subscribe_def push_unsubscribe_def domain_create_def
    domain_delete_def domain_verify_def client_attest_def client_assert_def
  show ?thesis
    using assms(3) unfolding assms(1) [symmetric]
    by (cases req) (simp_all only: dispatch.simps request_headers.simps defs Let_def case_prod_unfold assms(1), (intro rules | assumption)+)
qed

end

end
