(* ===== verification/Api_Http.thy ===== *)
theory Api_Http
  imports Route_Table Api_Attestation
begin

text \<open>
  What holds of sequences of whole HTTP requests, from the socket on, with any answers of the limiters and
  the extractors: no sequence touches a mailbox or a claim without its token, or (read markers apart)
  anything at all on a server that requires attestation; and which limiters a request has to pass. The
  backend is any that meets the store contract; the witnesses run on the in-memory one.
\<close>

subsection \<open>From requests to handlers\<close>

lemma extract_headers:
  "extract_call ex hr ps ep = Ok (Call req) \<Longrightarrow> request_headers req \<in> {hr_headers hr, \<lambda>_. None}"
  by (cases ep) (auto simp: or_reject_def split: option.splits)

lemma route_headers:
  "route_call ex c hr = Ok (Call req) \<Longrightarrow> request_headers req \<in> {hr_headers hr, \<lambda>_. None}"
  using extract_headers by (fastforce simp: route_call_def Let_def split: option.splits)

lemma governed_cases:
  assumes "governed lib b gov hr inner (w, g) = (a, w', g')"
  obtains (pass) g1 where "inner (w, g1) = (a, w', g')"
  | (reject) r where "a = Limited r" "w' = w"
  using assms by (auto simp: governed_def split: option.splits prod.splits result.splits)

lemma serve_http_cases:
  assumes "serve_http lib layers ex em pem st hr (w, g) = (a, w', g')"
  obtains (routed) "serve_routed ex em pem st hr w = (a, w')"
  | (limited) r where "a = Limited r" "w' = w"
  using assms unfolding serve_http_def
  by (elim governed_cases) (auto split: prod.splits)

lemma sse_events_store: "w_store (snd (sse_events st peer h a w)) = w_store w"
  by (simp add: sse_events_def split: prod.splits)

lemma serve_routed_stable:
  assumes "\<And>req. H (request_headers req) \<Longrightarrow> store_stable J (dispatch pem st req)"
    and "H (hr_headers hr)" "H (\<lambda>_. None)" "J (w_store w)"
  shows "J (w_store (snd (serve_routed ex em pem st hr w)))"
proof (cases "route_call ex (ap_config st) hr")
  case (Ok cl)
  show ?thesis
  proof (cases cl)
    case (Call req)
    have "H (request_headers req)" using route_headers [OF Ok [unfolded Call]] assms(2,3) by auto
    with assms(1,4) have "J (w_store (snd (dispatch pem st req w)))" by (simp add: store_stable_def)
    then show ?thesis by (simp add: serve_routed_def Ok Call perform_def case_prod_beta)
  next
    case (Stream peer h a)
    then show ?thesis
      using sse_events_store [of st peer h a w] assms(4) by (simp add: serve_routed_def Ok perform_def case_prod_beta)
  qed (use Ok assms(4) in \<open>simp add: serve_routed_def perform_def\<close>)
qed (use assms(4) in \<open>simp add: serve_routed_def\<close>)

text \<open>An invariant that every route keeps, for the headers in \<open>H\<close>, is kept by every sequence of HTTP
  requests with such headers.\<close>

lemma serve_https_stable:
  assumes "\<And>req. H (request_headers req) \<Longrightarrow> store_stable J (dispatch pem st req)" "H (\<lambda>_. None)"
    and "\<forall>hr\<in>set hrs. H (hr_headers hr)" "J (w_store w)"
    and "serve_https lib layers ex em pem st hrs (w, g) = (as, w', g')"
  shows "J (w_store w')"
  using assms(3-5)
proof (induction hrs arbitrary: w g as)
  case (Cons hr hrs)
  obtain a w1 g1 where one: "serve_http lib layers ex em pem st hr (w, g) = (a, w1, g1)" by (metis prod.exhaust)
  obtain bs where rest: "serve_https lib layers ex em pem st hrs (w1, g1) = (bs, w', g')"
    using Cons.prems(3) one by (auto split: prod.splits)
  have "H (hr_headers hr)" using Cons.prems(1) by simp
  note stable = serve_routed_stable [where H = H and J = J, OF assms(1) this assms(2) Cons.prems(2)]
  have "J (w_store w1)"
    using one by (cases rule: serve_http_cases) (use stable [of ex em] Cons.prems(2) in auto)
  with Cons.IH [OF _ _ rest] Cons.prems(1) show ?case by simp
qed simp

subsection \<open>What no request sequence can do\<close>

lemma no_bearer [simp]: "bearer_token (\<lambda>_. None) = None"
  by code_simp

lemma no_headers [simp]: "lacks_owner_token st mb (\<lambda>_. None)" "\<not> presents st (\<lambda>_. None) want" "unattested st (\<lambda>_. None)"
proof -
  show "\<not> presents st (\<lambda>_. None) want" for want by (simp add: presents_def)
  then show "lacks_owner_token st mb (\<lambda>_. None)" by (simp add: lacks_owner_token_def split: option.split)
  show "unattested st (\<lambda>_. None)" by (simp add: unattested_def trimmed_non_empty_def)
qed

context backed_service
begin

lemma http_keeps_invariant:
  assumes "sinv (w_store w)" "serve_https lib layers ex em pem st hrs (w, g) = (as, w', g')"
  shows "sinv (w_store w')"
  by (rule serve_https_stable [where H = "\<lambda>_. True" and J = sinv, OF _ _ _ assms]) (simp_all add: store_http.dispatch_stable)

lemma http_keeps_box:
  assumes "sinv (w_store w)" "v_mailbox (view (w_store w)) a = Some mb"
    "\<forall>hr\<in>set hrs. lacks_owner_token st mb (hr_headers hr)"
    "serve_https lib layers ex em pem st hrs (w, g) = (as, w', g')"
  shows "same_box a (view (w_store w)) (view (w_store w'))"
proof -
  have "sinv (w_store w) \<and> box_kept a mb (view (w_store w)) (view (w_store w))"
    using assms(1,2) by (simp add: box_kept_def)
  from serve_https_stable [where J = "\<lambda>s. sinv s \<and> box_kept a mb (view (w_store w)) (view s)",
      OF box_http.dispatch_stable _ assms(3) this assms(4)]
  show ?thesis by (simp add: box_kept_def)
qed

lemma http_keeps_claim:
  assumes "sinv (w_store w)" "v_domain (view (w_store w)) d = Some c"
    "\<forall>hr\<in>set hrs. \<not> presents st (hr_headers hr) (cd_claim_token_hash c)"
    "serve_https lib layers ex em pem st hrs (w, g) = (as, w', g')"
  shows "v_domain (view (w_store w')) d = Some c"
  using serve_https_stable [where J = "\<lambda>s. sinv s \<and> v_domain (view s) d = Some c",
      OF claim_http.dispatch_stable _ assms(3) _ assms(4)] assms(1,2) by simp

lemma http_unattested_inert:
  assumes "sinv (w_store w)" "client_attestation_required (ap_config st)"
    "\<forall>hr\<in>set hrs. unattested st (hr_headers hr)"
    "serve_https lib layers ex em pem st hrs (w, g) = (as, w', g')"
  shows "inert (view (w_store w)) (view (w_store w'))"
  using serve_https_stable [where J = "\<lambda>s. sinv s \<and> inert (view (w_store w)) (view s)",
      OF dispatch_unattested [OF refl assms(2)] _ assms(3) _ assms(4)] assms(1) inert_refl by simp

end

text \<open>Every sequence of HTTP requests, with any inputs, keeps the invariant of the backend.\<close>

theorem http_keeps_store_invariant:
  assumes "backed_service st q sinv view reliable T" "sinv (w_store w)"
    "serve_https lib layers ex em pem st hrs (w, g) = (as, w', g')"
  shows "sinv (w_store w')"
  by (rule backed_service.http_keeps_invariant [OF assms])

text \<open>C4: Nobody without the owner token can harm a mailbox. After any sequence of HTTP requests none of
  which presents a bearer token with the stored hash, the mailbox still exists with the same expiry
  and owner, its subscriptions are the same, and its messages are the same up to their read markers,
  whatever the requests did to other mailboxes, claims and devices, and whatever the limiters and the
  extractors answer, on every backend that meets the contract, one that may fail included. A mailbox
  without an owner token (created by catch-all) is out of reach of every request.\<close>

theorem mailbox_needs_owner_token:
  assumes "backed_service st q sinv view reliable T"
    "sinv (w_store w)" "v_mailbox (view (w_store w)) a = Some mb"
    "\<forall>hr\<in>set hrs. lacks_owner_token st mb (hr_headers hr)"
    "serve_https lib layers ex em pem st hrs (w, g) = (as, w', g')"
  shows "same_box a (view (w_store w)) (view (w_store w'))"
  by (rule backed_service.http_keeps_box [OF assms])

definition open_lib :: "unit limiter_lib" where
  "open_lib = \<lparr>li_extract = (\<lambda>_ peer _. Some peer), li_check = (\<lambda>_ _ _ g. (Ok (), g))\<rparr>"

definition no_layers :: router_layers where
  "no_layers = \<lparr>rl_create_limit = None, rl_docs = False, rl_legal = False, rl_timeout = None,
     rl_general_limit = None, rl_cors = build_cors config_default\<rparr>"

definition no_files :: embedded where
  "no_files = \<lparr>em_openapi_json = [], em_tos_html = [], em_privacy_html = [], em_support_html = []\<rparr>"

abbreviation demo_serve ::
  "inner app_state \<Rightarrow> http_request list \<Rightarrow> inner \<Rightarrow> http_answer list \<times> inner app_world \<times> unit" where
  "demo_serve st hrs s \<equiv> serve_https open_lib no_layers plain_extractors no_files [] st hrs (demo_world s, ())"

lemma demo_run: "\<exists>as w'. demo_serve st hrs s = (as, w', ())"
  by (intro exI [of _ "fst (demo_serve st hrs s)"] exI [of _ "fst (snd (demo_serve st hrs s))"]) (simp add: prod_eq_iff)

theorem mailbox_needs_owner_token_witness:
  "\<exists>as w'. demo_serve (on_memory UNLIMITED demo_state)
       [plain_http DELETE ''/api/addresses/U@example.com'' (with_bearer ''am_guess''),
        plain_http POST ''/api/addresses/u@example.com/rotate'' (\<lambda>_. None)] owned_store = (as, w', ()) \<and>
     same_box ''u@example.com'' (mem_view owned_store) (mem_view (w_store w'))"
proof -
  let ?hrs = "[plain_http DELETE ''/api/addresses/U@example.com'' (with_bearer ''am_guess''),
        plain_http POST ''/api/addresses/u@example.com/rotate'' (\<lambda>_. None)]"
  obtain as w' where run: "demo_serve (on_memory UNLIMITED demo_state) ?hrs owned_store = (as, w', ())"
    using demo_run by blast
  have guess: "bearer_token (with_bearer ''am_guess'') = Some ''am_guess''"
    "hash_token id ''am_guess'' \<noteq> hex ''am_secret''" by code_simp+
  have "\<forall>hr\<in>set ?hrs. lacks_owner_token (on_memory UNLIMITED demo_state) owned_box (hr_headers hr)"
    using guess by (simp add: lacks_owner_token_def presents_def owned_box_def demo_sha plain_http_def)
  from mailbox_needs_owner_token [OF memory_backend _ _ this run, unfolded demo_memory, OF owned_store_inv owned_store_box]
  show ?thesis using run by blast
qed

text \<open>C12: Nobody without the claim token can touch a custom-domain claim: after any sequence of HTTP
  requests none of which presents it, the claim is still there, with the same token, challenge and
  status, on every backend that meets the contract.\<close>

theorem claim_needs_claim_token:
  assumes "backed_service st q sinv view reliable T"
    "sinv (w_store w)" "v_domain (view (w_store w)) d = Some c"
    "\<forall>hr\<in>set hrs. \<not> presents st (hr_headers hr) (cd_claim_token_hash c)"
    "serve_https lib layers ex em pem st hrs (w, g) = (as, w', g')"
  shows "v_domain (view (w_store w')) d = Some c"
  by (rule backed_service.http_keeps_claim [OF assms])

definition claimed_store :: inner where
  "claimed_store = snd (mem_create_custom_domain 0 ''shop.org'' (hex ''amd_secret'') ''t'' inner_default)"

theorem claim_needs_claim_token_witness:
  "\<exists>c as w'. v_domain (mem_view claimed_store) ''shop.org'' = Some c \<and>
     demo_serve (on_memory UNLIMITED demo_state)
       [plain_http DELETE ''/api/custom-domains/Shop.org'' (with_bearer ''amd_guess''),
        plain_http POST ''/api/custom-domains/shop.org/verify'' (\<lambda>_. None)] claimed_store = (as, w', ()) \<and>
     v_domain (mem_view (w_store w')) ''shop.org'' = Some c"
proof -
  let ?hrs = "[plain_http DELETE ''/api/custom-domains/Shop.org'' (with_bearer ''amd_guess''),
        plain_http POST ''/api/custom-domains/shop.org/verify'' (\<lambda>_. None)]"
  obtain as w' where run: "demo_serve (on_memory UNLIMITED demo_state) ?hrs claimed_store = (as, w', ())"
    using demo_run by blast
  have guess: "bearer_token (with_bearer ''amd_guess'') = Some ''amd_guess''"
    "hash_token id ''amd_guess'' \<noteq> hex ''amd_secret''" by code_simp+
  have inv: "mem_inv claimed_store"
    using mem.create_custom_domain [OF mem_inv_default, of UNLIMITED 0 "''shop.org''"]
    by (simp add: claimed_store_def op_refines_def memory_ops_def)
  obtain c where c: "v_domain (mem_view claimed_store) ''shop.org'' = Some c" "cd_claim_token_hash c = hex ''amd_secret''"
    by (simp add: claimed_store_def mem_create_custom_domain_def inner_default_def hm_laws mem_view_def
        hm_contains_key_get Let_def)
  have "\<forall>hr\<in>set ?hrs. \<not> presents (on_memory UNLIMITED demo_state) (hr_headers hr) (cd_claim_token_hash c)"
    using guess by (simp add: presents_def c(2) demo_sha plain_http_def)
  from claim_needs_claim_token [OF memory_backend _ _ this run] run c inv show ?thesis
    by (auto simp: demo_memory)
qed

text \<open>C13: A server that requires attestation is closed to unattested clients. With
  \<open>client_attestation_required\<close>, after any sequence of HTTP requests none of which carries a client token
  that verifies as attested, every mailbox, its mail (up to read markers, whose route is open), its
  subscriptions and every custom-domain claim are what they were, and no mailbox or claim was added,
  whatever backend that meets the contract is used. (Read markers can change: \<open>POST .../read\<close> has no gate,
  although the documentation says that every mutating route demands an attested token.)\<close>

theorem unattested_requests_inert:
  assumes "backed_service st q sinv view reliable T"
    "sinv (w_store w)" "client_attestation_required (ap_config st)"
    "\<forall>hr\<in>set hrs. unattested st (hr_headers hr)"
    "serve_https lib layers ex em pem st hrs (w, g) = (as, w', g')"
  shows "inert (view (w_store w)) (view (w_store w'))"
  by (rule backed_service.http_unattested_inert [OF assms])

definition strict_state :: "inner app_state" where
  "strict_state = demo_state\<lparr>ap_config := demo_config\<lparr>client_attestation_required := True\<rparr>\<rparr>"

theorem unattested_requests_inert_witness:
  "\<exists>as w'. demo_serve (on_memory UNLIMITED strict_state)
       [plain_http POST ''/api/addresses'' (\<lambda>_. None),
        plain_http DELETE ''/api/addresses/u@example.com'' (with_bearer ''am_secret'')] owned_store = (as, w', ()) \<and>
     inert (mem_view owned_store) (mem_view (w_store w'))"
proof -
  let ?hrs = "[plain_http POST ''/api/addresses'' (\<lambda>_. None),
        plain_http DELETE ''/api/addresses/u@example.com'' (with_bearer ''am_secret'')]"
  obtain as w' where run: "demo_serve (on_memory UNLIMITED strict_state) ?hrs owned_store = (as, w', ())"
    using demo_run by blast
  have "\<forall>hr\<in>set ?hrs. unattested (on_memory UNLIMITED strict_state) (hr_headers hr)"
    by (simp add: unattested_def with_bearer_def CLIENT_TOKEN_HEADER_def trimmed_non_empty_def plain_http_def)
  from unattested_requests_inert [OF memory_backend _ _ this run] run show ?thesis
    by (auto simp: demo_memory owned_store_inv strict_state_def)
qed

subsection \<open>Where the limiters stand\<close>

text \<open>What the configuration promises: a general limit on every request, and a second one on the paths of
  the routes that create something or cost the server work.\<close>

definition create_paths :: "config \<Rightarrow> string set" where
  "create_paths c =
     {''/api/addresses'', ''/api/entitlements/verify'', ''/api/client/challenge'', ''/api/client/attest'',
      ''/api/client/assert''} \<union> (if custom_domains_enabled c then {''/api/custom-domains''} else {})"

fun creates :: "request \<Rightarrow> bool" where
  "creates (CreateAddress peer h b) = True"
| "creates (EntitlementsVerify h rc) = True"
| "creates ClientChallenge = True"
| "creates (ClientAttest r) = True"
| "creates (ClientAssert r') = True"
| "creates (DomainCreate peer h d) = True"
| "creates _ = False"

definition promised_limits :: "config \<Rightarrow> string \<Rightarrow> (bucket \<times> governor) list" where
  "promised_limits c path =
     (let key = (if api_trust_proxy_headers c then SmartIpKeyExtractor else PeerIpKeyExtractor) in
      (if api_rate_limit_per_second c \<noteq> 0 \<and> api_rate_limit_burst c \<noteq> 0
       then [(GeneralBucket, \<lparr>gv_key = key, gv_period = (1000 div uint (api_rate_limit_per_second c)) * 1000000,
               gv_burst = api_rate_limit_burst c\<rparr>)] else []) @
      (if create_rate_limit_per_minute c \<noteq> 0 \<and> create_rate_limit_burst c \<noteq> 0 \<and> path \<in> create_paths c
       then [(CreateBucket, \<lparr>gv_key = key, gv_period = (60000 div uint (create_rate_limit_per_minute c)) * 1000000,
               gv_burst = create_rate_limit_burst c\<rparr>)] else []))"

fun run_limits :: "'g limiter_lib \<Rightarrow> http_request \<Rightarrow> (bucket \<times> governor) list \<Rightarrow> 'g \<Rightarrow> (unit, governor_error) result \<times> 'g" where
  "run_limits lib hr [] g = (Ok (), g)"
| "run_limits lib hr ((b, gv) # ls) g =
     (case li_extract lib (gv_key gv) (hr_peer hr) (hr_headers hr) of
        None \<Rightarrow> (Err UnableToExtractKey, g)
      | Some key \<Rightarrow>
          (case li_check lib b gv key g of
             (Err e, g') \<Rightarrow> (Err e, g')
           | (Ok _, g') \<Rightarrow> run_limits lib hr ls g'))"

lemma join_split_at: "join_with [c] (split_at c s) = s"
proof (induction s)
  case (Cons x s)
  obtain p ps where "split_at c s = p # ps" by (cases "split_at c s") (auto elim: split_at.elims)
  with Cons show ?case by (cases ps) auto
qed simp

text \<open>A pattern without parameters matches one path only.\<close>

lemma match_literal: "match_path (map Lit ls) segs \<noteq> None \<longleftrightarrow> segs = ls"
proof (induction ls arbitrary: segs)
  case Nil
  show ?case by (cases segs) auto
next
  case (Cons l ls)
  show ?case
  proof (cases segs)
    case seg: (Cons s ss)
    then show ?thesis using Cons.IH [of ss] by auto
  qed simp
qed

lemma create_patterns:
  "rt \<in> set (create_routes c) \<Longrightarrow> pattern_of (fst rt) = map Lit (split_at (CHR ''/'') (fst rt))"
proof -
  assume "rt \<in> set (create_routes c)"
  then have "rt \<in> set (create_routes all_on)" by (auto simp: create_routes_def all_on_def split: if_splits)
  moreover have "list_all (\<lambda>rt. pattern_of (fst rt) = map Lit (split_at (CHR ''/'') (fst rt))) (create_routes all_on)"
    by code_simp
  ultimately show ?thesis by (simp add: list_all_iff)
qed

lemma create_route_paths: "fst ` set (create_routes c) = create_paths c"
  by (auto simp: create_routes_def create_paths_def)

lemma create_routes_in_table: "set (create_routes c) \<subseteq> set (route_table c)"
  by (auto simp: route_table_def non_sse_routes_def)

lemma create_routes_all_on:
  assumes "rt \<in> set (route_table c)"
  shows "rt \<in> set (create_routes all_on) \<longleftrightarrow> rt \<in> set (create_routes c)"
proof (cases "custom_domains_enabled c")
  case True
  then show ?thesis by (simp add: create_routes_def all_on_def)
next
  case False
  let ?table = "route_table (all_on\<lparr>custom_domains_enabled := False\<rparr>)"
  have absent: "''/api/custom-domains'' \<notin> fst ` set ?table" by code_simp
  have "set (route_table c) \<subseteq> set ?table"
    using False route_table_parts by (auto simp: all_on_def)
  with assms have "rt \<in> set ?table" by (rule rev_subsetD)
  then have "fst rt \<in> fst ` set ?table" by (rule imageI)
  then have "fst rt \<noteq> ''/api/custom-domains''" by (rule contrapos_pn) (simp only: absent not_False_eq_True)
  then have "rt \<noteq> (''/api/custom-domains'', [(POST, CustomDomainsCreate)])" by (rule contrapos_nn) (simp only: fst_conv)
  moreover have "set (create_routes all_on) = insert (''/api/custom-domains'', [(POST, CustomDomainsCreate)]) (set (create_routes c))"
    using False unfolding create_routes_def all_on_def by auto
  ultimately show ?thesis by (simp only: insert_iff simp_thms)
qed

lemma is_create_path_iff: "is_create_path c hr \<longleftrightarrow> hr_path hr \<in> create_paths c"
proof -
  let ?segs = "split_at (CHR ''/'') (hr_path hr)"
  have m: "matches ?segs rt \<longleftrightarrow> hr_path hr = fst rt" if "rt \<in> set (create_routes c)" for rt
    unfolding matches_def create_patterns [OF that] match_literal by (metis join_split_at)
  have "is_create_path c hr \<longleftrightarrow> (\<exists>rt. find_route (route_table c) ?segs = Some rt \<and> rt \<in> set (create_routes c))"
    by (simp add: is_create_path_def split: option.split)
  also have "\<dots> \<longleftrightarrow> (\<exists>rt\<in>set (create_routes c). matches ?segs rt)"
    unfolding find_route_iff using create_routes_in_table [of c] by blast
  also have "\<dots> \<longleftrightarrow> hr_path hr \<in> fst ` set (create_routes c)" using m by blast
  finally show ?thesis unfolding create_route_paths .
qed

lemma extract_creates:
  "extract_call ex hr ps ep = Ok (Call req) \<Longrightarrow>
     creates req \<longleftrightarrow> ep \<in> {AddressesCreate, EntitlementsVerifyE, ClientChallengeE, ClientAttestE, ClientAssertE, CustomDomainsCreate}"
  by (cases ep) (auto simp: or_reject_def split: option.splits prod.splits)

text \<open>The handlers behind the second limit are on its paths and on no other.\<close>

lemma creates_iff_path:
  assumes "route_call ex c hr = Ok (Call req)"
  shows "creates req \<longleftrightarrow> hr_path hr \<in> create_paths c"
proof -
  let ?segs = "split_at (CHR ''/'') (hr_path hr)"
  let ?E = "{AddressesCreate, EntitlementsVerifyE, ClientChallengeE, ClientAttestE, ClientAssertE, CustomDomainsCreate}"
  from assms obtain rt ep ps where rt: "find_route (route_table c) ?segs = Some rt"
    "method_endpoint (snd rt) (hr_method hr) = Some ep" "extract_call ex hr ps ep = Ok (Call req)"
    by (auto simp: route_call_def Let_def split: option.splits prod.splits)
  then have "rt \<in> set (route_table c)" by (simp add: find_route_iff)
  have "(hr_method hr, ep) \<in> set (snd rt) \<or> (GET, ep) \<in> set (snd rt)"
    using rt(2) by (auto simp: method_endpoint_def dest: map_of_SomeD split: option.splits if_splits)
  moreover have "list_all (\<lambda>rt. list_all (\<lambda>x. snd x \<in> ?E \<longleftrightarrow> rt \<in> set (create_routes all_on)) (snd rt)) (route_table all_on)"
    by code_simp
  moreover have "rt \<in> set (create_routes all_on) \<longleftrightarrow> rt \<in> set (create_routes c)"
    using \<open>rt \<in> set (route_table c)\<close> by (rule create_routes_all_on)
  ultimately have "ep \<in> ?E \<longleftrightarrow> rt \<in> set (create_routes c)"
    using set_route_table [of c] \<open>rt \<in> set (route_table c)\<close> by (fastforce simp: list_all_iff)
  also have "\<dots> \<longleftrightarrow> is_create_path c hr" using rt(1) by (simp add: is_create_path_def)
  finally show ?thesis using extract_creates [OF rt(3)] is_create_path_iff by simp
qed

lemma governed_run_limits:
  "governed lib b gov hr inner (w, g) =
     (case run_limits lib hr (case gov of None \<Rightarrow> [] | Some gv \<Rightarrow> [(b, gv)]) g of
        (Err e, g') \<Rightarrow> (Limited (governor_error_response e), w, g')
      | (Ok _, g') \<Rightarrow> inner (w, g'))"
  by (simp add: governed_def split: option.split prod.split result.split)

lemma run_limits_append:
  "run_limits lib hr (xs @ ys) g =
     (case run_limits lib hr xs g of (Err e, g') \<Rightarrow> (Err e, g') | (Ok _, g') \<Rightarrow> run_limits lib hr ys g')"
  by (induction xs arbitrary: g) (auto split: option.split prod.split result.split)

lemma router_limits:
  assumes "api_router finish c = Ok layers"
  shows "promised_limits c (hr_path hr) =
    (case rl_general_limit layers of None \<Rightarrow> [] | Some gv \<Rightarrow> [(GeneralBucket, gv)]) @
    (case if is_create_path c hr then rl_create_limit layers else None of None \<Rightarrow> [] | Some gv \<Rightarrow> [(CreateBucket, gv)])"
  using assms
  by (auto simp: api_router_def build_router_def create_limit_def general_limit_def governor_layer_def promised_limits_def
      is_create_path_iff from_millis_div word_gt_0 Let_def split: result.splits if_splits)

text \<open>C33: Where the limiters stand. Once the router is built, a request is first checked against the general
  bucket, if a rate and a burst are configured, and then, on the paths of the routes that create something
  or cost the server work (and only there, whatever the method), against the creation bucket, if that is
  configured: one token every \<open>1000 div rate\<close> and every \<open>60000 div rate\<close> milliseconds, with the configured
  bursts, keyed by the proxy headers or by the peer as configured. A request that either bucket refuses, or
  whose key cannot be extracted, is answered by the limiter and changes nothing; any other is served by
  its route. The six handlers behind the second bucket are reached on these paths and on no other. (The
  buckets themselves are the \<open>governor\<close> crate's; preflight requests are answered by the CORS layer outside.)\<close>

theorem rate_limits_apply:
  assumes "api_router finish (ap_config st) = Ok layers"
  shows "serve_http lib layers ex em pem st hr (w, g) =
      (case run_limits lib hr (promised_limits (ap_config st) (hr_path hr)) g of
         (Err e, g') \<Rightarrow> (Limited (governor_error_response e), w, g')
       | (Ok _, g') \<Rightarrow> (case serve_routed ex em pem st hr w of (a, w') \<Rightarrow> (a, w', g'))) \<and>
    (\<forall>req. route_call ex (ap_config st) hr = Ok (Call req) \<longrightarrow>
       (creates req \<longleftrightarrow> hr_path hr \<in> create_paths (ap_config st)))"
proof -
  have "serve_http lib layers ex em pem st hr (w, g) =
      (case run_limits lib hr (promised_limits (ap_config st) (hr_path hr)) g of
         (Err e, g') \<Rightarrow> (Limited (governor_error_response e), w, g')
       | (Ok _, g') \<Rightarrow> (case serve_routed ex em pem st hr w of (a, w') \<Rightarrow> (a, w', g')))"
    unfolding router_limits [OF assms] run_limits_append serve_http_def governed_run_limits
    by (simp split: prod.split result.split)
  with creates_iff_path show ?thesis by blast
qed

definition counting_lib :: "nat limiter_lib" where
  "counting_lib = \<lparr>li_extract = (\<lambda>_ peer _. Some peer),
     li_check = (\<lambda>_ _ _ n. if n = 0 then (Err (GovTooManyRequests 1 None), 0) else (Ok (), n - 1))\<rparr>"

theorem rate_limits_apply_witness:
  "\<exists>layers. api_router (\<lambda>p b. p \<noteq> 0 \<and> b \<noteq> 0) (ap_config demo_state) = Ok layers \<and>
     serve_http counting_lib layers plain_extractors no_files [] demo_state
       (plain_http POST ''/api/client/challenge'' (\<lambda>_. None)) (demo_world owned_store, 1) =
       (Limited (governor_error_response (GovTooManyRequests 1 None)), demo_world owned_store, 0)"
proof -
  let ?hr = "plain_http POST ''/api/client/challenge'' (\<lambda>_. None)"
  have "case api_router (\<lambda>p b. p \<noteq> 0 \<and> b \<noteq> 0) (ap_config demo_state) of Ok _ \<Rightarrow> True | Err _ \<Rightarrow> False" by code_simp
  then obtain layers where r: "api_router (\<lambda>p b. p \<noteq> 0 \<and> b \<noteq> 0) (ap_config demo_state) = Ok layers"
    by (auto split: result.splits)
  have "fst (run_limits counting_lib ?hr (promised_limits (ap_config demo_state) (hr_path ?hr)) 1) =
      Err (GovTooManyRequests 1 None) \<and>
    snd (run_limits counting_lib ?hr (promised_limits (ap_config demo_state) (hr_path ?hr)) 1) = 0" by code_simp
  then have "run_limits counting_lib ?hr (promised_limits (ap_config demo_state) (hr_path ?hr)) 1 =
      (Err (GovTooManyRequests 1 None), 0)" by (metis prod.collapse)
  with rate_limits_apply [OF r, of counting_lib plain_extractors no_files "[]" ?hr "demo_world owned_store" 1] r
  show ?thesis by auto
qed

end
