(* ===== verification/Device_Cap.thy ===== *)
theory Device_Cap
  imports Api_Theorems
begin

text \<open>
  \<open>POST /api/addresses\<close> at the grain of its two halves: everything up to the last check, and the insert.
  The handler runs them in one task, but the tasks of other requests run between its awaits. The cap on
  the active mailboxes of a device is checked in the first half; nothing holds it until the second.
\<close>

record admission =
  ad_domain :: string
  ad_local_part :: "string option"
  ad_expires_at :: datetime
  ad_device_hash :: "string option"

definition create_admit ::
  "'s app_state \<Rightarrow> ip_addr \<Rightarrow> headers \<Rightarrow> create_request option \<Rightarrow> (admission, 's) handler" where
  "create_admit st peer h body =
     (let req = (case body of Some b \<Rightarrow> b | None \<Rightarrow> create_request_default) in
      try_bind (attestation_gate st h) (\<lambda>client.
      let policy = create_policy st client; device_hash = device_hash_of st client in
      try_bind (create_domain st policy h (ca_domain req)) (\<lambda>domain.
      try_bind (create_local_part st policy (ca_local_part req)) (\<lambda>l.
      try_bind (check_device_cap st policy device_hash) (\<lambda>_.
      try_bind now_utc (\<lambda>today.
      try_bind (with_limits (note_address_created
          (client_ip h peer (api_trust_proxy_headers (ap_config st))) (date_naive today))) (\<lambda>within.
      try_bind (ensure within (TooManyRequests ''daily address creation limit reached'')) (\<lambda>_.
      try_bind now_utc (\<lambda>now.
      ret \<lparr>ad_domain = domain, ad_local_part = l, ad_expires_at = now + ttl_of (ap_config st),
           ad_device_hash = device_hash\<rparr>)))))))))"

definition create_commit :: "'s app_state \<Rightarrow> admission \<Rightarrow> (mailbox \<times> string, 's) handler" where
  "create_commit st ad =
     (case ad_local_part ad of
        Some l \<Rightarrow> create_custom st l (ad_domain ad) (ad_expires_at ad) (ad_device_hash ad)
      | None \<Rightarrow> create_random RANDOM_CREATE_ATTEMPTS st (ad_domain ad) (ad_expires_at ad) (ad_device_hash ad))"

lemma address_create_halves:
  "address_create st peer h body w = try_bind (create_admit st peer h body) (create_commit st) w"
  by (simp add: address_create_def create_admit_def create_commit_def try_bind_def ret_def Let_def
      split: prod.split result.split option.split)

lemma create_admit_store: "create_admit st peer h body w = (r, w') \<Longrightarrow> w_store w' = w_store w"
proof -
  have "keeps w_store (create_admit st peer h body)"
    unfolding create_admit_def Let_def
    by (intro keeps_try_bind gates_keep_store store_keepers)
  then show "create_admit st peer h body w = (r, w') \<Longrightarrow> w_store w' = w_store w" by (rule keepsD)
qed

context store_contract
begin

lemma create_commit_outcome:
  assumes "ap_ops st = ops" "sinv (w_store w)" "create_commit st ad w = (Ok (mb, tok), w')"
  shows "sinv (w_store w') \<and> (\<exists>l. created_box st (ad_domain ad) (ad_expires_at ad) (ad_device_hash ad) l tok mb
    (view (w_store w)) (view (w_store w')))"
proof (cases "ad_local_part ad")
  case None
  with assms(3) create_random_outcome [OF assms(1,2)] show ?thesis by (simp add: create_commit_def) blast
next
  case (Some l)
  with assms(3) create_custom_outcome [OF assms(1,2)] show ?thesis by (simp add: create_commit_def) blast
qed

end

lemma created_box_device:
  assumes "created_box st d ex (Some dev) l tok mb v v'" "now < ex"
  shows "device_mailboxes dev now v' = insert (mb_address mb) (device_mailboxes dev now v)"
    "mb_address mb \<notin> device_mailboxes dev now v"
  using assms by (auto simp: created_box_def Let_def device_mailboxes_def)

subsection \<open>The cap binds one request at a time only\<close>

text \<open>Two requests of one attested device whose checks both ran before either insert get two new mailboxes,
  both active and both counted against the device, on every backend that meets the contract: the
  second insert does not look at the cap again. With one place left the device ends up over its cap.\<close>

theorem device_cap_not_reserved:
  assumes contract: "backed_service st q sinv view True T" and "sinv (w_store w)"
    and "create_admit st peer h body w = (Ok a, w1)" "create_admit st peer' h' body' w1 = (Ok b, w2)"
    and "create_commit st a w2 = (Ok (mb, tok), w3)" "create_commit st b w3 = (Ok (mb', tok'), w4)"
    and "ad_device_hash a = Some dev" "ad_device_hash b = Some dev" "now < ad_expires_at a" "now < ad_expires_at b"
  shows "device_mailboxes dev now (view (w_store w4)) =
      {mb_address mb, mb_address mb'} \<union> device_mailboxes dev now (view (w_store w)) \<and>
    mb_address mb \<noteq> mb_address mb' \<and> {mb_address mb, mb_address mb'} \<inter> device_mailboxes dev now (view (w_store w)) = {}"
proof -
  note commit = store_contract.create_commit_outcome [OF backed_service.axioms [OF contract] refl]
  have same: "w_store w2 = w_store w" using create_admit_store assms(3,4) by metis
  from commit [OF _ assms(5)] assms(2,7) same obtain l where inv: "sinv (w_store w3)"
    and one: "created_box st (ad_domain a) (ad_expires_at a) (Some dev) l tok mb (view (w_store w)) (view (w_store w3))"
    by auto
  from commit [OF inv assms(6)] assms(8) obtain l' where
    two: "created_box st (ad_domain b) (ad_expires_at b) (Some dev) l' tok' mb' (view (w_store w3)) (view (w_store w4))"
    by auto
  show ?thesis using created_box_device [OF one assms(9)] created_box_device [OF two assms(10)] by auto
qed

text \<open>An instance: the pro tier allows one active mailbox per device and the store is empty.\<close>

definition capped_config :: config where
  "capped_config = demo_config\<lparr>pro_tier := (pro_tier demo_config)\<lparr>tp_active_mailboxes := 1\<rparr>\<rparr>"

definition capped_state :: "inner app_state" where
  "capped_state = demo_state\<lparr>ap_config := capped_config\<rparr>"

definition capped_world :: "inner app_world" where
  "capped_world = (demo_world inner_default)\<lparr>aw_limits := (limits_from_config demo_config)\<lparr>daily_create_cap := 0\<rparr>\<rparr>"

definition ask_for :: "string \<Rightarrow> create_request option" where
  "ask_for l = Some \<lparr>ca_local_part = Some l, ca_domain = None\<rparr>"

definition device_1 :: string where
  "device_1 = hash_token (sha capped_state) ''kid''"

lemma capped_config_facts:
  "token_signing_key capped_config = Some ''k''" "\<not> client_attestation_required capped_config"
  "entitlements_enforced capped_config" "domains capped_config = [''example.com'', ''example.net'']"
  "tp_custom_local_parts (pro_tier capped_config)" "tp_active_mailboxes (pro_tier capped_config) = 1"
  "\<not> is_reserved_local_part capped_config ''a''" "\<not> is_reserved_local_part capped_config ''b''"
  by code_simp+

lemma one_letter_facts:
  "to_ascii_lowercase (trim ''a'') = ''a''" "to_ascii_lowercase (trim ''b'') = ''b''"
  "is_valid_local_part ''a''" "is_valid_local_part ''b''"
  by code_simp+

lemma capped_state_simps:
  "ap_config capped_state = capped_config" "ap_ops capped_state = memory_ops UNLIMITED"
  "ap_crypto capped_state = demo_crypto"
  by (simp_all add: capped_state_def demo_state_def)

lemma capped_gate:
  "\<exists>c. attestation_gate capped_state pro_headers w = (Ok (Some c), w\<lparr>w_ticks := Suc (w_ticks w)\<rparr>) \<and>
     cc_kid c = Some ''kid'' \<and> cc_tier c = Pro"
  by (simp add: attestation_gate_def request_claims_def pro_request_facts capped_config_facts capped_state_simps
    demo_crypto_def verify_client_token_def try_bind_def ret_def now_utc_def utc_now_def)

lemma capped_admit:
  assumes "w_store w = inner_default" "daily_create_cap (aw_limits w) = 0" "l \<in> {''a'', ''b''}"
  shows "create_admit capped_state peer pro_headers (ask_for l) w =
    (Ok \<lparr>ad_domain = ''example.com'', ad_local_part = Some l,
         ad_expires_at = w_clock w (w_ticks w + 3) + ttl_of capped_config, ad_device_hash = Some device_1\<rparr>,
     w\<lparr>w_ticks := w_ticks w + 4\<rparr>)"
proof -
  obtain c where gate: "attestation_gate capped_state pro_headers w = (Ok (Some c), w\<lparr>w_ticks := Suc (w_ticks w)\<rparr>)"
    "cc_kid c = Some ''kid''" "cc_tier c = Pro" using capped_gate by blast
  have pol: "create_policy capped_state (Some c) = Some (pro_tier capped_config)"
    "device_hash_of capped_state (Some c) = Some device_1"
    by (simp_all add: create_policy_def capped_state_simps capped_config_facts gate device_hash_of_def device_1_def)
  have empty: "mem_count_active_mailboxes_by_device device_1 now inner_default = Ok 0" for now
    by (simp add: mem_count_active_mailboxes_by_device_def inner_default_def hm_values_def hm_empty_def)
  have dom: "create_domain capped_state (Some (pro_tier capped_config)) h None w1 = (Ok ''example.com'', w1)" for h w1
    by (simp add: create_domain_def capped_state_simps capped_config_facts ret_def)
  have loc: "create_local_part capped_state (Some (pro_tier capped_config)) (Some l) w1 = (Ok (Some l), w1)" for w1
    using assms(3) by (auto simp: create_local_part_def capped_state_simps capped_config_facts one_letter_facts ret_def)
  show ?thesis
    by (simp add: create_admit_def ask_for_def try_bind_def gate(1) pol dom loc check_device_cap_def assms(1,2)
        capped_config_facts capped_state_simps now_utc_def utc_now_def read_store_def memory_ops_def empty
        ensure_def with_limits_def note_address_created_def note_daily_def ret_def Let_def eval_nat_numeral)
qed

lemma capped_commit:
  assumes "ad_local_part ad = Some l" "\<not> hm_contains_key (mailboxes (w_store w)) (l @ ''@'' @ ad_domain ad)"
  shows "\<exists>mb tok w'. create_commit capped_state ad w = (Ok (mb, tok), w') \<and> mb_address mb = l @ ''@'' @ ad_domain ad \<and>
    mailboxes (w_store w') = hm_insert (l @ ''@'' @ ad_domain ad) mb (mailboxes (w_store w))"
  using assms
  by (simp add: create_commit_def create_custom_def try_bind_def fresh_token_def draw_bytes_def ret_def Let_def
      case_prod_beta create_at_def now_utc_def utc_now_def run_store_def capped_state_simps memory_ops_def
      mem_create_mailbox_def)

theorem device_cap_not_reserved_witness:
  "\<exists>a b w1 w2 w3 w4 r r'. create_admit capped_state (V4 1) pro_headers (ask_for ''a'') capped_world = (Ok a, w1) \<and>
     create_admit capped_state (V4 1) pro_headers (ask_for ''b'') w1 = (Ok b, w2) \<and>
     create_commit capped_state a w2 = (Ok r, w3) \<and> create_commit capped_state b w3 = (Ok r', w4) \<and>
     tp_active_mailboxes (pro_tier (ap_config capped_state)) = 1 \<and>
     device_mailboxes device_1 0 (mem_view (w_store w4)) = {''a@example.com'', ''b@example.com''}"
proof -
  let ?e = "\<lambda>n. seconds (1000 + n) + ttl_of capped_config"
  define a where "a = \<lparr>ad_domain = ''example.com'', ad_local_part = Some ''a'', ad_expires_at = ?e 3,
    ad_device_hash = Some device_1\<rparr>"
  define b where "b = \<lparr>ad_domain = ''example.com'', ad_local_part = Some ''b'', ad_expires_at = ?e 7,
    ad_device_hash = Some device_1\<rparr>"
  define w1 w2 where "w1 = capped_world\<lparr>w_ticks := 4\<rparr>" and "w2 = capped_world\<lparr>w_ticks := 8\<rparr>"
  have world: "w_store capped_world = inner_default" "daily_create_cap (aw_limits capped_world) = 0"
    "w_clock capped_world n = seconds (1000 + int n)" "w_ticks capped_world = 0" for n
    by (simp_all add: capped_world_def demo_world_def)
  have ad: "create_admit capped_state (V4 1) pro_headers (ask_for ''a'') capped_world = (Ok a, w1)"
    "create_admit capped_state (V4 1) pro_headers (ask_for ''b'') w1 = (Ok b, w2)"
    by (simp_all add: capped_admit world a_def b_def w1_def w2_def)
  have none: "mailboxes (w_store w2) = hm_empty" by (simp add: w2_def world inner_default_def)
  from capped_commit [of a "''a''" w2] obtain mb tok w3 where one: "create_commit capped_state a w2 = (Ok (mb, tok), w3)"
    "mb_address mb = ''a@example.com''" "mailboxes (w_store w3) = hm_insert ''a@example.com'' mb hm_empty"
    by (auto simp: a_def none hm_contains_key_get hm_laws)
  from capped_commit [of b "''b''" w3] obtain mb' tok' w4 where two: "create_commit capped_state b w3 = (Ok (mb', tok'), w4)"
    "mb_address mb' = ''b@example.com''"
    by (auto simp: b_def one(3) hm_contains_key_get hm_laws)
  have contract: "backed_service capped_state UNLIMITED mem_inv mem_view True (\<lambda>_. True)"
    using memory_backend [of UNLIMITED capped_state] by (simp add: capped_state_def demo_state_def)
  have "mem_inv (w_store capped_world)" "device_mailboxes device_1 0 (mem_view (w_store capped_world)) = {}"
    by (simp_all add: world mem_inv_default) (simp add: mem_view_def device_mailboxes_def inner_default_def hm_laws)
  moreover have "0 < ttl_of capped_config" by code_simp
  ultimately show ?thesis
    using device_cap_not_reserved [OF contract _ ad one(1) two(1), of device_1 0] ad one two capped_config_facts(6)
    by (simp add: a_def b_def seconds_def capped_state_simps)
qed

end
