(* ===== verification/Sql_Service.thy ===== *)
theory Sql_Service
  imports Api_Properties Sql_Codecs
begin

text \<open>
  The HTTP service on the two database backends: what is proved of a \<open>backed_service\<close> holds on
  SQLite and on PostgreSQL, for the calls that their columns can hold (\<open>within_domain\<close>). The two
  interpretations fix the columns of \<open>Sql_Codecs\<close>; the lemmas leave them open.
\<close>

lemma sqlite_backed:
  assumes "codec_ok T c" "unat (q_max_bytes q) < 2 ^ 63" "ap_ops st = within_domain T (sqlite_ops c q)"
  shows "backed_service st q (db_inv T c) (db_view c) True T"
  using sqlite_contract [OF assms(1,2)] by (simp add: backed_service_def assms(3))

lemma postgres_backed:
  assumes "codec_ok T (pg_codec tc)" "unat (q_max_bytes q) < 2 ^ 63"
    "ap_ops st = within_domain T (postgres_ops tc q)"
  shows "backed_service st q (db_inv T (pg_codec tc)) (db_view (pg_codec tc)) True T"
  using postgres_contract [OF assms(1,2)] by (simp add: backed_service_def assms(3))

interpretation sqlite_service: backed_service
    "st\<lparr>ap_ops := within_domain text_times (sqlite_ops text_codec UNLIMITED)\<rparr>" UNLIMITED
    "db_inv text_times text_codec" "db_view text_codec" True text_times
  for st :: "(string, string) database app_state"
  by (rule sqlite_backed [OF text_codec_ok]) (simp_all add: UNLIMITED_def)

interpretation postgres_service: backed_service
    "st\<lparr>ap_ops := within_domain micros_times (postgres_ops micros_codec UNLIMITED)\<rparr>" UNLIMITED
    "db_inv micros_times (pg_codec micros_codec)" "db_view (pg_codec micros_codec)" True micros_times
  for st :: "(int, uuid) database app_state"
  by (rule postgres_backed [OF micros_codec_ok]) (simp_all add: UNLIMITED_def)

end
