(* ===== verification/Tls_Stream.thy ===== *)
theory Tls_Stream
  imports Prelude
begin

text \<open>
  \<open>MaybeTlsStream\<close> of \<open>src/smtp/tls.rs\<close>: one stream type for a connection before and after STARTTLS, with
  its \<open>AsyncRead\<close> and \<open>AsyncWrite\<close> implementations. The two streams that it wraps are code of \<open>tokio\<close> and
  \<open>tokio-rustls\<close>: a record of their poll functions, arguments here. A poll returns the next state of the
  stream; a read returns the bytes that it put into a buffer with the given room.
\<close>

datatype 'a poll = Pending | Ready "('a, string) result"

record 's async_io =
  io_poll_read :: "nat \<Rightarrow> 's \<Rightarrow> bytes poll \<times> 's"
  io_poll_write :: "bytes \<Rightarrow> 's \<Rightarrow> nat poll \<times> 's"
  io_poll_flush :: "'s \<Rightarrow> unit poll \<times> 's"
  io_poll_shutdown :: "'s \<Rightarrow> unit poll \<times> 's"

datatype ('p, 't) maybe_tls_stream = PlainStream 'p | TlsStream 't

fun mts_poll_read ::
  "'p async_io \<Rightarrow> 't async_io \<Rightarrow> nat \<Rightarrow> ('p, 't) maybe_tls_stream \<Rightarrow> bytes poll \<times> ('p, 't) maybe_tls_stream" where
  "mts_poll_read pio tio room (PlainStream s) = map_prod id PlainStream (io_poll_read pio room s)"
| "mts_poll_read pio tio room (TlsStream s) = map_prod id TlsStream (io_poll_read tio room s)"

fun mts_poll_write ::
  "'p async_io \<Rightarrow> 't async_io \<Rightarrow> bytes \<Rightarrow> ('p, 't) maybe_tls_stream \<Rightarrow> nat poll \<times> ('p, 't) maybe_tls_stream" where
  "mts_poll_write pio tio buf (PlainStream s) = map_prod id PlainStream (io_poll_write pio buf s)"
| "mts_poll_write pio tio buf (TlsStream s) = map_prod id TlsStream (io_poll_write tio buf s)"

fun mts_poll_flush ::
  "'p async_io \<Rightarrow> 't async_io \<Rightarrow> ('p, 't) maybe_tls_stream \<Rightarrow> unit poll \<times> ('p, 't) maybe_tls_stream" where
  "mts_poll_flush pio tio (PlainStream s) = map_prod id PlainStream (io_poll_flush pio s)"
| "mts_poll_flush pio tio (TlsStream s) = map_prod id TlsStream (io_poll_flush tio s)"

fun mts_poll_shutdown ::
  "'p async_io \<Rightarrow> 't async_io \<Rightarrow> ('p, 't) maybe_tls_stream \<Rightarrow> unit poll \<times> ('p, 't) maybe_tls_stream" where
  "mts_poll_shutdown pio tio (PlainStream s) = map_prod id PlainStream (io_poll_shutdown pio s)"
| "mts_poll_shutdown pio tio (TlsStream s) = map_prod id TlsStream (io_poll_shutdown tio s)"

definition maybe_tls_io :: "'p async_io \<Rightarrow> 't async_io \<Rightarrow> ('p, 't) maybe_tls_stream async_io" where
  "maybe_tls_io pio tio = \<lparr>io_poll_read = mts_poll_read pio tio, io_poll_write = mts_poll_write pio tio,
     io_poll_flush = mts_poll_flush pio tio, io_poll_shutdown = mts_poll_shutdown pio tio\<rparr>"

subsection \<open>Transparency\<close>

datatype io_call = PollRead nat | PollWrite bytes | PollFlush | PollShutdown

datatype io_reply = DidRead "bytes poll" | DidWrite "nat poll" | DidFlush "unit poll" | DidShutdown "unit poll"

fun io_call_on :: "'s async_io \<Rightarrow> io_call \<Rightarrow> 's \<Rightarrow> io_reply \<times> 's" where
  "io_call_on io (PollRead room) s = map_prod DidRead id (io_poll_read io room s)"
| "io_call_on io (PollWrite buf) s = map_prod DidWrite id (io_poll_write io buf s)"
| "io_call_on io PollFlush s = map_prod DidFlush id (io_poll_flush io s)"
| "io_call_on io PollShutdown s = map_prod DidShutdown id (io_poll_shutdown io s)"

fun io_calls_on :: "'s async_io \<Rightarrow> io_call list \<Rightarrow> 's \<Rightarrow> io_reply list \<times> 's" where
  "io_calls_on io [] s = ([], s)"
| "io_calls_on io (c # cs) s =
     (case io_call_on io c s of (r, s1) \<Rightarrow> case io_calls_on io cs s1 of (rs, s2) \<Rightarrow> (r # rs, s2))"

lemma io_call_forwarded:
  "io_call_on (maybe_tls_io pio tio) c (PlainStream s) = map_prod id PlainStream (io_call_on pio c s)"
  "io_call_on (maybe_tls_io pio tio) c (TlsStream t) = map_prod id TlsStream (io_call_on tio c t)"
  by (cases c; simp add: maybe_tls_io_def map_prod_def case_prod_beta)+

text \<open>Whatever the session does with its stream before the upgrade, the socket sees and answers, and after
  the upgrade the TLS stream does; a \<open>MaybeTlsStream\<close> never changes its variant by itself. So a session over
  it is a session over the bytes of the wrapped stream, which is how \<open>Smtp_Session\<close> models it.\<close>

theorem maybe_tls_transparent:
  "io_calls_on (maybe_tls_io pio tio) cs (PlainStream s) = map_prod id PlainStream (io_calls_on pio cs s)"
  "io_calls_on (maybe_tls_io pio tio) cs (TlsStream t) = map_prod id TlsStream (io_calls_on tio cs t)"
  by (induction cs arbitrary: s t) (auto simp: io_call_forwarded split: prod.splits)

end
