(* ===== verification/Spec2Isabelle.thy ===== *)
theory Spec2Isabelle
  imports Memory_Properties Otp_Patterns Smtp_Data Smtp_Properties Smtp_Delivery Rate_Limiter Store_Steps
    Domain_Lifecycle Background Sql_Properties Startup Store_Properties Api_Http Device_Cap Sql_Service Tls_Stream
begin

text \<open>
  A verification of anony-mail, a disposable-mailbox server: an SMTP receiver, an HTTP API, background
  tasks and a storage trait with three backends, in one process.

  \<^bold>\<open>Parts and theories.\<close>
  \<^item> \<open>Prelude\<close>, \<open>Hash_Map\<close>, \<open>Rust_Str\<close>, \<open>Ip_Addr\<close>: what the source uses of Rust and its library. Results,
    casts, saturating arithmetic; \<open>HashMap\<close> as a distinct association list behind the locale \<open>hash_map\<close>;
    strings as bytes with UTF-8 characters, trimming, splitting, \<open>from_utf8_lossy\<close>; IP address parsing.
  \<^item> \<open>Model\<close> (\<open>src/model.rs\<close>), \<open>Store_Trait\<close> and \<open>Store_Contract\<close> (\<open>src/store/mod.rs\<close>): the records, the
    trait as a record of functions, the abstract view of a store with a specification per method, and
    the locale \<open>store_contract\<close> that relates a backend to it. Clients are verified inside the locale,
    for every backend that meets it; backends that can fail are covered (\<open>reliable\<close> is off), and \<open>T\<close> is the
    set of timestamps that a backend can hold.
  \<^item> \<open>Quota\<close>, \<open>Memory_Store\<close>, \<open>Memory_Store_Correct\<close>, \<open>Memory_Properties\<close>, \<open>Store_Steps\<close>
    (\<open>src/store/memory.rs\<close>): the in-memory backend, the interpretation \<open>mem\<close> of the contract on it, listing
    theorems, and histories of method calls from any number of tasks. \<open>Store_Properties\<close>: quotas, the
    round trip of a message and the device counter, for every backend that meets the contract.
  \<^item> \<open>Sql_Engine\<close>: the SQL that the two database backends use, over the tables of \<open>migrations/\<close>: queries,
    constraints, cascades, upserts, transactions. \<open>Sqlite_Store\<close> (\<open>src/store/sqlite.rs\<close>) and \<open>Postgres_Store\<close>
    (\<open>src/store/postgres.rs\<close>): every method of the two stores. \<open>Sql_View\<close>: the invariant and the meaning of
    a database. \<open>Sql_Store_Correct\<close>, \<open>Sql_Messages_Correct\<close>, \<open>Sql_Tables_Correct\<close>: what each method does to
    them. \<open>Sql_Contract\<close>, \<open>Postgres_Correct\<close>: both meet the contract. \<open>Sql_Codecs\<close>: columns for which
    the hypotheses hold. \<open>Backend_Histories\<close>, \<open>Sql_Properties\<close>: histories of calls with their replies, on
    which the three backends agree, the schema's invariant, and where the SQL stores differ.
  \<^item> \<open>Config\<close> (\<open>src/config.rs\<close>), \<open>Mime\<close> (\<open>src/mime.rs\<close>, \<open>src/events.rs\<close>).
  \<^item> \<open>Otp\<close>, \<open>Otp_Patterns\<close> (\<open>src/otp.rs\<close>): the extraction of one-time codes and its four regular expressions,
    over the matcher of \<open>Regex\<close>, which lists the matches at a place in the order of a backtracking search.
  \<^item> \<open>World\<close>: what the tasks share, with the clock and the drawn identifiers as streams.
  \<^item> \<open>Smtp_Commands\<close>, \<open>Smtp_Session\<close>, \<open>Smtp_Data\<close>, \<open>Smtp_Properties\<close>, \<open>Smtp_Delivery\<close>, \<open>Rate_Limiter\<close>
    (\<open>src/smtp/\<close>): command parsing, the whole session over an explicit sequence of socket chunks, DATA,
    delivery, and the accept loop with its limiter.
  \<^item> \<open>Auth\<close>, \<open>Limits\<close>, \<open>Entitlements\<close>, \<open>Custom_Domains\<close>, \<open>Domain_Lifecycle\<close>, \<open>Attest\<close>: tokens, abuse
    limits, tiers, claims and App Attest (\<open>src/api/auth.rs\<close>, \<open>src/api/limits.rs\<close>, \<open>src/entitlements.rs\<close>,
    \<open>src/custom_domains.rs\<close>, \<open>src/attest.rs\<close>).
  \<^item> \<open>Api_Base\<close>, \<open>Api_Gates\<close>, \<open>Api_Addresses\<close>, \<open>Api_Messages\<close>, \<open>Api_Push\<close>, \<open>Api_Domains\<close>, \<open>Api_Client\<close>,
    \<open>Api_Router\<close> (\<open>src/api/\<close>): the handlers as functions from the process state to a result and the next
    state, every early return a branch, and the route table as \<open>dispatch\<close>.
  \<^item> \<open>Api_Invariant\<close>, \<open>Api_Properties\<close>: the locale \<open>request_invariant\<close> says what an invariant of the store
    must satisfy to survive every route; the locale \<open>backed_service\<close> is the service on a backend that
    meets the contract, with three such invariants as sublocales. It is interpreted on the in-memory
    store there and on the two databases in \<open>Sql_Service\<close>. \<open>Api_Theorems\<close>, \<open>Api_Outcomes\<close>,
    \<open>Api_Attestation\<close>: what single routes achieve. \<open>Device_Cap\<close>: creation in two halves, as other
    requests may interleave with it.
  \<^item> \<open>Api_Layers\<close>, \<open>Api_Routes\<close> (\<open>src/api/mod.rs\<close>, \<open>src/api/docs.rs\<close>, \<open>src/api/legal.rs\<close>): the state of the
    service, the limiter, timeout and CORS layers with their configuration, the route table with its
    paths and methods, extraction, and a whole HTTP request through the limiters to its handler.
    \<open>Route_Table\<close>: the table is unambiguous and every call is reached. \<open>Api_Http\<close>: sequences of HTTP
    requests.
  \<^item> \<open>Push_Worker\<close> (\<open>src/push.rs\<close>), \<open>Background\<close> (\<open>src/cleanup.rs\<close>, \<open>src/api/sse.rs\<close>).
  \<^item> \<open>Startup\<close> (\<open>src/lib.rs\<close>, \<open>src/smtp/tls.rs\<close>, \<open>SqliteStore::connect_with\<close>): what happens before the first
    request, as a sequence of fallible steps, and how \<open>run\<close> ends. \<open>Tls_Stream\<close>: \<open>MaybeTlsStream\<close>.
  \<^item> This theory: what SMTP accepts is what HTTP serves.

  \<^bold>\<open>What is shown.\<close> Stores: all three refine the abstract store, keep their invariants over every history
  and answer every admissible history alike; quotas, round trips and the device counter hold on any
  backend that meets the contract. SMTP: the protocol invariant, no open relay, confined catch-all,
  byte-exact DATA within the size limit whatever the chunking, exact delivery and the answer that goes
  with it, STARTTLS discards plaintext, a session lasts no longer than its input (but a client that keeps
  sending keeps it), the limiter's window and the connection cap are respected. HTTP, from the
  request line on and for any backend: every call reaches its handler, the route table is unambiguous,
  each request passes the limiters that the configuration promises for its path; without the owner or
  claim token no request sequence touches a mailbox or claim; unattested clients are inert (read markers
  apart) on a server that requires attestation. Creation,
  rotation and extension do what they promise and no more; assertions and challenges are good once,
  downloads are inert, stream caps are exact, and so are daily quotas while the clock does not go back.
  Custom domains: the status is a function of the check history and one turn of the loop settles what is due. Push prunes exactly the dead
  subscriptions; cleanup forgets exactly what is due. One-time codes that a subject announces after a
  keyword are found, and every code is short. Start-up is all or nothing, and the router is built
  unless a rate is above one per millisecond.

  \<^bold>\<open>Parameters.\<close> Code outside the repository is an argument of the definitions: SHA-256, base64, JWT,
  how \<open>sqlx\<close> writes and reads a timestamp or identifier column (\<open>codec\<close>; assumed to read back what was
  written and to sort as time and identifiers do, on the timestamps \<open>T\<close>: RFC 3339 text of the years 0000
  to 9999 sorts by time, and TIMESTAMPTZ holds whole microseconds),
  the \<open>appattest\<close>, CBOR, \<open>web-push\<close>, \<open>a2\<close>, DNS, PEM and TLS crates, \<open>mail-parser\<close>, the extractors of
  \<open>axum\<close>, Unicode's tables beyond ASCII, \<open>reqwest\<close> and RevenueCat's answers, the token buckets, the machine that the service starts
  on, the socket, the clock and the random source. Nothing is assumed
  of the hash: theorems speak of presenting a token with the stored hash. Identifiers that are drawn are
  assumed unused where a theorem needs it (\<open>unused_ids\<close>, \<open>fresh_ids\<close>).

  \<^bold>\<open>Bounds.\<close> No fuel is used: the loops recurse on the input that is left, on the list at hand or on the
  number of attempts of the source. Machine integers are words, or integers with the cast written out,
  where the source converts between widths. Clock and instant readings are arbitrary unless a theorem
  says that they do not go backwards.

  \<^bold>\<open>Interleaving.\<close> A handler runs as one step on the store. Histories at the grain of single trait calls
  are those of \<open>Store_Steps\<close>; the quota, counter and purge theorems hold there. \<open>Device_Cap\<close> shows what the
  one check that is not atomic with its insert allows. A method of an SQL store
  runs alone: what two transactions of the database may see of each other is not modelled, and
  neither is a database that cannot be reached.

  \<^bold>\<open>Not modelled.\<close> The inside of the token buckets (the \<open>governor\<close> crate) and their sweep, what the timeout,
  CORS and tracing layers do to a request, the trimming of a trailing slash before routing
  (\<open>NormalizePathLayer\<close>), the lag of the broadcast channel, and informational logging: code of other
  crates, or output only.
\<close>

subsection \<open>From the SMTP transaction to the HTTP client\<close>

text \<open>What an HTTP client that asks for the message of an event gets.\<close>

definition serves ::
  "'s app_state \<Rightarrow> 's app_world \<Rightarrow> otp_patterns \<Rightarrow> new_message \<Rightarrow> mail_event \<Rightarrow> string \<Rightarrow> bool" where
  "serves st w re m ev asked \<longleftrightarrow>
     (\<exists>msg. message_get st asked (me_id ev) w = (Ok msg, w) \<and> sm_id msg = me_id ev \<and> \<not> sm_seen msg \<and>
        sm_subject msg = nm_subject m \<and> sm_text_body msg = nm_text_body m \<and> sm_html_body msg = nm_html_body m \<and>
        me_code ev = otp_extract re (sm_subject msg) (sm_text_body msg)) \<and>
     (\<forall>raw. nm_raw_content m = Some raw \<longrightarrow>
        (\<exists>hs. message_raw st asked (me_id ev) w = (Ok \<lparr>dl_headers = hs, dl_body = raw\<rparr>, w)))"

context store_contract
begin

lemma announced_served:
  assumes "sinv (w_store w2)" reliable "ap_ops st = ops" "announced quotas re m v (view (w_store w2)) ev"
    "q_max_messages quotas = 0 \<or> all_older (v_entry v (me_address ev)) (me_received_at ev)"
    "to_ascii_lowercase asked = me_address ev"
  shows "serves st w2 re m ev asked"
proof -
  let ?a = "me_address ev" and ?i = "me_id ev"
  from assms(4) obtain now aids where
    ev: "ev = event_from_stored re ?a (stored_of_new now ?i aids ?a m)" and
    kept: "q_max_messages quotas = 0 \<or> all_older (v_entry v ?a) now \<Longrightarrow>
      v_entry (view (w_store w2)) ?a ?i = Some (new_ventry now ?i aids ?a m)"
    unfolding announced_def Let_def by blast
  have fields: "me_received_at ev = now" "me_code ev = otp_extract re (nm_subject m) (nm_text_body m)"
    by (subst ev, simp add: event_from_stored_def stored_of_new_def)+
  have entry: "v_entry (view (w_store w2)) ?a ?i = Some (new_ventry now ?i aids ?a m)"
    using kept assms(5) fields(1) by simp
  from get_message [OF assms(1), of ?a ?i] assms(2) entry obtain msg where
    msg: "st_get_message ops ?a ?i (w_store w2) = Ok (Some msg)"
      "canon_message msg = canon_message (stored_of_new now ?i aids ?a m)"
    by (cases "st_get_message ops ?a ?i (w_store w2)") (auto simp: read_refines_def new_ventry_def)
  from arg_cong [OF msg(2), of sm_id] arg_cong [OF msg(2), of sm_seen] arg_cong [OF msg(2), of sm_subject]
    arg_cong [OF msg(2), of sm_text_body] arg_cong [OF msg(2), of sm_html_body]
  have "sm_id msg = ?i" "\<not> sm_seen msg" "sm_subject msg = nm_subject m" "sm_text_body msg = nm_text_body m"
    "sm_html_body msg = nm_html_body m"
    by (simp_all add: canon_message_def stored_of_new_def)
  moreover have "message_get st asked ?i w2 = (Ok msg, w2)"
    by (simp add: message_get_def try_bind_def read_store_def assms(3,6) msg(1) expect_some_def)
  moreover have "\<exists>hs. message_raw st asked ?i w2 = (Ok \<lparr>dl_headers = hs, dl_body = raw\<rparr>, w2)"
    if "nm_raw_content m = Some raw" for raw
  proof -
    have "st_get_raw_message ops ?a ?i (w_store w2) = Ok (Some raw)"
      using get_raw_message [OF assms(1), of ?a ?i] assms(2) entry that
      by (auto simp: read_refines_def new_ventry_def)
    then show ?thesis
      by (simp add: message_raw_def try_bind_def read_store_def assms(3,6) expect_some_def ret_def)
  qed
  ultimately show ?thesis using fields(2) unfolding serves_def by auto
qed

end

lemma sse_stream_own:
  assumes "distinct (map me_address evs)" "ev \<in> set evs" "to_ascii_lowercase asked = me_address ev"
  shows "sse_stream asked (map Received evs) = [ev]"
proof -
  have "sse_stream asked (map Received evs) = filter (\<lambda>e. me_address e = me_address ev) evs"
    unfolding sse_stream_def assms(3) by (induction evs) (auto simp: map_filter_simps sse_item_def)
  also from assms(1,2) have "\<dots> = [ev]"
    by (induction evs) (auto simp: filter_empty_conv image_iff)
  finally show ?thesis .
qed

text \<open>C3: Mail that SMTP accepted is what HTTP serves, on every reliable backend that meets the store
  contract. When \<open>store_message\<close> reports success, it published one event per recipient, in order. For each of them, unless a count quota
  dropped the new message in favour of one that is not older: \<open>GET\<close> of the event's message under any
  spelling of the address returns the parsed subject and bodies, unread, with the one-time code of
  the event extracted from them; \<open>GET\<close> of its raw form returns the bytes of the transaction when raw
  retention is on; and an event stream of that mailbox yields exactly that event.\<close>

theorem delivered_mail_is_served:
  assumes contract: "store_contract (cx_ops cx) q sinv view True T" and "ap_ops st = cx_ops cx" "sinv (w_store w)"
    and "unused_ids (length (ss_rcpts ss) * ids_needed (delivered_message cx ss raw)) w (view (w_store w))"
    and "distinct (ss_rcpts ss)" "store_message cx ss raw w = (Ok n, w')"
  shows "\<exists>evs. w_events w' = w_events w @ evs \<and> map me_address evs = ss_rcpts ss \<and>
    (\<forall>ev\<in>set evs. \<forall>w2 asked. w_store w2 = w_store w' \<longrightarrow> to_ascii_lowercase asked = me_address ev \<longrightarrow>
       sse_stream asked (map Received evs) = [ev] \<and>
       (q_max_messages q = 0 \<or> all_older (v_entry (view (w_store w)) (me_address ev)) (me_received_at ev) \<longrightarrow>
          serves st w2 (cx_otp cx) (delivered_message cx ss raw) ev asked))"
proof -
  obtain r1 where run: "store_copies cx (delivered_message cx ss raw) (ss_rcpts ss) w = (r1, w')" "r1 = Ok ()"
    using assms(6) by (auto simp: store_message_def delivered_message_def Let_def split: prod.splits if_splits)
  from store_contract.store_copies_effect [OF contract refl assms(3-5) run(1)] run(2) obtain evs where
    out: "sinv (w_store w')" "w_events w' = w_events w @ evs" "map me_address evs = ss_rcpts ss"
      "\<And>ev. ev \<in> set evs \<Longrightarrow> announced q (cx_otp cx) (delivered_message cx ss raw)
        (view (w_store w)) (view (w_store w')) ev" by auto
  have "serves st w2 (cx_otp cx) (delivered_message cx ss raw) ev asked"
    if "ev \<in> set evs" "w_store w2 = w_store w'" "to_ascii_lowercase asked = me_address ev"
      "q_max_messages q = 0 \<or> all_older (v_entry (view (w_store w)) (me_address ev)) (me_received_at ev)"
    for ev w2 asked
    by (rule store_contract.announced_served [OF contract _ TrueI assms(2) _ that(4,3)]) (use out that in simp_all)
  moreover have "distinct (map me_address evs)" using out(3) assms(5) by simp
  ultimately show ?thesis using out(2,3) sse_stream_own by blast
qed

theorem delivered_mail_is_served_witness:
  "\<exists>w' ev. store_message smtp_cx (in_transaction\<lparr>ss_rcpts := [''u@d'']\<rparr>) ''hello'' world_1 = (Ok 1, w') \<and>
     w_events w' = [ev] \<and> serves demo_state (demo_world (w_store w')) (cx_otp smtp_cx)
       (delivered_message smtp_cx (in_transaction\<lparr>ss_rcpts := [''u@d'']\<rparr>) ''hello'') ev ''U@D''"
proof -
  let ?ss = "in_transaction\<lparr>ss_rcpts := [''u@d'']\<rparr>"
  obtain r w' where run: "store_message smtp_cx ?ss ''hello'' world_1 = (r, w')" by (metis prod.exhaust)
  have "fst (store_message smtp_cx ?ss ''hello'' world_1) = Ok 1" by code_simp
  then have ok: "store_message smtp_cx ?ss ''hello'' world_1 = (Ok 1, w')" using run by simp
  have "messages (w_store world_1) = []" "ids_needed (delivered_message smtp_cx ?ss ''hello'') = 1" by code_simp+
  then have ids: "unused_ids (length (ss_rcpts ?ss) * ids_needed (delivered_message smtp_cx ?ss ''hello''))
      world_1 (mem_view (w_store world_1))"
    by (simp add: unused_ids_def mem_view_def find_entry_def)
  have inv: "mem_inv (w_store world_1)" using store_1_inv by (simp add: world_1_def)
  have contract: "store_contract (cx_ops smtp_cx) UNLIMITED mem_inv mem_view True (\<lambda>_. True)"
    using mem.store_contract_axioms by (simp add: smtp_cx_def)
  have low: "to_ascii_lowercase ''U@D'' = ''u@d''" by code_simp
  have "\<exists>evs. w_events w' = w_events world_1 @ evs \<and> map me_address evs = ss_rcpts ?ss \<and>
    (\<forall>ev\<in>set evs. \<forall>w2 asked. w_store w2 = w_store w' \<longrightarrow> to_ascii_lowercase asked = me_address ev \<longrightarrow>
       sse_stream asked (map Received evs) = [ev] \<and>
       (q_max_messages UNLIMITED = 0 \<or> all_older (v_entry (mem_view (w_store world_1)) (me_address ev)) (me_received_at ev) \<longrightarrow>
          serves demo_state w2 (cx_otp smtp_cx) (delivered_message smtp_cx ?ss ''hello'') ev asked))"
    by (rule delivered_mail_is_served [OF contract _ inv ids _ ok]) (simp_all add: smtp_cx_def demo_memory(1))
  then obtain ev where ev: "w_events w' = w_events world_1 @ [ev]" "me_address ev = ''u@d''" and
    "q_max_messages UNLIMITED = 0 \<Longrightarrow> serves demo_state (demo_world (w_store w')) (cx_otp smtp_cx)
       (delivered_message smtp_cx ?ss ''hello'') ev ''U@D''"
    using low demo_memory(2) by (auto simp: map_eq_Cons_conv)
  then show ?thesis using ok by (auto simp: world_1_def UNLIMITED_def)
qed

end
